(* ===== verification/Prelude.thy ===== *)
theory Prelude
  imports Complex_Main "HOL-Library.AList" "HOL-Library.Char_ord" "HOL-Library.List_Lexorder"
    "HOL-Library.Multiset" "HOL-Library.Sublist"
begin

text \<open>
  Shared vocabulary of the development: the parts of the Go language and of its standard library
  that the modelled packages use, with the generic lemmas the component proofs share.

  \<^item> Time: a \<open>time.Time\<close> is an \<open>int\<close>, nanoseconds since the Unix epoch; the zero \<open>time.Time\<close>
    (January 1 of year 1, UTC) is \<open>time_zero\<close>.  A \<open>time.Duration\<close> is an \<open>int\<close> in nanoseconds;
    \<open>time_sub\<close> saturates at the 64-bit bounds as \<open>Time.Sub\<close> does, and \<open>wrap64\<close> is the
    wrap-around of a signed 64-bit sum.
  \<^item> Floating point: \<open>gofloat\<close> has the special values of IEEE 754 and a rational for every finite
    value; the comparisons are exact, and false on NaN.
  \<^item> Maps with string keys and values: \<open>labels\<close> is an association list.  Its order is the (arbitrary)
    iteration order of the Go map, so a statement for all lists is a statement for all orders.
  \<^item> Strings are byte lists, as Go strings are.
\<close>

named_theorems str_simps \<open>unfolding of the string helpers\<close>

subsection \<open>Time and durations\<close>

type_synonym time = int
type_synonym duration = int

definition time_zero :: time where
  "time_zero = - 62135596800000000000"

definition is_zero_time :: "time \<Rightarrow> bool" where
  "is_zero_time t \<longleftrightarrow> t = time_zero"

definition max_int64 :: int where
  "max_int64 = 9223372036854775807"

definition min_int64 :: int where
  "min_int64 = - 9223372036854775808"

definition time_sub :: "time \<Rightarrow> time \<Rightarrow> duration" where
  "time_sub t u = max min_int64 (min max_int64 (t - u))"

definition wrap64 :: "int \<Rightarrow> int" where
  "wrap64 x = (x + 2 ^ 63) mod 2 ^ 64 - 2 ^ 63"

definition second :: duration where
  "second = 1000000000"

definition minute :: duration where
  "minute = 60 * second"

definition hour :: duration where
  "hour = 60 * minute"

definition unix_milli :: "time \<Rightarrow> int" where
  "unix_milli t = t div 1000000"

definition from_unix_milli :: "int \<Rightarrow> time" where
  "from_unix_milli ms = ms * 1000000"

lemma from_unix_milli_inverse [simp]: "unix_milli (from_unix_milli ms) = ms"
  by (simp add: unix_milli_def from_unix_milli_def)

lemma unix_milli_truncates:
  "from_unix_milli (unix_milli t) \<le> t" "t < from_unix_milli (unix_milli t) + 1000000"
proof -
  have "t = 1000000 * (t div 1000000) + t mod 1000000" by simp
  moreover have "0 \<le> t mod 1000000" "t mod 1000000 < 1000000" by simp_all
  ultimately show "from_unix_milli (unix_milli t) \<le> t"
    "t < from_unix_milli (unix_milli t) + 1000000"
    by (simp_all add: unix_milli_def from_unix_milli_def)
qed

lemma wrap64_in_range [simp]: "min_int64 \<le> x \<Longrightarrow> x \<le> max_int64 \<Longrightarrow> wrap64 x = x"
  by (simp add: wrap64_def min_int64_def max_int64_def)

lemma time_sub_self [simp]: "time_sub t t = 0"
  by (simp add: time_sub_def min_int64_def max_int64_def)

lemma time_sub_in_range: "min_int64 \<le> time_sub t u" "time_sub t u \<le> max_int64"
  by (auto simp: time_sub_def min_int64_def max_int64_def)

lemma time_sub_exact:
  "min_int64 \<le> t - u \<Longrightarrow> t - u \<le> max_int64 \<Longrightarrow> time_sub t u = t - u"
  by (simp add: time_sub_def)

lemma time_sub_mono: "t \<le> t' \<Longrightarrow> time_sub t u \<le> time_sub t' u"
  by (auto simp: time_sub_def)

subsection \<open>Floating point comparisons\<close>

datatype gofloat = NaN | NegInf | PosInf | Fin rat

fun f_less :: "gofloat \<Rightarrow> gofloat \<Rightarrow> bool" where
  "f_less NaN y = False"
| "f_less x NaN = False"
| "f_less NegInf y = (y \<noteq> NegInf)"
| "f_less x NegInf = False"
| "f_less PosInf y = False"
| "f_less (Fin a) PosInf = True"
| "f_less (Fin a) (Fin b) = (a < b)"

lemma f_less_irrefl [simp]: "\<not> f_less x x"
  by (cases x) auto

lemma f_less_trans: "f_less x y \<Longrightarrow> f_less y z \<Longrightarrow> f_less x z"
  by (cases x; cases y; cases z) auto

subsection \<open>Label maps\<close>

type_synonym labels = "(string \<times> string) list"

definition lget :: "labels \<Rightarrow> string \<Rightarrow> string" where
  "lget l k = (case map_of l k of None \<Rightarrow> '''' | Some v \<Rightarrow> v)"

definition is_map :: "labels \<Rightarrow> bool" where
  "is_map l \<longleftrightarrow> distinct (map fst l)"

text \<open>
  The canonical rendering of a label map that the alert fingerprint and the series key share:
  sorted keys, each as the byte 0x1f, the key, an equals sign and the value.
\<close>

definition us :: char where
  "us = CHR 0x1f"

definition kv_join :: "labels \<Rightarrow> string" where
  "kv_join l = concat (map (\<lambda>k. us # k @ CHR ''='' # lget l k) (sort (map fst l)))"

lemma map_of_perm:
  assumes "is_map l" and "mset l = mset l'"
  shows "map_of l' = map_of l"
proof -
  have "mset (map fst l) = mset (map fst l')"
    using assms(2) by simp
  then have "distinct (map fst l')"
    using assms(1) by (metis is_map_def mset_eq_imp_distinct_iff)
  moreover have "set l = set l'"
    using assms(2) by (metis set_mset_mset)
  ultimately show ?thesis
    using assms(1) by (simp add: is_map_def map_of_inject_set)
qed

lemma kv_join_perm:
  assumes "is_map l" and "mset l = mset l'"
  shows "kv_join l' = kv_join l"
proof -
  have "mset (map fst l) = mset (map fst l')"
    using assms(2) by simp
  then have "sort (map fst l') = sort (map fst l)"
    by (metis properties_for_sort sorted_sort mset_sort)
  moreover have "lget l' = lget l"
    using map_of_perm [OF assms] by (simp add: lget_def fun_eq_iff)
  ultimately show ?thesis by (simp add: kv_join_def)
qed

lemma find_SomeD: "List.find P xs = Some x \<Longrightarrow> x \<in> set xs \<and> P x"
  by (induction xs) (auto split: if_splits)

lemma find_None_iff_all: "List.find P xs = None \<longleftrightarrow> (\<forall>x \<in> set xs. \<not> P x)"
  by (induction xs) auto

subsection \<open>Strings\<close>

definition nl :: char where
  "nl = CHR 0x0a"

definition has_prefix :: "string \<Rightarrow> string \<Rightarrow> bool" where
  "has_prefix s p \<longleftrightarrow> take (length p) s = p"

definition has_suffix :: "string \<Rightarrow> string \<Rightarrow> bool" where
  "has_suffix s p \<longleftrightarrow> length p \<le> length s \<and> drop (length s - length p) s = p"

definition trim_prefix :: "string \<Rightarrow> string \<Rightarrow> string" where
  "trim_prefix s p = (if has_prefix s p then drop (length p) s else s)"

definition trim_suffix :: "string \<Rightarrow> string \<Rightarrow> string" where
  "trim_suffix s p = (if has_suffix s p then take (length s - length p) s else s)"

text \<open>\<open>strings.Split\<close> at a one-byte separator: one more piece than there are separators.\<close>

fun split_on :: "'a \<Rightarrow> 'a list \<Rightarrow> 'a list list" where
  "split_on c [] = [[]]"
| "split_on c (x # xs) =
     (if x = c then [] # split_on c xs
      else (case split_on c xs of [] \<Rightarrow> [[x]] | y # ys \<Rightarrow> (x # y) # ys))"

text \<open>Cut at the first separator, if there is one: \<open>strings.Cut\<close> and \<open>strings.IndexByte\<close>.\<close>

fun cut_first :: "'a \<Rightarrow> 'a list \<Rightarrow> ('a list \<times> 'a list) option" where
  "cut_first c [] = None"
| "cut_first c (x # xs) =
     (if x = c then Some ([], xs) else map_option (apfst ((#) x)) (cut_first c xs))"

text \<open>Cut at the last separator, if there is one: \<open>strings.LastIndexByte\<close>.\<close>

fun cut_last :: "'a \<Rightarrow> 'a list \<Rightarrow> ('a list \<times> 'a list) option" where
  "cut_last c [] = None"
| "cut_last c (x # xs) =
     (case cut_last c xs of
        Some (a, b) \<Rightarrow> Some (x # a, b)
      | None \<Rightarrow> if x = c then Some ([], xs) else None)"

text \<open>ASCII white space, as \<open>strings.TrimSpace\<close> cuts it.\<close>

definition is_space :: "char \<Rightarrow> bool" where
  "is_space c \<longleftrightarrow> c \<in> {CHR 0x09, CHR 0x0a, CHR 0x0b, CHR 0x0c, CHR 0x0d, CHR '' ''}"

definition trim_space :: "string \<Rightarrow> string" where
  "trim_space s = rev (dropWhile is_space (rev (dropWhile is_space s)))"

lemma has_prefix_append [simp]: "has_prefix (p @ s) p"
  by (simp add: has_prefix_def)

lemma has_prefix_iff: "has_prefix s p \<longleftrightarrow> (\<exists>r. s = p @ r)"
  by (metis append_eq_conv_conj has_prefix_def append_take_drop_id)

lemma has_suffix_append [simp]: "has_suffix (s @ p) p"
  by (simp add: has_suffix_def)

lemma trim_prefix_append [simp]: "trim_prefix (p @ s) p = s"
  by (simp add: trim_prefix_def)

lemma trim_suffix_append [simp]: "trim_suffix (s @ p) p = s"
  by (simp add: trim_suffix_def)

lemma split_on_not_Nil [simp]: "split_on c s \<noteq> []"
  by (cases s) (auto split: list.splits)

lemma split_on_none [simp]: "c \<notin> set s \<Longrightarrow> split_on c s = [s]"
  by (induction s) auto

lemma split_on_sep [simp]: "c \<notin> set a \<Longrightarrow> split_on c (a @ c # s) = a # split_on c s"
  by (induction a) auto

lemma cut_first_SomeD:
  "cut_first c s = Some (a, b) \<Longrightarrow> s = a @ c # b \<and> c \<notin> set a"
  by (induction s arbitrary: a) (auto split: if_splits)

lemma cut_first_None_iff [simp]: "cut_first c s = None \<longleftrightarrow> c \<notin> set s"
  by (induction s) auto

lemma cut_first_sep [simp]: "c \<notin> set a \<Longrightarrow> cut_first c (a @ c # s) = Some (a, s)"
  by (induction a) auto

lemma cut_last_None_iff [simp]: "cut_last c s = None \<longleftrightarrow> c \<notin> set s"
  by (induction s) (auto split: option.splits)

lemma cut_last_SomeD: "cut_last c s = Some (a, b) \<Longrightarrow> s = a @ c # b \<and> c \<notin> set b"
  by (induction s arbitrary: a) (auto split: option.splits if_splits)

lemma cut_last_sep [simp]: "c \<notin> set b \<Longrightarrow> cut_last c (a @ c # b) = Some (a, b)"
proof (induction a)
  case Nil
  then show ?case by (simp add: cut_last_None_iff [THEN iffD2])
qed simp

subsection \<open>The separator-joined rendering is injective on clean labels\<close>

text \<open>
  A label map is clean when no key or value holds the separator byte 0x1f and no key holds an equals
  sign.  On clean maps (and clean names) equal renderings mean equal names and equal maps.
\<close>

definition clean_labels :: "labels \<Rightarrow> bool" where
  "clean_labels l \<longleftrightarrow> (\<forall>(k, v) \<in> set l. us \<notin> set k \<and> us \<notin> set v \<and> CHR ''='' \<notin> set k)"

lemma us_neq_eq [simp]: "us \<noteq> CHR ''=''" "CHR ''='' \<noteq> us"
  by (simp_all add: us_def)

definition kv_field :: "labels \<Rightarrow> string \<Rightarrow> string" where
  "kv_field l k = k @ CHR ''='' # lget l k"

lemma clean_lget: "clean_labels l \<Longrightarrow> us \<notin> set (lget l k)"
  by (cases "map_of l k") (auto simp: clean_labels_def lget_def dest: map_of_SomeD)

lemma split_kv_join:
  assumes "clean_labels l" and "us \<notin> set name" and "set ks \<subseteq> fst ` set l"
  shows "split_on us (name @ concat (map (\<lambda>k. us # kv_field l k) ks)) = name # map (kv_field l) ks"
  using assms(2,3)
proof (induction ks arbitrary: name)
  case (Cons k ks)
  then have "us \<notin> set (kv_field l k)"
    using assms(1) clean_lget [OF assms(1), of k] by (auto simp: clean_labels_def kv_field_def)
  from Cons.IH [OF this] Cons.prems show ?case by simp
qed simp

lemma kv_field_inj:
  assumes "kv_field l k = kv_field l' k'" and "CHR ''='' \<notin> set k" and "CHR ''='' \<notin> set k'"
  shows "k = k' \<and> lget l k = lget l' k'"
  using assms by (metis cut_first_sep kv_field_def option.inject prod.inject)

lemma kv_join_inj:
  assumes "clean_labels l" "clean_labels l'" "is_map l" "is_map l'"
    and "us \<notin> set n" "us \<notin> set n'"
    and eq: "n @ kv_join l = n' @ kv_join l'"
  shows "n = n' \<and> map_of l = map_of l'"
proof -
  define ks where "ks = sort (map fst l)"
  define ks' where "ks' = sort (map fst l')"
  have set_ks: "set ks = fst ` set l" "set ks' = fst ` set l'" by (simp_all add: ks_def ks'_def)
  have j: "kv_join l = concat (map (\<lambda>k. us # kv_field l k) ks)"
      "kv_join l' = concat (map (\<lambda>k. us # kv_field l' k) ks')"
    by (simp_all add: kv_join_def kv_field_def ks_def ks'_def)
  have "n # map (kv_field l) ks = n' # map (kv_field l') ks'"
    using eq split_kv_join [of l n ks] split_kv_join [of l' n' ks'] assms by (simp add: j set_ks)
  then have nn: "n = n'" and fs: "map (kv_field l) ks = map (kv_field l') ks'" by auto
  have clean: "\<And>k. k \<in> set ks \<Longrightarrow> CHR ''='' \<notin> set k" "\<And>k. k \<in> set ks' \<Longrightarrow> CHR ''='' \<notin> set k"
    using assms(1,2) by (auto simp: clean_labels_def set_ks)
  have len: "length ks = length ks'" using arg_cong [OF fs, of length] by simp
  have pw: "ks ! i = ks' ! i \<and> lget l (ks ! i) = lget l' (ks' ! i)" if i: "i < length ks" for i
  proof (rule kv_field_inj)
    show "kv_field l (ks ! i) = kv_field l' (ks' ! i)"
      using arg_cong [OF fs, of "\<lambda>xs. xs ! i"] i len by simp
    show "CHR ''='' \<notin> set (ks ! i)" "CHR ''='' \<notin> set (ks' ! i)"
      using clean(1) [of "ks ! i"] clean(2) [of "ks' ! i"] i len by simp_all
  qed
  have ks: "ks = ks'" using len pw by (intro nth_equalityI) auto
  have vs: "lget l k = lget l' k" if k: "k \<in> set ks" for k
  proof -
    obtain i where "i < length ks" "k = ks ! i" using k by (auto simp: in_set_conv_nth)
    then show ?thesis using pw [of i] by (metis (no_types))
  qed
  have "map_of l k = map_of l' k" for k
  proof (cases "k \<in> fst ` set l")
    case True
    then have "k \<in> fst ` set l'" using set_ks ks by simp
    with True obtain v v' where "map_of l k = Some v" "map_of l' k = Some v'"
      by (metis map_of_eq_None_iff not_Some_eq)
    with vs [of k] True show ?thesis by (simp add: lget_def set_ks)
  next
    case False
    then have "k \<notin> fst ` set l'" using set_ks ks by simp
    with False show ?thesis by (metis map_of_eq_None_iff)
  qed
  with nn show ?thesis by blast
qed

end
