(* ===== verification/Alerting.thy ===== *)
theory Alerting
  imports Prelude
begin

text \<open>
  The hub's alert engine, \<open>internal/alerting\<close>: the per-alert state machine (\<open>alert.go\<close>), the
  hysteresis threshold (\<open>hysteresis.go\<close>), the deduplication key (\<open>fingerprint.go\<close>), silences
  (\<open>silence.go\<close>), the deadman tracker (\<open>deadman.go\<close>) and the manager that ties them together
  (\<open>manager.go\<close>).  SHA-256 followed by hex encoding is the parameter \<open>sha\<close> of \<open>Fingerprint\<close>; the
  ULID of a new silence is an argument of \<open>NewSilence\<close>.  The maps of the manager and of the silence
  store are association lists, updated by key.
\<close>

subsection \<open>The alert state machine (alert.go)\<close>

text \<open>Go's \<open>State\<close> is a string type; \<open>StateOther\<close> stands for any value but the four constants.\<close>

datatype state =
    StateInactive
  | StatePending
  | StateFiring
  | StateResolved
  | StateOther string

record alert_transition =
  tr_from :: state
  tr_to :: state
  tr_at :: time

record alert =
  a_fingerprint :: string
  a_ruleID :: string
  a_labels :: labels
  a_severity :: string
  a_state :: state
  a_pendingSince :: time
  a_firingSince :: time
  a_resolvedAt :: time
  a_lastEval :: time
  a_value :: gofloat
  a_history :: "alert_transition list"

definition NewAlert :: "string \<Rightarrow> string \<Rightarrow> labels \<Rightarrow> string \<Rightarrow> alert" where
  "NewAlert fp rule ls sev =
     \<lparr>a_fingerprint = fp, a_ruleID = rule, a_labels = ls, a_severity = sev,
      a_state = StateInactive, a_pendingSince = time_zero, a_firingSince = time_zero,
      a_resolvedAt = time_zero, a_lastEval = time_zero, a_value = Fin 0, a_history = []\<rparr>"

definition transition :: "state \<Rightarrow> time \<Rightarrow> alert \<Rightarrow> alert" where
  "transition to now a =
     a\<lparr>a_history := a_history a @ [\<lparr>tr_from = a_state a, tr_to = to, tr_at = now\<rparr>],
       a_state := to\<rparr>"

definition EvaluateFor :: "time \<Rightarrow> bool \<Rightarrow> gofloat \<Rightarrow> duration \<Rightarrow> alert \<Rightarrow> bool \<times> alert" where
  "EvaluateFor now conditionTrue value forDuration a0 =
     (let a = a0\<lparr>a_lastEval := now, a_value := value\<rparr> in
      if a_state a = StateInactive \<or> a_state a = StateResolved then
        (if \<not> conditionTrue then (False, a)
         else
           let a1 = (transition StatePending now a)\<lparr>a_pendingSince := now\<rparr> in
           if forDuration \<le> 0
           then (True, (transition StateFiring now a1)\<lparr>a_firingSince := now\<rparr>)
           else (False, a1))
      else if a_state a = StatePending then
        (if \<not> conditionTrue then (False, transition StateInactive now a)
         else if forDuration \<le> time_sub now (a_pendingSince a)
         then (True, (transition StateFiring now a)\<lparr>a_firingSince := now\<rparr>)
         else (False, a))
      else if a_state a = StateFiring then
        (if conditionTrue then (False, a)
         else (True, (transition StateResolved now a)\<lparr>a_resolvedAt := now\<rparr>))
      else (False, a))"

definition Evaluate :: "time \<Rightarrow> bool \<Rightarrow> gofloat \<Rightarrow> alert \<Rightarrow> bool \<times> alert" where
  "Evaluate now conditionTrue value a = EvaluateFor now conditionTrue value 0 a"

subsection \<open>Hysteresis (hysteresis.go)\<close>

record hysteresisThreshold =
  h_fireAbove :: gofloat
  h_resolveBelow :: gofloat

definition ConditionTrue :: "hysteresisThreshold \<Rightarrow> gofloat \<Rightarrow> bool \<Rightarrow> bool" where
  "ConditionTrue h value wasActive =
     (if wasActive then \<not> f_less value (h_resolveBelow h) else f_less (h_fireAbove h) value)"

subsection \<open>Fingerprint (fingerprint.go)\<close>

definition Fingerprint :: "(string \<Rightarrow> string) \<Rightarrow> string \<Rightarrow> labels \<Rightarrow> string" where
  "Fingerprint sha ruleID ls = ''sha256:'' @ sha (ruleID @ kv_join ls)"

subsection \<open>Silences (silence.go)\<close>

record silence =
  s_id :: string
  s_matchers :: labels
  s_startsAt :: time
  s_endsAt :: time
  s_createdBy :: string
  s_comment :: string

datatype silence_error = SilenceNoEnd | SilenceEndNotAfterStart

definition NewSilence ::
  "string \<Rightarrow> labels \<Rightarrow> time \<Rightarrow> time \<Rightarrow> string \<Rightarrow> string \<Rightarrow> silence_error + silence" where
  "NewSilence ulid matchers startsAt endsAt createdBy comment =
     (if is_zero_time endsAt then Inl SilenceNoEnd
      else if \<not> startsAt < endsAt then Inl SilenceEndNotAfterStart
      else Inr \<lparr>s_id = ulid, s_matchers = matchers, s_startsAt = startsAt, s_endsAt = endsAt,
                s_createdBy = createdBy, s_comment = comment\<rparr>)"

definition Silence_Active :: "silence \<Rightarrow> time \<Rightarrow> bool" where
  "Silence_Active s t \<longleftrightarrow> \<not> t < s_startsAt s \<and> t < s_endsAt s"

definition Silence_Matches :: "silence \<Rightarrow> labels \<Rightarrow> bool" where
  "Silence_Matches s ls =
     (if s_matchers s = [] then False
      else list_all (\<lambda>(k, v). lget ls k = v) (s_matchers s))"

type_synonym silenceStore = "(string \<times> silence) list"

definition NewSilenceStore :: silenceStore where
  "NewSilenceStore = []"

definition Silence_Add :: "silence \<Rightarrow> silenceStore \<Rightarrow> silenceStore" where
  "Silence_Add sil s = AList.update (s_id sil) sil s"

definition Silence_Remove :: "string \<Rightarrow> silenceStore \<Rightarrow> silenceStore" where
  "Silence_Remove i s = AList.delete i s"

definition Silenced :: "silenceStore \<Rightarrow> time \<Rightarrow> labels \<Rightarrow> bool" where
  "Silenced s t ls = list_ex (\<lambda>(_, sil). Silence_Active sil t \<and> Silence_Matches sil ls) s"

definition Silences_Active :: "silenceStore \<Rightarrow> time \<Rightarrow> silence list" where
  "Silences_Active s t = filter (\<lambda>sil. Silence_Active sil t) (map snd s)"

subsection \<open>Deadman tracker (deadman.go)\<close>

record deadmanTracker =
  d_expectEvery :: duration
  d_grace :: duration
  d_lastSeen :: time

definition NewDeadmanTracker :: "duration \<Rightarrow> duration \<Rightarrow> deadmanTracker" where
  "NewDeadmanTracker expectEvery grace =
     \<lparr>d_expectEvery = expectEvery, d_grace = grace, d_lastSeen = time_zero\<rparr>"

definition Deadman_Observe :: "time \<Rightarrow> deadmanTracker \<Rightarrow> deadmanTracker" where
  "Deadman_Observe t d = (if d_lastSeen d < t then d\<lparr>d_lastSeen := t\<rparr> else d)"

definition Overdue :: "deadmanTracker \<Rightarrow> time \<Rightarrow> bool \<times> duration" where
  "Overdue d now =
     (if is_zero_time (d_lastSeen d) then (False, 0)
      else
        let elapsed = time_sub now (d_lastSeen d) in
        if wrap64 (d_expectEvery d + d_grace d) < elapsed then (True, elapsed) else (False, 0))"

subsection \<open>The external heartbeat (externaldeadman.go)\<close>

datatype ping_error = BuildingRequest string | SendingHeartbeat string | HeartbeatStatus int

text \<open>\<open>build\<close> is the failure of building the request, if any; \<open>answer\<close> is the transport error or the status of the reply.\<close>

definition Ping :: "string option \<Rightarrow> string + int \<Rightarrow> ping_error option" where
  "Ping build answer =
     (case build of
        Some e \<Rightarrow> Some (BuildingRequest e)
      | None \<Rightarrow>
          (case answer of
             Inl e \<Rightarrow> Some (SendingHeartbeat e)
           | Inr code \<Rightarrow> if code < 200 \<or> 300 \<le> code then Some (HeartbeatStatus code) else None))"

text \<open>\<open>Run\<close> over the ticks before the context is done: the errors handed to \<open>onError\<close>, in order.\<close>

definition ExternalDeadman_Run :: "string option \<Rightarrow> bool \<Rightarrow> (string + int) list \<Rightarrow> ping_error list" where
  "ExternalDeadman_Run build onError ticks =
     (if onError then List.map_filter (Ping build) ticks else [])"

subsection \<open>The manager (manager.go)\<close>

text \<open>\<open>m_silences = None\<close> is the nil store, which suppresses nothing.\<close>

record manager =
  m_silences :: "silenceStore option"
  m_alerts :: "(string \<times> alert) list"

definition NewManager :: "silenceStore option \<Rightarrow> manager" where
  "NewManager s = \<lparr>m_silences = s, m_alerts = []\<rparr>"

definition Manager_Evaluate ::
  "(string \<Rightarrow> string) \<Rightarrow> time \<Rightarrow> string \<Rightarrow> labels \<Rightarrow> string \<Rightarrow> bool \<Rightarrow> gofloat \<Rightarrow> duration \<Rightarrow> manager
   \<Rightarrow> alert \<times> bool \<times> manager" where
  "Manager_Evaluate sha now ruleID ls severity conditionTrue value forDuration m =
     (let fp = Fingerprint sha ruleID ls;
          a = (case map_of (m_alerts m) fp of
                 Some a \<Rightarrow> a
               | None \<Rightarrow> NewAlert fp ruleID ls severity);
          (transitioned, a') = EvaluateFor now conditionTrue value forDuration a;
          m' = m\<lparr>m_alerts := AList.update fp a' (m_alerts m)\<rparr>
      in if \<not> transitioned then (a', False, m')
         else if (case m_silences m of None \<Rightarrow> False | Some s \<Rightarrow> Silenced s now ls)
         then (a', False, m')
         else (a', True, m'))"

definition Manager_Get :: "(string \<Rightarrow> string) \<Rightarrow> string \<Rightarrow> labels \<Rightarrow> manager \<Rightarrow> alert option" where
  "Manager_Get sha ruleID ls m = map_of (m_alerts m) (Fingerprint sha ruleID ls)"

definition Manager_Firing :: "manager \<Rightarrow> alert list" where
  "Manager_Firing m = filter (\<lambda>a. a_state a = StateFiring) (map snd (m_alerts m))"

definition Manager_All :: "manager \<Rightarrow> alert list" where
  "Manager_All m = map snd (m_alerts m)"


subsection \<open>Runs of one alert\<close>

text \<open>
  An evaluation is a time, the rule's condition, the value and the rule's \<open>for\<close> duration; a run
  collects what \<open>EvaluateFor\<close> returned.
\<close>

type_synonym evaluation = "time \<times> bool \<times> gofloat \<times> duration"

definition eval_step :: "alert \<Rightarrow> evaluation \<Rightarrow> bool \<times> alert" where
  "eval_step a e = (case e of (now, c, v, d) \<Rightarrow> EvaluateFor now c v d a)"

fun alert_run :: "alert \<Rightarrow> evaluation list \<Rightarrow> bool list \<times> alert" where
  "alert_run a [] = ([], a)"
| "alert_run a (e # es) =
     (let (n, a1) = eval_step a e; (ns, a2) = alert_run a1 es in (n # ns, a2))"

text \<open>The legal edges of the lifecycle of ADR-0009.\<close>

inductive edge :: "state \<Rightarrow> state \<Rightarrow> bool" where
  start_pending: "edge StateInactive StatePending"
| restart_pending: "edge StateResolved StatePending"
| pending_fires: "edge StatePending StateFiring"
| pending_clears: "edge StatePending StateInactive"
| firing_resolves: "edge StateFiring StateResolved"

inductive_simps edge_from_firing [simp]: "edge StateFiring s"
inductive_simps edge_to_firing [simp]: "edge s StateFiring"

fun path :: "state \<Rightarrow> alert_transition list \<Rightarrow> state \<Rightarrow> bool" where
  "path s [] t \<longleftrightarrow> s = t"
| "path s (x # xs) t \<longleftrightarrow> tr_from x = s \<and> edge (tr_from x) (tr_to x) \<and> path (tr_to x) xs t"

definition alert_wf :: "alert \<Rightarrow> bool" where
  "alert_wf a \<longleftrightarrow> path StateInactive (a_history a) (a_state a)"

definition noticed :: "state \<Rightarrow> bool" where
  "noticed s \<longleftrightarrow> s = StateFiring \<or> s = StateResolved"

definition notices :: "alert_transition list \<Rightarrow> state list" where
  "notices h = filter noticed (map tr_to h)"

text \<open>Firing and resolved notices in turn, starting with the first argument.\<close>

fun alternates :: "state \<Rightarrow> state list \<Rightarrow> bool" where
  "alternates s [] \<longleftrightarrow> True"
| "alternates s (x # xs) \<longleftrightarrow>
     x = s \<and> alternates (if s = StateFiring then StateResolved else StateFiring) xs"

lemma alert_run_Cons [simp]:
  "fst (alert_run a (e # es)) = fst (eval_step a e) # fst (alert_run (snd (eval_step a e)) es)"
  "snd (alert_run a (e # es)) = snd (alert_run (snd (eval_step a e)) es)"
  by (simp_all add: split_beta)

declare alert_run.simps(2) [simp del]

lemma path_append [simp]:
  "path s (xs @ ys) t \<longleftrightarrow> (\<exists>u. path s xs u \<and> path u ys t)"
  by (induction xs arbitrary: s) auto

lemma notices_append [simp]: "notices (xs @ ys) = notices xs @ notices ys"
  by (simp add: notices_def)

lemma NewAlert_wf [simp]: "alert_wf (NewAlert fp r ls sev)"
  by (simp add: alert_wf_def NewAlert_def)

lemma eval_step_wf: "alert_wf a \<Longrightarrow> alert_wf (snd (eval_step a e))"
  by (auto simp: alert_wf_def eval_step_def EvaluateFor_def transition_def Let_def edge.simps
      split: prod.splits)

lemma alert_run_wf: "alert_wf a \<Longrightarrow> alert_wf (snd (alert_run a es))"
proof (induction es arbitrary: a)
  case (Cons e es)
  from Cons.IH [OF eval_step_wf [OF Cons.prems, of e]] show ?case by simp
qed simp

lemma eval_step_notices:
  "length (notices (a_history (snd (eval_step a e)))) =
   length (notices (a_history a)) + (if fst (eval_step a e) then 1 else 0)"
  by (auto simp: eval_step_def EvaluateFor_def transition_def notices_def noticed_def Let_def
      split: prod.splits)

lemma alert_run_notices:
  "length (notices (a_history (snd (alert_run a es)))) =
   length (notices (a_history a)) + length (filter id (fst (alert_run a es)))"
proof (induction es arbitrary: a)
  case (Cons e es)
  show ?case
    using Cons.IH [of "snd (eval_step a e)"] eval_step_notices [of a e] by simp
qed simp

text \<open>Between two notices the machine stays on one side of the firing edge.\<close>

definition before_notice :: "state \<Rightarrow> state" where
  "before_notice s = (if s = StateFiring then StateResolved else StateFiring)"

lemma path_alternates: "path s h t \<Longrightarrow> alternates (before_notice s) (notices h)"
proof (induction h arbitrary: s)
  case (Cons x xs)
  then have e: "edge s (tr_to x)" and p: "path (tr_to x) xs t" by auto
  note IH = Cons.IH [OF p]
  from e show ?case
    by cases (use IH in \<open>auto simp: notices_def noticed_def before_notice_def\<close>)
qed (simp add: notices_def)

subsection \<open>The \<open>for\<close> duration\<close>

text \<open>
  What the machine remembers of a run while it is pending: a suffix of the evaluations, all with the
  condition true, whose first one set \<open>PendingSince\<close>.
\<close>

definition after :: "alert \<Rightarrow> evaluation list \<Rightarrow> alert" where
  "after a es = snd (alert_run a es)"

lemma after_snoc: "after a (es @ [e]) = snd (eval_step (after a es) e)"
proof (induction es arbitrary: a)
  case (Cons x xs)
  then show ?case by (simp add: after_def)
qed (simp add: after_def)

definition sustained :: "evaluation list \<Rightarrow> evaluation list \<Rightarrow> time \<Rightarrow> bool" where
  "sustained es mid t \<longleftrightarrow>
     mid \<noteq> [] \<and> suffix mid es \<and> list_all (\<lambda>(_, c, _). c) mid \<and> fst (hd mid) = t"

lemma sustained_snoc:
  "sustained es mid t \<Longrightarrow> c \<Longrightarrow> sustained (es @ [(now, c, v, d)]) (mid @ [(now, c, v, d)]) t"
  by (auto simp: sustained_def hd_append)

lemma sustained_start: "c \<Longrightarrow> sustained (es @ [(now, c, v, d)]) [(now, c, v, d)] now"
  by (auto simp: sustained_def suffix_def)

lemma pending_sustained:
  "a_state (after (NewAlert fp r ls sev) es) = StatePending \<Longrightarrow>
   \<exists>mid. sustained es mid (a_pendingSince (after (NewAlert fp r ls sev) es))"
proof (induction es rule: rev_induct)
  case Nil
  then show ?case by (simp add: after_def NewAlert_def)
next
  case (snoc e es)
  obtain now c v d where e: "e = (now, c, v, d)" by (cases e)
  let ?a = "after (NewAlert fp r ls sev) es"
  have pend: "a_state (snd (EvaluateFor now c v d ?a)) = StatePending"
    using snoc.prems by (simp add: after_snoc eval_step_def e)
  then have c: c by (auto simp: EvaluateFor_def transition_def Let_def split: if_splits)
  have ps: "a_pendingSince (after (NewAlert fp r ls sev) (es @ [e])) =
      a_pendingSince (snd (EvaluateFor now c v d ?a))"
    by (simp add: after_snoc eval_step_def e)
  show ?case
  proof (cases "a_state ?a = StatePending")
    case True
    then obtain mid where "sustained es mid (a_pendingSince ?a)" using snoc.IH by blast
    moreover have "a_pendingSince (snd (EvaluateFor now c v d ?a)) = a_pendingSince ?a"
      using True by (simp add: EvaluateFor_def transition_def Let_def)
    ultimately have "sustained (es @ [e]) (mid @ [e])
        (a_pendingSince (after (NewAlert fp r ls sev) (es @ [e])))"
      using sustained_snoc [of es mid _ c now v d] c unfolding ps by (simp add: e)
    then show ?thesis by blast
  next
    case False
    then have "a_pendingSince (snd (EvaluateFor now c v d ?a)) = now"
      using pend by (auto simp: EvaluateFor_def transition_def Let_def split: if_splits)
    then have "sustained (es @ [e]) [e] (a_pendingSince (after (NewAlert fp r ls sev) (es @ [e])))"
      using sustained_start [OF c, of es now v d] unfolding ps by (simp add: e)
    then show ?thesis by blast
  qed
qed

subsection \<open>Hysteresis drives the machine\<close>

text \<open>One evaluation of a hysteresis rule: the condition looks at whether the alert is active.\<close>

definition active :: "alert \<Rightarrow> bool" where
  "active a \<longleftrightarrow> a_state a = StatePending \<or> a_state a = StateFiring"

fun hyst_run ::
  "hysteresisThreshold \<Rightarrow> alert \<Rightarrow> (time \<times> gofloat \<times> duration) list \<Rightarrow> bool list \<times> alert" where
  "hyst_run h a [] = ([], a)"
| "hyst_run h a ((now, v, d) # es) =
     (let r = EvaluateFor now (ConditionTrue h v (active a)) v d a;
          rest = hyst_run h (snd r) es
      in (fst r # fst rest, snd rest))"

lemma firing_stays:
  "a_state a = StateFiring \<Longrightarrow> \<not> f_less v (h_resolveBelow h) \<Longrightarrow>
   a_state (snd (EvaluateFor now (ConditionTrue h v (active a)) v d a)) = StateFiring \<and>
   \<not> fst (EvaluateFor now (ConditionTrue h v (active a)) v d a) \<and>
   a_history (snd (EvaluateFor now (ConditionTrue h v (active a)) v d a)) = a_history a"
  by (simp add: EvaluateFor_def ConditionTrue_def active_def Let_def)

lemma hyst_run_firing:
  assumes "a_state a = StateFiring"
    and "list_all (\<lambda>(_, v, _). \<not> f_less v (h_resolveBelow h)) es"
  shows "a_state (snd (hyst_run h a es)) = StateFiring \<and>
    a_history (snd (hyst_run h a es)) = a_history a \<and>
    list_all Not (fst (hyst_run h a es))"
  using assms
proof (induction es arbitrary: a)
  case (Cons e es)
  obtain now v d where e: "e = (now, v, d)" by (cases e)
  let ?r = "EvaluateFor now (ConditionTrue h v (active a)) v d a"
  have r: "a_state (snd ?r) = StateFiring" "\<not> fst ?r" "a_history (snd ?r) = a_history a"
    using firing_stays [of a v h now d] Cons.prems by (auto simp: e)
  show ?case
    using Cons.IH [OF r(1)] r Cons.prems(2) by (simp add: e Let_def)
qed simp

subsection \<open>The manager and the deadman tracker\<close>

lemma Fingerprint_perm:
  "is_map ls \<Longrightarrow> mset ls = mset ls' \<Longrightarrow> Fingerprint sha r ls' = Fingerprint sha r ls"
  using kv_join_perm [of ls ls'] by (simp add: Fingerprint_def)

lemma Observe_lastSeen: "d_lastSeen (Deadman_Observe t d) = max (d_lastSeen d) t"
  by (auto simp: Deadman_Observe_def max_def)

lemma Observe_config [simp]:
  "d_expectEvery (Deadman_Observe t d) = d_expectEvery d"
  "d_grace (Deadman_Observe t d) = d_grace d"
  by (simp_all add: Deadman_Observe_def)

lemma fold_Observe:
  "d_lastSeen (fold Deadman_Observe ts d) = fold max ts (d_lastSeen d) \<and>
   d_expectEvery (fold Deadman_Observe ts d) = d_expectEvery d \<and>
   d_grace (fold Deadman_Observe ts d) = d_grace d"
  by (induction ts arbitrary: d) (simp_all add: Observe_lastSeen max.commute)

subsection \<open>Properties\<close>

text \<open>
  C4 The lifecycle of ADR-0009: whatever the evaluations of a fresh alert, its recorded history is a
  path of legal edges (inactive or resolved to pending, pending to firing, pending to inactive, firing
  to resolved) from inactive to its current state; exactly the evaluations that returned true entered
  firing or resolved; and those notices alternate, firing first.
\<close>

theorem alert_lifecycle:
  "case alert_run (NewAlert fp r ls sev) es of (ns, a) \<Rightarrow>
     path StateInactive (a_history a) (a_state a)
     \<and> length (filter id ns) = length (notices (a_history a))
     \<and> alternates StateFiring (notices (a_history a))"
proof -
  obtain ns a where run: "alert_run (NewAlert fp r ls sev) es = (ns, a)" by (meson surj_pair)
  have "alert_wf a" using alert_run_wf [of "NewAlert fp r ls sev" es] by (simp add: run)
  then have p: "path StateInactive (a_history a) (a_state a)" by (simp add: alert_wf_def)
  moreover have "length (filter id ns) = length (notices (a_history a))"
    using alert_run_notices [of "NewAlert fp r ls sev" es]
    by (simp add: run) (simp add: NewAlert_def notices_def)
  moreover have "alternates StateFiring (notices (a_history a))"
    using path_alternates [OF p] by (simp add: before_notice_def)
  ultimately show ?thesis by (simp add: run)
qed

text \<open>
  C18 The \<open>for\<close> guarantee: an evaluation with a positive \<open>for\<close> duration makes a fresh alert fire only
  if the evaluations before it end in an unbroken run with the condition true whose first one is at
  least that long ago.
\<close>

theorem fires_only_after_for:
  fixes es :: "evaluation list"
  assumes "0 < d"
    and "EvaluateFor now c v d (after (NewAlert fp r ls sev) es) = (True, a')"
    and "a_state a' = StateFiring"
  shows "c \<and> (\<exists>mid. mid \<noteq> [] \<and> suffix mid es \<and> list_all (\<lambda>(_, c, _). c) mid \<and>
    d \<le> time_sub now (fst (hd mid)))"
proof -
  let ?a = "after (NewAlert fp r ls sev) es"
  have st: "a_state ?a = StatePending" and c: c and dur: "d \<le> time_sub now (a_pendingSince ?a)"
    using assms by (auto simp: EvaluateFor_def transition_def Let_def split: if_splits)
  obtain mid where "sustained es mid (a_pendingSince ?a)" using pending_sustained [OF st] by blast
  with c dur show ?thesis by (auto simp: sustained_def)
qed

theorem fires_only_after_for_witness:
  "fst (EvaluateFor 70 True (Fin 90) 60 (after (NewAlert ''f'' ''r'' [] ''warn'') [(10, True, Fin 90, 60)]))
   \<and> (\<exists>mid. mid \<noteq> [] \<and> suffix mid [(10, True, Fin 90, 60 :: duration)] \<and> list_all (\<lambda>(_, c, _). c) mid \<and>
       60 \<le> time_sub 70 (fst (hd mid)))"
proof -
  let ?a = "after (NewAlert ''f'' ''r'' [] ''warn'') [(10, True, Fin 90, 60)]"
  have f: "fst (EvaluateFor 70 True (Fin 90) 60 ?a)"
    "a_state (snd (EvaluateFor 70 True (Fin 90) 60 ?a)) = StateFiring"
    by (simp_all add: after_def eval_step_def EvaluateFor_def transition_def NewAlert_def Let_def
        time_sub_def min_int64_def max_int64_def)
  then have "EvaluateFor 70 True (Fin 90) 60 ?a = (True, snd (EvaluateFor 70 True (Fin 90) 60 ?a))"
    by (metis prod.collapse)
  from fires_only_after_for [OF _ this f(2)] f(1) show ?thesis by simp
qed

text \<open>
  Hysteresis never flaps: while an alert is firing, evaluations whose values are not below
  \<open>ResolveBelow\<close> (NaN included) leave it firing, add no transition and never ask for a notification.
\<close>

theorem hysteresis_no_flap:
  assumes "a_state a = StateFiring"
    and "\<forall>(t, v, d) \<in> set es. \<not> f_less v (h_resolveBelow h)"
  shows "a_state (snd (hyst_run h a es)) = StateFiring
    \<and> a_history (snd (hyst_run h a es)) = a_history a
    \<and> True \<notin> set (fst (hyst_run h a es))"
proof -
  have "list_all (\<lambda>(_, v, _). \<not> f_less v (h_resolveBelow h)) es"
    using assms(2) by (auto simp: list_all_iff)
  from hyst_run_firing [OF assms(1) this] show ?thesis by (auto simp: list_all_iff)
qed

theorem hysteresis_no_flap_witness:
  "True \<notin> set (fst (hyst_run \<lparr>h_fireAbove = Fin 85, h_resolveBelow = Fin 75\<rparr>
      (NewAlert ''f'' ''r'' [] ''warn''\<lparr>a_state := StateFiring\<rparr>)
      [(1, Fin 80, 0), (2, Fin 90, 0), (3, Fin 76, 0)]))"
  using hysteresis_no_flap [of "NewAlert ''f'' ''r'' [] ''warn''\<lparr>a_state := StateFiring\<rparr>"
      "[(1, Fin 80, 0), (2, Fin 90, 0), (3, Fin 76, 0)]"
      "\<lparr>h_fireAbove = Fin 85, h_resolveBelow = Fin 75\<rparr>"]
  by simp

text \<open>
  Deduplication and silences: evaluating a rule stores exactly one new version of the alert of its
  fingerprint, the same whatever silences exist and in whatever order the label map is iterated, and
  leaves every other alert alone; the call asks for a notification exactly when the state machine made
  a fresh firing or resolved transition that no active silence matches.
\<close>

theorem manager_evaluate:
  assumes "is_map ls" and "mset ls = mset ls'"
  shows "let fp = Fingerprint sha r ls;
             old = (case map_of (m_alerts m) fp of Some a \<Rightarrow> a | None \<Rightarrow> NewAlert fp r ls' sev);
             (transitioned, new) = EvaluateFor now c v d old;
             (alert, notify, m') = Manager_Evaluate sha now r ls' sev c v d m
         in map_of (m_alerts m') = (map_of (m_alerts m))(fp \<mapsto> new) \<and> alert = new
            \<and> (notify \<longleftrightarrow> transitioned \<and>
                 (case m_silences m of None \<Rightarrow> True | Some s \<Rightarrow> \<not> Silenced s now ls'))
            \<and> m_silences m' = m_silences m"
  using Fingerprint_perm [OF assms]
  by (simp add: Manager_Evaluate_def Let_def split_beta update_conv' split: option.split)

theorem manager_evaluate_witness:
  "fst (snd (Manager_Evaluate id 5 ''r'' [(''b'', ''2''), (''a'', ''1'')] ''warn'' True (Fin 1) 0
     (NewManager (Some []))))"
proof -
  have "is_map [(''a'', ''1''), (''b'', ''2'')]" by (simp add: is_map_def)
  moreover have "mset [(''a'', ''1''), (''b'', ''2'')] = mset [(''b'', ''2''), (''a'', ''1'')]" by simp
  ultimately show ?thesis
    using manager_evaluate [where ls = "[(''a'', ''1''), (''b'', ''2'')]" and ls' = "[(''b'', ''2''), (''a'', ''1'')]"
        and m = "NewManager (Some [])" and r = "''r''" and sev = "''warn''" and now = 5 and c = True
        and v = "Fin 1" and d = 0 and sha = id]
    by (simp add: NewManager_def Silenced_def EvaluateFor_def transition_def NewAlert_def Let_def
        split: prod.splits)
qed

text \<open>
  Deadman: after any observations, in any order, the tracker reports overdue exactly when the
  newest of them is more than the expected interval plus the grace ago (and never before the first
  observation), for durations in the 64-bit range.
\<close>

theorem deadman_overdue:
  assumes "\<forall>t \<in> set ts. time_zero < t"
    and "min_int64 \<le> expectEvery + grace" and "expectEvery + grace \<le> max_int64"
  shows "fst (Overdue (fold Deadman_Observe ts (NewDeadmanTracker expectEvery grace)) now) \<longleftrightarrow>
    ts \<noteq> [] \<and> expectEvery + grace < time_sub now (Max (set ts))"
proof (cases "ts = []")
  case True
  then show ?thesis by (simp add: Overdue_def NewDeadmanTracker_def is_zero_time_def)
next
  case False
  let ?d = "fold Deadman_Observe ts (NewDeadmanTracker expectEvery grace)"
  have "time_zero < Max (set ts)"
    using False assms(1) by (meson List.finite_set Max_in set_empty)
  then have mx: "fold max ts time_zero = Max (set ts)" "Max (set ts) \<noteq> time_zero"
    using False Max.set_eq_fold [of time_zero ts] by (auto simp: max_def)
  then have "d_lastSeen ?d = Max (set ts)" "d_expectEvery ?d = expectEvery" "d_grace ?d = grace"
    using fold_Observe [of ts "NewDeadmanTracker expectEvery grace"]
    by (simp_all add: NewDeadmanTracker_def)
  with mx False assms(2,3) show ?thesis
    by (simp add: Overdue_def is_zero_time_def Let_def)
qed

theorem deadman_overdue_witness:
  "fst (Overdue (fold Deadman_Observe [100, 50] (NewDeadmanTracker 24 6)) 131)"
  using deadman_overdue [of "[100, 50]" 24 6 131]
  by (simp add: time_zero_def min_int64_def max_int64_def time_sub_def)

text \<open>
  Silences end: a silence that \<open>NewSilence\<close> accepts has a non-empty, bounded window, it is active
  exactly inside it, and it matches a label map exactly when it has a matcher and the map gives every
  matched key the matcher's value (a missing key counting as the empty value).
\<close>

theorem silence_bounded:
  assumes "NewSilence ulid ms startsAt endsAt who comment = Inr s"
  shows "(\<forall>t. Silence_Active s t \<longleftrightarrow> t \<in> {startsAt..<endsAt}) \<and> {startsAt..<endsAt} \<noteq> {}
    \<and> endsAt \<noteq> time_zero
    \<and> (Silence_Matches s ls \<longleftrightarrow> ms \<noteq> [] \<and> (\<forall>(k, v) \<in> set ms. lget ls k = v))"
  using assms
  by (auto simp: NewSilence_def Silence_Active_def Silence_Matches_def is_zero_time_def list_all_iff
      split: if_splits)

theorem silence_bounded_witness:
  "\<exists>s. NewSilence ''id'' [(''host'', ''a'')] 10 20 ''me'' [] = Inr s \<and> Silence_Active s 10
    \<and> \<not> Silence_Active s 20"
proof -
  let ?s = "\<lparr>s_id = ''id'', s_matchers = [(''host'', ''a'')], s_startsAt = 10, s_endsAt = 20,
    s_createdBy = ''me'', s_comment = []\<rparr>"
  have "NewSilence ''id'' [(''host'', ''a'')] 10 20 ''me'' [] = Inr ?s"
    by (simp add: NewSilence_def is_zero_time_def time_zero_def)
  from silence_bounded [OF this] this show ?thesis by auto
qed

end
