(* ===== verification/Netaddr.thy ===== *)
theory Netaddr
  imports Prelude
begin

text \<open>
  IP address literals, as Go's \<open>net\<close> package reads them, and the transport security policy of
  \<open>internal/transport/network.go\<close> built on them: which addresses may be spoken to in cleartext, and
  which address the hub binds.  An address is the list of its sixteen bytes (an IPv4 address in its
  IPv4-mapped form, as \<open>net.ParseIP\<close> returns it).
\<close>

subsection \<open>net.ParseIP\<close>

type_synonym ip = "nat list"

definition digit_val :: "char \<Rightarrow> nat" where
  "digit_val c = of_char c - 48"

definition is_digit :: "char \<Rightarrow> bool" where
  "is_digit c \<longleftrightarrow> CHR ''0'' \<le> c \<and> c \<le> CHR ''9''"

definition dec_value :: "string \<Rightarrow> nat" where
  "dec_value s = foldl (\<lambda>v c. 10 * v + digit_val c) 0 s"

text \<open>One decimal field of an IPv4 literal: up to 255, no leading zero.\<close>

definition parse_octet :: "string \<Rightarrow> nat option" where
  "parse_octet s =
     (if s = [] \<or> \<not> list_all is_digit s \<or> (1 < length s \<and> hd s = CHR ''0'') \<or> 255 < dec_value s
      then None else Some (dec_value s))"

definition parse_ipv4 :: "string \<Rightarrow> nat list option" where
  "parse_ipv4 s =
     (case map parse_octet (split_on (CHR ''.'') s) of
        [Some a, Some b, Some c, Some d] \<Rightarrow> Some [a, b, c, d]
      | _ \<Rightarrow> None)"

definition hex_val :: "char \<Rightarrow> nat option" where
  "hex_val c =
     (if is_digit c then Some (digit_val c)
      else if CHR ''a'' \<le> c \<and> c \<le> CHR ''f'' then Some (of_char c - 87)
      else if CHR ''A'' \<le> c \<and> c \<le> CHR ''F'' then Some (of_char c - 55)
      else None)"

definition is_hex :: "char \<Rightarrow> bool" where
  "is_hex c \<longleftrightarrow> hex_val c \<noteq> None"

definition hex_value :: "string \<Rightarrow> nat" where
  "hex_value s = foldl (\<lambda>v c. 16 * v + the (hex_val c)) 0 s"

text \<open>
  The group loop of the IPv6 parser.  \<open>acc\<close> holds the bytes read so far, \<open>ell\<close> the position of the
  double colon.  Every round consumes input, which the first argument, started at the length of the
  string, counts.
\<close>

fun parse_groups :: "nat \<Rightarrow> nat list \<Rightarrow> nat option \<Rightarrow> string \<Rightarrow> (nat list \<times> nat option) option" where
  "parse_groups 0 acc ell s = None"
| "parse_groups (Suc fuel) acc ell s =
     (if 16 \<le> length acc then (if s = [] then Some (acc, ell) else None)
      else
        let h = takeWhile is_hex s; rest = dropWhile is_hex s in
        if h = [] \<or> 4 < length h then None
        else if rest \<noteq> [] \<and> hd rest = CHR ''.'' then
          (if (ell = None \<and> length acc \<noteq> 12) \<or> 16 < length acc + 4 then None
           else map_option (\<lambda>b. (acc @ b, ell)) (parse_ipv4 s))
        else
          let acc' = acc @ [hex_value h div 256, hex_value h mod 256] in
          (case rest of
             [] \<Rightarrow> Some (acc', ell)
           | c # r \<Rightarrow>
               if c \<noteq> CHR '':'' \<or> r = [] then None
               else if hd r = CHR '':'' then
                 (if ell \<noteq> None then None
                  else if tl r = [] then Some (acc', Some (length acc'))
                  else parse_groups fuel acc' (Some (length acc')) (tl r))
               else parse_groups fuel acc' ell r))"

definition expand_ellipsis :: "nat list \<times> nat option \<Rightarrow> ip option" where
  "expand_ellipsis p =
     (case p of (bs, ell) \<Rightarrow>
        if length bs < 16 then
          (case ell of
             None \<Rightarrow> None
           | Some e \<Rightarrow> Some (take e bs @ replicate (16 - length bs) 0 @ drop e bs))
        else if ell = None then Some bs else None)"

definition parse_ipv6 :: "string \<Rightarrow> ip option" where
  "parse_ipv6 s =
     (if has_prefix s ''::'' then
        (if length s = 2 then Some (replicate 16 0)
         else Option.bind (parse_groups (Suc (length s)) [] (Some 0) (drop 2 s)) expand_ellipsis)
      else Option.bind (parse_groups (Suc (length s)) [] None s) expand_ellipsis)"

definition v4_in_v6 :: "nat list \<Rightarrow> ip" where
  "v4_in_v6 b = replicate 10 0 @ [255, 255] @ b"

text \<open>The first dot, colon or percent sign decides the family; a zone is not an address.\<close>

definition ParseIP :: "string \<Rightarrow> ip option" where
  "ParseIP s =
     (case filter (\<lambda>c. c \<in> {CHR ''.'', CHR '':'', CHR ''%''}) s of
        [] \<Rightarrow> None
      | c # _ \<Rightarrow>
          if c = CHR ''.'' then map_option v4_in_v6 (parse_ipv4 s)
          else if c = CHR '':'' then parse_ipv6 s
          else None)"

definition To4 :: "ip \<Rightarrow> nat list option" where
  "To4 x = (if take 12 x = replicate 10 0 @ [255, 255] \<and> length x = 16 then Some (drop 12 x) else None)"

definition IsLoopback :: "ip \<Rightarrow> bool" where
  "IsLoopback x = (case To4 x of Some b \<Rightarrow> hd b = 127 | None \<Rightarrow> x = replicate 15 0 @ [1])"

definition IsUnspecified :: "ip \<Rightarrow> bool" where
  "IsUnspecified x \<longleftrightarrow> x = v4_in_v6 [0, 0, 0, 0] \<or> x = replicate 16 0"

subsection \<open>network.go\<close>

text \<open>\<open>tailscaleCIDR.Contains\<close>: the network 100.64.0.0 with a ten-bit mask, for IPv4 addresses only.\<close>

definition tailscaleCIDR_Contains :: "ip \<Rightarrow> bool" where
  "tailscaleCIDR_Contains x =
     (case To4 x of Some b \<Rightarrow> b ! 0 = 100 \<and> b ! 1 div 64 = 1 | None \<Rightarrow> False)"

definition IsTrustedNetwork :: "ip option \<Rightarrow> bool" where
  "IsTrustedNetwork x =
     (case x of None \<Rightarrow> False | Some a \<Rightarrow> IsLoopback a \<or> tailscaleCIDR_Contains a)"

datatype security_error =
    ParsingURL
  | UnsupportedScheme string
  | HostnameNotIP string
  | RefusingCleartext ip

text \<open>\<open>url\<close> is \<open>url.Parse\<close>, as the scheme and the host name without port and brackets.\<close>

definition ValidateTransportSecurity ::
  "(string \<Rightarrow> (string \<times> string) option) \<Rightarrow> string \<Rightarrow> security_error option" where
  "ValidateTransportSecurity url rawURL =
     (case url rawURL of
        None \<Rightarrow> Some ParsingURL
      | Some (scheme, host) \<Rightarrow>
          if scheme = ''https'' then None
          else if scheme \<noteq> ''http'' then Some (UnsupportedScheme scheme)
          else (case ParseIP host of
                  None \<Rightarrow> Some (HostnameNotIP host)
                | Some x \<Rightarrow> if \<not> IsTrustedNetwork (Some x) then Some (RefusingCleartext x) else None))"

text \<open>\<open>addrs\<close> are the local interface addresses; the empty list also stands for a failed listing.\<close>

definition findTailscaleIP :: "ip list \<Rightarrow> ip option" where
  "findTailscaleIP addrs = List.find tailscaleCIDR_Contains addrs"

datatype bind_addr = BindLiteral string | BindIP ip

definition ResolveBindAddr :: "ip list \<Rightarrow> string \<Rightarrow> bool \<Rightarrow> string + bind_addr" where
  "ResolveBindAddr addrs explicit allowPublic =
     (if explicit \<noteq> [] then
        (if \<not> allowPublic \<and> (case ParseIP explicit of Some x \<Rightarrow> IsUnspecified x | None \<Rightarrow> False)
         then Inl explicit
         else Inr (BindLiteral explicit))
      else (case findTailscaleIP addrs of
              Some x \<Rightarrow> Inr (BindIP x)
            | None \<Rightarrow> Inr (BindLiteral ''127.0.0.1'')))"

subsection \<open>Decimal printing, as \<open>strconv.Itoa\<close> does it\<close>

definition digit_char :: "nat \<Rightarrow> char" where
  "digit_char n = char_of (48 + n)"

fun itoa :: "nat \<Rightarrow> string" where
  "itoa n = (if n < 10 then [digit_char n] else itoa (n div 10) @ [digit_char (n mod 10)])"

declare itoa.simps [simp del]

lemma of_char_digit: "n < 10 \<Longrightarrow> of_char (digit_char n) = 48 + n"
  by (simp add: digit_char_def)

lemma digit_val_char [simp]: "n < 10 \<Longrightarrow> digit_val (digit_char n) = n"
  by (simp add: digit_val_def of_char_digit)

lemma is_digit_of_char: "is_digit c \<longleftrightarrow> 48 \<le> (of_char c :: nat) \<and> of_char c \<le> (57 :: nat)"
  by (simp add: is_digit_def less_eq_char_def)

lemma is_digit_char [simp]: "n < 10 \<Longrightarrow> is_digit (digit_char n)"
  by (simp add: is_digit_of_char of_char_digit)

lemma dec_value_snoc [simp]: "dec_value (s @ [c]) = 10 * dec_value s + digit_val c"
  by (simp add: dec_value_def)

lemma itoa_digits: "list_all is_digit (itoa n) \<and> itoa n \<noteq> []"
proof (induction n rule: itoa.induct)
  case (1 n)
  then show ?case by (cases "n < 10") (simp_all add: itoa.simps [of n])
qed

lemma dec_value_itoa [simp]: "dec_value (itoa n) = n"
proof (induction n rule: itoa.induct)
  case (1 n)
  then show ?case
    by (cases "n < 10") (simp_all add: itoa.simps [of n], simp add: dec_value_def)
qed

lemma itoa_no_leading_zero: "1 < length (itoa n) \<Longrightarrow> hd (itoa n) \<noteq> CHR ''0''"
proof (induction n rule: itoa.induct)
  case (1 n)
  show ?case
  proof (cases "n < 10")
    case True
    with "1.prems" show ?thesis by (simp add: itoa.simps [of n])
  next
    case big: False
    show ?thesis
    proof (cases "n div 10 < 10")
      case True
      have "digit_char (n div 10) \<noteq> CHR ''0''"
      proof
        assume "digit_char (n div 10) = CHR ''0''"
        then have "digit_val (digit_char (n div 10)) = 0" by (simp add: digit_val_def)
        with True big show False by simp
      qed
      with True big show ?thesis by (simp add: itoa.simps [of n] itoa.simps [of "n div 10"])
    next
      case False
      then have "1 < length (itoa (n div 10))"
        using itoa_digits [of "n div 10 div 10"] by (subst itoa.simps) (auto simp: Suc_lessI)
      with "1.IH" [OF big] big itoa_digits [of "n div 10"] show ?thesis
        by (simp add: itoa.simps [of n])
    qed
  qed
qed

lemma parse_octet_itoa [simp]: "n \<le> 255 \<Longrightarrow> parse_octet (itoa n) = Some n"
  using itoa_digits [of n] itoa_no_leading_zero [of n] by (auto simp: parse_octet_def)

definition dotted :: "nat \<Rightarrow> nat \<Rightarrow> nat \<Rightarrow> nat \<Rightarrow> string" where
  "dotted a b c d = itoa a @ CHR ''.'' # itoa b @ CHR ''.'' # itoa c @ CHR ''.'' # itoa d"

lemma itoa_no_sep [simp]:
  "CHR ''.'' \<notin> set (itoa n)" "CHR '':'' \<notin> set (itoa n)" "CHR ''%'' \<notin> set (itoa n)"
  using itoa_digits [of n] by (auto simp: list_all_iff is_digit_of_char)

lemma parse_ipv4_dotted:
  "a \<le> 255 \<Longrightarrow> b \<le> 255 \<Longrightarrow> c \<le> 255 \<Longrightarrow> d \<le> 255 \<Longrightarrow> parse_ipv4 (dotted a b c d) = Some [a, b, c, d]"
  by (simp add: parse_ipv4_def dotted_def)

lemma ParseIP_dotted:
  assumes "a \<le> 255" "b \<le> 255" "c \<le> 255" "d \<le> 255"
  shows "ParseIP (dotted a b c d) = Some (v4_in_v6 [a, b, c, d])"
proof -
  have "filter (\<lambda>c. c \<in> {CHR ''.'', CHR '':'', CHR ''%''}) (itoa n) = []" for n
    using itoa_no_sep [of n] by (auto simp: filter_empty_conv)
  then show ?thesis
    using parse_ipv4_dotted [OF assms] by (simp add: ParseIP_def dotted_def)
qed

lemma To4_v4_in_v6 [simp]: "length b = 4 \<Longrightarrow> To4 (v4_in_v6 b) = Some b"
  by (simp add: To4_def v4_in_v6_def)

lemma trusted_dotted:
  "IsTrustedNetwork (Some (v4_in_v6 [a, b, c, d])) \<longleftrightarrow> a = 127 \<or> (a = 100 \<and> 64 \<le> b \<and> b \<le> 127)"
  by (auto simp: IsTrustedNetwork_def IsLoopback_def tailscaleCIDR_Contains_def)

text \<open>What the parser accepts is always sixteen bytes.\<close>

definition is_ip :: "ip \<Rightarrow> bool" where
  "is_ip x \<longleftrightarrow> length x = 16 \<and> list_all (\<lambda>b. b < 256) x"

lemma parse_octet_bound: "parse_octet s = Some n \<Longrightarrow> n < 256"
  by (auto simp: parse_octet_def split: if_splits)

lemma parse_ipv4_bytes:
  assumes "parse_ipv4 s = Some b"
  shows "length b = 4 \<and> list_all (\<lambda>b. b < 256) b"
proof -
  obtain w x y z where m: "map parse_octet (split_on (CHR ''.'') s) = [Some w, Some x, Some y, Some z]"
    and b: "b = [w, x, y, z]"
    using assms by (auto simp: parse_ipv4_def split: list.splits option.splits)
  then show ?thesis using parse_octet_bound by (auto simp: map_eq_Cons_conv)
qed

lemma hex_val_bound: "hex_val c = Some v \<Longrightarrow> v < 16"
  by (auto simp: hex_val_def digit_val_def is_digit_of_char less_eq_char_def split: if_splits)

lemma hex_value_bound: "list_all is_hex s \<Longrightarrow> hex_value s < 16 ^ length s"
proof (induction s rule: rev_induct)
  case (snoc c s)
  then obtain v where v: "hex_val c = Some v" "v < 16" by (auto simp: is_hex_def dest: hex_val_bound)
  from snoc have "hex_value s < 16 ^ length s" by simp
  then have "hex_value s + 1 \<le> 16 ^ length s" by simp
  then have "16 * (hex_value s + 1) \<le> 16 * 16 ^ length s" by (rule mult_le_mono2)
  with v show ?case by (simp add: hex_value_def)
qed (simp add: hex_value_def)

lemma group_bytes:
  assumes "list_all is_hex h" and "length h \<le> 4"
  shows "hex_value h div 256 < 256"
proof -
  have "hex_value h < 16 ^ length h" by (rule hex_value_bound [OF assms(1)])
  also have "\<dots> \<le> 16 ^ 4" using assms(2) by (intro power_increasing) simp_all
  finally show ?thesis by simp
qed

lemma parse_groups_step:
  assumes "parse_groups (Suc fuel) acc ell s = Some (bs, e)" and "length acc < 16"
  defines "acc' \<equiv> acc @ [hex_value (takeWhile is_hex s) div 256, hex_value (takeWhile is_hex s) mod 256]"
  shows "length (takeWhile is_hex s) \<le> 4 \<and>
    ((\<exists>b. bs = acc @ b \<and> parse_ipv4 s = Some b \<and> length acc + 4 \<le> 16) \<or> bs = acc' \<or>
     (\<exists>ell' s'. parse_groups fuel acc' ell' s' = Some (bs, e)))"
  using assms(1,2) unfolding acc'_def
  by (simp add: Let_def split: if_splits list.splits) (blast | linarith)+

lemma parse_groups_bytes:
  assumes "parse_groups fuel acc ell s = Some (bs, e)"
    and "list_all (\<lambda>b. b < 256) acc" and "length acc \<le> 16" and "even (length acc)"
  shows "list_all (\<lambda>b. b < 256) bs \<and> length bs \<le> 16"
  using assms
proof (induction fuel arbitrary: acc ell s)
  case (Suc fuel)
  show ?case
  proof (cases "16 \<le> length acc")
    case True
    with Suc.prems show ?thesis by (auto split: if_splits)
  next
    case False
    let ?h = "takeWhile is_hex s"
    let ?acc' = "acc @ [hex_value ?h div 256, hex_value ?h mod 256]"
    have len: "length acc + 2 \<le> 16" using False Suc.prems(4) by presburger
    from parse_groups_step [OF Suc.prems(1)] False
    have h4: "length ?h \<le> 4"
      and or: "(\<exists>b. bs = acc @ b \<and> parse_ipv4 s = Some b \<and> length acc + 4 \<le> 16) \<or> bs = ?acc' \<or>
        (\<exists>ell' s'. parse_groups fuel ?acc' ell' s' = Some (bs, e))"
      by simp_all
    have "list_all is_hex ?h" by (auto simp: list_all_iff dest: set_takeWhileD)
    from group_bytes [OF this h4] Suc.prems(2)
    have acc': "list_all (\<lambda>b. b < 256) ?acc'" by simp
    from or show ?thesis
    proof (elim disjE exE conjE)
      fix b assume "bs = acc @ b" "parse_ipv4 s = Some b" "length acc + 4 \<le> 16"
      with Suc.prems(2) parse_ipv4_bytes show ?thesis by fastforce
    next
      assume "bs = ?acc'"
      with acc' len show ?thesis by simp
    next
      fix ell' s' assume "parse_groups fuel ?acc' ell' s' = Some (bs, e)"
      from Suc.IH [OF this acc'] len Suc.prems(4) show ?thesis by simp
    qed
  qed
qed simp

declare parse_groups.simps [simp del]

lemma is_ip_v4: "parse_ipv4 s = Some b \<Longrightarrow> is_ip (v4_in_v6 b)"
  using parse_ipv4_bytes [of s b] by (auto simp: is_ip_def v4_in_v6_def list_all_iff)

lemma is_ip_expand:
  assumes "parse_groups f [] ell t = Some p" and "expand_ellipsis p = Some y"
  shows "is_ip y"
proof -
  obtain bs e where p: "p = (bs, e)" by (cases p)
  from parse_groups_bytes [of f "[]" ell t bs e] assms(1)
  have b: "list_all (\<lambda>b. b < 256) bs" "length bs \<le> 16" by (simp_all add: p)
  then have "list_all (\<lambda>b. b < 256) (take n bs)" "list_all (\<lambda>b. b < 256) (drop n bs)" for n
    by (auto simp: list_all_iff dest: in_set_takeD in_set_dropD)
  with b assms(2) show ?thesis
    by (auto simp: p expand_ellipsis_def is_ip_def min_def list_all_iff split: if_splits option.splits)
qed

lemma is_ip_zero: "is_ip (replicate 16 0)"
  by (simp add: is_ip_def list_all_iff)

lemma ParseIP_is_ip: "ParseIP s = Some x \<Longrightarrow> is_ip x"
  by (auto simp: ParseIP_def parse_ipv6_def bind_eq_Some_conv
      split: list.splits if_splits intro: is_ip_v4 is_ip_expand is_ip_zero)

subsection \<open>Properties\<close>

text \<open>
  Cleartext is only ever spoken to loopback or the tailnet: for every dotted-quad host, the agent
  accepts an \<open>http\<close> URL exactly for 127.0.0.0/8 and 100.64.0.0/10, an \<open>https\<close> URL always, and any
  other scheme never.
\<close>

theorem cleartext_dotted_policy:
  assumes "url raw = Some (scheme, dotted a b c d)"
    and "a \<le> 255" "b \<le> 255" "c \<le> 255" "d \<le> 255"
  shows "ValidateTransportSecurity url raw = None \<longleftrightarrow>
    scheme = ''https'' \<or> (scheme = ''http'' \<and> (a = 127 \<or> (a = 100 \<and> 64 \<le> b \<and> b \<le> 127)))"
  using assms(1) ParseIP_dotted [OF assms(2-5)]
  by (auto simp: ValidateTransportSecurity_def trusted_dotted)

theorem cleartext_dotted_policy_witness:
  "ValidateTransportSecurity (\<lambda>_. Some (''http'', dotted 100 100 1 2)) ''u'' = None \<and>
   ValidateTransportSecurity (\<lambda>_. Some (''http'', dotted 100 128 1 2)) ''u'' \<noteq> None"
  using cleartext_dotted_policy [of "\<lambda>_. Some (''http'', dotted 100 100 1 2)" "''u''" "''http''" 100 100 1 2]
    cleartext_dotted_policy [of "\<lambda>_. Some (''http'', dotted 100 128 1 2)" "''u''" "''http''" 100 128 1 2]
  by simp

text \<open>
  The hub never binds the unspecified address on its own: without \<open>allowPublic\<close>, an address that
  \<open>ResolveBindAddr\<close> returns is not one of the spellings of 0.0.0.0 or of the IPv6 unspecified address,
  and an address it picks from the interfaces is an IPv4 address of the tailnet range.
\<close>

theorem bind_never_unspecified:
  assumes "ResolveBindAddr addrs explicit False = Inr r"
  shows "(\<forall>s x. r = BindLiteral s \<and> ParseIP s = Some x \<longrightarrow> \<not> IsUnspecified x) \<and>
    (\<forall>x. r = BindIP x \<longrightarrow> x \<in> set addrs \<and> tailscaleCIDR_Contains x \<and> \<not> IsUnspecified x)"
proof -
  have lo: "''127.0.0.1'' = dotted 127 0 0 1"
    by code_simp
  have "ParseIP ''127.0.0.1'' = Some (v4_in_v6 [127, 0, 0, 1])"
    unfolding lo by (rule ParseIP_dotted) simp_all
  moreover have "tailscaleCIDR_Contains x \<Longrightarrow> \<not> IsUnspecified x" for x
    by (auto simp: IsUnspecified_def tailscaleCIDR_Contains_def To4_def v4_in_v6_def nth_append
        split: if_splits)
  moreover have "\<not> IsUnspecified (v4_in_v6 [127, 0, 0, 1])"
    by code_simp
  ultimately show ?thesis
    using assms
    by (auto simp: ResolveBindAddr_def findTailscaleIP_def
        split: if_splits option.splits dest!: find_SomeD)
qed

theorem bind_never_unspecified_witness:
  "ResolveBindAddr [v4_in_v6 [192, 168, 1, 2], v4_in_v6 [100, 101, 2, 3]] [] False
     = Inr (BindIP (v4_in_v6 [100, 101, 2, 3])) \<and> \<not> IsUnspecified (v4_in_v6 [100, 101, 2, 3])"
proof -
  have r: "ResolveBindAddr [v4_in_v6 [192, 168, 1, 2], v4_in_v6 [100, 101, 2, 3]] [] False
     = Inr (BindIP (v4_in_v6 [100, 101, 2, 3]))"
    by (simp add: ResolveBindAddr_def findTailscaleIP_def tailscaleCIDR_Contains_def)
  from bind_never_unspecified [OF r] r show ?thesis by simp
qed

end
