(* ===== verification/Schema.thy ===== *)
theory Schema
  imports Netaddr
begin

text \<open>
  The canonical data model, \<open>internal/schema\<close>: metrics, events, log lines, inventories and jobs with
  their \<open>Validate\<close> methods, the cardinality tracker with its series key, and the host identity file.
  Every \<open>fmt.Errorf\<close> of a \<open>Validate\<close> is a constructor of \<open>schema_error\<close>.
\<close>

datatype schema_error =
    IDRequired | HostIDRequired | TSRequired | SourceRequired | TypeNotNamespaced string
  | InvalidSeverity string | TitleRequired | SchemaTooLow
  | NamePrefix string | NameSuffix string | RatioOutOfRange gofloat
  | ContainerIDNeedsName | ForbiddenLabel string | ContainerIDTooLong nat
  | LabelLooksLikeIP string | LabelLooksLikePath string
  | KindRequired | ReportedAtRequired | ItemIDRequired nat
  | JobNameRequired | StartedAtRequired | InvalidStatus string
  | CardinalityExceeded string string

definition CurrentSchemaVersion :: int where
  "CurrentSchemaVersion = 1"

subsection \<open>Severity and events (schema.go, event.go)\<close>

definition Severity_valid :: "string \<Rightarrow> bool" where
  "Severity_valid s \<longleftrightarrow>
     s \<in> {''debug'', ''info'', ''notice'', ''warn'', ''error'', ''critical''}"

record logRef =
  lr_blockID :: string
  lr_line :: int

record eventSubject =
  es_kind :: string
  es_name :: string
  es_pid :: int

record event =
  ev_id :: string
  ev_ts :: time
  ev_tsReceived :: time
  ev_hostID :: string
  ev_source :: string
  ev_type :: string
  ev_severity :: string
  ev_title :: string
  ev_subject :: eventSubject
  ev_attrs :: labels
  ev_fingerprint :: string
  ev_logRefs :: "logRef list"
  ev_schema :: int

definition Event_Validate :: "event \<Rightarrow> schema_error option" where
  "Event_Validate e =
     (if ev_id e = [] then Some IDRequired
      else if ev_hostID e = [] then Some HostIDRequired
      else if is_zero_time (ev_ts e) then Some TSRequired
      else if ev_source e = [] then Some SourceRequired
      else if ev_type e = [] \<or> CHR ''.'' \<notin> set (ev_type e) then Some (TypeNotNamespaced (ev_type e))
      else if \<not> Severity_valid (ev_severity e) then Some (InvalidSeverity (ev_severity e))
      else if ev_title e = [] then Some TitleRequired
      else if ev_schema e < 1 then Some SchemaTooLow
      else None)"

subsection \<open>Log lines (logline.go)\<close>

record logLine =
  ll_ts :: time
  ll_hostID :: string
  ll_source :: string
  ll_stream :: string
  ll_unitOrContainer :: string
  ll_level :: string
  ll_pid :: int
  ll_message :: string

definition LogLine_Validate :: "logLine \<Rightarrow> schema_error option" where
  "LogLine_Validate l =
     (if ll_hostID l = [] then Some HostIDRequired
      else if ll_source l = [] then Some SourceRequired
      else if is_zero_time (ll_ts l) then Some TSRequired
      else None)"

subsection \<open>Metrics (metric.go)\<close>

record metric =
  me_name :: string
  me_hostID :: string
  me_labels :: labels
  me_value :: gofloat
  me_timestamp :: time

definition requiredPrefix :: string where
  "requiredPrefix = ''bitacora_''"

definition allowedUnitSuffixes :: "string list" where
  "allowedUnitSuffixes = [''_bytes'', ''_seconds'', ''_celsius'', ''_ratio'', ''_total'']"

definition forbiddenLabelKeys :: "string list" where
  "forbiddenLabelKeys = [''pid'', ''path'']"

text \<open>The checks of one label, in the order of the loop body.\<close>

definition validateLabel :: "string \<Rightarrow> string \<Rightarrow> schema_error option" where
  "validateLabel k v =
     (if k \<in> set forbiddenLabelKeys then Some (ForbiddenLabel k)
      else if k = ''container_id'' \<and> 12 < length v then Some (ContainerIDTooLong (length v))
      else if ParseIP v \<noteq> None then Some (LabelLooksLikeIP k)
      else if 2 \<le> count_list v (CHR ''/'') then Some (LabelLooksLikePath k)
      else None)"

fun validateLabels_loop :: "labels \<Rightarrow> schema_error option" where
  "validateLabels_loop [] = None"
| "validateLabels_loop ((k, v) # ls) =
     (case validateLabel k v of Some e \<Rightarrow> Some e | None \<Rightarrow> validateLabels_loop ls)"

definition validateLabels :: "labels \<Rightarrow> schema_error option" where
  "validateLabels ls =
     (if map_of ls ''container_id'' \<noteq> None \<and> map_of ls ''container_name'' = None
      then Some ContainerIDNeedsName
      else validateLabels_loop ls)"

definition Metric_Validate :: "metric \<Rightarrow> schema_error option" where
  "Metric_Validate m =
     (if me_hostID m = [] then Some HostIDRequired
      else if \<not> has_prefix (me_name m) requiredPrefix then Some (NamePrefix (me_name m))
      else (case List.find (has_suffix (me_name m)) allowedUnitSuffixes of
              None \<Rightarrow> Some (NameSuffix (me_name m))
            | Some sfx \<Rightarrow>
                if sfx = ''_ratio'' \<and> (f_less (me_value m) (Fin 0) \<or> f_less (Fin 1) (me_value m))
                then Some (RatioOutOfRange (me_value m))
                else if is_zero_time (me_timestamp m) then Some TSRequired
                else validateLabels (me_labels m)))"

subsection \<open>Inventories (inventory.go)\<close>

record inventoryItem =
  ii_id :: string
  ii_name :: string
  ii_attrs :: labels

record inventory =
  in_hostID :: string
  in_kind :: string
  in_reportedAt :: time
  in_schema :: int
  in_items :: "inventoryItem list"

fun firstItemWithoutID :: "nat \<Rightarrow> inventoryItem list \<Rightarrow> nat option" where
  "firstItemWithoutID i [] = None"
| "firstItemWithoutID i (x # xs) = (if ii_id x = [] then Some i else firstItemWithoutID (Suc i) xs)"

definition Inventory_Validate :: "inventory \<Rightarrow> schema_error option" where
  "Inventory_Validate iv =
     (if in_hostID iv = [] then Some HostIDRequired
      else if in_kind iv = [] then Some KindRequired
      else if is_zero_time (in_reportedAt iv) then Some ReportedAtRequired
      else if in_schema iv < 1 then Some SchemaTooLow
      else map_option ItemIDRequired (firstItemWithoutID 0 (in_items iv)))"

subsection \<open>Jobs (job.go)\<close>

definition JobStatus_valid :: "string \<Rightarrow> bool" where
  "JobStatus_valid s \<longleftrightarrow>
     s \<in> {''running'', ''success'', ''warning'', ''failed'', ''timeout'', ''killed''}"

record jobLogRef =
  jl_blockID :: string
  jl_from :: int
  jl_to :: int

text \<open>The values of \<open>stats\<close> are of any JSON type, here \<open>'v\<close>.\<close>

record 'v job =
  jb_id :: string
  jb_jobName :: string
  jb_hostID :: string
  jb_startedAt :: time
  jb_finishedAt :: time
  jb_durationSecond :: gofloat
  jb_status :: string
  jb_exitCode :: int
  jb_signal :: string
  jb_stats :: "(string \<times> 'v) list"
  jb_peerHostID :: string
  jb_trigger :: string
  jb_nextExpected :: time
  jb_logRefs :: "jobLogRef list"
  jb_schema :: int

definition Job_Validate :: "'v job \<Rightarrow> schema_error option" where
  "Job_Validate j =
     (if jb_id j = [] then Some IDRequired
      else if jb_jobName j = [] then Some JobNameRequired
      else if jb_hostID j = [] then Some HostIDRequired
      else if is_zero_time (jb_startedAt j) then Some StartedAtRequired
      else if \<not> JobStatus_valid (jb_status j) then Some (InvalidStatus (jb_status j))
      else if jb_schema j < 1 then Some SchemaTooLow
      else None)"

subsection \<open>Cardinality (cardinality.go)\<close>

definition MaxActiveSeriesPerHost :: int where
  "MaxActiveSeriesPerHost = 2000"

definition seriesKey :: "string \<Rightarrow> labels \<Rightarrow> string" where
  "seriesKey name ls = name @ kv_join ls"

text \<open>The set of series of a host is the list of its distinct keys, oldest first.\<close>

record cardinalityTracker =
  ct_limit :: int
  ct_seen :: "(string \<times> string list) list"

definition NewCardinalityTracker :: "int \<Rightarrow> cardinalityTracker" where
  "NewCardinalityTracker limit = \<lparr>ct_limit = limit, ct_seen = []\<rparr>"

definition host_series :: "cardinalityTracker \<Rightarrow> string \<Rightarrow> string list" where
  "host_series t h = (case map_of (ct_seen t) h of None \<Rightarrow> [] | Some s \<Rightarrow> s)"

definition Cardinality_Observe ::
  "metric \<Rightarrow> cardinalityTracker \<Rightarrow> schema_error option \<times> cardinalityTracker" where
  "Cardinality_Observe m t =
     (let key = seriesKey (me_name m) (me_labels m);
          series = host_series t (me_hostID m);
          t1 = (case map_of (ct_seen t) (me_hostID m) of
                  Some _ \<Rightarrow> t
                | None \<Rightarrow> t\<lparr>ct_seen := AList.update (me_hostID m) [] (ct_seen t)\<rparr>)
      in if key \<in> set series then (None, t1)
         else if ct_limit t \<le> int (length series)
         then (Some (CardinalityExceeded (me_hostID m) (me_name m)), t1)
         else (None, t1\<lparr>ct_seen := AList.update (me_hostID m) (series @ [key]) (ct_seen t1)\<rparr>))"

definition Cardinality_Count :: "string \<Rightarrow> cardinalityTracker \<Rightarrow> nat" where
  "Cardinality_Count h t = length (host_series t h)"

subsection \<open>Host identity (hostid.go)\<close>

datatype hostid_error = HostIDFileEmpty | HostIDRead | HostIDGenerate | HostIDPersist

datatype read_result = ReadOK string | ReadNotExist | ReadFailed

text \<open>
  The host_id file is its content, if it exists.  \<open>readErr\<close> says that reading fails for another
  reason than absence, \<open>ulid\<close> is the generated identity (if the generator succeeds) and \<open>saved\<close> says
  whether all the steps of the atomic save succeed; a failed save leaves the file as it was, because
  only the final rename touches it.
\<close>

definition read_hostid :: "bool \<Rightarrow> string option \<Rightarrow> read_result" where
  "read_hostid readErr file =
     (if readErr then ReadFailed
      else (case file of None \<Rightarrow> ReadNotExist | Some c \<Rightarrow> ReadOK c))"

definition persistHostID :: "bool \<Rightarrow> string \<Rightarrow> string option \<Rightarrow> bool \<times> string option" where
  "persistHostID saved i file = (if saved then (True, Some (i @ [nl])) else (False, file))"

definition LoadOrCreateHostID ::
  "bool \<Rightarrow> string option \<Rightarrow> bool \<Rightarrow> string option \<Rightarrow> (hostid_error + string) \<times> string option" where
  "LoadOrCreateHostID readErr ulid saved file =
     (case read_hostid readErr file of
        ReadOK existing \<Rightarrow>
          let i = trim_space existing in
          if i = [] then (Inl HostIDFileEmpty, file) else (Inr i, file)
      | ReadFailed \<Rightarrow> (Inl HostIDRead, file)
      | ReadNotExist \<Rightarrow>
          (case ulid of
             None \<Rightarrow> (Inl HostIDGenerate, file)
           | Some i \<Rightarrow>
               (case persistHostID saved i file of
                  (False, file') \<Rightarrow> (Inl HostIDPersist, file')
                | (True, file') \<Rightarrow> (Inr i, file'))))"

subsection \<open>Facts about the validators\<close>

lemma validateLabels_loop_None_iff:
  "validateLabels_loop ls = None \<longleftrightarrow> (\<forall>(k, v) \<in> set ls. validateLabel k v = None)"
  by (induction ls rule: validateLabels_loop.induct) (auto split: option.splits)

lemma validateLabel_None_iff:
  "validateLabel k v = None \<longleftrightarrow>
     k \<noteq> ''pid'' \<and> k \<noteq> ''path'' \<and> (k = ''container_id'' \<longrightarrow> length v \<le> 12) \<and> ParseIP v = None
     \<and> count_list v (CHR ''/'') < 2"
  by (auto simp: validateLabel_def forbiddenLabelKeys_def)

lemma firstItemWithoutID_None_iff:
  "firstItemWithoutID i xs = None \<longleftrightarrow> (\<forall>x \<in> set xs. ii_id x \<noteq> [])"
  by (induction i xs rule: firstItemWithoutID.induct) auto

lemma has_suffix_length: "has_suffix s p \<Longrightarrow> length p \<le> length s"
  by (simp add: has_suffix_def)

lemma has_suffix_last: "has_suffix s p \<Longrightarrow> p \<noteq> [] \<Longrightarrow> last s = last p"
  by (metis append_take_drop_id has_suffix_def last_appendR)

text \<open>No two of the unit suffixes end the same name.\<close>

lemma suffix_of_ratio:
  assumes "has_suffix n ''_ratio''"
  shows "List.find (has_suffix n) allowedUnitSuffixes = Some ''_ratio''"
proof -
  have l: "last n = CHR ''o''" using has_suffix_last [OF assms] by simp
  then have "\<not> has_suffix n ''_bytes''" "\<not> has_suffix n ''_seconds''" "\<not> has_suffix n ''_celsius''"
    by (auto dest!: has_suffix_last)
  with assms show ?thesis by (simp add: allowedUnitSuffixes_def)
qed

subsection \<open>The cardinality budget\<close>

definition card_inv :: "cardinalityTracker \<Rightarrow> bool" where
  "card_inv t \<longleftrightarrow>
     (\<forall>h. distinct (host_series t h) \<and> int (length (host_series t h)) \<le> max 0 (ct_limit t))"

lemma host_series_update [simp]:
  "host_series (t\<lparr>ct_seen := AList.update h s (ct_seen t')\<rparr>) h' =
     (if h' = h then s else host_series t' h')"
  by (simp add: host_series_def update_conv')

lemma Observe_series:
  "host_series (snd (Cardinality_Observe m t)) h =
     (if h = me_hostID m \<and> seriesKey (me_name m) (me_labels m) \<notin> set (host_series t h)
         \<and> int (length (host_series t h)) < ct_limit t
      then host_series t h @ [seriesKey (me_name m) (me_labels m)] else host_series t h)"
  by (auto simp: Cardinality_Observe_def Let_def split: option.splits) (simp add: host_series_def)+

lemma Observe_refuses:
  "fst (Cardinality_Observe m t) \<noteq> None \<longleftrightarrow>
     seriesKey (me_name m) (me_labels m) \<notin> set (host_series t (me_hostID m)) \<and>
     ct_limit t \<le> int (length (host_series t (me_hostID m)))"
  by (simp add: Cardinality_Observe_def Let_def)

lemma Observe_limit [simp]: "ct_limit (snd (Cardinality_Observe m t)) = ct_limit t"
  by (simp add: Cardinality_Observe_def Let_def split: option.splits)

lemma Observe_card_inv: "card_inv t \<Longrightarrow> card_inv (snd (Cardinality_Observe m t))"
  by (auto simp: card_inv_def Observe_series)

lemma fold_Observe_card_inv:
  "card_inv t \<Longrightarrow> card_inv (fold (\<lambda>m t. snd (Cardinality_Observe m t)) ms t) \<and>
     ct_limit (fold (\<lambda>m t. snd (Cardinality_Observe m t)) ms t) = ct_limit t"
  by (induction ms arbitrary: t) (auto simp: Observe_card_inv)

lemma series_grow: "set (host_series t h) \<subseteq> set (host_series (snd (Cardinality_Observe m t)) h)"
  by (auto simp: Observe_series)

subsection \<open>Properties\<close>

text \<open>
  What a valid metric looks like: \<open>Validate\<close> accepts a metric exactly when it has a host, a
  timestamp, the \<open>bitacora_\<close> prefix and a unit suffix, a ratio that is not below 0 or above 1, and
  labels none of which is forbidden, an overlong container id, an IP address or a path (and a
  container name wherever a container id is); the order in which the label map is iterated is
  irrelevant.
\<close>

theorem metric_validate_iff:
  "Metric_Validate m = None \<longleftrightarrow>
     me_hostID m \<noteq> [] \<and> \<not> is_zero_time (me_timestamp m)
     \<and> has_prefix (me_name m) ''bitacora_''
     \<and> (\<exists>s \<in> set allowedUnitSuffixes. has_suffix (me_name m) s)
     \<and> (has_suffix (me_name m) ''_ratio'' \<longrightarrow>
          \<not> f_less (me_value m) (Fin 0) \<and> \<not> f_less (Fin 1) (me_value m))
     \<and> (map_of (me_labels m) ''container_id'' \<noteq> None \<longrightarrow> map_of (me_labels m) ''container_name'' \<noteq> None)
     \<and> (\<forall>(k, v) \<in> set (me_labels m). k \<noteq> ''pid'' \<and> k \<noteq> ''path'' \<and>
          (k = ''container_id'' \<longrightarrow> length v \<le> 12) \<and> ParseIP v = None \<and> count_list v (CHR ''/'') < 2)"
proof (cases "List.find (has_suffix (me_name m)) allowedUnitSuffixes")
  case None
  then have "\<not> (\<exists>s \<in> set allowedUnitSuffixes. has_suffix (me_name m) s)"
    by (simp add: find_None_iff_all)
  then show ?thesis by (simp add: Metric_Validate_def None)
next
  case (Some sfx)
  then have s: "sfx \<in> set allowedUnitSuffixes" "has_suffix (me_name m) sfx"
    by (auto dest: find_SomeD)
  have "sfx = ''_ratio'' \<longleftrightarrow> has_suffix (me_name m) ''_ratio''"
    using Some s(2) suffix_of_ratio by auto
  with s show ?thesis
    by (auto simp: Metric_Validate_def Some requiredPrefix_def validateLabels_def
        validateLabels_loop_None_iff validateLabel_None_iff)
qed

theorem metric_validate_iff_witness:
  "Metric_Validate \<lparr>me_name = ''bitacora_cpu_usage_ratio'', me_hostID = ''h'', me_labels = [(''cpu'', ''total'')],
     me_value = Fin (1/2), me_timestamp = 1\<rparr> = None"
  by (subst metric_validate_iff)
     (simp add: is_zero_time_def time_zero_def has_prefix_def has_suffix_def allowedUnitSuffixes_def
       ParseIP_def)

text \<open>
  The cardinality budget: after any metrics in any order, no host has more than the limit's number
  of series, and its series are distinct; an observation is refused exactly when its series is new to
  its host and the host is at the limit, a refused series is not stored, and an accepted one is
  accepted again ever after.
\<close>

theorem cardinality_budget:
  "let t = fold (\<lambda>m t. snd (Cardinality_Observe m t)) ms (NewCardinalityTracker limit);
       key = seriesKey (me_name m) (me_labels m);
       (err, t') = Cardinality_Observe m t
   in (\<forall>h. int (Cardinality_Count h t) \<le> max 0 limit \<and> distinct (host_series t h))
      \<and> (err \<noteq> None \<longleftrightarrow> key \<notin> set (host_series t (me_hostID m)) \<and>
           limit \<le> int (Cardinality_Count (me_hostID m) t))
      \<and> (err = None \<longleftrightarrow> key \<in> set (host_series t' (me_hostID m)))
      \<and> (\<forall>h. set (host_series t h) \<subseteq> set (host_series t' h))"
proof -
  let ?t = "fold (\<lambda>m t. snd (Cardinality_Observe m t)) ms (NewCardinalityTracker limit)"
  let ?key = "seriesKey (me_name m) (me_labels m)"
  have "card_inv (NewCardinalityTracker limit)"
    by (simp add: card_inv_def NewCardinalityTracker_def host_series_def)
  then have inv: "card_inv ?t" and lim: "ct_limit ?t = limit"
    using fold_Observe_card_inv [of "NewCardinalityTracker limit" ms]
    by (simp_all add: NewCardinalityTracker_def)
  have err: "fst (Cardinality_Observe m ?t) \<noteq> None \<longleftrightarrow>
      ?key \<notin> set (host_series ?t (me_hostID m)) \<and> limit \<le> int (length (host_series ?t (me_hostID m)))"
    using Observe_refuses [of m ?t] lim by simp
  have "\<forall>h. int (Cardinality_Count h ?t) \<le> max 0 limit \<and> distinct (host_series ?t h)"
    using inv by (simp add: card_inv_def lim Cardinality_Count_def)
  moreover have "fst (Cardinality_Observe m ?t) = None \<longleftrightarrow>
      ?key \<in> set (host_series (snd (Cardinality_Observe m ?t)) (me_hostID m))"
    using err by (auto simp: Observe_series lim)
  ultimately show ?thesis
    using err series_grow [of ?t _ m] unfolding Let_def split_beta Cardinality_Count_def by blast
qed

text \<open>
  Series keys do not collide: for names and labels without the separator byte (and no equals sign
  in a key), two metrics have the same series key exactly when they have the same name and the same
  label map, in whatever order the maps are iterated.
\<close>

theorem series_key_injective:
  assumes "is_map l" "is_map l'" "clean_labels l" "clean_labels l'" "us \<notin> set n" "us \<notin> set n'"
  shows "seriesKey n l = seriesKey n' l' \<longleftrightarrow> n = n' \<and> map_of l = map_of l'"
proof
  assume "seriesKey n l = seriesKey n' l'"
  then show "n = n' \<and> map_of l = map_of l'"
    using kv_join_inj [OF assms(3,4,1,2,5,6)] by (simp add: seriesKey_def)
next
  assume eq: "n = n' \<and> map_of l = map_of l'"
  then have "set l = set l'"
    using assms(1,2) by (metis is_map_def map_of_inject_set)
  then have "mset l = mset l'"
    using assms(1,2) by (metis is_map_def distinct_map set_eq_iff_mset_eq_distinct)
  from kv_join_perm [OF assms(1) this] eq show "seriesKey n l = seriesKey n' l'"
    by (simp add: seriesKey_def)
qed

theorem series_key_injective_witness:
  "seriesKey ''m'' [(''a'', ''1''), (''b'', ''2'')] \<noteq> seriesKey ''m'' [(''a'', ''1''), (''b'', ''3'')]"
proof -
  have "map_of [(''a'', ''1''), (''b'', ''2'')] ''b'' \<noteq> map_of [(''a'', ''1''), (''b'', ''3'')] ''b''"
    by simp
  then have "map_of [(''a'', ''1''), (''b'', ''2'')] \<noteq> map_of [(''a'', ''1''), (''b'', ''3'')]"
    by metis
  then show ?thesis
    using series_key_injective [of "[(''a'', ''1''), (''b'', ''2'')]" "[(''a'', ''1''), (''b'', ''3'')]"
        "''m''" "''m''"]
    by (simp add: is_map_def clean_labels_def us_def)
qed

text \<open>
  The host identity is stable: once \<open>LoadOrCreateHostID\<close> has returned an identity, whatever the
  state of the disk it started from, every later call that can read the file returns the same identity
  and leaves the file alone (for generated identities without surrounding white space).
\<close>

theorem host_id_stable:
  assumes "LoadOrCreateHostID readErr ulid saved file = (Inr i, file')"
    and "\<And>u. ulid = Some u \<Longrightarrow> trim_space (u @ [nl]) = u \<and> u \<noteq> []"
  shows "LoadOrCreateHostID False ulid' saved' file' = (Inr i, file')"
  using assms
  by (auto simp: LoadOrCreateHostID_def read_hostid_def persistHostID_def Let_def
      split: option.splits if_splits)

theorem host_id_stable_witness:
  "LoadOrCreateHostID False None False
     (snd (LoadOrCreateHostID False (Some ''01ABC'') True None)) = (Inr ''01ABC'', Some (''01ABC'' @ [nl]))"
proof -
  have r: "LoadOrCreateHostID False (Some ''01ABC'') True None = (Inr ''01ABC'', Some (''01ABC'' @ [nl]))"
    by (simp add: LoadOrCreateHostID_def read_hostid_def persistHostID_def)
  have t: "trim_space (''01ABC'' @ [nl]) = ''01ABC''"
    by (simp add: trim_space_def is_space_def nl_def)
  show ?thesis
    using host_id_stable [OF r, of None False] t by (simp add: r)
qed

end
