(* ===== verification/Wal.thy ===== *)
theory Wal
  imports Schema
begin

text \<open>
  The agent's outbound write-ahead log, \<open>internal/agentbuffer\<close>: the segment files (\<open>segment.go\<close>) and
  the buffer over them (\<open>buffer.go\<close>).  The disk is explicit: a directory of named files, the contents
  of leftover temporary files, and a script of faults.  Every call that can fail takes the next entry
  of the script (\<open>None\<close>, also when the script is empty: it succeeds; \<open>Some k\<close>: it fails, and a write
  gets \<open>k\<close> bytes out first), so a statement for all disks is a statement for all failure patterns, and
  the disk a failed operation leaves is what a crash at that point leaves.

  JSON and zstd are a parameter, the record \<open>codec\<close>: marshalling may fail (it does for the float
  values JSON does not have), and \<open>codec_ok\<close> states what the log relies on.  A ULID file name is an
  argument of the operation that draws it.  Paths are relative to the buffer's directory.
\<close>

subsection \<open>Items (buffer.go)\<close>

datatype priority = PriorityLogLine | PriorityMetric | PriorityEvent

record item =
  it_seq :: nat
  it_priority :: priority
  it_ts :: time
  it_metric :: "metric option"
  it_event :: "event option"
  it_logLine :: "logLine option"
  it_inventory :: "inventory option"

definition DefaultMaxAge :: duration where
  "DefaultMaxAge = 2 * hour"

definition DefaultMaxBytes :: int where
  "DefaultMaxBytes = 268435456"

definition DefaultSegmentBytes :: int where
  "DefaultSegmentBytes = 4194304"

subsection \<open>Disk and codec\<close>

record disk =
  dk_files :: "(string \<times> string) list"
  dk_temps :: "string list"
  dk_faults :: "nat option list"

record codec =
  marshal :: "item \<Rightarrow> string option"
  unmarshal :: "string \<Rightarrow> item option"
  zcomp :: "string \<Rightarrow> string"
  zdecomp :: "string \<Rightarrow> string option"

datatype io_error = EIO | ENoEnt | EClosed | EMarshal | EParse | EDecompress | ETooLong | ENotFound nat

definition next_call :: "disk \<Rightarrow> nat option \<times> disk" where
  "next_call d = (case dk_faults d of [] \<Rightarrow> (None, d) | f # fs \<Rightarrow> (f, d\<lparr>dk_faults := fs\<rparr>))"

text \<open>Several calls in a row, all with the same way out on failure.\<close>

fun calls :: "nat \<Rightarrow> disk \<Rightarrow> bool \<times> disk" where
  "calls 0 d = (True, d)"
| "calls (Suc n) d =
     (case next_call d of (None, d') \<Rightarrow> calls n d' | (Some _, d') \<Rightarrow> (False, d'))"

definition content :: "disk \<Rightarrow> string \<Rightarrow> string option" where
  "content d p = map_of (dk_files d) p"

definition put_file :: "string \<Rightarrow> string \<Rightarrow> disk \<Rightarrow> disk" where
  "put_file p c d = d\<lparr>dk_files := AList.update p c (dk_files d)\<rparr>"

definition del_file :: "string \<Rightarrow> disk \<Rightarrow> disk" where
  "del_file p d = d\<lparr>dk_files := AList.delete p (dk_files d)\<rparr>"

text \<open>\<open>os.Remove\<close> and \<open>os.ReadFile\<close>.\<close>

definition remove_file :: "string \<Rightarrow> disk \<Rightarrow> io_error option \<times> disk" where
  "remove_file p d =
     (case next_call d of
        (Some _, d') \<Rightarrow> (Some EIO, d')
      | (None, d') \<Rightarrow> if content d p = None then (Some ENoEnt, d') else (None, del_file p d'))"

definition read_file :: "string \<Rightarrow> disk \<Rightarrow> (io_error + string) \<times> disk" where
  "read_file p d =
     (case next_call d of
        (Some _, d') \<Rightarrow> (Inl EIO, d')
      | (None, d') \<Rightarrow> (case content d p of None \<Rightarrow> (Inl ENoEnt, d') | Some c \<Rightarrow> (Inr c, d')))"

text \<open>A write to a file opened with \<open>O_APPEND\<close>.\<close>

definition append_file :: "string \<Rightarrow> string \<Rightarrow> disk \<Rightarrow> bool \<times> disk" where
  "append_file p bytes d =
     (let old = (case content d p of None \<Rightarrow> [] | Some c \<Rightarrow> c) in
      case next_call d of
        (Some k, d') \<Rightarrow> (False, put_file p (old @ take k bytes) d')
      | (None, d') \<Rightarrow> (True, put_file p (old @ bytes) d'))"

text \<open>The size that \<open>os.Stat\<close> reports, if it succeeds.\<close>

definition stat_size :: "string \<Rightarrow> disk \<Rightarrow> nat option \<times> disk" where
  "stat_size p d =
     (case next_call d of
        (Some _, d') \<Rightarrow> (None, d')
      | (None, d') \<Rightarrow> (map_option length (content d p), d'))"

subsection \<open>Sealed segments (buffer.go)\<close>

record sealedSegment =
  ss_path :: string
  ss_minSeq :: nat
  ss_maxSeq :: nat
  ss_count :: nat
  ss_byteSize :: nat

definition walSuffix :: string where
  "walSuffix = ''.wal''"

definition zstSuffix :: string where
  "zstSuffix = ''.wal.zst''"

fun write_lines :: "codec \<Rightarrow> item list \<Rightarrow> disk \<Rightarrow> (io_error + string) \<times> disk" where
  "write_lines C [] d = (Inr [], d)"
| "write_lines C (it # its) d =
     (case marshal C it of
        None \<Rightarrow> (Inl EMarshal, d)
      | Some line \<Rightarrow>
          (case next_call d of
             (Some _, d') \<Rightarrow> (Inl EIO, d')
           | (None, d') \<Rightarrow>
               (case write_lines C its d' of
                  (Inl e, d'') \<Rightarrow> (Inl e, d'')
                | (Inr rest, d'') \<Rightarrow> (Inr (line @ nl # rest), d''))))"

definition writeSealedSegment :: "codec \<Rightarrow> string \<Rightarrow> item list \<Rightarrow> disk \<Rightarrow> io_error option \<times> disk" where
  "writeSealedSegment C path items d =
     (case calls 2 d of
        (False, d1) \<Rightarrow> (Some EIO, d1)
      | (True, d1) \<Rightarrow>
          (case write_lines C items d1 of
             (Inl e, d2) \<Rightarrow> (Some e, d2)
           | (Inr raw, d2) \<Rightarrow>
               (case calls 3 d2 of
                  (False, d3) \<Rightarrow> (Some EIO, d3)
                | (True, d3) \<Rightarrow>
                    (case next_call d3 of
                       (Some _, d4) \<Rightarrow> (Some EIO, d4\<lparr>dk_temps := zcomp C raw # dk_temps d4\<rparr>)
                     | (None, d4) \<Rightarrow> (None, put_file path (zcomp C raw) d4)))))"

text \<open>
  The scanner of \<open>readSealedSegment\<close>: a line that does not fit its 8 MiB buffer stops it, a trailing
  carriage return is dropped, empty lines are skipped.
\<close>

definition maxToken :: nat where
  "maxToken = 8388608"

definition drop_cr :: "string \<Rightarrow> string" where
  "drop_cr l = (if l \<noteq> [] \<and> last l = CHR 0x0d then butlast l else l)"

fun scan_items :: "codec \<Rightarrow> string list \<Rightarrow> io_error + item list" where
  "scan_items C [] = Inr []"
| "scan_items C (l # ls) =
     (if maxToken \<le> length l then Inl ETooLong
      else if drop_cr l = [] then scan_items C ls
      else (case unmarshal C (drop_cr l) of
              None \<Rightarrow> Inl EParse
            | Some it \<Rightarrow>
                (case scan_items C ls of Inl e \<Rightarrow> Inl e | Inr its \<Rightarrow> Inr (it # its))))"

definition decode_segment :: "codec \<Rightarrow> string \<Rightarrow> io_error + item list" where
  "decode_segment C c =
     (case zdecomp C c of None \<Rightarrow> Inl EDecompress | Some raw \<Rightarrow> scan_items C (split_on nl raw))"

definition readSealedSegment :: "codec \<Rightarrow> string \<Rightarrow> disk \<Rightarrow> (io_error + item list) \<times> disk" where
  "readSealedSegment C path d =
     (case read_file path d of
        (Inl e, d1) \<Rightarrow> (Inl e, d1)
      | (Inr c, d1) \<Rightarrow>
          (case calls 2 d1 of
             (False, d2) \<Rightarrow> (Inl EIO, d2)
           | (True, d2) \<Rightarrow> (decode_segment C c, d2)))"

text \<open>The metadata of a segment holding \<open>items\<close>.\<close>

definition seg_of :: "string \<Rightarrow> item list \<Rightarrow> nat \<Rightarrow> sealedSegment" where
  "seg_of path items sz =
     \<lparr>ss_path = path,
      ss_minSeq = (if items = [] then 0 else it_seq (hd items)),
      ss_maxSeq = (if items = [] then 0 else it_seq (last items)),
      ss_count = length items, ss_byteSize = sz\<rparr>"

definition inspectSealedSegment :: "codec \<Rightarrow> string \<Rightarrow> disk \<Rightarrow> (io_error + sealedSegment) \<times> disk" where
  "inspectSealedSegment C path d =
     (case readSealedSegment C path d of
        (Inl e, d1) \<Rightarrow> (Inl e, d1)
      | (Inr items, d1) \<Rightarrow>
          (case stat_size path d1 of
             (None, d2) \<Rightarrow> (Inl EIO, d2)
           | (Some n, d2) \<Rightarrow> (Inr (seg_of path items n), d2)))"

text \<open>Recovery of an unsealed segment reads up to the first record that does not parse.\<close>

fun parse_records :: "codec \<Rightarrow> string list \<Rightarrow> item list" where
  "parse_records C [] = []"
| "parse_records C (l # ls) =
     (if l = [] then parse_records C ls
      else (case unmarshal C l of None \<Rightarrow> [] | Some it \<Rightarrow> it # parse_records C ls))"

definition sealOrphanedActiveSegment ::
  "codec \<Rightarrow> string \<Rightarrow> disk \<Rightarrow> (io_error + sealedSegment) \<times> disk" where
  "sealOrphanedActiveSegment C path d =
     (case read_file path d of
        (Inl e, d1) \<Rightarrow> (Inl e, d1)
      | (Inr raw, d1) \<Rightarrow>
          let items = parse_records C (split_on nl raw);
              sealedPath = trim_suffix path walSuffix @ zstSuffix in
          (case writeSealedSegment C sealedPath items d1 of
             (Some e, d2) \<Rightarrow> (Inl e, d2)
           | (None, d2) \<Rightarrow>
               (case remove_file path d2 of
                  (Some e, d3) \<Rightarrow> (Inl e, d3)
                | (None, d3) \<Rightarrow>
                    (case stat_size sealedPath d3 of
                       (n, d4) \<Rightarrow>
                         (Inr (seg_of sealedPath items (case n of None \<Rightarrow> 0 | Some k \<Rightarrow> k)), d4)))))"

subsection \<open>The active segment (segment.go)\<close>

text \<open>\<open>sw_open\<close> says whether the file descriptor is still open.\<close>

record segmentWriter =
  sw_path :: string
  sw_open :: bool
  sw_rawBytes :: nat
  sw_items :: "item list"

definition newSegmentWriter :: "string \<Rightarrow> disk \<Rightarrow> (io_error + segmentWriter) \<times> disk" where
  "newSegmentWriter ulid d =
     (let path = ulid @ walSuffix in
      case next_call d of
        (Some _, d') \<Rightarrow> (Inl EIO, d')
      | (None, d') \<Rightarrow>
          (Inr \<lparr>sw_path = path, sw_open = True, sw_rawBytes = 0, sw_items = []\<rparr>,
           (case content d path of None \<Rightarrow> put_file path [] d' | Some _ \<Rightarrow> d')))"

definition segment_write ::
  "codec \<Rightarrow> item \<Rightarrow> segmentWriter \<Rightarrow> disk \<Rightarrow> io_error option \<times> segmentWriter \<times> disk" where
  "segment_write C it w d =
     (case marshal C it of
        None \<Rightarrow> (Some EMarshal, w, d)
      | Some s \<Rightarrow>
          if \<not> sw_open w then (Some EClosed, w, d)
          else
            let line = s @ [nl] in
            (case append_file (sw_path w) line d of
               (False, d1) \<Rightarrow> (Some EIO, w, d1)
             | (True, d1) \<Rightarrow>
                 (case next_call d1 of
                    (Some _, d2) \<Rightarrow> (Some EIO, w, d2)
                  | (None, d2) \<Rightarrow>
                      (None,
                       w\<lparr>sw_rawBytes := sw_rawBytes w + length line, sw_items := sw_items w @ [it]\<rparr>,
                       d2))))"

definition segment_seal ::
  "codec \<Rightarrow> segmentWriter \<Rightarrow> disk \<Rightarrow> (io_error + sealedSegment) \<times> segmentWriter \<times> disk" where
  "segment_seal C w d =
     (if \<not> sw_open w then (Inl EClosed, w, d)
      else
        let w' = w\<lparr>sw_open := False\<rparr> in
        (case next_call d of
           (Some _, d1) \<Rightarrow> (Inl EIO, w', d1)
         | (None, d1) \<Rightarrow>
             let sealedPath = take (length (sw_path w) - length walSuffix) (sw_path w) @ zstSuffix in
             (case writeSealedSegment C sealedPath (sw_items w) d1 of
                (Some e, d2) \<Rightarrow> (Inl e, w', d2)
              | (None, d2) \<Rightarrow>
                  (case remove_file (sw_path w) d2 of
                     (Some e, d3) \<Rightarrow> (Inl e, w', d3)
                   | (None, d3) \<Rightarrow>
                       (case stat_size sealedPath d3 of
                          (n, d4) \<Rightarrow>
                            (Inr (seg_of sealedPath (sw_items w)
                                   (case n of None \<Rightarrow> 0 | Some k \<Rightarrow> k)), w', d4))))))"

text \<open>The text of a list of records, if all of them marshal.\<close>

fun records_text :: "codec \<Rightarrow> item list \<Rightarrow> string option" where
  "records_text C [] = Some []"
| "records_text C (it # its) =
     (case marshal C it of
        None \<Rightarrow> None
      | Some s \<Rightarrow> map_option (\<lambda>t. s @ nl # t) (records_text C its))"

definition segment_rewrite ::
  "codec \<Rightarrow> segmentWriter \<Rightarrow> disk \<Rightarrow> io_error option \<times> segmentWriter \<times> disk" where
  "segment_rewrite C w d =
     (if \<not> sw_open w then (Some EClosed, w, d)
      else
        (case next_call d of
           (Some _, d1) \<Rightarrow> (Some EIO, w, d1)
         | (None, d1) \<Rightarrow>
             let d2 = put_file (sw_path w) [] d1 in
             (case records_text C (sw_items w) of
                None \<Rightarrow> (Some EMarshal, w, d2)
              | Some buf \<Rightarrow>
                  (case append_file (sw_path w) buf d2 of
                     (False, d3) \<Rightarrow> (Some EIO, w, d3)
                   | (True, d3) \<Rightarrow>
                       (case next_call d3 of
                          (Some _, d4) \<Rightarrow> (Some EIO, w, d4)
                        | (None, d4) \<Rightarrow> (None, w\<lparr>sw_rawBytes := length buf\<rparr>, d4))))))"

subsection \<open>The buffer (buffer.go)\<close>

record buffer =
  bf_segmentBytes :: int
  bf_maxAge :: duration
  bf_maxBytes :: int
  bf_nextSeq :: nat
  bf_active :: "segmentWriter option"
  bf_sealed :: "sealedSegment list"
  bf_totalLen :: int

definition new_buffer :: "int \<Rightarrow> duration \<Rightarrow> int \<Rightarrow> buffer" where
  "new_buffer segmentBytes maxAge maxBytes =
     \<lparr>bf_segmentBytes = segmentBytes, bf_maxAge = maxAge, bf_maxBytes = maxBytes, bf_nextSeq = 0,
      bf_active = None, bf_sealed = [], bf_totalLen = 0\<rparr>"

definition Close :: "codec \<Rightarrow> buffer \<Rightarrow> disk \<Rightarrow> io_error option \<times> buffer \<times> disk" where
  "Close C b d =
     (case bf_active b of
        None \<Rightarrow> (None, b, d)
      | Some w \<Rightarrow>
          (case segment_seal C w d of
             (Inl e, w', d') \<Rightarrow> (Some e, b\<lparr>bf_active := Some w'\<rparr>, d')
           | (Inr seg, w', d') \<Rightarrow>
               (None, b\<lparr>bf_sealed := bf_sealed b @ [seg], bf_active := None\<rparr>, d')))"

text \<open>The active segment, opened if there is none.\<close>

definition ensure_active :: "string \<Rightarrow> buffer \<Rightarrow> disk \<Rightarrow> (io_error + segmentWriter) \<times> disk" where
  "ensure_active ulid b d =
     (case bf_active b of Some w \<Rightarrow> (Inr w, d) | None \<Rightarrow> newSegmentWriter ulid d)"

definition Append ::
  "codec \<Rightarrow> string \<Rightarrow> item \<Rightarrow> buffer \<Rightarrow> disk \<Rightarrow> (io_error + nat) \<times> buffer \<times> disk" where
  "Append C ulid item b0 d0 =
     (let n = (bf_nextSeq b0 + 1) mod 2 ^ 64;
          b = b0\<lparr>bf_nextSeq := n\<rparr>;
          it = item\<lparr>it_seq := n\<rparr> in
      case ensure_active ulid b d0 of
        (Inl e, d1) \<Rightarrow> (Inl e, b, d1)
      | (Inr w, d1) \<Rightarrow>
          (case segment_write C it w d1 of
             (Some e, w1, d2) \<Rightarrow> (Inl e, b\<lparr>bf_active := Some w1\<rparr>, d2)
           | (None, w1, d2) \<Rightarrow>
               let b1 = b\<lparr>bf_active := Some w1, bf_totalLen := bf_totalLen b + 1\<rparr> in
               if int (sw_rawBytes w1) < bf_segmentBytes b then (Inr n, b1, d2)
               else
                 (case segment_seal C w1 d2 of
                    (Inl e, w2, d3) \<Rightarrow> (Inl e, b1\<lparr>bf_active := Some w2\<rparr>, d3)
                  | (Inr seg, w2, d3) \<Rightarrow>
                      (Inr n, b1\<lparr>bf_sealed := bf_sealed b1 @ [seg], bf_active := None\<rparr>, d3))))"

definition Len :: "buffer \<Rightarrow> int" where
  "Len b = bf_totalLen b"

definition segmentFiles :: "buffer \<Rightarrow> string list" where
  "segmentFiles b =
     map ss_path (bf_sealed b) @ (case bf_active b of None \<Rightarrow> [] | Some w \<Rightarrow> [sw_path w])"

definition add_segment :: "sealedSegment \<Rightarrow> buffer \<Rightarrow> buffer" where
  "add_segment seg b =
     b\<lparr>bf_sealed := bf_sealed b @ [seg],
       bf_totalLen := bf_totalLen b + int (ss_count seg),
       bf_nextSeq := (if bf_nextSeq b < ss_maxSeq seg then ss_maxSeq seg else bf_nextSeq b)\<rparr>"

fun recover_sealed :: "codec \<Rightarrow> string list \<Rightarrow> buffer \<Rightarrow> disk \<Rightarrow> io_error option \<times> buffer \<times> disk" where
  "recover_sealed C [] b d = (None, b, d)"
| "recover_sealed C (p # ps) b d =
     (case inspectSealedSegment C p d of
        (Inl e, d1) \<Rightarrow> (Some e, b, d1)
      | (Inr seg, d1) \<Rightarrow> recover_sealed C ps (add_segment seg b) d1)"

fun recover_active :: "codec \<Rightarrow> string list \<Rightarrow> buffer \<Rightarrow> disk \<Rightarrow> io_error option \<times> buffer \<times> disk" where
  "recover_active C [] b d = (None, b, d)"
| "recover_active C (p # ps) b d =
     (case sealOrphanedActiveSegment C p d of
        (Inl e, d1) \<Rightarrow> (Some e, b, d1)
      | (Inr seg, d1) \<Rightarrow>
          if ss_count seg = 0 then recover_active C ps b d1
          else recover_active C ps (add_segment seg b) d1)"

definition sealedPaths :: "disk \<Rightarrow> string list" where
  "sealedPaths d = sort (filter (\<lambda>n. has_suffix n zstSuffix) (map fst (dk_files d)))"

definition activePaths :: "disk \<Rightarrow> string list" where
  "activePaths d =
     sort (filter (\<lambda>n. \<not> has_suffix n zstSuffix \<and> has_suffix n walSuffix) (map fst (dk_files d)))"

definition recover_buffer :: "codec \<Rightarrow> buffer \<Rightarrow> disk \<Rightarrow> io_error option \<times> buffer \<times> disk" where
  "recover_buffer C b d =
     (case next_call d of
        (Some _, d1) \<Rightarrow> (Some EIO, b, d1)
      | (None, d1) \<Rightarrow>
          let sealed_ps = sealedPaths d; active_ps = activePaths d in
          (case recover_sealed C sealed_ps b d1 of
             (Some e, b1, d2) \<Rightarrow> (Some e, b1, d2)
           | (None, b1, d2) \<Rightarrow> recover_active C active_ps b1 d2))"

text \<open>\<open>Open\<close>, with the option values the caller chose.\<close>

definition Open :: "codec \<Rightarrow> int \<Rightarrow> duration \<Rightarrow> int \<Rightarrow> disk \<Rightarrow> (io_error + buffer) \<times> disk" where
  "Open C segmentBytes maxAge maxBytes d =
     (case next_call d of
        (Some _, d1) \<Rightarrow> (Inl EIO, d1)
      | (None, d1) \<Rightarrow>
          (case recover_buffer C (new_buffer segmentBytes maxAge maxBytes) d1 of
             (Some e, b, d2) \<Rightarrow> (Inl e, d2)
           | (None, b, d2) \<Rightarrow> (Inr b, d2)))"

end
