(* ===== verification/Wal_Inv.thy ===== *)
theory Wal_Inv
  imports Wal
begin

text \<open>
  The write-ahead log's abstraction and invariant.  \<open>buffer_items\<close> is the list of buffered items,
  oldest first; \<open>wal_inv\<close> relates the buffer's memory to the directory; \<open>disk_items\<close> is what the
  directory alone holds.  The lemmas here are the frame and read-back facts of the file operations;
  \<open>Wal_Append\<close> proves appending and recovery, \<open>Wal_Remove\<close> acknowledging and discarding.
\<close>

subsection \<open>The codec\<close>

definition codec_ok :: "codec \<Rightarrow> bool" where
  "codec_ok C \<longleftrightarrow>
     (\<forall>it s. marshal C it = Some s \<longrightarrow>
        unmarshal C s = Some it \<and> nl \<notin> set s \<and> s \<noteq> [] \<and> last s \<noteq> CHR 0x0d \<and>
        (\<forall>p. strict_prefix p s \<longrightarrow> unmarshal C p = None)) \<and>
     (\<forall>r. zdecomp C (zcomp C r) = Some r)"

lemma codec_okD:
  assumes "codec_ok C" and "marshal C it = Some s"
  shows "unmarshal C s = Some it" "nl \<notin> set s" "s \<noteq> []" "last s \<noteq> CHR 0x0d"
    "\<And>p. strict_prefix p s \<Longrightarrow> unmarshal C p = None"
  using assms unfolding codec_ok_def by blast+

lemma codec_ok_zstd: "codec_ok C \<Longrightarrow> zdecomp C (zcomp C r) = Some r"
  by (simp add: codec_ok_def)

text \<open>A record that marshals to a line the scanner can read back.\<close>

definition storable :: "codec \<Rightarrow> item \<Rightarrow> bool" where
  "storable C it \<longleftrightarrow> (\<exists>s. marshal C it = Some s \<and> length s < maxToken)"

lemma records_text_append:
  "records_text C (xs @ ys) =
     Option.bind (records_text C xs) (\<lambda>a. map_option ((@) a) (records_text C ys))"
  by (induction xs) (auto simp: option.map_comp comp_def map_option_case split: option.splits)

lemma records_text_exists: "list_all (storable C) its \<Longrightarrow> \<exists>raw. records_text C its = Some raw"
  by (induction its) (auto simp: storable_def)

lemma scan_records:
  assumes "codec_ok C" and "records_text C its = Some raw" and "list_all (storable C) its"
  shows "scan_items C (split_on nl raw) = Inr its"
  using assms(2,3)
proof (induction its arbitrary: raw)
  case Nil
  then show ?case by (simp add: drop_cr_def maxToken_def)
next
  case (Cons it its)
  then obtain s t where s: "marshal C it = Some s" "length s < maxToken"
    and t: "records_text C its = Some t" and raw: "raw = s @ nl # t"
    by (auto simp: storable_def split: option.splits)
  note ok = codec_okD [OF assms(1) s(1)]
  have "drop_cr s = s" using ok(4) by (simp add: drop_cr_def)
  with Cons.IH [OF t] Cons.prems(2) ok s(2) raw show ?case by simp
qed

lemma parse_records_text:
  assumes "codec_ok C" and "records_text C its = Some raw"
  shows "parse_records C (split_on nl (raw @ rest)) = its @ parse_records C (split_on nl rest)"
  using assms(2)
proof (induction its arbitrary: raw)
  case (Cons it its)
  then obtain s t where s: "marshal C it = Some s"
    and t: "records_text C its = Some t" and raw: "raw = s @ nl # t"
    by (auto split: option.splits)
  with Cons.IH [OF t] codec_okD [OF assms(1) s] show ?case by simp
qed simp

text \<open>A torn last record is dropped, unless all of it but the newline got out.\<close>

lemma parse_records_torn:
  assumes "codec_ok C" and "marshal C it = Some s"
  shows "parse_records C (split_on nl (take k (s @ [nl]))) = (if length s \<le> k then [it] else [])"
proof (cases "length s \<le> k")
  case True
  then have "take k (s @ [nl]) = s \<or> take k (s @ [nl]) = s @ [nl]"
    by (cases "k = length s") simp_all
  with codec_okD [OF assms] True show ?thesis by auto
next
  case False
  then have "length (take k s) \<noteq> length s" by simp
  then have p: "strict_prefix (take k s) s"
    by (metis strict_prefix_def take_is_prefix)
  have "nl \<notin> set (take k s)" using codec_okD(2) [OF assms] by (auto dest: in_set_takeD)
  with False codec_okD(5) [OF assms p] show ?thesis by simp
qed

subsection \<open>File operations\<close>

lemma next_call_files [simp]: "dk_files (snd (next_call d)) = dk_files d"
  by (simp add: next_call_def split: list.splits)

lemma next_callD: "next_call d = (r, d') \<Longrightarrow> dk_files d' = dk_files d"
  using next_call_files [of d] by simp

lemma next_call_quiet [simp]: "dk_faults d = [] \<Longrightarrow> next_call d = (None, d)"
  by (simp add: next_call_def)

lemma calls_quiet [simp]: "dk_faults d = [] \<Longrightarrow> calls n d = (True, d)"
  by (induction n) simp_all

lemma callsD: "calls n d = (r, d') \<Longrightarrow> dk_files d' = dk_files d"
proof (induction n arbitrary: d)
  case (Suc n)
  then show ?case by (auto split: prod.splits option.splits dest!: next_callD)
qed simp

lemma content_cong: "dk_files d' = dk_files d \<Longrightarrow> content d' = content d"
  by (simp add: content_def fun_eq_iff)

lemma content_put [simp]: "content (put_file p c d) = (content d)(p \<mapsto> c)"
  by (simp add: content_def put_file_def update_conv' fun_eq_iff)

lemma content_del [simp]: "content (del_file p d) = (content d)(p := None)"
  by (simp add: content_def del_file_def delete_conv' fun_eq_iff)

lemma faults_put [simp]: "dk_faults (put_file p c d) = dk_faults d"
  by (simp add: put_file_def)

lemma faults_del [simp]: "dk_faults (del_file p d) = dk_faults d"
  by (simp add: del_file_def)

text \<open>A directory never lists a name twice.\<close>

definition dir_ok :: "disk \<Rightarrow> bool" where
  "dir_ok d \<longleftrightarrow> distinct (map fst (dk_files d))"

lemma dir_ok_put [simp]: "dir_ok d \<Longrightarrow> dir_ok (put_file p c d)"
  by (simp add: dir_ok_def put_file_def distinct_update)

lemma dir_ok_del [simp]: "dir_ok d \<Longrightarrow> dir_ok (del_file p d)"
  by (simp add: dir_ok_def del_file_def distinct_delete)

lemma dir_ok_cong: "dk_files d' = dk_files d \<Longrightarrow> dir_ok d' = dir_ok d"
  by (simp add: dir_ok_def)

lemma write_linesD:
  "write_lines C its d = (r, d') \<Longrightarrow>
   dk_files d' = dk_files d \<and> (\<forall>raw. r = Inr raw \<longrightarrow> records_text C its = Some raw)"
proof (induction its arbitrary: d r d')
  case (Cons it its)
  then show ?case
    by (auto split: option.splits prod.splits sum.splits dest!: next_callD)
qed simp

lemma write_lines_quiet:
  "dk_faults d = [] \<Longrightarrow> records_text C its = Some raw \<Longrightarrow> write_lines C its d = (Inr raw, d)"
  by (induction its arbitrary: raw) (auto split: option.splits)

lemma writeSealedSegmentD:
  assumes "writeSealedSegment C path its d = (r, d')"
  shows "r \<noteq> None \<Longrightarrow> dk_files d' = dk_files d"
    and "r = None \<Longrightarrow> \<exists>raw. records_text C its = Some raw \<and>
      dk_files d' = dk_files (put_file path (zcomp C raw) d)"
proof -
  obtain ok1 d1 where c1: "calls 2 d = (ok1, d1)" by (meson surj_pair)
  obtain w d2 where c2: "write_lines C its d1 = (w, d2)" by (meson surj_pair)
  obtain ok3 d3 where c3: "calls 3 d2 = (ok3, d3)" by (meson surj_pair)
  obtain f4 d4 where c4: "next_call d3 = (f4, d4)" by (meson surj_pair)
  note fs = callsD [OF c1] write_linesD [OF c2] callsD [OF c3] next_callD [OF c4]
  from assms fs show "r \<noteq> None \<Longrightarrow> dk_files d' = dk_files d"
    by (auto simp: writeSealedSegment_def c1 c2 c3 c4 split: bool.splits sum.splits option.splits)
  from assms fs show "r = None \<Longrightarrow> \<exists>raw. records_text C its = Some raw \<and>
      dk_files d' = dk_files (put_file path (zcomp C raw) d)"
    by (auto simp: writeSealedSegment_def c1 c2 c3 c4 put_file_def
        split: bool.splits sum.splits option.splits)
qed

lemma writeSealedSegment_quiet:
  "dk_faults d = [] \<Longrightarrow> records_text C its = Some raw \<Longrightarrow>
   writeSealedSegment C path its d = (None, put_file path (zcomp C raw) d)"
  by (simp add: writeSealedSegment_def write_lines_quiet)

lemma remove_fileD:
  assumes "remove_file p d = (r, d')"
  shows "r \<noteq> None \<Longrightarrow> dk_files d' = dk_files d" "r = None \<Longrightarrow> dk_files d' = dk_files (del_file p d)"
  using assms
  by (auto simp: remove_file_def del_file_def split: prod.splits option.splits if_splits
      dest!: next_callD)

lemma remove_file_quiet:
  "dk_faults d = [] \<Longrightarrow> content d p \<noteq> None \<Longrightarrow> remove_file p d = (None, del_file p d)"
  by (simp add: remove_file_def)

lemma stat_sizeD: "stat_size p d = (r, d') \<Longrightarrow> dk_files d' = dk_files d"
  by (auto simp: stat_size_def split: prod.splits option.splits dest!: next_callD)

lemma stat_size_quiet: "dk_faults d = [] \<Longrightarrow> stat_size p d = (map_option length (content d p), d)"
  by (simp add: stat_size_def)

lemma read_fileD:
  assumes "read_file p d = (r, d')"
  shows "dk_files d' = dk_files d" "r = Inr c \<Longrightarrow> content d p = Some c"
  using assms
  by (auto simp: read_file_def split: prod.splits option.splits dest!: next_callD)

lemma read_file_quiet: "dk_faults d = [] \<Longrightarrow> content d p = Some c \<Longrightarrow> read_file p d = (Inr c, d)"
  by (simp add: read_file_def)

lemma append_fileD:
  assumes "append_file p bytes d = (ok, d')" and "content d p = Some old"
  shows "\<exists>k. dk_files d' = dk_files (put_file p (old @ take k bytes) d) \<and> (ok \<longrightarrow> length bytes \<le> k)"
proof -
  obtain f d1 where c: "next_call d = (f, d1)" by (meson surj_pair)
  show ?thesis
  proof (cases f)
    case None
    with assms c next_callD [OF c] show ?thesis
      by (intro exI [of _ "length bytes"]) (auto simp: append_file_def put_file_def)
  next
    case (Some k)
    with assms c next_callD [OF c] show ?thesis
      by (intro exI [of _ k]) (auto simp: append_file_def put_file_def)
  qed
qed

lemma append_file_quiet:
  "dk_faults d = [] \<Longrightarrow> content d p = Some old \<Longrightarrow>
   append_file p bytes d = (True, put_file p (old @ bytes) d)"
  by (simp add: append_file_def)

subsection \<open>What a segment file holds\<close>

definition seg_items :: "codec \<Rightarrow> disk \<Rightarrow> string \<Rightarrow> item list" where
  "seg_items C d p =
     (case content d p of
        None \<Rightarrow> []
      | Some c \<Rightarrow> (case decode_segment C c of Inl _ \<Rightarrow> [] | Inr its \<Rightarrow> its))"

definition wal_items :: "codec \<Rightarrow> disk \<Rightarrow> string \<Rightarrow> item list" where
  "wal_items C d p =
     (case content d p of None \<Rightarrow> [] | Some c \<Rightarrow> parse_records C (split_on nl c))"

text \<open>A well-formed sealed file: the compressed text of records the scanner can read.\<close>

definition sealed_text :: "codec \<Rightarrow> string \<Rightarrow> bool" where
  "sealed_text C c \<longleftrightarrow>
     (\<exists>its raw. records_text C its = Some raw \<and> list_all (storable C) its \<and> c = zcomp C raw)"

lemma decode_text:
  "codec_ok C \<Longrightarrow> records_text C its = Some raw \<Longrightarrow> list_all (storable C) its \<Longrightarrow>
   decode_segment C (zcomp C raw) = Inr its"
  by (simp add: decode_segment_def codec_ok_zstd scan_records)

lemma seg_items_put [simp]:
  "codec_ok C \<Longrightarrow> records_text C its = Some raw \<Longrightarrow> list_all (storable C) its \<Longrightarrow>
   content d p = Some (zcomp C raw) \<Longrightarrow> seg_items C d p = its"
  by (simp add: seg_items_def decode_text)

lemma seg_items_cong: "content d' p = content d p \<Longrightarrow> seg_items C d' p = seg_items C d p"
  by (simp add: seg_items_def)

lemma sealed_text_items:
  assumes "codec_ok C" and "sealed_text C c" and "content d p = Some c"
  shows "list_all (storable C) (seg_items C d p) \<and> decode_segment C c = Inr (seg_items C d p) \<and>
    (\<exists>raw. records_text C (seg_items C d p) = Some raw \<and> c = zcomp C raw)"
  using assms by (auto simp: sealed_text_def seg_items_def decode_text)

lemma readSealedSegmentD:
  assumes "readSealedSegment C p d = (r, d')"
  shows "dk_files d' = dk_files d"
    and "codec_ok C \<Longrightarrow> content d p = Some c \<Longrightarrow> sealed_text C c \<Longrightarrow> r = Inr its \<Longrightarrow> its = seg_items C d p"
proof -
  obtain r1 d1 where c1: "read_file p d = (r1, d1)" by (meson surj_pair)
  obtain ok d2 where c2: "calls 2 d1 = (ok, d2)" by (meson surj_pair)
  note fs = read_fileD(1) [OF c1] callsD [OF c2]
  from assms fs show "dk_files d' = dk_files d"
    by (auto simp: readSealedSegment_def c1 c2 split: sum.splits bool.splits)
  assume ok: "codec_ok C" and c: "content d p = Some c" "sealed_text C c" and r: "r = Inr its"
  from assms r have "\<exists>c'. r1 = Inr c' \<and> decode_segment C c' = Inr its"
    by (auto simp: readSealedSegment_def c1 c2 split: sum.splits bool.splits)
  with read_fileD(2) [OF c1] c(1) have "decode_segment C c = Inr its" by auto
  with sealed_text_items [OF ok c(2,1)] show "its = seg_items C d p" by simp
qed

lemma readSealedSegment_quiet:
  "dk_faults d = [] \<Longrightarrow> content d p = Some c \<Longrightarrow> readSealedSegment C p d = (decode_segment C c, d)"
  by (simp add: readSealedSegment_def read_file_quiet)

subsection \<open>The directory\<close>

definition zst_paths :: "disk \<Rightarrow> string set" where
  "zst_paths d = {p. content d p \<noteq> None \<and> has_suffix p zstSuffix}"

definition wal_paths :: "disk \<Rightarrow> string set" where
  "wal_paths d = {p. content d p \<noteq> None \<and> \<not> has_suffix p zstSuffix \<and> has_suffix p walSuffix}"

lemma content_dom: "content d p \<noteq> None \<longleftrightarrow> p \<in> fst ` set (dk_files d)"
  by (simp add: content_def map_of_eq_None_iff)

lemma set_sealedPaths [simp]: "set (sealedPaths d) = zst_paths d"
  using content_dom [of d] by (auto simp: sealedPaths_def zst_paths_def)

lemma set_activePaths [simp]: "set (activePaths d) = wal_paths d"
  using content_dom [of d] by (auto simp: activePaths_def wal_paths_def)

lemma sealedPaths_sorted: "dir_ok d \<Longrightarrow> sorted (sealedPaths d) \<and> distinct (sealedPaths d)"
  by (simp add: sealedPaths_def dir_ok_def)

lemma activePaths_sorted: "dir_ok d \<Longrightarrow> sorted (activePaths d) \<and> distinct (activePaths d)"
  by (simp add: activePaths_def dir_ok_def)

lemma activePaths_Nil: "wal_paths d = {} \<Longrightarrow> activePaths d = []"
  by (metis set_activePaths set_empty)

lemma activePaths_single: "dir_ok d \<Longrightarrow> wal_paths d = {p} \<Longrightarrow> activePaths d = [p]"
  using activePaths_sorted [of d] set_activePaths [of d]
  by (cases "activePaths d"; cases "tl (activePaths d)") (auto simp: insert_eq_iff)

lemma wal_not_zst [simp]: "\<not> has_suffix (u @ walSuffix) zstSuffix"
proof
  assume "has_suffix (u @ walSuffix) zstSuffix"
  then have "last (u @ walSuffix) = last zstSuffix"
    by (rule has_suffix_last) (simp add: zstSuffix_def)
  then show False by (simp add: walSuffix_def zstSuffix_def)
qed

lemma suffixes_differ [simp]: "zstSuffix \<noteq> walSuffix" "walSuffix \<noteq> zstSuffix"
  by (simp_all add: walSuffix_def zstSuffix_def)

lemma zst_neq_wal [simp]: "u @ zstSuffix \<noteq> v @ walSuffix" "v @ walSuffix \<noteq> u @ zstSuffix"
  using wal_not_zst [of v] has_suffix_append [of u zstSuffix] by metis+

lemma paths_cong:
  "content d' = content d \<Longrightarrow> zst_paths d' = zst_paths d"
  "content d' = content d \<Longrightarrow> wal_paths d' = wal_paths d"
  by (simp_all add: zst_paths_def wal_paths_def)

lemma paths_put [simp]:
  "zst_paths (put_file (u @ zstSuffix) c d) = insert (u @ zstSuffix) (zst_paths d)"
  "wal_paths (put_file (u @ zstSuffix) c d) = wal_paths d"
  "zst_paths (put_file (u @ walSuffix) c d) = zst_paths d"
  "wal_paths (put_file (u @ walSuffix) c d) = insert (u @ walSuffix) (wal_paths d)"
  by (auto simp: zst_paths_def wal_paths_def)

lemma paths_del [simp]:
  "zst_paths (del_file p d) = zst_paths d - {p}"
  "wal_paths (del_file p d) = wal_paths d - {p}"
  by (auto simp: zst_paths_def wal_paths_def)

lemma wal_path_not_zst: "p \<in> zst_paths d \<Longrightarrow> p \<noteq> u @ walSuffix"
  by (auto simp: zst_paths_def)

lemma concat_sorted_sub:
  assumes "sorted xs" "distinct xs" "sorted_wrt (<) ys" "set ys \<subseteq> set xs"
    and "\<And>x. x \<in> set xs \<Longrightarrow> x \<notin> set ys \<Longrightarrow> f x = []"
  shows "concat (map f xs) = concat (map f ys)"
proof -
  have "concat (map f xs) = concat (map f (filter (\<lambda>x. x \<in> set ys) xs))"
    using assms(5) by (induction xs) auto
  moreover have "filter (\<lambda>x. x \<in> set ys) xs = ys"
  proof (rule sorted_distinct_set_unique)
    show "sorted (filter (\<lambda>x. x \<in> set ys) xs)" "distinct (filter (\<lambda>x. x \<in> set ys) xs)"
      using assms(1,2) by (simp_all add: sorted_wrt_filter)
    show "sorted ys" "distinct ys" using assms(3) by (simp_all add: strict_sorted_iff)
    show "set (filter (\<lambda>x. x \<in> set ys) xs) = set ys" using assms(4) by auto
  qed
  ultimately show ?thesis by simp
qed

subsection \<open>The invariant\<close>

definition sealed_items :: "codec \<Rightarrow> disk \<Rightarrow> sealedSegment list \<Rightarrow> item list" where
  "sealed_items C d segs = concat (map (\<lambda>s. seg_items C d (ss_path s)) segs)"

lemma sealed_items_simps [simp]:
  "sealed_items C d [] = []"
  "sealed_items C d (s # segs) = seg_items C d (ss_path s) @ sealed_items C d segs"
  "sealed_items C d (segs @ segs') = sealed_items C d segs @ sealed_items C d segs'"
  by (simp_all add: sealed_items_def)

lemma sealed_items_cong:
  "(\<And>s. s \<in> set segs \<Longrightarrow> seg_items C d' (ss_path s) = seg_items C d (ss_path s)) \<Longrightarrow>
   sealed_items C d' segs = sealed_items C d segs"
  by (induction segs) simp_all

definition buffer_items :: "codec \<Rightarrow> buffer \<Rightarrow> disk \<Rightarrow> item list" where
  "buffer_items C b d =
     sealed_items C d (bf_sealed b) @
     (case bf_active b of None \<Rightarrow> [] | Some w \<Rightarrow> sw_items w)"

definition seg_ok :: "codec \<Rightarrow> disk \<Rightarrow> sealedSegment \<Rightarrow> bool" where
  "seg_ok C d s \<longleftrightarrow>
     has_suffix (ss_path s) zstSuffix \<and>
     (\<exists>c. content d (ss_path s) = Some c \<and> sealed_text C c) \<and>
     s = seg_of (ss_path s) (seg_items C d (ss_path s)) (ss_byteSize s)"

definition act_ok :: "codec \<Rightarrow> disk \<Rightarrow> segmentWriter \<Rightarrow> bool" where
  "act_ok C d w \<longleftrightarrow>
     sw_open w \<and> list_all (storable C) (sw_items w) \<and>
     (\<exists>raw. records_text C (sw_items w) = Some raw \<and> content d (sw_path w) = Some raw \<and>
        sw_rawBytes w = length raw) \<and>
     (\<exists>u. sw_path w = u @ walSuffix \<and> (\<forall>p \<in> zst_paths d. p < u @ zstSuffix))"

definition active_paths :: "buffer \<Rightarrow> string set" where
  "active_paths b = (case bf_active b of None \<Rightarrow> {} | Some w \<Rightarrow> {sw_path w})"

definition files_inv :: "codec \<Rightarrow> buffer \<Rightarrow> disk \<Rightarrow> bool" where
  "files_inv C b d \<longleftrightarrow>
     dir_ok d \<and> (\<forall>s \<in> set (bf_sealed b). seg_ok C d s) \<and>
     sorted_wrt (<) (map ss_path (bf_sealed b)) \<and>
     (\<forall>p \<in> zst_paths d. p \<in> ss_path ` set (bf_sealed b) \<or> content d p = Some (zcomp C [])) \<and>
     wal_paths d = active_paths b \<and>
     (\<forall>w. bf_active b = Some w \<longrightarrow> act_ok C d w)"

definition seqs_inv :: "item list \<Rightarrow> nat \<Rightarrow> bool" where
  "seqs_inv its n \<longleftrightarrow> sorted_wrt (<) (map it_seq its) \<and> (\<forall>it \<in> set its. it_seq it \<le> n)"

definition wal_inv :: "codec \<Rightarrow> buffer \<Rightarrow> disk \<Rightarrow> bool" where
  "wal_inv C b d \<longleftrightarrow>
     files_inv C b d \<and> seqs_inv (buffer_items C b d) (bf_nextSeq b) \<and>
     bf_totalLen b = int (length (buffer_items C b d))"

text \<open>What the directory holds without the buffer's memory.\<close>

definition disk_ok :: "codec \<Rightarrow> disk \<Rightarrow> bool" where
  "disk_ok C d \<longleftrightarrow>
     dir_ok d \<and> (\<forall>p \<in> zst_paths d. \<exists>c. content d p = Some c \<and> sealed_text C c) \<and>
     (wal_paths d = {} \<or>
      (\<exists>u. wal_paths d = {u @ walSuffix} \<and> list_all (storable C) (wal_items C d (u @ walSuffix)) \<and>
         (\<forall>p \<in> zst_paths d. p < u @ zstSuffix)))"

definition disk_items :: "codec \<Rightarrow> disk \<Rightarrow> item list" where
  "disk_items C d =
     concat (map (seg_items C d) (sealedPaths d)) @ concat (map (wal_items C d) (activePaths d))"

lemma files_invD:
  assumes "files_inv C b d"
  shows "dir_ok d" "\<And>s. s \<in> set (bf_sealed b) \<Longrightarrow> seg_ok C d s"
    "sorted_wrt (<) (map ss_path (bf_sealed b))"
    "\<And>p. p \<in> zst_paths d \<Longrightarrow> p \<notin> ss_path ` set (bf_sealed b) \<Longrightarrow> content d p = Some (zcomp C [])"
    "wal_paths d = active_paths b" "\<And>w. bf_active b = Some w \<Longrightarrow> act_ok C d w"
  using assms unfolding files_inv_def by blast+

lemma wal_invD:
  assumes "wal_inv C b d"
  shows "files_inv C b d" "seqs_inv (buffer_items C b d) (bf_nextSeq b)"
    "bf_totalLen b = int (length (buffer_items C b d))"
  using assms unfolding wal_inv_def by blast+

lemma sealed_text_empty: "sealed_text C (zcomp C [])"
  unfolding sealed_text_def by (rule exI [of _ "[]"]) simp

lemma sealed_in_dir: "files_inv C b d \<Longrightarrow> ss_path ` set (bf_sealed b) \<subseteq> zst_paths d"
  by (auto simp: zst_paths_def dest!: files_invD(2) simp: seg_ok_def)

lemma seg_items_empty: "codec_ok C \<Longrightarrow> content d p = Some (zcomp C []) \<Longrightarrow> seg_items C d p = []"
  by (rule seg_items_put [of C "[]"]) simp_all

lemma act_ok_wal_items:
  "codec_ok C \<Longrightarrow> act_ok C d w \<Longrightarrow> wal_items C d (sw_path w) = sw_items w"
  using parse_records_text [of C "sw_items w" _ "[]"] by (auto simp: act_ok_def wal_items_def)

lemma files_inv_zst:
  assumes "codec_ok C" "files_inv C b d" "p \<in> zst_paths d"
  shows "\<exists>c. content d p = Some c \<and> sealed_text C c"
  using files_invD(2,4) [OF assms(2)] assms(3) sealed_text_empty [of C]
  by (cases "p \<in> ss_path ` set (bf_sealed b)") (auto simp: seg_ok_def)

lemma files_inv_sealed_concat:
  assumes "codec_ok C" "files_inv C b d"
  shows "concat (map (seg_items C d) (sealedPaths d)) = sealed_items C d (bf_sealed b)"
proof -
  have "concat (map (seg_items C d) (sealedPaths d)) =
    concat (map (seg_items C d) (map ss_path (bf_sealed b)))"
  proof (rule concat_sorted_sub)
    show "sorted (sealedPaths d)" "distinct (sealedPaths d)"
      using sealedPaths_sorted [OF files_invD(1) [OF assms(2)]] by simp_all
    show "sorted_wrt (<) (map ss_path (bf_sealed b))" by (rule files_invD(3) [OF assms(2)])
    show "set (map ss_path (bf_sealed b)) \<subseteq> set (sealedPaths d)"
      using sealed_in_dir [OF assms(2)] by simp
    show "seg_items C d p = []"
      if "p \<in> set (sealedPaths d)" "p \<notin> set (map ss_path (bf_sealed b))" for p
      using that files_invD(4) [OF assms(2), of p] seg_items_empty [OF assms(1)] by simp
  qed
  then show ?thesis by (simp add: sealed_items_def comp_def)
qed

lemma files_inv_disk:
  assumes "codec_ok C" "files_inv C b d"
  shows "disk_ok C d" "disk_items C d = buffer_items C b d"
proof -
  note inv = files_invD [OF assms(2)]
  have "disk_ok C d \<and> concat (map (wal_items C d) (activePaths d)) =
      (case bf_active b of None \<Rightarrow> [] | Some w \<Rightarrow> sw_items w)"
  proof (cases "bf_active b")
    case None
    with inv(1,5) files_inv_zst [OF assms] show ?thesis
      by (simp add: disk_ok_def active_paths_def activePaths_Nil)
  next
    case (Some w)
    with inv(5,6) have w: "act_ok C d w" "wal_paths d = {sw_path w}"
      by (auto simp: active_paths_def)
    with inv(1) files_inv_zst [OF assms] act_ok_wal_items [OF assms(1) w(1)] Some show ?thesis
      by (auto simp: disk_ok_def activePaths_single act_ok_def)
  qed
  then show "disk_ok C d" "disk_items C d = buffer_items C b d"
    by (simp_all add: disk_items_def buffer_items_def files_inv_sealed_concat [OF assms])
qed

end
