(* ===== verification/Wal_Append.thy ===== *)
theory Wal_Append
  imports Wal_Inv
begin

text \<open>
  Appending to the write-ahead log, sealing and recovery.  Every successful \<open>Append\<close> adds its item at
  the end of \<open>buffer_items\<close> and keeps \<open>wal_inv\<close>; \<open>Open\<close> rebuilds, from the directory alone, a buffer
  with exactly the items of the directory.
\<close>

subsection \<open>Disks with the same files\<close>

lemma files_inv_cong:
  assumes "dk_files d' = dk_files d"
  shows "files_inv C b d' = files_inv C b d"
proof -
  note c = content_cong [OF assms]
  have "seg_items C d' = seg_items C d" by (rule ext) (simp add: seg_items_def c)
  then show ?thesis
    by (simp add: files_inv_def seg_ok_def act_ok_def c paths_cong [OF c] dir_ok_cong [OF assms])
qed

lemma buffer_items_cong: "content d' = content d \<Longrightarrow> buffer_items C b d' = buffer_items C b d"
proof -
  assume "content d' = content d"
  then have "sealed_items C d' (bf_sealed b) = sealed_items C d (bf_sealed b)"
    by (intro sealed_items_cong seg_items_cong) simp
  then show ?thesis by (simp add: buffer_items_def)
qed

lemma disk_items_cong:
  assumes "dk_files d' = dk_files d"
  shows "disk_items C d' = disk_items C d" "disk_ok C d' = disk_ok C d"
proof -
  note c = content_cong [OF assms]
  have "seg_items C d' = seg_items C d" "wal_items C d' = wal_items C d"
    by (rule ext, simp add: seg_items_def wal_items_def c)+
  then show "disk_items C d' = disk_items C d" "disk_ok C d' = disk_ok C d"
    by (simp_all add: disk_items_def sealedPaths_def activePaths_def assms disk_ok_def c
        paths_cong [OF c] dir_ok_cong [OF assms])
qed

lemma wal_inv_cong: "dk_files d' = dk_files d \<Longrightarrow> wal_inv C b d' = wal_inv C b d"
  using files_inv_cong [of d' d C b] buffer_items_cong [OF content_cong, of d' d C b]
  by (simp add: wal_inv_def)

subsection \<open>Opening the active segment\<close>

text \<open>A file name that sorts after every sealed segment, as a later ULID does.\<close>

definition fresh_name :: "string \<Rightarrow> disk \<Rightarrow> bool" where
  "fresh_name u d \<longleftrightarrow> (\<forall>p \<in> zst_paths d. p < u @ zstSuffix)"

lemma files_inv_put_wal:
  assumes inv: "files_inv C b d" and w: "act_ok C (put_file (u @ walSuffix) c d) w"
    and p: "sw_path w = u @ walSuffix" and own: "wal_paths d \<subseteq> {u @ walSuffix}"
  shows "files_inv C (b\<lparr>bf_active := Some w\<rparr>) (put_file (u @ walSuffix) c d)"
    "sealed_items C (put_file (u @ walSuffix) c d) (bf_sealed b) = sealed_items C d (bf_sealed b)"
proof -
  let ?d = "put_file (u @ walSuffix) c d"
  note i = files_invD [OF inv]
  have same: "content ?d q = content d q" if "q \<in> zst_paths d" for q
    using wal_path_not_zst [OF that] by simp
  have seg: "seg_items C ?d (ss_path s) = seg_items C d (ss_path s)" "seg_ok C ?d s"
    if "s \<in> set (bf_sealed b)" for s
  proof -
    have q: "ss_path s \<in> zst_paths d" using sealed_in_dir [OF inv] that by auto
    then show eq: "seg_items C ?d (ss_path s) = seg_items C d (ss_path s)"
      by (intro seg_items_cong same)
    show "seg_ok C ?d s" using i(2) [OF that] same [OF q] by (simp add: seg_ok_def eq)
  qed
  then show "sealed_items C ?d (bf_sealed b) = sealed_items C d (bf_sealed b)"
    by (intro sealed_items_cong)
  have "wal_paths ?d = {u @ walSuffix}" using own by auto
  with i(1,3,4) seg w p same show "files_inv C (b\<lparr>bf_active := Some w\<rparr>) ?d"
    by (auto simp: files_inv_def active_paths_def)
qed

lemma ensure_active_inv:
  assumes inv: "wal_inv C b d" and fresh: "fresh_name u d"
    and e: "ensure_active u b d = (Inr w, d1)"
  shows "wal_inv C (b\<lparr>bf_active := Some w\<rparr>) d1"
    "buffer_items C (b\<lparr>bf_active := Some w\<rparr>) d1 = buffer_items C b d"
proof -
  have "wal_inv C (b\<lparr>bf_active := Some w\<rparr>) d1 \<and>
    buffer_items C (b\<lparr>bf_active := Some w\<rparr>) d1 = buffer_items C b d"
  proof (cases "bf_active b")
    case (Some w')
    then have "w = w'" "d1 = d" and b: "b\<lparr>bf_active := Some w'\<rparr> = b"
      using e by (simp_all add: ensure_active_def)
    with inv show ?thesis by simp
  next
    case None
    note i = wal_invD [OF inv]
    obtain f d0 where c: "next_call d = (f, d0)" by (meson surj_pair)
    have nowal: "wal_paths d = {}" using files_invD(5) [OF i(1)] None by (simp add: active_paths_def)
    then have no: "content d (u @ walSuffix) = None"
      by (auto simp: wal_paths_def)
    from e None c no have w: "w = \<lparr>sw_path = u @ walSuffix, sw_open = True, sw_rawBytes = 0, sw_items = []\<rparr>"
      and d1: "d1 = put_file (u @ walSuffix) [] d0"
      by (auto simp: ensure_active_def newSegmentWriter_def Let_def split: option.splits)
    have fi: "files_inv C b d0" using i(1) files_inv_cong [OF next_callD [OF c]] by simp
    have zp: "zst_paths d0 = zst_paths d" "wal_paths d0 = wal_paths d"
      using paths_cong content_cong [OF next_callD [OF c]] by blast+
    have act: "act_ok C d1 w" using fresh by (auto simp: act_ok_def w d1 fresh_name_def zp)
    have "files_inv C (b\<lparr>bf_active := Some w\<rparr>) d1"
      and "sealed_items C d1 (bf_sealed b) = sealed_items C d0 (bf_sealed b)"
      using files_inv_put_wal [OF fi, of u "[]" w] act nowal zp by (simp_all add: w d1)
    moreover have "sealed_items C d0 (bf_sealed b) = sealed_items C d (bf_sealed b)"
      by (intro sealed_items_cong seg_items_cong) (simp add: content_cong [OF next_callD [OF c]])
    ultimately show ?thesis
      using i None by (simp add: wal_inv_def buffer_items_def w)
  qed
  then show "wal_inv C (b\<lparr>bf_active := Some w\<rparr>) d1"
    "buffer_items C (b\<lparr>bf_active := Some w\<rparr>) d1 = buffer_items C b d" by simp_all
qed

subsection \<open>Writing one record\<close>

lemma act_ok_put:
  assumes "act_ok C d w" and "content d' (sw_path w) = Some raw"
    and "records_text C its = Some raw" "list_all (storable C) its" and "zst_paths d' = zst_paths d"
  shows "act_ok C d' (w\<lparr>sw_rawBytes := length raw, sw_items := its\<rparr>)"
  using assms by (auto simp: act_ok_def)

lemma seqs_inv_snoc:
  "seqs_inv its n \<Longrightarrow> n < it_seq it \<Longrightarrow> seqs_inv (its @ [it]) (it_seq it)"
  by (auto simp: seqs_inv_def sorted_wrt_append)

lemma segment_write_files:
  assumes "act_ok C d w" and "segment_write C it w d = (r, w', d')"
  shows "\<exists>k s. (marshal C it = None \<and> dk_files d' = dk_files d \<and> r \<noteq> None) \<or>
    (marshal C it = Some s \<and>
     dk_files d' = dk_files (put_file (sw_path w) (the (content d (sw_path w)) @ take k (s @ [nl])) d) \<and>
     (r = None \<longrightarrow> length s + 1 \<le> k \<and>
        w' = w\<lparr>sw_rawBytes := sw_rawBytes w + length (s @ [nl]), sw_items := sw_items w @ [it]\<rparr>))"
proof (cases "marshal C it")
  case None
  with assms(2) show ?thesis by (auto simp: segment_write_def)
next
  case (Some s)
  obtain raw where raw: "content d (sw_path w) = Some raw" and op: "sw_open w"
    using assms(1) by (auto simp: act_ok_def)
  obtain ok d1 where c1: "append_file (sw_path w) (s @ [nl]) d = (ok, d1)" by (meson surj_pair)
  obtain f d2 where c2: "next_call d1 = (f, d2)" by (meson surj_pair)
  obtain k where k: "dk_files d1 = dk_files (put_file (sw_path w) (raw @ take k (s @ [nl])) d)"
    and okk: "ok \<longrightarrow> length (s @ [nl]) \<le> k"
    using append_fileD [OF c1 raw] by blast
  have "dk_files d' = dk_files d1"
    using assms(2) next_callD [OF c2]
    by (auto simp: segment_write_def Some op Let_def c1 c2 split: bool.splits option.splits)
  moreover have "ok \<and> w' = w\<lparr>sw_rawBytes := sw_rawBytes w + length (s @ [nl]), sw_items := sw_items w @ [it]\<rparr>"
    if "r = None"
    using assms(2) that
    by (auto simp: segment_write_def Some op Let_def c1 c2 split: bool.splits option.splits)
  ultimately show ?thesis
    using k okk Some raw by (intro exI [of _ k] exI [of _ s]) auto
qed

lemma segment_write_inv:
  assumes inv: "wal_inv C b d" and a: "bf_active b = Some w" and st: "storable C it"
    and sq: "bf_nextSeq b < it_seq it"
    and wr: "segment_write C it w d = (None, w', d')"
  shows "wal_inv C (b\<lparr>bf_active := Some w', bf_totalLen := bf_totalLen b + 1, bf_nextSeq := it_seq it\<rparr>) d'"
    "buffer_items C (b\<lparr>bf_active := Some w', bf_totalLen := bf_totalLen b + 1, bf_nextSeq := it_seq it\<rparr>) d' =
     buffer_items C b d @ [it]"
proof -
  note i = wal_invD [OF inv] and fi = files_invD [OF wal_invD(1) [OF inv]]
  have ao: "act_ok C d w" by (rule fi(6) [OF a])
  then obtain raw u where raw: "records_text C (sw_items w) = Some raw" "content d (sw_path w) = Some raw"
      "sw_rawBytes w = length raw" "list_all (storable C) (sw_items w)" and u: "sw_path w = u @ walSuffix"
    by (auto simp: act_ok_def)
  obtain s where s: "marshal C it = Some s" using st by (auto simp: storable_def)
  obtain k where k: "length s + 1 \<le> k"
    and d': "dk_files d' = dk_files (put_file (sw_path w) (raw @ take k (s @ [nl])) d)"
    and w': "w' = w\<lparr>sw_rawBytes := length (raw @ s @ [nl]), sw_items := sw_items w @ [it]\<rparr>"
    using segment_write_files [OF ao wr] s raw by auto
  define d0 where "d0 = put_file (u @ walSuffix) (raw @ s @ [nl]) d"
  have d0: "dk_files d' = dk_files d0" using d' k by (simp add: d0_def u)
  have rt: "records_text C (sw_items w @ [it]) = Some (raw @ s @ [nl])"
    by (simp add: records_text_append raw s)
  have "act_ok C d0 w'"
    unfolding w' by (rule act_ok_put [OF ao _ rt]) (use raw st in \<open>simp_all add: d0_def u\<close>)
  from files_inv_put_wal [OF i(1), of u "raw @ s @ [nl]" w'] this
  have f: "files_inv C (b\<lparr>bf_active := Some w'\<rparr>) d0"
    and m: "sealed_items C d0 (bf_sealed b) = sealed_items C d (bf_sealed b)"
    using fi(5) a by (simp_all add: d0_def w' u active_paths_def)
  have items: "buffer_items C (b\<lparr>bf_active := Some w', bf_totalLen := t, bf_nextSeq := q\<rparr>) d0 =
      buffer_items C b d @ [it]" for t q
    using m a by (simp add: buffer_items_def w')
  have "files_inv C (b\<lparr>bf_active := Some w', bf_totalLen := t, bf_nextSeq := q\<rparr>) d0" for t q
    using f by (simp add: files_inv_def active_paths_def)
  with items seqs_inv_snoc [OF i(2) sq] i(3)
  have "wal_inv C (b\<lparr>bf_active := Some w', bf_totalLen := bf_totalLen b + 1, bf_nextSeq := it_seq it\<rparr>) d0"
    by (simp add: wal_inv_def)
  with items show "wal_inv C (b\<lparr>bf_active := Some w', bf_totalLen := bf_totalLen b + 1, bf_nextSeq := it_seq it\<rparr>) d'"
    "buffer_items C (b\<lparr>bf_active := Some w', bf_totalLen := bf_totalLen b + 1, bf_nextSeq := it_seq it\<rparr>) d' =
     buffer_items C b d @ [it]"
    by (simp_all add: wal_inv_cong [OF d0] buffer_items_cong [OF content_cong [OF d0]])
qed

subsection \<open>Sealing\<close>

text \<open>
  The directory after a segment file \<open>u.wal\<close> was replaced by its compressed form.  The premises are
  weaker than \<open>files_inv\<close>, so that recovery, where the text may end in a torn record, can use them.
\<close>

definition segs_inv :: "codec \<Rightarrow> sealedSegment list \<Rightarrow> disk \<Rightarrow> bool" where
  "segs_inv C segs d \<longleftrightarrow>
     dir_ok d \<and> (\<forall>s \<in> set segs. seg_ok C d s) \<and> sorted_wrt (<) (map ss_path segs) \<and>
     (\<forall>p \<in> zst_paths d. p \<in> ss_path ` set segs \<or> content d p = Some (zcomp C []))"

lemma files_inv_segs:
  "files_inv C b d \<longleftrightarrow>
     segs_inv C (bf_sealed b) d \<and> wal_paths d = active_paths b \<and>
     (\<forall>w. bf_active b = Some w \<longrightarrow> act_ok C d w)"
  by (auto simp: files_inv_def segs_inv_def)

lemma segs_inv_in_dir: "segs_inv C segs d \<Longrightarrow> s \<in> set segs \<Longrightarrow> ss_path s \<in> zst_paths d"
  by (auto simp: segs_inv_def seg_ok_def zst_paths_def)

definition sealed_disk :: "codec \<Rightarrow> string \<Rightarrow> string \<Rightarrow> disk \<Rightarrow> disk" where
  "sealed_disk C u raw d = del_file (u @ walSuffix) (put_file (u @ zstSuffix) (zcomp C raw) d)"

lemma segs_inv_seal:
  assumes inv: "segs_inv C segs d" and new: "\<forall>p \<in> zst_paths d. p < u @ zstSuffix"
    and ok: "codec_ok C" and rt: "records_text C its = Some raw" "list_all (storable C) its"
  shows "segs_inv C (segs @ [seg_of (u @ zstSuffix) its n]) (sealed_disk C u raw d)"
    "its = [] \<Longrightarrow> segs_inv C segs (sealed_disk C u raw d)"
    "sealed_items C (sealed_disk C u raw d) segs = sealed_items C d segs"
    "seg_items C (sealed_disk C u raw d) (u @ zstSuffix) = its"
    "wal_paths (sealed_disk C u raw d) = wal_paths d - {u @ walSuffix}"
proof -
  let ?d = "sealed_disk C u raw d"
  have same: "content ?d p = content d p" if "p \<in> zst_paths d" for p
    using new that wal_path_not_zst [OF that, of u] by (auto simp: sealed_disk_def)
  have here: "content ?d (u @ zstSuffix) = Some (zcomp C raw)" by (simp add: sealed_disk_def)
  have zp: "zst_paths ?d = insert (u @ zstSuffix) (zst_paths d)"
    using wal_path_not_zst [of "u @ walSuffix" d u] by (auto simp: sealed_disk_def)
  show its: "seg_items C ?d (u @ zstSuffix) = its"
    by (rule seg_items_put [OF ok rt here])
  have seg: "seg_items C ?d (ss_path s) = seg_items C d (ss_path s)" "seg_ok C ?d s"
    if "s \<in> set segs" for s
  proof -
    have q: "ss_path s \<in> zst_paths d" by (rule segs_inv_in_dir [OF inv that])
    show eq: "seg_items C ?d (ss_path s) = seg_items C d (ss_path s)"
      by (rule seg_items_cong [OF same [OF q]])
    have "seg_ok C d s" using inv that by (simp add: segs_inv_def)
    then show "seg_ok C ?d s" by (simp add: seg_ok_def eq same [OF q])
  qed
  then show "sealed_items C ?d segs = sealed_items C d segs" by (intro sealed_items_cong)
  have "sealed_text C (zcomp C raw)" using rt by (auto simp: sealed_text_def)
  then have "seg_ok C ?d (seg_of (u @ zstSuffix) its n)"
    using here its by (simp add: seg_ok_def seg_of_def)
  moreover have "ss_path s < u @ zstSuffix" if "s \<in> set segs" for s
    using new segs_inv_in_dir [OF inv that] by blast
  ultimately show "segs_inv C (segs @ [seg_of (u @ zstSuffix) its n]) ?d"
    using inv seg same by (auto simp: segs_inv_def zp sorted_wrt_append seg_of_def sealed_disk_def)
  show "its = [] \<Longrightarrow> segs_inv C segs ?d"
    using inv seg same here rt by (auto simp: segs_inv_def zp sealed_disk_def)
  show "wal_paths ?d = wal_paths d - {u @ walSuffix}" by (simp add: sealed_disk_def)
qed

lemma segment_seal_files:
  assumes w: "act_ok C d w" "sw_path w = u @ walSuffix" "records_text C (sw_items w) = Some raw"
    and s: "segment_seal C w d = (r, w', d')"
  shows "(\<exists>e. r = Inl e \<and>
      (dk_files d' = dk_files d \<or> dk_files d' = dk_files (put_file (u @ zstSuffix) (zcomp C raw) d))) \<or>
    (\<exists>n. r = Inr (seg_of (u @ zstSuffix) (sw_items w) n) \<and> dk_files d' = dk_files (sealed_disk C u raw d))"
proof -
  have op: "sw_open w" using w(1) by (simp add: act_ok_def)
  obtain f d1 where c1: "next_call d = (f, d1)" by (meson surj_pair)
  obtain e2 d2 where c2: "writeSealedSegment C (u @ zstSuffix) (sw_items w) d1 = (e2, d2)" by (meson surj_pair)
  obtain e3 d3 where c3: "remove_file (u @ walSuffix) d2 = (e3, d3)" by (meson surj_pair)
  obtain n d4 where c4: "stat_size (u @ zstSuffix) d3 = (n, d4)" by (meson surj_pair)
  have f1: "dk_files d1 = dk_files d" by (rule next_callD [OF c1])
  have f4: "dk_files d4 = dk_files d3" by (rule stat_sizeD [OF c4])
  have f2: "e2 = None \<Longrightarrow> dk_files d2 = dk_files (put_file (u @ zstSuffix) (zcomp C raw) d)"
    using writeSealedSegmentD(2) [OF c2] w(3) f1 by (auto simp: put_file_def)
  have f2e: "e2 \<noteq> None \<Longrightarrow> dk_files d2 = dk_files d"
    using writeSealedSegmentD(1) [OF c2] f1 by simp
  have f3: "e2 = None \<Longrightarrow> e3 = None \<Longrightarrow> dk_files d3 = dk_files (sealed_disk C u raw d)"
    using remove_fileD(2) [OF c3] f2 by (simp add: sealed_disk_def del_file_def)
  have f3e: "e2 = None \<Longrightarrow> e3 \<noteq> None \<Longrightarrow> dk_files d3 = dk_files (put_file (u @ zstSuffix) (zcomp C raw) d)"
    using remove_fileD(1) [OF c3] f2 by simp
  have red: "segment_seal C w d =
     (case f of Some _ \<Rightarrow> (Inl EIO, w\<lparr>sw_open := False\<rparr>, d1)
      | None \<Rightarrow>
        (case e2 of Some e \<Rightarrow> (Inl e, w\<lparr>sw_open := False\<rparr>, d2)
         | None \<Rightarrow>
           (case e3 of Some e \<Rightarrow> (Inl e, w\<lparr>sw_open := False\<rparr>, d3)
            | None \<Rightarrow>
                (Inr (seg_of (u @ zstSuffix) (sw_items w) (case n of None \<Rightarrow> 0 | Some k \<Rightarrow> k)),
                 w\<lparr>sw_open := False\<rparr>, d4))))"
    by (cases f; cases e2; cases e3) (simp_all add: segment_seal_def op c1 w(2) c2 c3 c4 Let_def)
  show ?thesis
    using s f1 f2e f3 f3e f4 by (auto simp: red split: option.splits)
qed

lemma segment_seal_inv:
  assumes ok: "codec_ok C" and inv: "wal_inv C b d" and a: "bf_active b = Some w"
    and s: "segment_seal C w d = (Inr seg, w', d')"
  shows "wal_inv C (b\<lparr>bf_sealed := bf_sealed b @ [seg], bf_active := None\<rparr>) d'"
    "buffer_items C (b\<lparr>bf_sealed := bf_sealed b @ [seg], bf_active := None\<rparr>) d' = buffer_items C b d"
proof -
  note i = wal_invD [OF inv]
  have fi: "segs_inv C (bf_sealed b) d" and ao: "act_ok C d w" and wp: "wal_paths d = {sw_path w}"
    using i(1) a by (auto simp: files_inv_segs active_paths_def)
  obtain raw u where raw: "records_text C (sw_items w) = Some raw" "list_all (storable C) (sw_items w)"
    and u: "sw_path w = u @ walSuffix" and new: "\<forall>p \<in> zst_paths d. p < u @ zstSuffix"
    using ao by (auto simp: act_ok_def)
  obtain n where seg: "seg = seg_of (u @ zstSuffix) (sw_items w) n"
    and d': "dk_files d' = dk_files (sealed_disk C u raw d)"
    using segment_seal_files [OF ao u raw(1) s] by auto
  note z = segs_inv_seal [OF fi new ok raw]
  let ?b = "b\<lparr>bf_sealed := bf_sealed b @ [seg], bf_active := None\<rparr>"
  have "files_inv C ?b (sealed_disk C u raw d)"
    using z(1) [of n] z(5) wp by (simp add: files_inv_segs seg active_paths_def u)
  moreover have items: "buffer_items C ?b (sealed_disk C u raw d) = buffer_items C b d"
    using z(3,4) a by (simp add: buffer_items_def seg) (simp add: seg_of_def)
  ultimately have "wal_inv C ?b (sealed_disk C u raw d)" using i(2,3) by (simp add: wal_inv_def)
  with items show "wal_inv C ?b d'" "buffer_items C ?b d' = buffer_items C b d"
    by (simp_all add: wal_inv_cong [OF d'] buffer_items_cong [OF content_cong [OF d']])
qed

subsection \<open>Append and Close\<close>

lemma Append_inv:
  assumes ok: "codec_ok C" and inv: "wal_inv C b d" and fresh: "fresh_name u d"
    and nowrap: "bf_nextSeq b + 1 < 2 ^ 64"
    and st: "storable C (item\<lparr>it_seq := bf_nextSeq b + 1\<rparr>)"
    and ap: "Append C u item b d = (Inr n, b', d')"
  shows "n = bf_nextSeq b + 1" "wal_inv C b' d'"
    "buffer_items C b' d' = buffer_items C b d @ [item\<lparr>it_seq := n\<rparr>]"
proof -
  let ?n = "bf_nextSeq b + 1" and ?it = "item\<lparr>it_seq := bf_nextSeq b + 1\<rparr>"
  have m: "(bf_nextSeq b + 1) mod 2 ^ 64 = ?n" using nowrap by simp
  obtain e1 d1 where c1: "ensure_active u (b\<lparr>bf_nextSeq := ?n\<rparr>) d = (e1, d1)" by (meson surj_pair)
  have c1': "ensure_active u b d = (e1, d1)" using c1 by (simp add: ensure_active_def)
  from ap m c1 obtain w where w: "e1 = Inr w"
    by (auto simp: Append_def Let_def simp del: One_nat_def split: sum.splits)
  obtain e2 w1 d2 where c2: "segment_write C ?it w d1 = (e2, w1, d2)" by (metis prod_cases3)
  note ea = ensure_active_inv [OF inv fresh c1' [unfolded w]]
  let ?b1 = "b\<lparr>bf_active := Some w1, bf_totalLen := bf_totalLen b + 1, bf_nextSeq := ?n\<rparr>"
  have e2: "e2 = None"
    using ap m c1 w c2 by (auto simp: Append_def Let_def simp del: One_nat_def split: option.splits)
  have "bf_nextSeq (b\<lparr>bf_active := Some w\<rparr>) < it_seq ?it" by simp
  from segment_write_inv [OF ea(1) _ st this c2 [unfolded e2]]
  have w1: "wal_inv C ?b1 d2" "buffer_items C ?b1 d2 = buffer_items C b d @ [?it]"
    by (simp_all add: ea(2))
  obtain r w2 d3 where c3: "segment_seal C w1 d2 = (r, w2, d3)" by (metis prod_cases3)
  have res: "n = ?n \<and> ((b' = ?b1 \<and> d' = d2) \<or>
      (\<exists>seg. r = Inr seg \<and> b' = ?b1\<lparr>bf_sealed := bf_sealed ?b1 @ [seg], bf_active := None\<rparr> \<and> d' = d3))"
    using ap m c1 w c2 e2 c3
    by (auto simp: Append_def Let_def simp del: One_nat_def split: if_splits sum.splits)
  then show "n = ?n" by simp
  from res w1 segment_seal_inv [OF ok w1(1), of w1] c3
  show "wal_inv C b' d'" "buffer_items C b' d' = buffer_items C b d @ [item\<lparr>it_seq := n\<rparr>]"
    by auto
qed

lemma Close_inv:
  assumes "codec_ok C" "wal_inv C b d" "Close C b d = (None, b', d')"
  shows "wal_inv C b' d'" "buffer_items C b' d' = buffer_items C b d"
proof -
  have "wal_inv C b' d' \<and> buffer_items C b' d' = buffer_items C b d"
  proof (cases "bf_active b")
    case None
    with assms show ?thesis by (auto simp: Close_def)
  next
    case (Some w)
    obtain r w' d1 where c: "segment_seal C w d = (r, w', d1)" by (metis prod_cases3)
    with assms(3) Some obtain seg where "r = Inr seg" "d' = d1"
        "b' = b\<lparr>bf_sealed := bf_sealed b @ [seg], bf_active := None\<rparr>"
      by (auto simp: Close_def split: sum.splits)
    with segment_seal_inv [OF assms(1,2) Some] c show ?thesis by blast
  qed
  then show "wal_inv C b' d'" "buffer_items C b' d' = buffer_items C b d" by simp_all
qed

subsection \<open>Recovery\<close>

definition seg_at :: "codec \<Rightarrow> disk \<Rightarrow> string \<Rightarrow> sealedSegment" where
  "seg_at C d p = seg_of p (seg_items C d p) (length (the (content d p)))"

lemma inspect_quiet:
  assumes "codec_ok C" "dk_faults d = []" "content d p = Some c" "sealed_text C c"
  shows "inspectSealedSegment C p d = (Inr (seg_at C d p), d)"
  using sealed_text_items [OF assms(1,4,3)] assms(2,3)
  by (simp add: inspectSealedSegment_def readSealedSegment_quiet stat_size_quiet seg_at_def)

lemma recover_sealed_quiet:
  assumes "codec_ok C" "dk_faults d = []"
    and "\<And>p. p \<in> set ps \<Longrightarrow> \<exists>c. content d p = Some c \<and> sealed_text C c"
  shows "recover_sealed C ps b d = (None, fold add_segment (map (seg_at C d) ps) b, d)"
  using assms(3)
proof (induction ps arbitrary: b)
  case (Cons p ps)
  then obtain c where "content d p = Some c" "sealed_text C c" by auto
  with Cons inspect_quiet [OF assms(1,2)] show ?case by simp
qed simp

lemma fold_add_segment:
  "bf_sealed (fold add_segment segs b) = bf_sealed b @ segs \<and>
   bf_active (fold add_segment segs b) = bf_active b \<and>
   bf_totalLen (fold add_segment segs b) = bf_totalLen b + int (sum_list (map ss_count segs)) \<and>
   bf_nextSeq (fold add_segment segs b) = fold max (map ss_maxSeq segs) (bf_nextSeq b)"
proof (induction segs arbitrary: b)
  case (Cons s segs)
  show ?case
    using Cons [of "add_segment s b"] by (auto simp: add_segment_def max_def not_less)
qed simp

lemma seg_at_simps [simp]:
  "ss_path (seg_at C d p) = p" "ss_count (seg_at C d p) = length (seg_items C d p)"
  by (simp_all add: seg_at_def seg_of_def)

lemma recovered_segs_inv:
  assumes "dir_ok d" and "\<And>p. p \<in> zst_paths d \<Longrightarrow> \<exists>c. content d p = Some c \<and> sealed_text C c"
  shows "segs_inv C (map (seg_at C d) (sealedPaths d)) d"
    "sealed_items C d (map (seg_at C d) (sealedPaths d)) = concat (map (seg_items C d) (sealedPaths d))"
proof -
  have "seg_ok C d (seg_at C d p)" if "p \<in> zst_paths d" for p
    using assms(2) [OF that] that by (auto simp: seg_ok_def zst_paths_def) (simp add: seg_at_def seg_of_def)
  moreover have "sorted_wrt (<) (sealedPaths d)"
    using sealedPaths_sorted [OF assms(1)] by (simp add: strict_sorted_iff)
  ultimately show "segs_inv C (map (seg_at C d) (sealedPaths d)) d"
    using assms(1) by (auto simp: segs_inv_def image_image comp_def)
  show "sealed_items C d (map (seg_at C d) (sealedPaths d)) = concat (map (seg_items C d) (sealedPaths d))"
    by (simp add: sealed_items_def comp_def)
qed

lemma seal_orphan_quiet:
  assumes "dk_faults d = []" "content d (u @ walSuffix) = Some c"
    and "records_text C (wal_items C d (u @ walSuffix)) = Some raw"
  shows "\<exists>n. sealOrphanedActiveSegment C (u @ walSuffix) d =
    (Inr (seg_of (u @ zstSuffix) (wal_items C d (u @ walSuffix)) n), sealed_disk C u raw d)"
  using assms
  by (auto simp: sealOrphanedActiveSegment_def read_file_quiet Let_def writeSealedSegment_quiet
      remove_file_quiet stat_size_quiet wal_items_def sealed_disk_def)

text \<open>The counters recovery computes are right: the last item of a segment has its greatest number.\<close>

lemma fold_max_ge0: "(n :: nat) \<le> fold max ns n"
proof (induction ns arbitrary: n)
  case (Cons m ns)
  show ?case using Cons [of "max m n"] by simp
qed simp

lemma fold_max_ge: "(m :: nat) \<in> set ns \<Longrightarrow> m \<le> fold max ns n"
proof (induction ns arbitrary: n)
  case (Cons a ns)
  then show ?case using fold_max_ge0 [of "max a n" ns] by auto
qed simp

lemma seg_ok_fields:
  assumes "seg_ok C d s"
  shows "ss_count s = length (seg_items C d (ss_path s))"
    "seg_items C d (ss_path s) \<noteq> [] \<Longrightarrow> ss_minSeq s = it_seq (hd (seg_items C d (ss_path s)))"
    "seg_items C d (ss_path s) \<noteq> [] \<Longrightarrow> ss_maxSeq s = it_seq (last (seg_items C d (ss_path s)))"
proof -
  have e: "s = seg_of (ss_path s) (seg_items C d (ss_path s)) (ss_byteSize s)"
    using assms by (simp only: seg_ok_def)
  from arg_cong [OF e, of ss_count] show "ss_count s = length (seg_items C d (ss_path s))"
    by (simp add: seg_of_def)
  from arg_cong [OF e, of ss_minSeq]
  show "seg_items C d (ss_path s) \<noteq> [] \<Longrightarrow> ss_minSeq s = it_seq (hd (seg_items C d (ss_path s)))"
    by (simp add: seg_of_def)
  from arg_cong [OF e, of ss_maxSeq]
  show "seg_items C d (ss_path s) \<noteq> [] \<Longrightarrow> ss_maxSeq s = it_seq (last (seg_items C d (ss_path s)))"
    by (simp add: seg_of_def)
qed

lemma sorted_seqs_last:
  "sorted_wrt (<) (map it_seq its) \<Longrightarrow> it \<in> set its \<Longrightarrow> it_seq it \<le> it_seq (last its)"
  by (induction its) (auto intro: less_imp_le)

lemma segs_seqs_bound:
  assumes "sorted_wrt (<) (map it_seq (sealed_items C d segs))"
    and "\<And>s. s \<in> set segs \<Longrightarrow> seg_ok C d s"
    and "it \<in> set (sealed_items C d segs)"
  shows "it_seq it \<le> fold max (map ss_maxSeq segs) n"
proof -
  obtain s where s: "s \<in> set segs" "it \<in> set (seg_items C d (ss_path s))"
    using assms(3) by (auto simp: sealed_items_def)
  then obtain as bs where sp: "segs = as @ s # bs" by (meson split_list)
  have "sorted_wrt (<) (map it_seq (seg_items C d (ss_path s)))"
    using assms(1) by (simp add: sp sorted_wrt_append)
  moreover have "seg_items C d (ss_path s) \<noteq> []" using s(2) by auto
  ultimately have "it_seq it \<le> ss_maxSeq s"
    using sorted_seqs_last [OF _ s(2)] seg_ok_fields(3) [OF assms(2) [OF s(1)]] by simp
  also have "\<dots> \<le> fold max (map ss_maxSeq segs) n" using s(1) by (intro fold_max_ge) simp
  finally show ?thesis .
qed

lemma recovered_wal_inv:
  assumes segs: "segs_inv C segs d" and "wal_paths d = {}"
    and "sorted_wrt (<) (map it_seq (sealed_items C d segs))"
  shows "wal_inv C (fold add_segment segs (new_buffer sb ma mb)) d"
    "buffer_items C (fold add_segment segs (new_buffer sb ma mb)) d = sealed_items C d segs"
proof -
  let ?b = "fold add_segment segs (new_buffer sb ma mb)"
  note f = fold_add_segment [of segs "new_buffer sb ma mb"]
  have ok: "\<And>s. s \<in> set segs \<Longrightarrow> seg_ok C d s" using segs by (simp add: segs_inv_def)
  show items: "buffer_items C ?b d = sealed_items C d segs"
    using f by (simp add: buffer_items_def new_buffer_def)
  have "files_inv C ?b d"
    using f segs assms(2) by (simp add: files_inv_segs active_paths_def new_buffer_def)
  moreover have "seqs_inv (buffer_items C ?b d) (bf_nextSeq ?b)"
    unfolding items seqs_inv_def
    using assms(3) segs_seqs_bound [OF assms(3) ok] f by (simp add: new_buffer_def)
  moreover have "length (sealed_items C d segs) = sum_list (map ss_count segs)"
    using ok
  proof (induction segs)
    case (Cons s segs)
    then have "ss_count s = length (seg_items C d (ss_path s))"
      by (intro seg_ok_fields(1)) simp
    with Cons show ?case by simp
  qed simp
  ultimately show "wal_inv C ?b d"
    using f items by (simp add: wal_inv_def new_buffer_def)
qed

lemma Open_recovers:
  assumes ok: "codec_ok C" and d: "disk_ok C d" and q: "dk_faults d = []"
    and seqs: "sorted_wrt (<) (map it_seq (disk_items C d))"
  shows "\<exists>b' d'. Open C sb ma mb d = (Inr b', d') \<and> wal_inv C b' d' \<and>
    buffer_items C b' d' = disk_items C d \<and> bf_active b' = None \<and> dk_faults d' = []"
proof -
  let ?b0 = "new_buffer sb ma mb" and ?segs = "map (seg_at C d) (sealedPaths d)"
  have zst: "\<And>p. p \<in> zst_paths d \<Longrightarrow> \<exists>c. content d p = Some c \<and> sealed_text C c" and dir: "dir_ok d"
    using d by (auto simp: disk_ok_def)
  note rs = recover_sealed_quiet [OF ok q, of "sealedPaths d" ?b0]
  have si: "segs_inv C ?segs d"
    "sealed_items C d ?segs = concat (map (seg_items C d) (sealedPaths d))"
    using recovered_segs_inv [OF dir] zst by blast+
  have op: "Open C sb ma mb d =
    (case recover_active C (activePaths d) (fold add_segment ?segs ?b0) d of
       (Some e, b, d2) \<Rightarrow> (Inl e, d2) | (None, b, d2) \<Rightarrow> (Inr b, d2))"
    using rs zst q by (simp add: Open_def recover_buffer_def)
  note act = fold_add_segment [of _ ?b0]
  show ?thesis
  proof (cases "wal_paths d = {}")
    case True
    then have ap: "activePaths d = []" by (rule activePaths_Nil)
    then have di: "disk_items C d = sealed_items C d ?segs" by (simp add: disk_items_def si(2))
    with recovered_wal_inv [OF si(1) True] seqs op ap act q show ?thesis
      by (simp add: new_buffer_def)
  next
    case False
    then obtain u where u: "wal_paths d = {u @ walSuffix}"
      and st: "list_all (storable C) (wal_items C d (u @ walSuffix))"
      and new: "\<forall>p \<in> zst_paths d. p < u @ zstSuffix"
      using d by (auto simp: disk_ok_def)
    then have ap: "activePaths d = [u @ walSuffix]" by (intro activePaths_single dir)
    let ?its = "wal_items C d (u @ walSuffix)"
    obtain raw where raw: "records_text C ?its = Some raw" using records_text_exists [OF st] by blast
    obtain c where c: "content d (u @ walSuffix) = Some c" using u by (auto simp: wal_paths_def)
    obtain n where so: "sealOrphanedActiveSegment C (u @ walSuffix) d =
        (Inr (seg_of (u @ zstSuffix) ?its n), sealed_disk C u raw d)"
      using seal_orphan_quiet [OF q c raw] by blast
    note z = segs_inv_seal [OF si(1) new ok raw st]
    have wp: "wal_paths (sealed_disk C u raw d) = {}" using z(5) u by simp
    have qd: "dk_faults (sealed_disk C u raw d) = []" using q by (simp add: sealed_disk_def)
    have di: "disk_items C d = sealed_items C d ?segs @ ?its"
      by (simp add: disk_items_def si(2) ap)
    show ?thesis
    proof (cases "?its = []")
      case True
      then have "Open C sb ma mb d = (Inr (fold add_segment ?segs ?b0), sealed_disk C u raw d)"
        by (simp add: op ap so seg_of_def)
      with recovered_wal_inv [OF z(2) [OF True] wp] z(3) di True seqs act qd show ?thesis
        by (simp add: new_buffer_def)
    next
      case False
      let ?segs' = "?segs @ [seg_of (u @ zstSuffix) ?its n]"
      have "Open C sb ma mb d = (Inr (fold add_segment ?segs' ?b0), sealed_disk C u raw d)"
        using False by (simp add: op ap so) (simp add: seg_of_def)
      moreover have "sealed_items C (sealed_disk C u raw d) ?segs' = disk_items C d"
        using z(3,4) di by simp (simp add: seg_of_def)
      ultimately show ?thesis
        using recovered_wal_inv [OF z(1) [of n] wp] seqs act [of ?segs'] qd by (simp add: new_buffer_def)
    qed
  qed
qed

subsection \<open>A disk without faults, and a torn write\<close>

lemma segment_write_quiet:
  assumes "dk_faults d = []" "act_ok C d w" "storable C it"
  shows "\<exists>w' d'. segment_write C it w d = (None, w', d') \<and> dk_faults d' = []"
  using assms by (auto simp: segment_write_def act_ok_def storable_def append_file_quiet)

lemma segment_seal_quiet:
  assumes "dk_faults d = []" "act_ok C d w"
  shows "\<exists>seg w' d'. segment_seal C w d = (Inr seg, w', d') \<and> dk_faults d' = []"
proof -
  obtain raw u where "records_text C (sw_items w) = Some raw" "content d (sw_path w) = Some raw"
      "sw_path w = u @ walSuffix" "sw_open w"
    using assms(2) by (auto simp: act_ok_def)
  then show ?thesis
    using assms(1)
    by (auto simp: segment_seal_def Let_def writeSealedSegment_quiet remove_file_quiet stat_size_quiet)
qed

lemma ensure_active_quiet:
  "dk_faults d = [] \<Longrightarrow> \<exists>w d'. ensure_active u b d = (Inr w, d') \<and> dk_faults d' = []"
  by (auto simp: ensure_active_def newSegmentWriter_def Let_def split: option.splits)

lemma Append_quiet:
  assumes inv: "wal_inv C b d" and q: "dk_faults d = []" and fresh: "fresh_name u d"
    and nowrap: "bf_nextSeq b + 1 < 2 ^ 64"
    and st: "storable C (item\<lparr>it_seq := bf_nextSeq b + 1\<rparr>)"
  shows "\<exists>b' d'. Append C u item b d = (Inr (bf_nextSeq b + 1), b', d') \<and> dk_faults d' = []"
proof -
  let ?n = "bf_nextSeq b + 1" and ?it = "item\<lparr>it_seq := bf_nextSeq b + 1\<rparr>"
  have m: "(bf_nextSeq b + 1) mod 2 ^ 64 = ?n" using nowrap by simp
  obtain w d1 where c1: "ensure_active u b d = (Inr w, d1)" and q1: "dk_faults d1 = []"
    using ensure_active_quiet [OF q] by blast
  have c1': "ensure_active u (b\<lparr>bf_nextSeq := ?n\<rparr>) d = (Inr w, d1)"
    using c1 by (simp add: ensure_active_def)
  note ea = ensure_active_inv(1) [OF inv fresh c1]
  have ao: "act_ok C d1 w" using files_invD(6) [OF wal_invD(1) [OF ea]] by simp
  obtain w1 d2 where c2: "segment_write C ?it w d1 = (None, w1, d2)" and q2: "dk_faults d2 = []"
    using segment_write_quiet [OF q1 ao st] by blast
  have "wal_inv C (b\<lparr>bf_active := Some w1, bf_totalLen := bf_totalLen b + 1, bf_nextSeq := ?n\<rparr>) d2"
    using segment_write_inv(1) [OF ea _ st _ c2] by simp
  from files_invD(6) [OF wal_invD(1) [OF this]] have "act_ok C d2 w1" by simp
  from segment_seal_quiet [OF q2 this] obtain seg w2 d3 where
    c3: "segment_seal C w1 d2 = (Inr seg, w2, d3)" and "dk_faults d3 = []" by blast
  with m c1' c2 q2 show ?thesis
    by (simp add: Append_def Let_def del: One_nat_def)
qed

lemma torn_disk:
  assumes ok: "codec_ok C" and inv: "wal_inv C b d" and a: "bf_active b = Some w" and st: "storable C it"
    and wr: "segment_write C it w d = (r, w', d')"
  shows "disk_ok C d' \<and> (disk_items C d' = buffer_items C b d \<or> disk_items C d' = buffer_items C b d @ [it])"
proof -
  note fi = wal_invD(1) [OF inv]
  have ao: "act_ok C d w" by (rule files_invD(6) [OF fi a])
  obtain raw u where raw: "records_text C (sw_items w) = Some raw" "content d (sw_path w) = Some raw"
      "list_all (storable C) (sw_items w)" and u: "sw_path w = u @ walSuffix"
      and new: "\<forall>p \<in> zst_paths d. p < u @ zstSuffix"
    using ao by (auto simp: act_ok_def)
  obtain s where s: "marshal C it = Some s" using st by (auto simp: storable_def)
  obtain k where k: "dk_files d' = dk_files (put_file (u @ walSuffix) (raw @ take k (s @ [nl])) d)"
    using segment_write_files [OF ao wr] s raw u by auto
  let ?d = "put_file (u @ walSuffix) (raw @ take k (s @ [nl])) d"
  have wp: "wal_paths ?d = {u @ walSuffix}"
    using files_invD(5) [OF fi] a u by (simp add: active_paths_def)
  have dir: "dir_ok ?d" by (simp add: files_invD(1) [OF fi])
  have wi: "wal_items C ?d (u @ walSuffix) = sw_items w @ (if length s \<le> k then [it] else [])"
    by (simp add: wal_items_def parse_records_text [OF ok raw(1)] parse_records_torn [OF ok s] del: take_append)
  have same: "content ?d p = content d p" if "p \<in> zst_paths d" for p
    using wal_path_not_zst [OF that] by simp
  have "disk_ok C ?d"
    unfolding disk_ok_def using dir wp wi raw(3) st new same files_inv_zst [OF ok fi] by auto
  moreover have "map (seg_items C ?d) (sealedPaths ?d) = map (seg_items C d) (sealedPaths d)"
  proof -
    have "sealedPaths ?d = sealedPaths d"
      using sealedPaths_sorted [OF dir] sealedPaths_sorted [OF files_invD(1) [OF fi]]
      by (intro sorted_distinct_set_unique) simp_all
    then show ?thesis using same by (auto intro: seg_items_cong)
  qed
  then have "disk_items C ?d = buffer_items C b d @ (if length s \<le> k then [it] else [])"
    using files_inv_sealed_concat [OF ok fi] activePaths_single [OF dir wp] wi a
    by (simp add: disk_items_def buffer_items_def)
  ultimately show ?thesis by (simp add: disk_items_cong [OF k])
qed

end
