(* ===== verification/Wal_Durability.thy ===== *)
theory Wal_Durability
  imports Wal_Append
begin

text \<open>
  The durability contract of the write-ahead log: what a successful \<open>Append\<close> guarantees, what an
  interrupted one leaves behind, and that \<open>Open\<close> rebuilds the buffer from the directory.
  \<open>unary_codec\<close> is a concrete codec that meets \<open>codec_ok\<close>; the witnesses use it.
\<close>

definition item0 :: item where
  "item0 = \<lparr>it_seq = 0, it_priority = PriorityMetric, it_ts = 0, it_metric = None, it_event = None,
     it_logLine = None, it_inventory = None\<rparr>"

definition unary_codec :: codec where
  "unary_codec =
     \<lparr>marshal = (\<lambda>it. if it = item0\<lparr>it_seq := it_seq it\<rparr>
        then Some (replicate (it_seq it) CHR ''1'' @ [CHR ''}'']) else None),
      unmarshal = (\<lambda>s. if s \<noteq> [] \<and> last s = CHR ''}'' \<and> list_all (\<lambda>c. c = CHR ''1'') (butlast s)
        then Some (item0\<lparr>it_seq := length s - 1\<rparr>) else None),
      zcomp = (\<lambda>r. r), zdecomp = Some\<rparr>"

definition empty_disk :: disk where
  "empty_disk = \<lparr>dk_files = [], dk_temps = [], dk_faults = []\<rparr>"

lemma unary_codec_ok: "codec_ok unary_codec"
proof -
  have "unmarshal unary_codec p = None" if p: "strict_prefix p (replicate n CHR ''1'' @ [CHR ''}''])" for p n
  proof -
    from p have "prefix p (replicate n CHR ''1'')"
      by (auto simp: strict_prefix_def prefix_snoc)
    then obtain q where "replicate n CHR ''1'' = p @ q" by (auto simp: prefix_def)
    then have "set p \<subseteq> {CHR ''1''}" by (metis Un_upper1 set_append set_replicate_conv_if empty_subsetI subset_trans order_refl)
    then have "p = [] \<or> last p = CHR ''1''" by (cases p rule: rev_cases) auto
    then show ?thesis by (auto simp: unary_codec_def)
  qed
  then show ?thesis
    by (auto simp: codec_ok_def unary_codec_def nl_def list_all_iff split: if_splits)
qed

lemma unary_storable: "n < 1000 \<Longrightarrow> storable unary_codec (item0\<lparr>it_seq := n\<rparr>)"
  by (simp add: storable_def unary_codec_def maxToken_def)

lemma empty_disk_paths [simp]: "zst_paths empty_disk = {}" "wal_paths empty_disk = {}"
  by (simp_all add: zst_paths_def wal_paths_def content_def empty_disk_def)

lemma new_buffer_inv [simp]:
  "wal_inv C (new_buffer sb ma mb) empty_disk" "buffer_items C (new_buffer sb ma mb) empty_disk = []"
  by (simp_all add: wal_inv_def files_inv_def seqs_inv_def buffer_items_def new_buffer_def
      active_paths_def dir_ok_def) (simp add: empty_disk_def)

lemma empty_disk_fresh [simp]: "fresh_name u empty_disk"
  by (simp add: fresh_name_def)

lemma faults_empty [simp]: "dk_faults empty_disk = []"
  by (simp add: empty_disk_def)

lemma nextSeq_new [simp]: "bf_nextSeq (new_buffer sb ma mb) = 0"
  by (simp add: new_buffer_def)

lemma disk_recovers:
  assumes "codec_ok C" "disk_ok C d" "seqs_inv (disk_items C d) n"
  shows "\<exists>b' d'. Open C sb ma mb (d\<lparr>dk_faults := []\<rparr>) = (Inr b', d') \<and> wal_inv C b' d' \<and>
    buffer_items C b' d' = disk_items C d"
proof -
  have e: "dk_files (d\<lparr>dk_faults := []\<rparr>) = dk_files d" by simp
  from Open_recovers [OF assms(1), of "d\<lparr>dk_faults := []\<rparr>" sb ma mb] assms(2,3)
  show ?thesis by (auto simp: disk_items_cong [OF e] seqs_inv_def)
qed

subsection \<open>The contract\<close>





text \<open>
  C7 Recovery: from any directory whose sealed files are intact and that has at most one unsealed
  segment, newer than the sealed ones and possibly ending in a torn record, \<open>Open\<close> succeeds when no
  I/O call fails.  The buffer it returns holds exactly the directory's items in order, agrees with the
  directory it leaves, has every file sealed, and its sequence counter is not below any item.
\<close>

theorem open_recovers_directory:
  assumes "codec_ok C" "disk_ok C d" "dk_faults d = []" "sorted_wrt (<) (map it_seq (disk_items C d))"
  shows "\<exists>b' d'. Open C sb ma mb d = (Inr b', d') \<and> wal_inv C b' d' \<and>
    buffer_items C b' d' = disk_items C d \<and> bf_active b' = None \<and> wal_paths d' = {} \<and>
    (\<forall>it \<in> set (disk_items C d). it_seq it \<le> bf_nextSeq b') \<and> Len b' = int (length (disk_items C d))"
proof -
  obtain b' d' where o: "Open C sb ma mb d = (Inr b', d')" "wal_inv C b' d'"
      "buffer_items C b' d' = disk_items C d" "bf_active b' = None"
    using Open_recovers [OF assms] by blast
  then show ?thesis
    using wal_invD [OF o(2)] files_invD(5) [OF wal_invD(1) [OF o(2)]]
    by (auto simp: seqs_inv_def Len_def active_paths_def)
qed

theorem open_recovers_directory_witness:
  "\<exists>b' d'. Open unary_codec 1 2 3 \<lparr>dk_files = [(''A.wal'', ''11}'' @ nl # ''1''), (''notes'', [])], dk_temps = [], dk_faults = []\<rparr> =
     (Inr b', d') \<and> buffer_items unary_codec b' d' = [item0\<lparr>it_seq := 2\<rparr>]"
proof -
  let ?d = "\<lparr>dk_files = [(''A.wal'', ''11}'' @ nl # ''1''), (''notes'', [])], dk_temps = [], dk_faults = []\<rparr>"
  have wi: "wal_items unary_codec ?d ''A.wal'' = [item0\<lparr>it_seq := 2\<rparr>]"
    by (simp add: wal_items_def content_def unary_codec_def nl_def)
  have z: "zst_paths ?d = {}" "wal_paths ?d = {''A'' @ walSuffix}"
    by (auto simp: zst_paths_def wal_paths_def content_def zstSuffix_def walSuffix_def has_suffix_def
        split: if_splits)
  have A: "''A'' @ walSuffix = ''A.wal''" by (simp add: walSuffix_def)
  have "list_all (storable unary_codec) (wal_items unary_codec ?d (''A'' @ walSuffix))"
    unfolding A wi using unary_storable [of 2] by simp
  moreover have "dir_ok ?d" by (simp add: dir_ok_def)
  ultimately have "disk_ok unary_codec ?d"
    unfolding disk_ok_def z by blast
  moreover have "sealedPaths ?d = []" by (metis set_sealedPaths set_empty z(1))
  moreover have "activePaths ?d = [''A.wal'']"
    using activePaths_single [OF _ z(2)] by (simp add: dir_ok_def walSuffix_def)
  ultimately have "disk_ok unary_codec ?d" "disk_items unary_codec ?d = [item0\<lparr>it_seq := 2\<rparr>]"
    using wi by (simp_all add: disk_items_def)
  then show ?thesis
    using open_recovers_directory [OF unary_codec_ok, of ?d 1 2 3] by auto
qed

end
