(* ===== verification/Wal_Remove.thy ===== *)
theory Wal_Remove
  imports Wal Netaddr
begin

text \<open>
  Removing from the write-ahead log: acknowledging (\<open>backfill.go\<close>) and discarding to stay within the
  capacity (\<open>capacity.go\<close>).  The two loops are written over the operations they call, as the code
  calls them, and instantiated with the buffer's own operations; \<open>fuel\<close> bounds the iterations, and
  running out of it is the result \<open>None\<close>.  The clock, the sender, the rate limiter and the context are
  arguments, as functions of the number of earlier calls.
\<close>

subsection \<open>Acknowledging (backfill.go)\<close>

text \<open>The segment metadata after a rewrite; the old size stays when \<open>os.Stat\<close> fails.\<close>

definition resized :: "sealedSegment \<Rightarrow> item list \<Rightarrow> nat option \<Rightarrow> sealedSegment" where
  "resized seg items n =
     seg_of (ss_path seg) items (case n of None \<Rightarrow> ss_byteSize seg | Some k \<Rightarrow> k)"

fun ack_sealed ::
  "codec \<Rightarrow> nat \<Rightarrow> sealedSegment list \<Rightarrow> int \<Rightarrow> disk \<Rightarrow>
   io_error option \<times> sealedSegment list \<times> int \<times> disk" where
  "ack_sealed C upToSeq [] t d = (None, [], t, d)"
| "ack_sealed C upToSeq (seg # segs) t d =
     (if ss_maxSeq seg \<le> upToSeq then
        (case remove_file (ss_path seg) d of
           (Some e, d1) \<Rightarrow>
             if e = ENoEnt then ack_sealed C upToSeq segs (t - int (ss_count seg)) d1
             else (Some e, [], t, d1)
         | (None, d1) \<Rightarrow> ack_sealed C upToSeq segs (t - int (ss_count seg)) d1)
      else if upToSeq < ss_minSeq seg then
        (case ack_sealed C upToSeq segs t d of (e, kept, t', d') \<Rightarrow> (e, seg # kept, t', d'))
      else
        (case readSealedSegment C (ss_path seg) d of
           (Inl e, d1) \<Rightarrow> (Some e, [], t, d1)
         | (Inr items, d1) \<Rightarrow>
             let remaining = filter (\<lambda>it. upToSeq < it_seq it) items;
                 removed = length (filter (\<lambda>it. it_seq it \<le> upToSeq) items) in
             if remaining = [] then
               (case remove_file (ss_path seg) d1 of
                  (Some e, d2) \<Rightarrow> (Some e, [], t, d2)
                | (None, d2) \<Rightarrow> ack_sealed C upToSeq segs (t - int (ss_count seg)) d2)
             else
               (case writeSealedSegment C (ss_path seg) remaining d1 of
                  (Some e, d2) \<Rightarrow> (Some e, [], t, d2)
                | (None, d2) \<Rightarrow>
                    (case stat_size (ss_path seg) d2 of
                       (n, d3) \<Rightarrow>
                         (case ack_sealed C upToSeq segs (t - int removed) d3 of
                            (e, kept, t', d') \<Rightarrow> (e, resized seg remaining n # kept, t', d'))))))"

definition Ack :: "codec \<Rightarrow> nat \<Rightarrow> buffer \<Rightarrow> disk \<Rightarrow> io_error option \<times> buffer \<times> disk" where
  "Ack C upToSeq b d =
     (case ack_sealed C upToSeq (bf_sealed b) (bf_totalLen b) d of
        (Some e, _, t, d1) \<Rightarrow> (Some e, b\<lparr>bf_totalLen := t\<rparr>, d1)
      | (None, kept, t, d1) \<Rightarrow>
          let b1 = b\<lparr>bf_sealed := kept, bf_totalLen := t\<rparr> in
          (case bf_active b of
             None \<Rightarrow> (None, b1, d1)
           | Some w \<Rightarrow>
               let remaining = filter (\<lambda>it. upToSeq < it_seq it) (sw_items w);
                   removed = length (filter (\<lambda>it. it_seq it \<le> upToSeq) (sw_items w)) in
               if 0 < removed then
                 (case segment_rewrite C (w\<lparr>sw_items := remaining\<rparr>) d1 of
                    (Some e, w', d2) \<Rightarrow> (Some e, b1\<lparr>bf_active := Some w'\<rparr>, d2)
                  | (None, w', d2) \<Rightarrow>
                      (None, b1\<lparr>bf_active := Some w', bf_totalLen := t - int removed\<rparr>, d2))
               else (None, b1, d1)))"

fun oldest_sealed ::
  "codec \<Rightarrow> nat \<Rightarrow> sealedSegment list \<Rightarrow> item list \<Rightarrow> disk \<Rightarrow> (io_error + item list) \<times> disk" where
  "oldest_sealed C n [] result d = (Inr result, d)"
| "oldest_sealed C n (seg # segs) result d =
     (if n \<le> length result then (Inr result, d)
      else
        (case readSealedSegment C (ss_path seg) d of
           (Inl e, d1) \<Rightarrow> (Inl e, d1)
         | (Inr items, d1) \<Rightarrow>
             oldest_sealed C n segs (result @ take (n - length result) items) d1))"

definition oldestItems :: "codec \<Rightarrow> nat \<Rightarrow> buffer \<Rightarrow> disk \<Rightarrow> (io_error + item list) \<times> disk" where
  "oldestItems C n b d =
     (case oldest_sealed C n (bf_sealed b) [] d of
        (Inl e, d1) \<Rightarrow> (Inl e, d1)
      | (Inr result, d1) \<Rightarrow>
          (Inr (if length result < n
                then (case bf_active b of
                        None \<Rightarrow> result
                      | Some w \<Rightarrow> result @ take (n - length result) (sw_items w))
                else result), d1))"

datatype backfill_error = BCtx | BRead io_error | BWait | BSend | BAck io_error

text \<open>
  What \<open>Backfill\<close> gets from outside, by loop iteration: whether the context is done, whether the
  limiter's wait fails (never, without a limiter), and whether the sender accepts the batch.
\<close>

record backfill_env =
  env_ctx :: "nat \<Rightarrow> bool"
  env_wait :: "nat \<Rightarrow> bool"
  env_send :: "nat \<Rightarrow> item list \<Rightarrow> bool"

definition DefaultBackfillBatchSize :: int where
  "DefaultBackfillBatchSize = 200"

fun backfill_loop ::
  "(nat \<Rightarrow> 's \<Rightarrow> (io_error + item list) \<times> 's) \<Rightarrow> (nat \<Rightarrow> 's \<Rightarrow> io_error option \<times> 's) \<Rightarrow>
   backfill_env \<Rightarrow> nat \<Rightarrow> nat \<Rightarrow> nat \<Rightarrow> item list list \<Rightarrow> 's \<Rightarrow>
   (backfill_error option \<times> item list list \<times> 's) option" where
  "backfill_loop oldest ack env n 0 i sent s = None"
| "backfill_loop oldest ack env n (Suc fuel) i sent s =
     (if env_ctx env i then Some (Some BCtx, sent, s)
      else
        (case oldest n s of
           (Inl e, s1) \<Rightarrow> Some (Some (BRead e), sent, s1)
         | (Inr items, s1) \<Rightarrow>
             if items = [] then Some (None, sent, s1)
             else if env_wait env i then Some (Some BWait, sent, s1)
             else if \<not> env_send env i items then Some (Some BSend, sent, s1)
             else
               (case ack (it_seq (last items)) s1 of
                  (Some e, s2) \<Rightarrow> Some (Some (BAck e), sent @ [items], s2)
                | (None, s2) \<Rightarrow>
                    backfill_loop oldest ack env n fuel (Suc i) (sent @ [items]) s2)))"

definition oldest_op :: "codec \<Rightarrow> nat \<Rightarrow> buffer \<times> disk \<Rightarrow> (io_error + item list) \<times> buffer \<times> disk" where
  "oldest_op C n s = (case oldestItems C n (fst s) (snd s) of (r, d') \<Rightarrow> (r, fst s, d'))"

definition ack_op :: "codec \<Rightarrow> nat \<Rightarrow> buffer \<times> disk \<Rightarrow> io_error option \<times> buffer \<times> disk" where
  "ack_op C q s = Ack C q (fst s) (snd s)"

definition Backfill ::
  "codec \<Rightarrow> backfill_env \<Rightarrow> int \<Rightarrow> nat \<Rightarrow> buffer \<times> disk \<Rightarrow>
   (backfill_error option \<times> item list list \<times> buffer \<times> disk) option" where
  "Backfill C env optsBatchSize fuel s =
     (let batchSize = (if optsBatchSize \<le> 0 then DefaultBackfillBatchSize else optsBatchSize) in
      backfill_loop (oldest_op C) (ack_op C) env (nat batchSize) fuel 0 [] s)"

subsection \<open>Discarding (capacity.go)\<close>

record discardedItem =
  di_seq :: nat
  di_priority :: priority
  di_kind :: string

definition kindOf :: "item \<Rightarrow> string" where
  "kindOf it =
     (if it_logLine it \<noteq> None then ''log_line''
      else if it_metric it \<noteq> None then ''metric''
      else if it_inventory it \<noteq> None then ''inventory''
      else ''event'')"

definition oldestTSLocked :: "codec \<Rightarrow> buffer \<Rightarrow> disk \<Rightarrow> time option \<times> disk" where
  "oldestTSLocked C b d =
     (let active = (case bf_active b of
                      None \<Rightarrow> None
                    | Some w \<Rightarrow> (case sw_items w of [] \<Rightarrow> None | it # _ \<Rightarrow> Some (it_ts it))) in
      case bf_sealed b of
        [] \<Rightarrow> (active, d)
      | seg # _ \<Rightarrow>
          (case readSealedSegment C (ss_path seg) d of
             (Inr (it # _), d1) \<Rightarrow> (Some (it_ts it), d1)
           | (_, d1) \<Rightarrow> (active, d1)))"

definition overCapacityLocked :: "codec \<Rightarrow> time \<Rightarrow> buffer \<Rightarrow> disk \<Rightarrow> bool \<times> disk" where
  "overCapacityLocked C now b d =
     (let totalBytes = int (sum_list (map ss_byteSize (bf_sealed b))) +
            (case bf_active b of None \<Rightarrow> 0 | Some w \<Rightarrow> int (sw_rawBytes w)) in
      if bf_maxBytes b < totalBytes then (True, d)
      else
        (case oldestTSLocked C b d of
           (None, d1) \<Rightarrow> (False, d1)
         | (Some oldest, d1) \<Rightarrow> (bf_maxAge b < time_sub now oldest, d1)))"

definition consider_item :: "priority \<Rightarrow> item option \<Rightarrow> item \<Rightarrow> item option" where
  "consider_item prio best it =
     (if it_priority it \<noteq> prio then best
      else (case best of
              None \<Rightarrow> Some it
            | Some b \<Rightarrow> if it_seq it < it_seq b then Some it else best))"

fun consider_sealed ::
  "codec \<Rightarrow> priority \<Rightarrow> sealedSegment list \<Rightarrow> item option \<Rightarrow> disk \<Rightarrow> item option \<times> disk" where
  "consider_sealed C prio [] best d = (best, d)"
| "consider_sealed C prio (seg # segs) best d =
     (case readSealedSegment C (ss_path seg) d of
        (Inl _, d1) \<Rightarrow> consider_sealed C prio segs best d1
      | (Inr items, d1) \<Rightarrow> consider_sealed C prio segs (foldl (consider_item prio) best items) d1)"

definition oldestWithPriorityLocked ::
  "codec \<Rightarrow> priority \<Rightarrow> buffer \<Rightarrow> disk \<Rightarrow> item option \<times> disk" where
  "oldestWithPriorityLocked C prio b d =
     (case consider_sealed C prio (bf_sealed b) None d of
        (best, d1) \<Rightarrow>
          ((case bf_active b of
              None \<Rightarrow> best
            | Some w \<Rightarrow> foldl (consider_item prio) best (sw_items w)), d1))"

definition findDiscardVictimLocked :: "codec \<Rightarrow> buffer \<Rightarrow> disk \<Rightarrow> item option \<times> disk" where
  "findDiscardVictimLocked C b d =
     (case oldestWithPriorityLocked C PriorityLogLine b d of
        (Some best, d1) \<Rightarrow> (Some best, d1)
      | (None, d1) \<Rightarrow> oldestWithPriorityLocked C PriorityMetric b d1)"

fun remove_seq :: "nat \<Rightarrow> item list \<Rightarrow> item list option" where
  "remove_seq q [] = None"
| "remove_seq q (it # its) =
     (if it_seq it = q then Some its else map_option ((#) it) (remove_seq q its))"

fun remove_sealed ::
  "codec \<Rightarrow> nat \<Rightarrow> sealedSegment list \<Rightarrow> disk \<Rightarrow> io_error option \<times> sealedSegment list \<times> disk" where
  "remove_sealed C q [] d = (Some (ENotFound q), [], d)"
| "remove_sealed C q (seg # segs) d =
     (if q < ss_minSeq seg \<or> ss_maxSeq seg < q then
        (case remove_sealed C q segs d of (e, segs', d') \<Rightarrow> (e, seg # segs', d'))
      else
        (case readSealedSegment C (ss_path seg) d of
           (Inl e, d1) \<Rightarrow> (Some e, seg # segs, d1)
         | (Inr items, d1) \<Rightarrow>
             let filtered = filter (\<lambda>it. it_seq it \<noteq> q) items in
             if \<not> list_ex (\<lambda>it. it_seq it = q) items then
               (case remove_sealed C q segs d1 of (e, segs', d') \<Rightarrow> (e, seg # segs', d'))
             else if filtered = [] then
               (case remove_file (ss_path seg) d1 of
                  (Some e, d2) \<Rightarrow> (Some e, seg # segs, d2)
                | (None, d2) \<Rightarrow> (None, segs, d2))
             else
               (case writeSealedSegment C (ss_path seg) filtered d1 of
                  (Some e, d2) \<Rightarrow> (Some e, seg # segs, d2)
                | (None, d2) \<Rightarrow>
                    (case stat_size (ss_path seg) d2 of
                       (n, d3) \<Rightarrow> (None, resized seg filtered n # segs, d3)))))"

definition removeItemLocked :: "codec \<Rightarrow> nat \<Rightarrow> buffer \<Rightarrow> disk \<Rightarrow> io_error option \<times> buffer \<times> disk" where
  "removeItemLocked C q b d =
     (case (case bf_active b of
              None \<Rightarrow> None
            | Some w \<Rightarrow> map_option (\<lambda>its. w\<lparr>sw_items := its\<rparr>) (remove_seq q (sw_items w))) of
        Some w \<Rightarrow>
          (case segment_rewrite C w d of
             (Some e, w', d') \<Rightarrow> (Some e, b\<lparr>bf_active := Some w'\<rparr>, d')
           | (None, w', d') \<Rightarrow> (None, b\<lparr>bf_active := Some w', bf_totalLen := bf_totalLen b - 1\<rparr>, d'))
      | None \<Rightarrow>
          (case remove_sealed C q (bf_sealed b) d of
             (Some e, segs, d') \<Rightarrow> (Some e, b\<lparr>bf_sealed := segs\<rparr>, d')
           | (None, segs, d') \<Rightarrow> (None, b\<lparr>bf_sealed := segs, bf_totalLen := bf_totalLen b - 1\<rparr>, d')))"

fun enforce_loop ::
  "(nat \<Rightarrow> 's \<Rightarrow> bool \<times> 's) \<Rightarrow> ('s \<Rightarrow> item option \<times> 's) \<Rightarrow> (nat \<Rightarrow> 's \<Rightarrow> io_error option \<times> 's) \<Rightarrow>
   nat \<Rightarrow> nat \<Rightarrow> item list \<Rightarrow> 's \<Rightarrow> (io_error option \<times> item list \<times> 's) option" where
  "enforce_loop over victim remove 0 i discarded s = None"
| "enforce_loop over victim remove (Suc fuel) i discarded s =
     (case over i s of
        (False, s1) \<Rightarrow> Some (None, discarded, s1)
      | (True, s1) \<Rightarrow>
          (case victim s1 of
             (None, s2) \<Rightarrow> Some (None, discarded, s2)
           | (Some v, s2) \<Rightarrow>
               (case remove (it_seq v) s2 of
                  (Some e, s3) \<Rightarrow> Some (Some e, discarded, s3)
                | (None, s3) \<Rightarrow> enforce_loop over victim remove fuel (Suc i) (discarded @ [v]) s3)))"

definition over_op :: "codec \<Rightarrow> (nat \<Rightarrow> time) \<Rightarrow> nat \<Rightarrow> buffer \<times> disk \<Rightarrow> bool \<times> buffer \<times> disk" where
  "over_op C now i s = (case overCapacityLocked C (now i) (fst s) (snd s) of (r, d') \<Rightarrow> (r, fst s, d'))"

definition victim_op :: "codec \<Rightarrow> buffer \<times> disk \<Rightarrow> item option \<times> buffer \<times> disk" where
  "victim_op C s = (case findDiscardVictimLocked C (fst s) (snd s) of (r, d') \<Rightarrow> (r, fst s, d'))"

definition remove_op :: "codec \<Rightarrow> nat \<Rightarrow> buffer \<times> disk \<Rightarrow> io_error option \<times> buffer \<times> disk" where
  "remove_op C q s = removeItemLocked C q (fst s) (snd s)"

definition to_discarded :: "item \<Rightarrow> discardedItem" where
  "to_discarded v = \<lparr>di_seq = it_seq v, di_priority = it_priority v, di_kind = kindOf v\<rparr>"

definition EnforceCapacity ::
  "codec \<Rightarrow> (nat \<Rightarrow> time) \<Rightarrow> nat \<Rightarrow> buffer \<times> disk \<Rightarrow>
   (discardedItem list \<times> io_error option \<times> buffer \<times> disk) option" where
  "EnforceCapacity C now fuel s =
     map_option (\<lambda>(e, vs, s'). (map to_discarded vs, e, s'))
       (enforce_loop (over_op C now) (victim_op C) (remove_op C) fuel 0 [] s)"

definition BuildOverflowEvent :: "string \<Rightarrow> time \<Rightarrow> string \<Rightarrow> discardedItem list \<Rightarrow> event" where
  "BuildOverflowEvent ulid now hostID discarded =
     (let count = (\<lambda>k. itoa (length (filter (\<lambda>x. di_kind x = k) discarded))) in
      \<lparr>ev_id = ulid, ev_ts = now, ev_tsReceived = time_zero, ev_hostID = hostID,
       ev_source = ''agent'', ev_type = ''agent.buffer_overflow'', ev_severity = ''warn'',
       ev_title = ''buffer overflow: discarded '' @ itoa (length discarded) @ '' item(s)'',
       ev_subject = \<lparr>es_kind = [], es_name = [], es_pid = 0\<rparr>,
       ev_attrs = [(''log_lines_discarded'', count ''log_line''), (''metrics_discarded'', count ''metric'')],
       ev_fingerprint = [], ev_logRefs = [], ev_schema = CurrentSchemaVersion\<rparr>)"

end
