(* ===== verification/Wal_Ack.thy ===== *)
theory Wal_Ack
  imports Wal_Durability Wal_Remove
begin

text \<open>
  Removing from the log keeps its invariant.  The first part is about replacing and deleting one
  sealed file; then every successful \<open>Ack\<close> leaves exactly the items above the acknowledged number, and
  every successful \<open>removeItemLocked\<close> everything but the one item.
\<close>

subsection \<open>One sealed file\<close>

lemma storable_filter: "list_all (storable C) its \<Longrightarrow> list_all (storable C) (filter P its)"
  by (induction its) simp_all

lemma segs_inv_cong:
  assumes "dk_files d' = dk_files d"
  shows "segs_inv C segs d' = segs_inv C segs d"
proof -
  note c = content_cong [OF assms]
  show ?thesis
    by (simp add: segs_inv_def seg_ok_def seg_items_def c dir_ok_cong [OF assms] paths_cong [OF c])
qed

lemma sealed_items_files:
  assumes "dk_files d' = dk_files d"
  shows "sealed_items C d' segs = sealed_items C d segs"
  by (intro sealed_items_cong seg_items_cong) (simp add: content_cong [OF assms])

lemma segs_invD:
  assumes "segs_inv C segs d"
  shows "dir_ok d" "\<And>s. s \<in> set segs \<Longrightarrow> seg_ok C d s" "sorted_wrt (<) (map ss_path segs)"
    "\<And>p. p \<in> zst_paths d \<Longrightarrow> p \<notin> ss_path ` set segs \<Longrightarrow> content d p = Some (zcomp C [])"
  using assms unfolding segs_inv_def by blast+

text \<open>What a change to the sealed files leaves alone.\<close>

definition wal_same :: "disk \<Rightarrow> disk \<Rightarrow> bool" where
  "wal_same d d' \<longleftrightarrow>
     zst_paths d' \<subseteq> zst_paths d \<and> (\<forall>p. \<not> has_suffix p zstSuffix \<longrightarrow> content d' p = content d p)"

lemma wal_same_trans: "wal_same d d1 \<Longrightarrow> wal_same d1 d2 \<Longrightarrow> wal_same d d2"
  by (auto simp: wal_same_def)

lemma wal_same_files:
  assumes "dk_files d' = dk_files d"
  shows "wal_same d d'"
  using content_cong [OF assms] by (simp add: wal_same_def zst_paths_def)

lemma wal_same_paths: "wal_same d d' \<Longrightarrow> wal_paths d' = wal_paths d"
  by (auto simp: wal_same_def wal_paths_def)

lemma wal_same_act:
  assumes "wal_same d d'" "act_ok C d w"
  shows "act_ok C d' w"
proof -
  obtain u where u: "sw_path w = u @ walSuffix" "\<forall>p \<in> zst_paths d. p < u @ zstSuffix"
    using assms(2) by (auto simp: act_ok_def)
  have "content d' (sw_path w) = content d (sw_path w)" "zst_paths d' \<subseteq> zst_paths d"
    using assms(1) by (simp_all add: wal_same_def u)
  with assms(2) show ?thesis by (auto simp: act_ok_def)
qed

definition same_segs :: "codec \<Rightarrow> disk \<Rightarrow> disk \<Rightarrow> sealedSegment list \<Rightarrow> bool" where
  "same_segs C d d' segs \<longleftrightarrow> (\<forall>s \<in> set segs. seg_items C d' (ss_path s) = seg_items C d (ss_path s))"

lemma same_segs_items: "same_segs C d d' segs \<Longrightarrow> sealed_items C d' segs = sealed_items C d segs"
  by (intro sealed_items_cong) (simp add: same_segs_def)

lemma other_paths:
  assumes "segs_inv C (pre @ s # post) d" "s' \<in> set pre \<union> set post"
  shows "ss_path s' \<noteq> ss_path s"
  using segs_invD(3) [OF assms(1)] assms(2) by (auto simp: sorted_wrt_append)

lemma segs_inv_del:
  assumes inv: "segs_inv C (pre @ s # post) d" and d': "dk_files d' = dk_files (del_file (ss_path s) d)"
  shows "segs_inv C (pre @ post) d'" "wal_same d d'"
    "same_segs C d d' pre" "sealed_items C d' post = sealed_items C d post"
proof -
  let ?d = "del_file (ss_path s) d"
  note i = segs_invD [OF inv]
  have z: "has_suffix (ss_path s) zstSuffix" using i(2) by (simp add: seg_ok_def)
  have same: "content ?d (ss_path s') = content d (ss_path s')" if "s' \<in> set pre \<union> set post" for s'
    using other_paths [OF inv that] by simp
  have items: "seg_items C ?d (ss_path s') = seg_items C d (ss_path s')"
    if "s' \<in> set pre \<union> set post" for s'
    by (rule seg_items_cong [OF same [OF that]])
  have "seg_ok C ?d s'" if "s' \<in> set pre \<union> set post" for s'
    using i(2) [of s'] that items [OF that] same [OF that] by (auto simp: seg_ok_def)
  with i(1,3,4) have "segs_inv C (pre @ post) ?d"
    by (auto simp: segs_inv_def sorted_wrt_append)
  then show "segs_inv C (pre @ post) d'" by (simp add: segs_inv_cong [OF d'])
  have "wal_same d ?d" using z by (auto simp: wal_same_def)
  then show "wal_same d d'" using wal_same_files [OF d'] wal_same_trans by blast
  have eq: "seg_items C d' (ss_path s') = seg_items C d (ss_path s')" if "s' \<in> set pre \<union> set post" for s'
    using items [OF that] seg_items_cong [OF fun_cong [OF content_cong [OF d']], of C] by metis
  then show "same_segs C d d' pre" by (simp add: same_segs_def)
  show "sealed_items C d' post = sealed_items C d post" by (rule sealed_items_cong) (simp add: eq)
qed

lemma segs_inv_put:
  assumes inv: "segs_inv C (pre @ s # post) d" and ok: "codec_ok C"
    and rt: "records_text C its = Some raw" "list_all (storable C) its"
    and d': "dk_files d' = dk_files (put_file (ss_path s) (zcomp C raw) d)"
  shows "segs_inv C (pre @ seg_of (ss_path s) its n # post) d'" "wal_same d d'"
    "same_segs C d d' pre" "sealed_items C d' post = sealed_items C d post"
    "seg_items C d' (ss_path s) = its"
proof -
  let ?d = "put_file (ss_path s) (zcomp C raw) d"
  note i = segs_invD [OF inv]
  have z: "has_suffix (ss_path s) zstSuffix" "ss_path s \<in> zst_paths d"
    using i(2) segs_inv_in_dir [OF inv] by (simp_all add: seg_ok_def)
  then obtain u where u: "ss_path s = u @ zstSuffix" by (metis append_take_drop_id has_suffix_def)
  have same: "content ?d (ss_path s') = content d (ss_path s')" if "s' \<in> set pre \<union> set post" for s'
    using other_paths [OF inv that] by simp
  have items: "seg_items C ?d (ss_path s') = seg_items C d (ss_path s')"
    if "s' \<in> set pre \<union> set post" for s'
    by (rule seg_items_cong [OF same [OF that]])
  have its: "seg_items C ?d (ss_path s) = its" by (rule seg_items_put [OF ok rt]) simp
  then show "seg_items C d' (ss_path s) = its"
    using seg_items_cong [of d' "ss_path s" ?d C] content_cong [OF d'] by simp
  have "seg_ok C ?d s'" if "s' \<in> set pre \<union> set post" for s'
    using i(2) [of s'] that items [OF that] same [OF that] by (auto simp: seg_ok_def)
  moreover have "seg_ok C ?d (seg_of (ss_path s) its n)"
    using z its rt by (auto simp: seg_ok_def seg_of_def sealed_text_def)
  moreover have "zst_paths ?d = zst_paths d" using z(2) by (simp add: u insert_absorb)
  ultimately have "segs_inv C (pre @ seg_of (ss_path s) its n # post) ?d"
    using i(1,3,4) by (auto simp: segs_inv_def sorted_wrt_append seg_of_def)
  then show "segs_inv C (pre @ seg_of (ss_path s) its n # post) d'" by (simp add: segs_inv_cong [OF d'])
  have "wal_same d ?d" using z by (auto simp: wal_same_def u insert_absorb)
  then show "wal_same d d'" using wal_same_files [OF d'] wal_same_trans by blast
  have eq: "seg_items C d' (ss_path s') = seg_items C d (ss_path s')" if "s' \<in> set pre \<union> set post" for s'
    using items [OF that] seg_items_cong [OF fun_cong [OF content_cong [OF d']], of C] by metis
  then show "same_segs C d d' pre" by (simp add: same_segs_def)
  show "sealed_items C d' post = sealed_items C d post" by (rule sealed_items_cong) (simp add: eq)
qed

subsection \<open>Acknowledging\<close>

abbreviation above :: "nat \<Rightarrow> item list \<Rightarrow> item list" where
  "above q its \<equiv> filter (\<lambda>it. q < it_seq it) its"

abbreviation upto_seq :: "nat \<Rightarrow> item list \<Rightarrow> item list" where
  "upto_seq q its \<equiv> filter (\<lambda>it. it_seq it \<le> q) its"

lemma sorted_seqs_hd:
  "sorted_wrt (<) (map it_seq its) \<Longrightarrow> it \<in> set its \<Longrightarrow> it_seq (hd its) \<le> it_seq it"
  by (cases its) (auto intro: less_imp_le)

lemma seg_below:
  assumes "seg_ok C d s" "sorted_wrt (<) (map it_seq (seg_items C d (ss_path s)))" "ss_maxSeq s \<le> q"
  shows "above q (seg_items C d (ss_path s)) = []" "upto_seq q (seg_items C d (ss_path s)) = seg_items C d (ss_path s)"
proof -
  have "it_seq it \<le> q" if "it \<in> set (seg_items C d (ss_path s))" for it
    using sorted_seqs_last [OF assms(2) that] seg_ok_fields(3) [OF assms(1)] that assms(3) by fastforce
  then show "above q (seg_items C d (ss_path s)) = []" "upto_seq q (seg_items C d (ss_path s)) = seg_items C d (ss_path s)"
    by (auto simp: filter_empty_conv filter_id_conv not_less not_le)
qed

lemma seg_above:
  assumes "seg_ok C d s" "sorted_wrt (<) (map it_seq (seg_items C d (ss_path s)))" "q < ss_minSeq s"
  shows "above q (seg_items C d (ss_path s)) = seg_items C d (ss_path s)" "upto_seq q (seg_items C d (ss_path s)) = []"
proof -
  have "q < it_seq it" if "it \<in> set (seg_items C d (ss_path s))" for it
    using sorted_seqs_hd [OF assms(2) that] seg_ok_fields(2) [OF assms(1)] that assms(3) by fastforce
  then show "above q (seg_items C d (ss_path s)) = seg_items C d (ss_path s)" "upto_seq q (seg_items C d (ss_path s)) = []"
    by (auto simp: filter_empty_conv filter_id_conv not_less not_le)
qed

lemma remove_file_present:
  assumes "remove_file p d = (Some e, d')" "content d p \<noteq> None"
  shows "e \<noteq> ENoEnt"
  using assms by (auto simp: remove_file_def split: prod.splits option.splits if_splits)

lemma seg_ok_content: "seg_ok C d s \<Longrightarrow> content d (ss_path s) \<noteq> None"
  by (auto simp: seg_ok_def)

lemma read_seg:
  assumes "codec_ok C" "seg_ok C d s" "readSealedSegment C (ss_path s) d = (Inr its, d1)"
  shows "its = seg_items C d (ss_path s)" "dk_files d1 = dk_files d" "list_all (storable C) its"
proof -
  obtain c where c: "content d (ss_path s) = Some c" "sealed_text C c" using assms(2) by (auto simp: seg_ok_def)
  show "dk_files d1 = dk_files d" by (rule readSealedSegmentD(1) [OF assms(3)])
  show "its = seg_items C d (ss_path s)" by (rule readSealedSegmentD(2) [OF assms(3,1) c]) simp
  then show "list_all (storable C) its" using sealed_text_items [OF assms(1) c(2,1)] by simp
qed

text \<open>The effect of one call on one of the segments, as both removing loops need it.\<close>

lemma rewrite_seg:
  assumes ok: "codec_ok C" and inv: "segs_inv C (pre @ s # post) d" and f: "dk_files d1 = dk_files d"
    and st: "list_all (storable C) its"
    and w: "writeSealedSegment C (ss_path s) its d1 = (None, d2)" and z: "stat_size (ss_path s) d2 = (n, d3)"
  shows "segs_inv C (pre @ resized s its n # post) d3" "wal_same d d3"
    "same_segs C d d3 pre" "sealed_items C d3 post = sealed_items C d post"
    "seg_items C d3 (ss_path s) = its"
proof -
  obtain raw where raw: "records_text C its = Some raw" "dk_files d2 = dk_files (put_file (ss_path s) (zcomp C raw) d1)"
    using writeSealedSegmentD(2) [OF w] by auto
  then have d3: "dk_files d3 = dk_files (put_file (ss_path s) (zcomp C raw) d)"
    using stat_sizeD [OF z] f by (simp add: put_file_def)
  show "segs_inv C (pre @ resized s its n # post) d3" "wal_same d d3"
    "same_segs C d d3 pre" "sealed_items C d3 post = sealed_items C d post"
    "seg_items C d3 (ss_path s) = its"
    unfolding resized_def using segs_inv_put [OF inv ok raw(1) st d3] by blast+
qed

lemma drop_seg:
  assumes inv: "segs_inv C (pre @ s # post) d" and f: "dk_files d1 = dk_files d"
    and w: "remove_file (ss_path s) d1 = (None, d2)"
  shows "segs_inv C (pre @ post) d2" "wal_same d d2"
    "same_segs C d d2 pre" "sealed_items C d2 post = sealed_items C d post"
proof -
  have d2: "dk_files d2 = dk_files (del_file (ss_path s) d)"
    using remove_fileD(2) [OF w] f by (simp add: del_file_def)
  show "segs_inv C (pre @ post) d2" "wal_same d d2"
    "same_segs C d d2 pre" "sealed_items C d2 post = sealed_items C d post"
    by (rule segs_inv_del [OF inv d2])+
qed

definition acked :: "codec \<Rightarrow> nat \<Rightarrow> sealedSegment list \<Rightarrow> sealedSegment list \<Rightarrow> int \<Rightarrow> disk \<Rightarrow>
    sealedSegment list \<Rightarrow> int \<Rightarrow> disk \<Rightarrow> bool" where
  "acked C q pre segs t d kept t' d' \<longleftrightarrow>
     segs_inv C (pre @ kept) d' \<and> wal_same d d' \<and> same_segs C d d' pre \<and>
     sealed_items C d' kept = above q (sealed_items C d segs) \<and>
     t' = t - int (length (upto_seq q (sealed_items C d segs)))"

lemma acked_dropped:
  assumes a: "acked C q pre segs (t - int (ss_count s)) d1 kept t' d'"
    and s: "seg_ok C d s" "above q (seg_items C d (ss_path s)) = []"
    and d: "wal_same d d1" "same_segs C d d1 pre" "sealed_items C d1 segs = sealed_items C d segs"
  shows "acked C q pre (s # segs) t d kept t' d'"
proof -
  have u: "upto_seq q (seg_items C d (ss_path s)) = seg_items C d (ss_path s)"
    using s(2) by (auto simp: filter_empty_conv filter_id_conv not_less)
  show ?thesis
    using a d wal_same_trans [OF d(1)] seg_ok_fields(1) [OF s(1)] s(2) u
    by (simp add: acked_def same_segs_def)
qed

lemma acked_kept:
  assumes a: "acked C q (pre @ [s']) segs (t - int (length (upto_seq q (seg_items C d (ss_path s))))) d1 kept t' d'"
    and s: "seg_items C d1 (ss_path s') = above q (seg_items C d (ss_path s))"
    and d: "wal_same d d1" "same_segs C d d1 pre" "sealed_items C d1 segs = sealed_items C d segs"
  shows "acked C q pre (s # segs) t d (s' # kept) t' d'"
  using a d wal_same_trans [OF d(1)] s by (simp add: acked_def same_segs_def)

lemma ack_sealed_inv:
  assumes ok: "codec_ok C"
  shows "segs_inv C (pre @ segs) d \<Longrightarrow> sorted_wrt (<) (map it_seq (sealed_items C d segs)) \<Longrightarrow>
    ack_sealed C q segs t d = (None, kept, t', d') \<Longrightarrow> acked C q pre segs t d kept t' d'"
proof (induction segs arbitrary: pre t d kept)
  case Nil
  then show ?case by (simp add: acked_def wal_same_def same_segs_def)
next
  case (Cons s segs)
  have so: "seg_ok C d s" using Cons.prems(1) by (simp add: segs_inv_def)
  have sorted: "sorted_wrt (<) (map it_seq (seg_items C d (ss_path s)))"
    "sorted_wrt (<) (map it_seq (sealed_items C d segs))"
    using Cons.prems(2) by (simp_all add: sorted_wrt_append)
  let ?its = "seg_items C d (ss_path s)"
  consider (low) "ss_maxSeq s \<le> q" | (high) "\<not> ss_maxSeq s \<le> q" "q < ss_minSeq s"
    | (mid) "\<not> ss_maxSeq s \<le> q" "\<not> q < ss_minSeq s" by blast
  then show ?case
  proof cases
    case low
    obtain e d1 where rm: "remove_file (ss_path s) d = (e, d1)" by (meson surj_pair)
    have "e = None"
      using Cons.prems(3) low rm remove_file_present [OF _ seg_ok_content [OF so]]
      by (cases e) (auto split: if_splits)
    with Cons.prems(3) low rm have a: "ack_sealed C q segs (t - int (ss_count s)) d1 = (None, kept, t', d')"
      by simp
    note z = drop_seg [OF Cons.prems(1) refl rm [unfolded \<open>e = None\<close>]]
    have "acked C q pre segs (t - int (ss_count s)) d1 kept t' d'"
      by (rule Cons.IH [OF z(1) _ a]) (simp add: z(4) sorted(2))
    then show ?thesis by (rule acked_dropped [OF _ so seg_below(1) [OF so sorted(1) low] z(2-4)])
  next
    case high
    then obtain k where a: "ack_sealed C q segs t d = (None, k, t', d')" and k: "kept = s # k"
      using Cons.prems(3) by (auto split: prod.splits)
    have "acked C q (pre @ [s]) segs t d k t' d'"
      by (rule Cons.IH [OF _ sorted(2) a]) (use Cons.prems(1) in simp)
    then show ?thesis
      unfolding k by (intro acked_kept) (simp_all add: seg_above [OF so sorted(1) high(2)] wal_same_def same_segs_def)
  next
    case mid
    obtain r d1 where rd: "readSealedSegment C (ss_path s) d = (r, d1)" by (meson surj_pair)
    have "r = Inr ?its"
      using Cons.prems(3) mid rd read_seg(1) [OF ok so] by (cases r) auto
    note rs = read_seg [OF ok so rd [unfolded this]]
    show ?thesis
    proof (cases "above q ?its = []")
      case True
      obtain e d2 where rm: "remove_file (ss_path s) d1 = (e, d2)" by (meson surj_pair)
      have "e = None" and a: "ack_sealed C q segs (t - int (ss_count s)) d2 = (None, kept, t', d')"
        using Cons.prems(3) mid rd \<open>r = Inr ?its\<close> True rm by (auto split: option.splits)
      note z = drop_seg [OF Cons.prems(1) rs(2) rm [unfolded \<open>e = None\<close>]]
      have "acked C q pre segs (t - int (ss_count s)) d2 kept t' d'"
        by (rule Cons.IH [OF z(1) _ a]) (simp add: z(4) sorted(2))
      then show ?thesis by (rule acked_dropped [OF _ so True z(2-4)])
    next
      case False
      obtain e d2 where wr: "writeSealedSegment C (ss_path s) (above q ?its) d1 = (e, d2)" by (meson surj_pair)
      obtain n d3 where sz: "stat_size (ss_path s) d2 = (n, d3)" by (meson surj_pair)
      obtain k where "e = None" and k: "kept = resized s (above q ?its) n # k"
        and a: "ack_sealed C q segs (t - int (length (upto_seq q ?its))) d3 = (None, k, t', d')"
        using Cons.prems(3) mid rd \<open>r = Inr ?its\<close> False wr sz
        by (auto simp: Let_def split: option.splits prod.splits)
      note z = rewrite_seg [OF ok Cons.prems(1) rs(2) storable_filter [OF rs(3)] wr [unfolded \<open>e = None\<close>] sz]
      have "acked C q (pre @ [resized s (above q ?its) n]) segs (t - int (length (upto_seq q ?its))) d3 k t' d'"
        by (rule Cons.IH [OF _ _ a]) (use z(1) in \<open>simp_all add: z(4) sorted(2)\<close>)
      then show ?thesis
        unfolding k by (rule acked_kept [OF _ _ z(2-4)]) (simp add: z(5) resized_def seg_of_def)
    qed
  qed
qed

lemma alist_update_twice: "AList.update k v (AList.update k v' xs) = AList.update k v xs"
  by (induction xs) auto

lemma segment_rewrite_files:
  assumes ao: "act_ok C d w" and r: "segment_rewrite C (w\<lparr>sw_items := its\<rparr>) d = (None, w', d')"
  shows "\<exists>raw. records_text C its = Some raw \<and> w' = w\<lparr>sw_rawBytes := length raw, sw_items := its\<rparr> \<and>
    dk_files d' = dk_files (put_file (sw_path w) raw d)"
proof -
  have op: "sw_open w" using ao by (simp add: act_ok_def)
  obtain f d1 where c1: "next_call d = (f, d1)" by (meson surj_pair)
  obtain raw where raw: "records_text C its = Some raw" and f: "f = None"
    using r op c1 by (auto simp: segment_rewrite_def Let_def split: option.splits)
  let ?d2 = "put_file (sw_path w) [] d1"
  obtain k d3 where c3: "append_file (sw_path w) raw ?d2 = (k, d3)" by (meson surj_pair)
  obtain g d4 where c4: "next_call d3 = (g, d4)" by (meson surj_pair)
  have k: "k" and d': "d' = d4" and w': "w' = w\<lparr>sw_rawBytes := length raw, sw_items := its\<rparr>"
    using r op c1 f raw c3 c4
    by (auto simp: segment_rewrite_def Let_def split: bool.splits option.splits)
  from append_fileD [OF c3, of "[]"] k obtain j where
    "dk_files d3 = dk_files (put_file (sw_path w) (take j raw) ?d2)" "length raw \<le> j"
    by auto
  then have "dk_files d3 = dk_files (put_file (sw_path w) raw d)"
    using next_callD [OF c1] by (simp add: put_file_def alist_update_twice)
  with raw w' d' next_callD [OF c4] show ?thesis by auto
qed

lemma segment_rewrite_inv:
  assumes fi: "files_inv C b d" and a: "bf_active b = Some w" and st: "list_all (storable C) its"
    and r: "segment_rewrite C (w\<lparr>sw_items := its\<rparr>) d = (None, w', d')"
  shows "files_inv C (b\<lparr>bf_active := Some w'\<rparr>) d'"
    "sealed_items C d' (bf_sealed b) = sealed_items C d (bf_sealed b)" "sw_items w' = its"
proof -
  have ao: "act_ok C d w" by (rule files_invD(6) [OF fi a])
  obtain u where u: "sw_path w = u @ walSuffix" using ao by (auto simp: act_ok_def)
  obtain raw where raw: "records_text C its = Some raw" and w': "w' = w\<lparr>sw_rawBytes := length raw, sw_items := its\<rparr>"
    and d': "dk_files d' = dk_files (put_file (sw_path w) raw d)"
    using segment_rewrite_files [OF ao r] by blast
  let ?d = "put_file (u @ walSuffix) raw d"
  have "act_ok C ?d w'" unfolding w' by (rule act_ok_put [OF ao _ raw st]) (simp_all add: u)
  moreover have "wal_paths d \<subseteq> {u @ walSuffix}" using files_invD(5) [OF fi] a u by (simp add: active_paths_def)
  ultimately have "files_inv C (b\<lparr>bf_active := Some w'\<rparr>) ?d"
      "sealed_items C ?d (bf_sealed b) = sealed_items C d (bf_sealed b)"
    using files_inv_put_wal [OF fi, of u raw w'] u by (simp_all add: w')
  with d' u show "files_inv C (b\<lparr>bf_active := Some w'\<rparr>) d'"
    "sealed_items C d' (bf_sealed b) = sealed_items C d (bf_sealed b)"
    by (simp_all add: files_inv_cong [of d' ?d] sealed_items_files [of d' ?d])
  show "sw_items w' = its" by (simp add: w')
qed

lemma seqs_inv_sub: "seqs_inv its n \<Longrightarrow> seqs_inv (filter P its) n"
  by (auto simp: seqs_inv_def sorted_wrt_map sorted_wrt_filter)

lemma length_split: "length (above q its) = length its - length (upto_seq q its)"
  using sum_length_filter_compl [of "\<lambda>it. it_seq it \<le> q" its] by (simp add: not_le)

lemma length_split_int: "int (length (above q its)) = int (length its) - int (length (upto_seq q its))"
  using length_split [of q its] length_filter_le [of "\<lambda>it. it_seq it \<le> q" its] by simp

lemma Ack_inv:
  assumes ok: "codec_ok C" and inv: "wal_inv C b d" and a: "Ack C q b d = (None, b', d')"
  shows "wal_inv C b' d'" "buffer_items C b' d' = above q (buffer_items C b d)"
    "bf_nextSeq b' = bf_nextSeq b"
proof -
  note i = wal_invD [OF inv]
  have si: "segs_inv C ([] @ bf_sealed b) d" using i(1) by (simp add: files_inv_segs)
  have srt: "sorted_wrt (<) (map it_seq (sealed_items C d (bf_sealed b)))"
    using i(2) by (simp add: seqs_inv_def buffer_items_def sorted_wrt_append)
  obtain kept t d1 where as: "ack_sealed C q (bf_sealed b) (bf_totalLen b) d = (None, kept, t, d1)"
    using a by (auto simp: Ack_def split: prod.splits option.splits)
  from ack_sealed_inv [OF ok si srt as] have k: "segs_inv C kept d1" "wal_same d d1"
      "sealed_items C d1 kept = above q (sealed_items C d (bf_sealed b))"
      "t = bf_totalLen b - int (length (upto_seq q (sealed_items C d (bf_sealed b))))"
    by (simp_all add: acked_def)
  let ?b1 = "b\<lparr>bf_sealed := kept, bf_totalLen := t\<rparr>"
  have f1: "files_inv C ?b1 d1"
    using k(1,2) i(1) wal_same_act [OF k(2)] wal_same_paths [OF k(2)]
    by (simp add: files_inv_segs active_paths_def)
  have "files_inv C b' d' \<and> buffer_items C b' d' = above q (buffer_items C b d) \<and>
    bf_nextSeq b' = bf_nextSeq b \<and> bf_totalLen b' = int (length (above q (buffer_items C b d)))"
  proof (cases "bf_active b")
    case None
    with a as have "b' = ?b1" "d' = d1" by (simp_all add: Ack_def)
    with None f1 k i(3) show ?thesis by (simp add: buffer_items_def length_split_int)
  next
    case (Some w)
    have st: "list_all (storable C) (sw_items w)"
      using files_invD(6) [OF i(1) Some] by (simp add: act_ok_def)
    show ?thesis
    proof (cases "upto_seq q (sw_items w) = []")
      case True
      with a as Some have "b' = ?b1" "d' = d1" by (simp_all add: Ack_def Let_def)
      moreover have "above q (sw_items w) = sw_items w"
        using True by (auto simp: filter_empty_conv filter_id_conv not_le)
      ultimately show ?thesis using Some f1 k i(3) True by (simp add: buffer_items_def length_split_int)
    next
      case False
      obtain r w' d2 where rw: "segment_rewrite C (w\<lparr>sw_items := above q (sw_items w)\<rparr>) d1 = (r, w', d2)"
        by (metis prod_cases3)
      have r: "r = None" and b': "b' = ?b1\<lparr>bf_active := Some w', bf_totalLen := t - int (length (upto_seq q (sw_items w)))\<rparr>"
        and d': "d' = d2"
        using a as Some False rw by (auto simp: Ack_def Let_def split: option.splits)
      from segment_rewrite_inv [OF f1 _ storable_filter [OF st] rw [unfolded r]] Some
      have z: "files_inv C (?b1\<lparr>bf_active := Some w'\<rparr>) d2" "sealed_items C d2 kept = sealed_items C d1 kept"
          "sw_items w' = above q (sw_items w)" by simp_all
      have "files_inv C b' d'" using z(1) by (simp add: b' d' files_inv_def active_paths_def)
      with z(2,3) k Some i(3) show ?thesis by (simp add: b' d' buffer_items_def length_split_int)
    qed
  qed
  then show "wal_inv C b' d'" "buffer_items C b' d' = above q (buffer_items C b d)"
    "bf_nextSeq b' = bf_nextSeq b"
    using seqs_inv_sub [OF i(2)] by (simp_all add: wal_inv_def)
qed

end
