(* ===== verification/Wal_Drain.thy ===== *)
theory Wal_Drain
  imports Wal_Ack
begin

text \<open>
  The contract between the log and the loops that drain it.  The locale \<open>outbound_queue\<close> states what
  \<open>Backfill\<close> relies on, the locale \<open>discard_queue\<close> what \<open>EnforceCapacity\<close> relies on; the loops are
  proved correct inside them, and both are interpreted on the buffer's own operations over a disk
  without faults.
\<close>

subsection \<open>The operations on a disk without faults\<close>

lemma read_seg_quiet:
  assumes "codec_ok C" "dk_faults d = []" "seg_ok C d s"
  shows "readSealedSegment C (ss_path s) d = (Inr (seg_items C d (ss_path s)), d)"
  using assms readSealedSegment_quiet [OF assms(2)] sealed_text_items [OF assms(1)]
  by (auto simp: seg_ok_def)

lemma seg_ok_storable:
  assumes "codec_ok C" "seg_ok C d s"
  shows "list_all (storable C) (seg_items C d (ss_path s))"
  using assms sealed_text_items [OF assms(1)] by (auto simp: seg_ok_def)

lemma rewrite_seg_quiet:
  assumes "dk_faults d = []" "list_all (storable C) its"
  shows "\<exists>n d'. writeSealedSegment C p its d = (None, d') \<and> stat_size p d' = (n, d') \<and> dk_faults d' = []"
proof -
  obtain raw where "records_text C its = Some raw" using records_text_exists [OF assms(2)] by blast
  then show ?thesis using assms(1) by (simp add: writeSealedSegment_quiet stat_size_quiet)
qed

lemma ack_sealed_quiet:
  assumes ok: "codec_ok C"
  shows "segs_inv C (pre @ segs) d \<Longrightarrow> dk_faults d = [] \<Longrightarrow>
    \<exists>kept t' d'. ack_sealed C q segs t d = (None, kept, t', d') \<and> dk_faults d' = []"
proof (induction segs arbitrary: pre t d)
  case (Cons s segs)
  have so: "seg_ok C d s" using Cons.prems(1) by (simp add: segs_inv_def)
  let ?its = "seg_items C d (ss_path s)"
  have rm: "remove_file (ss_path s) d = (None, del_file (ss_path s) d)"
    using remove_file_quiet [OF Cons.prems(2) seg_ok_content [OF so]] .
  have rd: "readSealedSegment C (ss_path s) d = (Inr ?its, d)"
    by (rule read_seg_quiet [OF ok Cons.prems(2) so])
  note z = drop_seg(1) [OF Cons.prems(1) refl rm]
  have del: "\<exists>kept t' d'. ack_sealed C q segs t (del_file (ss_path s) d) = (None, kept, t', d') \<and> dk_faults d' = []" for t
    by (rule Cons.IH [OF z]) (simp add: Cons.prems(2))
  obtain n d2 where wr: "writeSealedSegment C (ss_path s) (above q ?its) d = (None, d2)"
      "stat_size (ss_path s) d2 = (n, d2)" "dk_faults d2 = []"
    using rewrite_seg_quiet [OF Cons.prems(2) storable_filter [OF seg_ok_storable [OF ok so]]] by blast
  have "segs_inv C ((pre @ [resized s (above q ?its) n]) @ segs) d2"
    using rewrite_seg(1) [OF ok Cons.prems(1) refl storable_filter [OF seg_ok_storable [OF ok so]] wr(1,2)] by simp
  from Cons.IH [OF this wr(3)]
  have put: "\<exists>kept t' d'. ack_sealed C q segs t d2 = (None, kept, t', d') \<and> dk_faults d' = []" for t .
  have same: "\<exists>kept t' d'. ack_sealed C q segs t d = (None, kept, t', d') \<and> dk_faults d' = []" for t
    using Cons.IH [of "pre @ [s]" d t] Cons.prems by simp
  show ?case
    using del [of "t - int (ss_count s)"] put [of "t - int (length (upto_seq q ?its))"] same [of t]
    by (auto simp: rm rd wr Let_def)
qed simp

lemma rewrite_quiet:
  assumes "dk_faults d = []" "act_ok C d w" "list_all (storable C) its"
  shows "\<exists>w' d'. segment_rewrite C (w\<lparr>sw_items := its\<rparr>) d = (None, w', d') \<and> dk_faults d' = []"
proof -
  obtain raw where "records_text C its = Some raw" using records_text_exists [OF assms(3)] by blast
  with assms(1,2) show ?thesis
    by (simp add: segment_rewrite_def act_ok_def Let_def append_file_quiet [of _ _ "[]"])
qed

lemma Ack_quiet:
  assumes ok: "codec_ok C" and inv: "wal_inv C b d" and q: "dk_faults d = []"
  shows "\<exists>b' d'. Ack C n b d = (None, b', d') \<and> dk_faults d' = []"
proof -
  note i = wal_invD [OF inv]
  have si: "segs_inv C ([] @ bf_sealed b) d" using i(1) by (simp add: files_inv_segs)
  have srt: "sorted_wrt (<) (map it_seq (sealed_items C d (bf_sealed b)))"
    using i(2) by (simp add: seqs_inv_def buffer_items_def sorted_wrt_append)
  obtain kept t d1 where as: "ack_sealed C n (bf_sealed b) (bf_totalLen b) d = (None, kept, t, d1)"
      and q1: "dk_faults d1 = []"
    using ack_sealed_quiet [OF ok si q] by blast
  have ws: "wal_same d d1" using ack_sealed_inv [OF ok si srt as] by (simp add: acked_def)
  show ?thesis
  proof (cases "bf_active b")
    case None
    with as q1 show ?thesis by (simp add: Ack_def)
  next
    case (Some w)
    have ao: "act_ok C d1 w" by (rule wal_same_act [OF ws files_invD(6) [OF i(1) Some]])
    have "list_all (storable C) (above n (sw_items w))"
      using ao by (intro storable_filter) (simp add: act_ok_def)
    from rewrite_quiet [OF q1 ao this] as q1 Some show ?thesis by (auto simp: Ack_def Let_def)
  qed
qed

lemma oldest_sealed_quiet:
  assumes "codec_ok C" "dk_faults d = []" "\<And>s. s \<in> set segs \<Longrightarrow> seg_ok C d s"
  shows "length res \<le> n \<Longrightarrow>
    oldest_sealed C n segs res d = (Inr (res @ take (n - length res) (sealed_items C d segs)), d)"
  using assms(3)
proof (induction segs arbitrary: res)
  case (Cons s segs)
  have rd: "readSealedSegment C (ss_path s) d = (Inr (seg_items C d (ss_path s)), d)"
    by (rule read_seg_quiet [OF assms(1,2)]) (simp add: Cons.prems)
  show ?case
  proof (cases "n \<le> length res")
    case False
    let ?res = "res @ take (n - length res) (seg_items C d (ss_path s))"
    have "length ?res \<le> n" using False by simp
    from Cons.IH [OF this] Cons.prems(2) rd False show ?thesis by (simp add: min_def)
  qed simp
qed simp

lemma oldestItems_quiet:
  assumes ok: "codec_ok C" and inv: "wal_inv C b d" and q: "dk_faults d = []"
  shows "oldestItems C n b d = (Inr (take n (buffer_items C b d)), d)"
proof -
  have "oldest_sealed C n (bf_sealed b) [] d = (Inr (take n (sealed_items C d (bf_sealed b))), d)"
    using oldest_sealed_quiet [OF ok q files_invD(2) [OF wal_invD(1) [OF inv]], of "bf_sealed b" "[]" n] by simp
  then show ?thesis by (auto simp: oldestItems_def buffer_items_def min_def split: option.splits)
qed

subsection \<open>Backfill\<close>

lemma above_split:
  "\<forall>it \<in> set xs. it_seq it \<le> q \<Longrightarrow> \<forall>it \<in> set ys. q < it_seq it \<Longrightarrow> above q (xs @ ys) = ys"
  by (auto simp: filter_empty_conv filter_id_conv not_less)

locale item_store =
  fixes ok :: "'s \<Rightarrow> bool"
    and view :: "'s \<Rightarrow> item list"
  assumes view_sorted: "ok s \<Longrightarrow> sorted_wrt (<) (map it_seq (view s))"

locale outbound_queue = item_store ok view
  for ok :: "'s \<Rightarrow> bool" and view :: "'s \<Rightarrow> item list" +
  fixes oldest :: "nat \<Rightarrow> 's \<Rightarrow> (io_error + item list) \<times> 's"
    and ack :: "nat \<Rightarrow> 's \<Rightarrow> io_error option \<times> 's"
  assumes oldest_law: "ok s \<Longrightarrow> oldest n s = (Inr (take n (view s)), s)"
    and ack_law: "ok s \<Longrightarrow> \<exists>s'. ack q s = (None, s') \<and> ok s' \<and> view s' = above q (view s)"
begin

lemma ack_prefix:
  assumes "ok s" "0 < n" "view s \<noteq> []" "ack (it_seq (last (take n (view s)))) s = (r, s')"
  shows "r = None \<and> ok s' \<and> view s' = drop n (view s)"
proof -
  let ?q = "it_seq (last (take n (view s)))"
  have ne: "take n (view s) \<noteq> []" using assms(2,3) by simp
  have srt: "sorted_wrt (<) (map it_seq (take n (view s) @ drop n (view s)))"
    using view_sorted [OF assms(1)] by (simp only: append_take_drop_id)
  have "\<forall>it \<in> set (take n (view s)). it_seq it \<le> ?q"
    using srt sorted_seqs_last by (simp only: map_append sorted_wrt_append) blast
  moreover have "\<forall>it \<in> set (drop n (view s)). ?q < it_seq it"
    using srt last_in_set [OF ne] by (simp only: map_append sorted_wrt_append) auto
  ultimately have "above ?q (take n (view s) @ drop n (view s)) = drop n (view s)"
    by (rule above_split)
  with ack_law [OF assms(1), of ?q] assms(4) show ?thesis by simp
qed

lemma backfill_exact:
  assumes "ok s" "0 < n" "length (view s) < fuel"
  shows "\<exists>e out s'. backfill_loop oldest ack env n fuel i sent s = Some (e, sent @ out, s') \<and>
    ok s' \<and> concat out @ view s' = view s \<and> (e = None \<longrightarrow> view s' = []) \<and>
    (\<forall>batch \<in> set out. batch \<noteq> [] \<and> length batch \<le> n) \<and>
    (e = None \<or> e = Some BCtx \<or> e = Some BWait \<or> e = Some BSend) \<and>
    ((\<forall>j. \<not> env_ctx env j \<and> \<not> env_wait env j \<and> (\<forall>xs. env_send env j xs)) \<longrightarrow> e = None)"
  using assms
proof (induction fuel arbitrary: i sent s)
  case (Suc fuel)
  note o = oldest_law [OF Suc.prems(1), of n]
  show ?case
  proof (cases "env_ctx env i \<or> view s = [] \<or> env_wait env i \<or> \<not> env_send env i (take n (view s))")
    case True
    then show ?thesis using o Suc.prems by (auto simp: exI [of _ "[]"])
  next
    case False
    obtain r s2 where a: "ack (it_seq (last (take n (view s)))) s = (r, s2)" by (meson surj_pair)
    have s2: "r = None" "ok s2" "view s2 = drop n (view s)"
      using ack_prefix [OF Suc.prems(1,2) _ a] False by simp_all
    have "length (view s2) < fuel" using s2(3) Suc.prems(2,3) False by (cases "view s") auto
    from Suc.IH [OF s2(2) Suc.prems(2) this, of "Suc i" "sent @ [take n (view s)]"]
    obtain e out s' where ih: "backfill_loop oldest ack env n fuel (Suc i) (sent @ [take n (view s)]) s2 =
        Some (e, (sent @ [take n (view s)]) @ out, s')" "ok s'" "concat out @ view s' = view s2"
        "e = None \<longrightarrow> view s' = []" "\<forall>batch \<in> set out. batch \<noteq> [] \<and> length batch \<le> n"
        "e = None \<or> e = Some BCtx \<or> e = Some BWait \<or> e = Some BSend"
        "(\<forall>j. \<not> env_ctx env j \<and> \<not> env_wait env j \<and> (\<forall>xs. env_send env j xs)) \<longrightarrow> e = None"
      by blast
    have "backfill_loop oldest ack env n (Suc fuel) i sent s = Some (e, sent @ take n (view s) # out, s')"
      using ih(1) False o a s2(1) Suc.prems(2) by simp
    moreover have "concat (take n (view s) # out) @ view s' = view s" using ih(3) s2(3) by simp
    moreover have "\<forall>batch \<in> set (take n (view s) # out). batch \<noteq> [] \<and> length batch \<le> n"
      using ih(5) False Suc.prems(2) by simp
    ultimately show ?thesis using ih(2,4,6,7) by blast
  qed
qed simp

end

definition wal_ok :: "codec \<Rightarrow> buffer \<times> disk \<Rightarrow> bool" where
  "wal_ok C s \<longleftrightarrow> codec_ok C \<and> wal_inv C (fst s) (snd s) \<and> dk_faults (snd s) = []"

definition wal_view :: "codec \<Rightarrow> buffer \<times> disk \<Rightarrow> item list" where
  "wal_view C s = buffer_items C (fst s) (snd s)"

interpretation wal: outbound_queue "wal_ok C" "wal_view C" "oldest_op C" "ack_op C" for C
proof
  fix s :: "buffer \<times> disk" and n :: nat
  assume s: "wal_ok C s"
  obtain b d where bd: "s = (b, d)" by (meson surj_pair)
  have c: "codec_ok C" and inv: "wal_inv C b d" and q: "dk_faults d = []"
    using s by (simp_all add: wal_ok_def bd)
  show "sorted_wrt (<) (map it_seq (wal_view C s))"
    using wal_invD(2) [OF inv] by (simp add: wal_view_def bd seqs_inv_def)
  show "oldest_op C n s = (Inr (take n (wal_view C s)), s)"
    by (simp add: oldest_op_def bd oldestItems_quiet [OF c inv q] wal_view_def)
  obtain b' d' where a: "Ack C n b d = (None, b', d')" and q': "dk_faults d' = []"
    using Ack_quiet [OF c inv q] by blast
  show "\<exists>s'. ack_op C n s = (None, s') \<and> wal_ok C s' \<and> wal_view C s' = above n (wal_view C s)"
    using a q' c Ack_inv [OF c inv a] by (auto simp: ack_op_def bd wal_ok_def wal_view_def)
qed

end
