(* ===== verification/Wal_Discard.thy ===== *)
theory Wal_Discard
  imports Wal_Drain
begin

text \<open>
  Discarding to stay within the capacity, and the properties of the two draining loops.  The locale
  \<open>discard_queue\<close> states what \<open>EnforceCapacity\<close> relies on; \<open>discard_order\<close> is the order it must follow.
\<close>

subsection \<open>Finding the victim\<close>

definition discard_order :: "item list \<Rightarrow> item list" where
  "discard_order its =
     filter (\<lambda>it. it_priority it = PriorityLogLine) its @ filter (\<lambda>it. it_priority it = PriorityMetric) its"

definition victim_of :: "item list \<Rightarrow> item option" where
  "victim_of its = (case discard_order its of [] \<Rightarrow> None | v # _ \<Rightarrow> Some v)"

abbreviation without :: "nat \<Rightarrow> item list \<Rightarrow> item list" where
  "without q its \<equiv> filter (\<lambda>it. it_seq it \<noteq> q) its"

lemma foldl_consider_Some:
  "\<forall>it \<in> set its. it_seq b \<le> it_seq it \<Longrightarrow> foldl (consider_item p) (Some b) its = Some b"
  by (induction its) (auto simp: consider_item_def)

lemma foldl_consider_None:
  "sorted_wrt (<) (map it_seq its) \<Longrightarrow>
   foldl (consider_item p) None its = find (\<lambda>it. it_priority it = p) its"
proof (induction its)
  case (Cons it its)
  have "foldl (consider_item p) (Some it) its = Some it"
    using Cons.prems by (intro foldl_consider_Some) (auto intro: less_imp_le)
  moreover have "consider_item p None it = (if it_priority it = p then Some it else None)"
    by (simp add: consider_item_def)
  ultimately show ?case using Cons by simp
qed simp

lemma find_filter: "find P xs = (case filter P xs of [] \<Rightarrow> None | x # _ \<Rightarrow> Some x)"
  by (induction xs) simp_all

lemma consider_sealed_quiet:
  assumes "codec_ok C" "dk_faults d = []" "\<And>s. s \<in> set segs \<Longrightarrow> seg_ok C d s"
  shows "consider_sealed C p segs best d = (foldl (consider_item p) best (sealed_items C d segs), d)"
  using assms(3) by (induction segs arbitrary: best) (simp_all add: read_seg_quiet [OF assms(1,2)])

lemma oldestWithPriority_quiet:
  assumes ok: "codec_ok C" and inv: "wal_inv C b d" and q: "dk_faults d = []"
  shows "oldestWithPriorityLocked C p b d = (find (\<lambda>it. it_priority it = p) (buffer_items C b d), d)"
proof -
  have srt: "sorted_wrt (<) (map it_seq (buffer_items C b d))"
    using wal_invD(2) [OF inv] by (simp add: seqs_inv_def)
  note cs = consider_sealed_quiet [OF ok q files_invD(2) [OF wal_invD(1) [OF inv]], of "bf_sealed b" p None]
  show ?thesis
    unfolding foldl_consider_None [OF srt, of p, symmetric]
    by (auto simp: oldestWithPriorityLocked_def cs buffer_items_def split: option.splits)
qed

lemma findDiscardVictim_quiet:
  assumes "codec_ok C" "wal_inv C b d" "dk_faults d = []"
  shows "findDiscardVictimLocked C b d = (victim_of (buffer_items C b d), d)"
  by (auto simp: findDiscardVictimLocked_def oldestWithPriority_quiet [OF assms] victim_of_def
      discard_order_def find_filter split: list.splits)

subsection \<open>Removing it\<close>

lemma without_id: "q \<notin> it_seq ` set its \<Longrightarrow> without q its = its"
  by (auto simp: filter_id_conv)

lemma remove_seq_sorted:
  "sorted_wrt (<) (map it_seq its) \<Longrightarrow>
   remove_seq q its = (if \<exists>it \<in> set its. it_seq it = q then Some (without q its) else None)"
proof (induction its)
  case (Cons it its)
  show ?case
  proof (cases "it_seq it = q")
    case True
    then have "without q its = its" using Cons.prems by (intro without_id) auto
    with True show ?thesis by simp
  next
    case False
    with Cons show ?thesis by simp
  qed
qed simp

lemma sorted_once:
  "sorted_wrt (<) (map it_seq (xs @ ys)) \<Longrightarrow> q \<in> it_seq ` set xs \<Longrightarrow> without q ys = ys"
  by (rule without_id) (fastforce simp: sorted_wrt_append)

definition removed :: "codec \<Rightarrow> nat \<Rightarrow> sealedSegment list \<Rightarrow> sealedSegment list \<Rightarrow> disk \<Rightarrow>
    sealedSegment list \<Rightarrow> disk \<Rightarrow> bool" where
  "removed C q pre segs d segs' d' \<longleftrightarrow>
     segs_inv C (pre @ segs') d' \<and> wal_same d d' \<and> same_segs C d d' pre \<and>
     sealed_items C d' segs' = without q (sealed_items C d segs) \<and> dk_faults d' = []"

lemma remove_sealed_quiet:
  assumes ok: "codec_ok C"
  shows "segs_inv C (pre @ segs) d \<Longrightarrow> sorted_wrt (<) (map it_seq (sealed_items C d segs)) \<Longrightarrow>
    dk_faults d = [] \<Longrightarrow> q \<in> it_seq ` set (sealed_items C d segs) \<Longrightarrow>
    \<exists>segs' d'. remove_sealed C q segs d = (None, segs', d') \<and> removed C q pre segs d segs' d'"
proof (induction segs arbitrary: pre)
  case (Cons s segs)
  have so: "seg_ok C d s" using Cons.prems(1) by (simp add: segs_inv_def)
  let ?its = "seg_items C d (ss_path s)"
  have srt: "sorted_wrt (<) (map it_seq ?its)" "sorted_wrt (<) (map it_seq (sealed_items C d segs))"
    using Cons.prems(2) by (simp_all add: sorted_wrt_append)
  have rd: "readSealedSegment C (ss_path s) d = (Inr ?its, d)"
    by (rule read_seg_quiet [OF ok Cons.prems(3) so])
  have ex: "list_ex (\<lambda>it. it_seq it = q) ?its \<longleftrightarrow> q \<in> it_seq ` set ?its"
    by (auto simp: list_ex_iff)
  show ?case
  proof (cases "q \<in> it_seq ` set ?its")
    case False
    then have "q \<in> it_seq ` set (sealed_items C d segs)" using Cons.prems(4) by auto
    then obtain segs' d' where "remove_sealed C q segs d = (None, segs', d')"
        and r: "removed C q (pre @ [s]) segs d segs' d'"
      using Cons.IH [of "pre @ [s]"] Cons.prems(1,3) srt(2) by auto
    then have "remove_sealed C q (s # segs) d = (None, s # segs', d')"
      using False by (simp add: rd ex Let_def)
    moreover have "removed C q pre (s # segs) d (s # segs') d'"
      using r without_id [OF False] by (simp add: removed_def same_segs_def)
    ultimately show ?thesis by blast
  next
    case True
    then have "?its \<noteq> []" "ss_minSeq s \<le> q" "q \<le> ss_maxSeq s"
      using seg_ok_fields [OF so] sorted_seqs_hd [OF srt(1)] sorted_seqs_last [OF srt(1)] by fastforce+
    note rng = this
    have rest: "without q (sealed_items C d segs) = sealed_items C d segs"
      using sorted_once [OF _ True] Cons.prems(2) by simp
    show ?thesis
    proof (cases "without q ?its = []")
      case e: True
      have rm: "remove_file (ss_path s) d = (None, del_file (ss_path s) d)"
        by (rule remove_file_quiet [OF Cons.prems(3) seg_ok_content [OF so]])
      note z = drop_seg [OF Cons.prems(1) refl rm]
      have "remove_sealed C q (s # segs) d = (None, segs, del_file (ss_path s) d)"
        using rng True e by (simp add: rd ex Let_def rm)
      moreover have "removed C q pre (s # segs) d segs (del_file (ss_path s) d)"
        using z e rest Cons.prems(3) by (simp add: removed_def)
      ultimately show ?thesis by blast
    next
      case ne: False
      note st = storable_filter [OF seg_ok_storable [OF ok so]]
      obtain n d2 where wr: "writeSealedSegment C (ss_path s) (without q ?its) d = (None, d2)"
          "stat_size (ss_path s) d2 = (n, d2)" "dk_faults d2 = []"
        using rewrite_seg_quiet [OF Cons.prems(3) st] by blast
      note z = rewrite_seg [OF ok Cons.prems(1) refl st wr(1,2)]
      have "remove_sealed C q (s # segs) d = (None, resized s (without q ?its) n # segs, d2)"
        using rng True ne by (simp add: rd ex Let_def wr)
      moreover have "removed C q pre (s # segs) d (resized s (without q ?its) n # segs) d2"
        using z rest wr(3) by (simp add: removed_def) (simp add: resized_def seg_of_def)
      ultimately show ?thesis by blast
    qed
  qed
qed simp

lemma without_length:
  "sorted_wrt (<) (map it_seq its) \<Longrightarrow> it \<in> set its \<Longrightarrow>
   int (length (without (it_seq it) its)) = int (length its) - 1"
proof (induction its)
  case (Cons x its)
  show ?case
  proof (cases "it_seq x = it_seq it")
    case True
    then have "without (it_seq it) its = its" using Cons.prems by (intro without_id) auto
    with True show ?thesis by simp
  next
    case False
    with Cons show ?thesis by auto
  qed
qed simp

lemma removeItem_quiet:
  assumes ok: "codec_ok C" and inv: "wal_inv C b d" and qt: "dk_faults d = []"
    and it: "it \<in> set (buffer_items C b d)"
  shows "\<exists>b' d'. removeItemLocked C (it_seq it) b d = (None, b', d') \<and> wal_inv C b' d' \<and>
    dk_faults d' = [] \<and> buffer_items C b' d' = without (it_seq it) (buffer_items C b d)"
proof -
  let ?q = "it_seq it" and ?act = "case bf_active b of None \<Rightarrow> [] | Some w \<Rightarrow> sw_items w"
  note i = wal_invD [OF inv]
  have srt: "sorted_wrt (<) (map it_seq (sealed_items C d (bf_sealed b) @ ?act))"
    using i(2) by (simp add: seqs_inv_def buffer_items_def)
  then have srt': "sorted_wrt (<) (map it_seq (buffer_items C b d))" by (simp add: buffer_items_def)
  note len = without_length [OF srt' it]
  have goal: ?thesis if "removeItemLocked C ?q b d = (None, b', d')" "files_inv C b' d'" "dk_faults d' = []"
    "buffer_items C b' d' = without ?q (buffer_items C b d)" "bf_nextSeq b' = bf_nextSeq b"
    "bf_totalLen b' = bf_totalLen b - 1" for b' d'
    using that len i(3) seqs_inv_sub [OF i(2)] by (simp add: wal_inv_def)
  show ?thesis
  proof (cases "?q \<in> it_seq ` set ?act")
    case True
    then obtain w where w: "bf_active b = Some w" "\<exists>x \<in> set (sw_items w). it_seq x = ?q"
      by (cases "bf_active b") (simp_all, metis imageE)
    have ao: "act_ok C d w" by (rule files_invD(6) [OF i(1) w(1)])
    then have st: "list_all (storable C) (without ?q (sw_items w))"
      by (intro storable_filter) (simp add: act_ok_def)
    have rs: "remove_seq ?q (sw_items w) = Some (without ?q (sw_items w))"
      using srt w by (simp add: remove_seq_sorted sorted_wrt_append)
    obtain w' d' where rw: "segment_rewrite C (w\<lparr>sw_items := without ?q (sw_items w)\<rparr>) d = (None, w', d')"
      and q': "dk_faults d' = []" using rewrite_quiet [OF qt ao st] by blast
    note z = segment_rewrite_inv [OF i(1) w(1) st rw]
    let ?b' = "b\<lparr>bf_active := Some w', bf_totalLen := bf_totalLen b - 1\<rparr>"
    have "?q \<notin> it_seq ` set (sealed_items C d (bf_sealed b))"
      using srt w by (fastforce simp: sorted_wrt_append)
    then have "buffer_items C ?b' d' = without ?q (buffer_items C b d)"
      using z(2,3) w(1) by (simp add: buffer_items_def without_id)
    moreover have "files_inv C ?b' d'" using z(1) by (simp add: files_inv_def active_paths_def)
    ultimately show ?thesis using rw rs w(1) q' by (intro goal [of ?b' d']) (simp_all add: removeItemLocked_def)
  next
    case False
    then have mem: "?q \<in> it_seq ` set (sealed_items C d (bf_sealed b))"
      using it by (auto simp: buffer_items_def)
    have si: "segs_inv C ([] @ bf_sealed b) d" using i(1) by (simp add: files_inv_segs)
    obtain segs' d' where rm: "remove_sealed C ?q (bf_sealed b) d = (None, segs', d')"
      and z: "removed C ?q [] (bf_sealed b) d segs' d'"
      using remove_sealed_quiet [OF ok si _ qt mem] srt by (auto simp: sorted_wrt_append)
    let ?b' = "b\<lparr>bf_sealed := segs', bf_totalLen := bf_totalLen b - 1\<rparr>"
    have no: "(case bf_active b of None \<Rightarrow> None
        | Some w \<Rightarrow> map_option (\<lambda>its. w\<lparr>sw_items := its\<rparr>) (remove_seq ?q (sw_items w))) = None"
    proof (cases "bf_active b")
      case (Some w)
      then have "\<not> (\<exists>x \<in> set (sw_items w). it_seq x = ?q)" "sorted_wrt (<) (map it_seq (sw_items w))"
        using False srt by (auto simp: sorted_wrt_append image_iff)
      with Some show ?thesis by (simp add: remove_seq_sorted)
    qed simp
    have ws: "wal_same d d'" using z by (simp add: removed_def)
    have "files_inv C ?b' d'"
      using z i(1) wal_same_act [OF ws] wal_same_paths [OF ws]
      by (simp add: files_inv_segs active_paths_def removed_def)
    moreover have "buffer_items C ?b' d' = without ?q (buffer_items C b d)"
      using z without_id [OF False] by (simp add: buffer_items_def removed_def)
    ultimately show ?thesis
      using rm no z by (intro goal [of ?b' d']) (simp_all add: removeItemLocked_def removed_def)
  qed
qed

lemma overCapacity_quiet:
  assumes "codec_ok C" "wal_inv C b d" "dk_faults d = []"
  shows "snd (overCapacityLocked C now b d) = d"
proof -
  have "\<And>s. s \<in> set (bf_sealed b) \<Longrightarrow> seg_ok C d s" by (rule files_invD(2) [OF wal_invD(1) [OF assms(2)]])
  then show ?thesis
    by (auto simp: overCapacityLocked_def oldestTSLocked_def Let_def read_seg_quiet [OF assms(1,3)]
        split: list.splits option.splits)
qed

subsection \<open>The capacity loop\<close>

lemma discard_order_step:
  assumes srt: "sorted_wrt (<) (map it_seq its)" and d: "discard_order its = v # vs"
  shows "v \<in> set its" "discard_order (without (it_seq v) its) = vs"
    "without (it_seq v) its = filter (\<lambda>it. it \<noteq> v) its"
proof -
  have sub: "set (discard_order its) \<subseteq> set its" by (auto simp: discard_order_def)
  with d show v: "v \<in> set its" by auto
  have dist: "distinct (map it_seq its)" using srt strict_sorted_iff by blast
  then have inj: "x = y" if "x \<in> set its" "y \<in> set its" "it_seq x = it_seq y" for x y
    using that by (auto simp: distinct_map inj_on_def)
  have "distinct (discard_order its)" using dist by (auto simp: discard_order_def distinct_map)
  with d sub inj v have "it_seq v \<notin> it_seq ` set vs" by auto
  then have "without (it_seq v) (v # vs) = vs" by (simp add: without_id)
  moreover have "discard_order (without (it_seq v) its) = without (it_seq v) (discard_order its)"
    by (simp add: discard_order_def conj_commute)
  ultimately show "discard_order (without (it_seq v) its) = vs" by (simp add: d)
  show "without (it_seq v) its = filter (\<lambda>it. it \<noteq> v) its"
    using inj v by (intro filter_cong) auto
qed

locale discard_queue = item_store ok view
  for ok :: "'s \<Rightarrow> bool" and view :: "'s \<Rightarrow> item list" +
  fixes over :: "nat \<Rightarrow> 's \<Rightarrow> bool \<times> 's"
    and victim :: "'s \<Rightarrow> item option \<times> 's"
    and remove :: "nat \<Rightarrow> 's \<Rightarrow> io_error option \<times> 's"
  assumes over_law: "ok s \<Longrightarrow> snd (over i s) = s"
    and victim_law: "ok s \<Longrightarrow> victim s = (victim_of (view s), s)"
    and remove_law: "ok s \<Longrightarrow> it \<in> set (view s) \<Longrightarrow>
      \<exists>s'. remove (it_seq it) s = (None, s') \<and> ok s' \<and> view s' = without (it_seq it) (view s)"
begin

lemma enforce_exact:
  assumes "ok s" "length (discard_order (view s)) < fuel"
  shows "\<exists>out s'. enforce_loop over victim remove fuel i disc s = Some (None, disc @ out, s') \<and> ok s' \<and>
    out @ discard_order (view s') = discard_order (view s) \<and>
    view s' = filter (\<lambda>it. it \<notin> set out) (view s) \<and>
    (fst (over (i + length out) s') \<longrightarrow> discard_order (view s') = []) \<and>
    (\<not> fst (over i s) \<longrightarrow> out = [])"
  using assms
proof (induction fuel arbitrary: i disc s)
  case (Suc fuel)
  obtain ov where ov: "over i s = (ov, s)" using over_law [OF Suc.prems(1)] by (metis prod.collapse)
  note vl = victim_law [OF Suc.prems(1)]
  show ?case
  proof (cases "ov \<and> discard_order (view s) \<noteq> []")
    case False
    then show ?thesis using ov vl Suc.prems(1)
      by (intro exI [of _ "[]"] exI [of _ s]) (auto simp: victim_of_def split: bool.splits)
  next
    case True
    then obtain v vs where v: "discard_order (view s) = v # vs" by (cases "discard_order (view s)") auto
    note st = discard_order_step [OF view_sorted [OF Suc.prems(1)] v]
    obtain s2 where s2: "remove (it_seq v) s = (None, s2)" "ok s2" "view s2 = without (it_seq v) (view s)"
      using remove_law [OF Suc.prems(1) st(1)] by blast
    have d2: "discard_order (view s2) = vs" by (simp add: s2(3) st(2))
    with Suc.prems(2) v have "length (discard_order (view s2)) < fuel" by simp
    from Suc.IH [OF s2(2) this, of "Suc i" "disc @ [v]"]
    obtain out s' where ih: "enforce_loop over victim remove fuel (Suc i) (disc @ [v]) s2 = Some (None, (disc @ [v]) @ out, s')"
        "ok s'" "out @ discard_order (view s') = vs" "view s' = filter (\<lambda>it. it \<notin> set out) (view s2)"
        "fst (over (Suc i + length out) s') \<longrightarrow> discard_order (view s') = []"
      unfolding d2 by blast
    have "enforce_loop over victim remove (Suc fuel) i disc s = Some (None, disc @ v # out, s')"
      using ih(1) True ov vl v s2(1) by (simp add: victim_of_def)
    moreover have "view s' = filter (\<lambda>it. it \<notin> set (v # out)) (view s)"
      using ih(4) s2(3) st(3) by (simp add: conj_commute)
    moreover have "(v # out) @ discard_order (view s') = discard_order (view s)" using ih(3) v by simp
    moreover have "fst (over (i + length (v # out)) s') \<longrightarrow> discard_order (view s') = []" using ih(5) by simp
    moreover have "fst (over i s)" using True ov by simp
    ultimately show ?thesis using ih(2) by blast
  qed
qed simp

end

interpretation wal: discard_queue "wal_ok C" "wal_view C" "over_op C now" "victim_op C" "remove_op C" for C now
proof
  fix s :: "buffer \<times> disk" and i :: nat and it :: item
  assume s: "wal_ok C s"
  obtain b d where bd: "s = (b, d)" by (meson surj_pair)
  have c: "codec_ok C" and inv: "wal_inv C b d" and q: "dk_faults d = []"
    using s by (simp_all add: wal_ok_def bd)
  show "snd (over_op C now i s) = s"
    using overCapacity_quiet [OF c inv q, of "now i"] by (auto simp: over_op_def bd split: prod.splits)
  show "victim_op C s = (victim_of (wal_view C s), s)"
    by (simp add: victim_op_def bd findDiscardVictim_quiet [OF c inv q] wal_view_def)
  assume "it \<in> set (wal_view C s)"
  then show "\<exists>s'. remove_op C (it_seq it) s = (None, s') \<and> wal_ok C s' \<and>
      wal_view C s' = without (it_seq it) (wal_view C s)"
    using removeItem_quiet [OF c inv q] c by (auto simp: remove_op_def bd wal_ok_def wal_view_def)
qed

lemma Backfill_exact:
  assumes "wal_ok C s" "length (wal_view C s) < fuel"
  shows "\<exists>e sent s'. Backfill C env batchSize fuel s = Some (e, sent, s') \<and> wal_ok C s' \<and>
    concat sent @ wal_view C s' = wal_view C s \<and> (e = None \<longrightarrow> wal_view C s' = []) \<and>
    (\<forall>batch \<in> set sent. batch \<noteq> [] \<and> int (length batch) \<le> (if batchSize \<le> 0 then 200 else batchSize)) \<and>
    ((\<forall>j. \<not> env_ctx env j \<and> \<not> env_wait env j \<and> (\<forall>xs. env_send env j xs)) \<longrightarrow> e = None)"
proof -
  let ?n = "nat (if batchSize \<le> 0 then 200 else batchSize)"
  have "0 < ?n" by simp
  note ex = wal.backfill_exact [OF assms(1) this assms(2), of env 0 "[]", unfolded append_Nil]
  obtain e out s' where b: "backfill_loop (oldest_op C) (ack_op C) env ?n fuel 0 [] s = Some (e, out, s')"
      "wal_ok C s'" "concat out @ wal_view C s' = wal_view C s" "e = None \<longrightarrow> wal_view C s' = []"
      "\<forall>batch \<in> set out. batch \<noteq> [] \<and> length batch \<le> ?n"
      "(\<forall>j. \<not> env_ctx env j \<and> \<not> env_wait env j \<and> (\<forall>xs. env_send env j xs)) \<longrightarrow> e = None"
    using ex by blast
  have "Backfill C env batchSize fuel s = Some (e, out, s')"
    using b(1) by (simp only: Backfill_def DefaultBackfillBatchSize_def Let_def)
  moreover have "\<forall>batch \<in> set out. batch \<noteq> [] \<and> int (length batch) \<le> (if batchSize \<le> 0 then 200 else batchSize)"
    using b(5) by auto
  ultimately show ?thesis using b(2-4,6) by blast
qed

subsection \<open>Properties\<close>

text \<open>
  C5 \<open>Ack\<close> removes exactly the acknowledged items: for every pattern of I/O failures under which it
  reports success, the buffer afterwards holds exactly the items with a greater sequence number, in the
  same order, its length counter and metadata agree with the directory, and a process that opens the
  directory finds the same items.
\<close>

theorem ack_exact:
  assumes "codec_ok C" "wal_inv C b d" "Ack C upTo b d = (None, b', d')"
  shows "wal_inv C b' d' \<and> buffer_items C b' d' = filter (\<lambda>it. upTo < it_seq it) (buffer_items C b d) \<and>
    Len b' = int (length (filter (\<lambda>it. upTo < it_seq it) (buffer_items C b d))) \<and>
    (\<exists>b2 d2. Open C sb ma mb (d'\<lparr>dk_faults := []\<rparr>) = (Inr b2, d2) \<and>
       buffer_items C b2 d2 = filter (\<lambda>it. upTo < it_seq it) (buffer_items C b d))"
proof -
  note a = Ack_inv [OF assms]
  note f = files_inv_disk [OF assms(1) wal_invD(1) [OF a(1)]]
  have "\<exists>b2 d2. Open C sb ma mb (d'\<lparr>dk_faults := []\<rparr>) = (Inr b2, d2) \<and> wal_inv C b2 d2 \<and>
      buffer_items C b2 d2 = disk_items C d'"
    using disk_recovers [OF assms(1) f(1)] wal_invD(2) [OF a(1)] by (simp add: f(2))
  with a f(2) wal_invD(3) [OF a(1)] show ?thesis by (auto simp: Len_def)
qed

lemma unary_one:
  "\<exists>b d. Append unary_codec ''A'' item0 (new_buffer 100 5 5) empty_disk = (Inr 1, b, d) \<and>
     wal_ok unary_codec (b, d) \<and> wal_view unary_codec (b, d) = [item0\<lparr>it_seq := 1\<rparr>]"
proof -
  let ?b = "new_buffer 100 5 5"
  have st: "storable unary_codec (item0\<lparr>it_seq := bf_nextSeq ?b + 1\<rparr>)" by (simp add: unary_storable)
  obtain b d where ap: "Append unary_codec ''A'' item0 ?b empty_disk = (Inr 1, b, d)" "dk_faults d = []"
    using Append_quiet [of unary_codec ?b empty_disk "''A''" item0] st by auto
  from Append_inv [OF unary_codec_ok _ _ _ st ap(1)] ap unary_codec_ok show ?thesis
    by (auto simp: wal_ok_def wal_view_def)
qed

theorem ack_exact_witness:
  "\<exists>b d b' d'. Append unary_codec ''A'' item0 (new_buffer 100 5 5) empty_disk = (Inr 1, b, d) \<and>
     Ack unary_codec 1 b d = (None, b', d') \<and> buffer_items unary_codec b' d' = []"
proof -
  obtain b d where b: "Append unary_codec ''A'' item0 (new_buffer 100 5 5) empty_disk = (Inr 1, b, d)"
      "wal_inv unary_codec b d" "dk_faults d = []" "buffer_items unary_codec b d = [item0\<lparr>it_seq := 1\<rparr>]"
    using unary_one by (auto simp: wal_ok_def wal_view_def)
  obtain b' d' where "Ack unary_codec 1 b d = (None, b', d')"
    using Ack_quiet [OF unary_codec_ok b(2,3)] by blast
  with ack_exact [OF unary_codec_ok b(2) this] b show ?thesis by auto
qed

text \<open>
  C3 \<open>Backfill\<close> delivers every buffered item exactly once and in order.  For a buffer over a working
  disk and any behaviour of the context, the limiter and the sender, the loop returns; the batches the
  sender accepted, followed by the items still buffered, are the original items in order, so no
  accepted item is sent again by the next call and no other item is lost; each batch is within the
  batch size; success means the buffer is empty; and when the sender accepts everything and nothing is
  cancelled, it succeeds.  As many iterations as there are items, plus one, are enough.
\<close>

theorem backfill_delivers:
  assumes "wal_ok C s" "length (wal_view C s) < fuel"
  shows "\<exists>e sent s'. Backfill C env batchSize fuel s = Some (e, sent, s') \<and> wal_ok C s' \<and>
    concat sent @ wal_view C s' = wal_view C s \<and> (e = None \<longrightarrow> wal_view C s' = []) \<and>
    (\<forall>batch \<in> set sent. batch \<noteq> [] \<and> int (length batch) \<le> (if batchSize \<le> 0 then 200 else batchSize)) \<and>
    ((\<forall>j. \<not> env_ctx env j \<and> \<not> env_wait env j \<and> (\<forall>xs. env_send env j xs)) \<longrightarrow> e = None)"
  by (rule Backfill_exact [OF assms])

theorem backfill_delivers_witness:
  "\<exists>b d sent s'. Append unary_codec ''A'' item0 (new_buffer 100 5 5) empty_disk = (Inr 1, b, d) \<and>
     Backfill unary_codec \<lparr>env_ctx = (\<lambda>_. False), env_wait = (\<lambda>_. False), env_send = (\<lambda>_ _. True)\<rparr> 10 2 (b, d) =
       Some (None, sent, s') \<and> concat sent = [item0\<lparr>it_seq := 1\<rparr>]"
proof -
  obtain b d where b: "Append unary_codec ''A'' item0 (new_buffer 100 5 5) empty_disk = (Inr 1, b, d)"
      "wal_ok unary_codec (b, d)" "wal_view unary_codec (b, d) = [item0\<lparr>it_seq := 1\<rparr>]"
    using unary_one by blast
  from backfill_delivers [OF b(2), of 2 "\<lparr>env_ctx = (\<lambda>_. False), env_wait = (\<lambda>_. False), env_send = (\<lambda>_ _. True)\<rparr>" 10] b
  show ?thesis by auto
qed



end
