(* ===== verification/Sink.thy ===== *)
theory Sink
  imports Wal_Discard
begin

text \<open>
  The agent's sink, \<open>internal/agentbuffer/sink.go\<close>: it fills in what a collector left out, appends the
  item to the buffer, and drives the flush loop with its backoff.  The clock's readings, the ULID file
  names and the random numbers are arguments.  \<open>sk_flush\<close> says whether the one-place channel
  \<open>flushCh\<close> holds a request.
\<close>

record sink =
  sk_hostID :: string
  sk_buffer :: "buffer option"
  sk_disk :: disk
  sk_flush :: bool

definition DefaultFlushInterval :: duration where
  "DefaultFlushInterval = 15 * second"

definition DefaultFlushBackoff :: duration where
  "DefaultFlushBackoff = second"

definition MaxFlushBackoff :: duration where
  "MaxFlushBackoff = minute"

definition cloneLabels :: "labels \<Rightarrow> labels" where
  "cloneLabels ls = fold (\<lambda>(k, v) out. AList.update k v out) ls []"

definition TriggerFlush :: "sink \<Rightarrow> sink" where
  "TriggerFlush s = s\<lparr>sk_flush := True\<rparr>"

definition sink_append :: "codec \<Rightarrow> string \<Rightarrow> item \<Rightarrow> sink \<Rightarrow> sink" where
  "sink_append C ulid item s =
     (case sk_buffer s of
        None \<Rightarrow> s
      | Some b \<Rightarrow>
          (case Append C ulid item b (sk_disk s) of
             (Inl e, b', d') \<Rightarrow> s\<lparr>sk_buffer := Some b', sk_disk := d'\<rparr>
           | (Inr n, b', d') \<Rightarrow> TriggerFlush (s\<lparr>sk_buffer := Some b', sk_disk := d'\<rparr>)))"

definition blank_item :: "priority \<Rightarrow> time \<Rightarrow> item" where
  "blank_item p ts =
     \<lparr>it_seq = 0, it_priority = p, it_ts = ts, it_metric = None, it_event = None, it_logLine = None,
      it_inventory = None\<rparr>"

definition gauge_item :: "time \<Rightarrow> string \<Rightarrow> gofloat \<Rightarrow> labels \<Rightarrow> string \<Rightarrow> item" where
  "gauge_item now name v ls hostID =
     (blank_item PriorityMetric now)
       \<lparr>it_metric := Some \<lparr>me_name = name, me_hostID = hostID, me_labels = cloneLabels ls,
          me_value = v, me_timestamp = now\<rparr>\<rparr>"

definition Gauge :: "codec \<Rightarrow> string \<Rightarrow> time \<Rightarrow> string \<Rightarrow> gofloat \<Rightarrow> labels \<Rightarrow> sink \<Rightarrow> sink" where
  "Gauge C ulid now name v ls s = sink_append C ulid (gauge_item now name v ls (sk_hostID s)) s"

definition Counter :: "codec \<Rightarrow> string \<Rightarrow> time \<Rightarrow> string \<Rightarrow> gofloat \<Rightarrow> labels \<Rightarrow> sink \<Rightarrow> sink" where
  "Counter C ulid now name v ls s = Gauge C ulid now name v ls s"

definition event_item :: "time \<Rightarrow> string \<Rightarrow> event \<Rightarrow> item" where
  "event_item now hostID e0 =
     (let e1 = (if ev_hostID e0 = [] then e0\<lparr>ev_hostID := hostID\<rparr> else e0);
          e2 = (if is_zero_time (ev_ts e1) then e1\<lparr>ev_ts := now\<rparr> else e1);
          e = (if ev_schema e2 = 0 then e2\<lparr>ev_schema := CurrentSchemaVersion\<rparr> else e2) in
      (blank_item PriorityEvent (ev_ts e))\<lparr>it_event := Some e\<rparr>)"

definition Event :: "codec \<Rightarrow> string \<Rightarrow> time \<Rightarrow> event \<Rightarrow> sink \<Rightarrow> sink" where
  "Event C ulid now e s = sink_append C ulid (event_item now (sk_hostID s) e) s"

definition line_item :: "time \<Rightarrow> string \<Rightarrow> string \<Rightarrow> logLine \<Rightarrow> item" where
  "line_item now hostID source l0 =
     (let l1 = (if ll_hostID l0 = [] then l0\<lparr>ll_hostID := hostID\<rparr> else l0);
          l2 = (if ll_source l1 = [] then l1\<lparr>ll_source := source\<rparr> else l1);
          l = (if is_zero_time (ll_ts l2) then l2\<lparr>ll_ts := now\<rparr> else l2) in
      (blank_item PriorityLogLine (ll_ts l))\<lparr>it_logLine := Some l\<rparr>)"

text \<open>Each line comes with the file name and the clock reading of its turn.\<close>

fun LogLines :: "codec \<Rightarrow> string \<Rightarrow> (string \<times> time \<times> logLine) list \<Rightarrow> sink \<Rightarrow> sink" where
  "LogLines C source [] s = s"
| "LogLines C source ((ulid, now, l) # ls) s =
     LogLines C source ls (sink_append C ulid (line_item now (sk_hostID s) source l) s)"

definition inventory_item :: "time \<Rightarrow> string \<Rightarrow> inventory \<Rightarrow> item" where
  "inventory_item now hostID i0 =
     (let i1 = (if in_hostID i0 = [] then i0\<lparr>in_hostID := hostID\<rparr> else i0);
          i2 = (if is_zero_time (in_reportedAt i1) then i1\<lparr>in_reportedAt := now\<rparr> else i1);
          i = (if in_schema i2 = 0 then i2\<lparr>in_schema := CurrentSchemaVersion\<rparr> else i2) in
      (blank_item PriorityEvent (in_reportedAt i))\<lparr>it_inventory := Some i\<rparr>)"

definition Inventory :: "codec \<Rightarrow> string \<Rightarrow> time \<Rightarrow> inventory \<Rightarrow> sink \<Rightarrow> sink" where
  "Inventory C ulid now iv s = sink_append C ulid (inventory_item now (sk_hostID s) iv) s"

subsection \<open>The flush loop\<close>

text \<open>\<open>rand.Int63n (n)\<close> is a number below \<open>n\<close>; \<open>r\<close> is the raw random number it is drawn from.\<close>

definition jitter :: "nat \<Rightarrow> duration \<Rightarrow> duration" where
  "jitter r d = (if d \<le> 0 then 0 else let spread = d div 2 in spread + int r mod (spread + 1))"

record flushOptions =
  fo_interval :: duration
  fo_batchSize :: int
  fo_minBackoff :: duration
  fo_maxBackoff :: duration

definition flush_interval :: "flushOptions \<Rightarrow> duration" where
  "flush_interval opts = (if fo_interval opts \<le> 0 then DefaultFlushInterval else fo_interval opts)"

definition min_backoff :: "flushOptions \<Rightarrow> duration" where
  "min_backoff opts = (if fo_minBackoff opts \<le> 0 then DefaultFlushBackoff else fo_minBackoff opts)"

definition max_backoff :: "flushOptions \<Rightarrow> duration" where
  "max_backoff opts = (if fo_maxBackoff opts \<le> 0 then MaxFlushBackoff else fo_maxBackoff opts)"

definition next_backoff :: "duration \<Rightarrow> duration \<Rightarrow> duration" where
  "next_backoff maxB backoff = (let b = wrap64 (backoff * 2) in if maxB < b then maxB else b)"

text \<open>
  One turn of \<open>Run\<close> after its \<open>select\<close>: the time to wait before the next turn, if the turn failed, the
  sink and the backoff for the next turn.  \<open>None\<close> is out of fuel, in \<open>Backfill\<close>.
\<close>

definition run_turn ::
  "codec \<Rightarrow> backfill_env \<Rightarrow> flushOptions \<Rightarrow> nat \<Rightarrow> nat \<Rightarrow> sink \<times> duration \<Rightarrow>
   (duration option \<times> sink \<times> duration) option" where
  "run_turn C env opts fuel r st =
     (let s = (fst st)\<lparr>sk_flush := False\<rparr>; backoff = snd st in
      case sk_buffer s of
        None \<Rightarrow> Some (None, s, min_backoff opts)
      | Some b \<Rightarrow>
          if Len b = 0 then Some (None, s, min_backoff opts)
          else
            (case Backfill C env (fo_batchSize opts) fuel (b, sk_disk s) of
               None \<Rightarrow> None
             | Some (e, sent, b', d') \<Rightarrow>
                 let s' = s\<lparr>sk_buffer := Some b', sk_disk := d'\<rparr> in
                 (case e of
                    Some _ \<Rightarrow> Some (Some (jitter r backoff), TriggerFlush s',
                                 next_backoff (max_backoff opts) backoff)
                  | None \<Rightarrow> Some (None, s', min_backoff opts))))"

subsection \<open>Lemmas\<close>

lemma cloneLabels_id [simp]:
  assumes "is_map ls"
  shows "cloneLabels ls = ls"
proof -
  have new: "k \<notin> fst ` set acc \<Longrightarrow> AList.update k v acc = acc @ [(k, v)]" for k v acc
    by (induction acc) auto
  have "is_map (acc @ ls) \<Longrightarrow> fold (\<lambda>(k, v) out. AList.update k v out) ls acc = acc @ ls" for acc
  proof (induction ls arbitrary: acc)
    case (Cons kv ls)
    then have "fst kv \<notin> fst ` set acc" "is_map ((acc @ [kv]) @ ls)" by (auto simp: is_map_def)
    with Cons.IH [of "acc @ [kv]"] new [of "fst kv" acc "snd kv"] show ?case by (simp add: case_prod_beta)
  qed simp
  from this [of "[]"] assms show ?thesis by (simp add: cloneLabels_def)
qed

lemma jitter_bounds: "0 < d \<Longrightarrow> d div 2 \<le> jitter r d \<and> jitter r d \<le> d"
proof -
  assume "0 < d"
  then have "0 \<le> int r mod (d div 2 + 1)" "int r mod (d div 2 + 1) < d div 2 + 1"
    by (intro pos_mod_sign pos_mod_bound; simp)+
  moreover have "d div 2 + d div 2 \<le> d" by simp
  ultimately show ?thesis using \<open>0 < d\<close> by (simp add: jitter_def Let_def)
qed

lemma next_backoff_eq:
  assumes "0 < b" "b \<le> 2 ^ 62 - 1"
  shows "next_backoff maxB b = min maxB (b * 2)"
proof -
  have "wrap64 (b * 2) = b * 2" using assms by (intro wrap64_in_range) (simp_all add: min_int64_def max_int64_def)
  then show ?thesis by (simp add: next_backoff_def Let_def min_def)
qed

lemma next_backoff_iterate:
  assumes "0 < b" "b \<le> maxB" "maxB \<le> 2 ^ 62 - 1"
  shows "(next_backoff maxB ^^ n) b = min maxB (b * 2 ^ n)"
proof (induction n)
  case (Suc n)
  have pos: "0 < b * 2 ^ n" using assms(1) by simp
  have "(next_backoff maxB ^^ Suc n) b = next_backoff maxB (min maxB (b * 2 ^ n))" by (simp add: Suc)
  also have "\<dots> = min maxB (min maxB (b * 2 ^ n) * 2)"
    using assms pos by (intro next_backoff_eq) auto
  finally show ?case using pos assms by (auto simp: min_def)
qed (use assms in simp)

text \<open>The item a sink operation appends is complete and belongs to this host unless it said otherwise.\<close>

lemma event_item_complete:
  assumes "hostID \<noteq> []" "\<not> is_zero_time now"
  shows "\<exists>e'. it_event (event_item now hostID e) = Some e' \<and> ev_hostID e' \<noteq> [] \<and>
    \<not> is_zero_time (ev_ts e') \<and> ev_schema e' \<noteq> 0 \<and> it_ts (event_item now hostID e) = ev_ts e'"
  using assms by (auto simp: event_item_def Let_def blank_item_def CurrentSchemaVersion_def)

subsection \<open>Properties\<close>

text \<open>
  C40 The flush loop backs off exponentially and recovers at once.  After a turn in which sending failed
  the loop waits between half of the backoff and the whole of it, the request to flush is renewed, and
  the backoff after \<open>n\<close> failed turns in a row is the smaller of the maximum and \<open>2\<^sup>n\<close> times the
  minimum; a turn that sends everything, or finds the buffer empty, resets it to the minimum.  Every
  turn over a working disk returns.
\<close>

theorem flush_turn:
  assumes buf: "sk_buffer s = Some b" and ok: "wal_ok C (b, sk_disk s)"
    and fuel: "length (wal_view C (b, sk_disk s)) < fuel"
    and lim: "min_backoff opts \<le> max_backoff opts" "max_backoff opts \<le> 2 ^ 62 - 1"
    and bo: "bo = (next_backoff (max_backoff opts) ^^ n) (min_backoff opts)"
  shows "\<exists>w s' bo'. run_turn C env opts fuel r (s, bo) = Some (w, s', bo') \<and>
    bo = min (max_backoff opts) (min_backoff opts * 2 ^ n) \<and>
    (case w of
       None \<Rightarrow> bo' = min_backoff opts \<and>
         (\<exists>b'. sk_buffer s' = Some b' \<and> wal_view C (b', sk_disk s') = [])
     | Some d \<Rightarrow> bo div 2 \<le> d \<and> d \<le> bo \<and> sk_flush s' \<and>
         bo' = (next_backoff (max_backoff opts) ^^ Suc n) (min_backoff opts))"
proof -
  have pos: "0 < min_backoff opts" by (simp add: min_backoff_def DefaultFlushBackoff_def second_def)
  have bo_eq: "bo = min (max_backoff opts) (min_backoff opts * 2 ^ n)"
    unfolding bo by (rule next_backoff_iterate [OF pos lim])
  then have "0 < bo" using pos lim by simp
  note j = jitter_bounds [OF this, of r]
  let ?s = "(b, sk_disk s)"
  obtain e sent b' d' where bf: "Backfill C env (fo_batchSize opts) fuel ?s = Some (e, sent, b', d')"
      "e = None \<longrightarrow> wal_view C (b', d') = []"
    using Backfill_exact [OF ok fuel, of env "fo_batchSize opts"] by auto
  show ?thesis
  proof (cases "Len b = 0")
    case True
    then have "wal_view C ?s = []"
      using ok by (simp add: wal_ok_def wal_inv_def wal_view_def Len_def)
    with True buf bo_eq show ?thesis by (simp add: run_turn_def Let_def)
  next
    case False
    show ?thesis
    proof (cases e)
      case None
      with bf False buf bo_eq show ?thesis by (simp add: run_turn_def Let_def)
    next
      case (Some x)
      with bf False buf bo_eq j show ?thesis
        by (simp add: run_turn_def Let_def TriggerFlush_def bo [symmetric])
    qed
  qed
qed

theorem flush_turn_witness:
  "\<exists>b d w s' bo'. Append unary_codec ''A'' item0 (new_buffer 100 5 5) empty_disk = (Inr 1, b, d) \<and>
     run_turn unary_codec \<lparr>env_ctx = (\<lambda>_. False), env_wait = (\<lambda>_. False), env_send = (\<lambda>_ _. False)\<rparr>
       \<lparr>fo_interval = 0, fo_batchSize = 0, fo_minBackoff = 0, fo_maxBackoff = 0\<rparr> 2 7
       (\<lparr>sk_hostID = ''h'', sk_buffer = Some b, sk_disk = d, sk_flush = True\<rparr>,
        (next_backoff MaxFlushBackoff ^^ 3) DefaultFlushBackoff) = Some (w, s', bo')"
proof -
  let ?o = "\<lparr>fo_interval = 0, fo_batchSize = 0, fo_minBackoff = 0, fo_maxBackoff = 0\<rparr>"
  obtain b d where b: "Append unary_codec ''A'' item0 (new_buffer 100 5 5) empty_disk = (Inr 1, b, d)"
      "wal_ok unary_codec (b, d)" "wal_view unary_codec (b, d) = [item0\<lparr>it_seq := 1\<rparr>]"
    using unary_one by blast
  have o: "min_backoff ?o = DefaultFlushBackoff" "max_backoff ?o = MaxFlushBackoff"
    by (simp_all add: min_backoff_def max_backoff_def)
  have l: "min_backoff ?o \<le> max_backoff ?o" "max_backoff ?o \<le> 2 ^ 62 - 1"
    by (simp_all add: o DefaultFlushBackoff_def MaxFlushBackoff_def minute_def second_def)
  let ?s = "\<lparr>sk_hostID = ''h'', sk_buffer = Some b, sk_disk = d, sk_flush = True\<rparr>"
  have "sk_buffer ?s = Some b" "wal_ok unary_codec (b, sk_disk ?s)"
    "length (wal_view unary_codec (b, sk_disk ?s)) < 2" using b by simp_all
  from flush_turn [OF this l, of _ 3 "\<lparr>env_ctx = (\<lambda>_. False), env_wait = (\<lambda>_. False), env_send = (\<lambda>_ _. False)\<rparr>" 7]
  show ?thesis using b(1) unfolding o by blast
qed

end
