(* ===== verification/Wire.thy ===== *)
theory Wire
  imports Sink
begin

text \<open>
  What travels from agent to hub: the protobuf messages (\<open>proto/ingest.proto\<close>), packing on the agent
  (\<open>internal/agentbuffer/transportsender.go\<close>), unpacking on the hub (\<open>internal/ingestreceiver\<close>) and the
  hub's receiver.  An absent message field is its default value, as the generated getters return it; the
  message-typed field \<open>subject\<close> is an option.  The conversions to \<open>int32\<close> wrap around.  The storage
  backends the receiver writes to are parameters, on a state of their own.
\<close>

definition wrap32 :: "int \<Rightarrow> int" where
  "wrap32 x = (x + 2 ^ 31) mod 2 ^ 32 - 2 ^ 31"

subsection \<open>Messages (ingest.proto)\<close>

record pb_metric =
  pm_name :: string
  pm_hostId :: string
  pm_labels :: labels
  pm_value :: gofloat
  pm_timestampMs :: int

record pb_subject =
  ps_kind :: string
  ps_name :: string
  ps_pid :: int

record pb_logref =
  pr_blockId :: string
  pr_line :: int

record pb_event =
  pe_id :: string
  pe_tsMs :: int
  pe_tsReceivedMs :: int
  pe_hostId :: string
  pe_source :: string
  pe_type :: string
  pe_severity :: string
  pe_title :: string
  pe_subject :: "pb_subject option"
  pe_attrs :: labels
  pe_fingerprint :: string
  pe_logRefs :: "pb_logref list"
  pe_schema :: int

record pb_logline =
  pl_tsMs :: int
  pl_hostId :: string
  pl_source :: string
  pl_stream :: string
  pl_unitOrContainer :: string
  pl_level :: string
  pl_pid :: int
  pl_message :: string

record pb_invitem =
  px_id :: string
  px_name :: string
  px_attrs :: labels

record pb_inventory =
  pi_hostId :: string
  pi_kind :: string
  pi_reportedAtMs :: int
  pi_schema :: int
  pi_items :: "pb_invitem list"

record batch =
  ba_batchId :: string
  ba_hostId :: string
  ba_metrics :: "pb_metric list"
  ba_events :: "pb_event list"
  ba_logLines :: "pb_logline list"
  ba_inventories :: "pb_inventory list"

subsection \<open>Packing (transportsender.go)\<close>

definition metricToProto :: "metric \<Rightarrow> pb_metric" where
  "metricToProto m =
     \<lparr>pm_name = me_name m, pm_hostId = me_hostID m, pm_labels = cloneLabels (me_labels m),
      pm_value = me_value m, pm_timestampMs = unix_milli (me_timestamp m)\<rparr>"

definition eventToProto :: "event \<Rightarrow> pb_event" where
  "eventToProto e =
     \<lparr>pe_id = ev_id e, pe_tsMs = unix_milli (ev_ts e),
      pe_tsReceivedMs = (if is_zero_time (ev_tsReceived e) then 0 else unix_milli (ev_tsReceived e)),
      pe_hostId = ev_hostID e, pe_source = ev_source e, pe_type = ev_type e,
      pe_severity = ev_severity e, pe_title = ev_title e,
      pe_subject = Some \<lparr>ps_kind = es_kind (ev_subject e), ps_name = es_name (ev_subject e),
        ps_pid = wrap32 (es_pid (ev_subject e))\<rparr>,
      pe_attrs = cloneLabels (ev_attrs e), pe_fingerprint = ev_fingerprint e,
      pe_logRefs = map (\<lambda>r. \<lparr>pr_blockId = lr_blockID r, pr_line = wrap32 (lr_line r)\<rparr>) (ev_logRefs e),
      pe_schema = wrap32 (ev_schema e)\<rparr>"

definition inventoryToProto :: "inventory \<Rightarrow> pb_inventory" where
  "inventoryToProto iv =
     \<lparr>pi_hostId = in_hostID iv, pi_kind = in_kind iv, pi_reportedAtMs = unix_milli (in_reportedAt iv),
      pi_schema = wrap32 (in_schema iv),
      pi_items = map (\<lambda>it. \<lparr>px_id = ii_id it, px_name = ii_name it, px_attrs = cloneLabels (ii_attrs it)\<rparr>)
        (in_items iv)\<rparr>"

definition logLineToProto :: "logLine \<Rightarrow> pb_logline" where
  "logLineToProto l =
     \<lparr>pl_tsMs = unix_milli (ll_ts l), pl_hostId = ll_hostID l, pl_source = ll_source l,
      pl_stream = ll_stream l, pl_unitOrContainer = ll_unitOrContainer l, pl_level = ll_level l,
      pl_pid = wrap32 (ll_pid l), pl_message = ll_message l\<rparr>"

definition pack_item :: "batch \<Rightarrow> item \<Rightarrow> batch" where
  "pack_item b it =
     (case it_metric it of
        Some m \<Rightarrow> b\<lparr>ba_metrics := ba_metrics b @ [metricToProto m]\<rparr>
      | None \<Rightarrow>
          (case it_event it of
             Some e \<Rightarrow> b\<lparr>ba_events := ba_events b @ [eventToProto e]\<rparr>
           | None \<Rightarrow>
               (case it_logLine it of
                  Some l \<Rightarrow> b\<lparr>ba_logLines := ba_logLines b @ [logLineToProto l]\<rparr>
                | None \<Rightarrow>
                    (case it_inventory it of
                       Some i \<Rightarrow> b\<lparr>ba_inventories := ba_inventories b @ [inventoryToProto i]\<rparr>
                     | None \<Rightarrow> b))))"

definition ItemsToBatch :: "string \<Rightarrow> string \<Rightarrow> item list \<Rightarrow> batch" where
  "ItemsToBatch ulid hostID items =
     foldl pack_item
       \<lparr>ba_batchId = ulid, ba_hostId = hostID, ba_metrics = [], ba_events = [], ba_logLines = [],
        ba_inventories = []\<rparr> items"

text \<open>\<open>TransportSender\<close>: the sender \<open>Backfill\<close> calls, over a client's \<open>Send\<close>.\<close>

definition TransportSender ::
  "(batch \<Rightarrow> 'e + 'r) \<Rightarrow> string \<Rightarrow> string \<Rightarrow> item list \<Rightarrow> 'e option" where
  "TransportSender client_Send ulid hostID items =
     (case client_Send (ItemsToBatch ulid hostID items) of Inl e \<Rightarrow> Some e | Inr _ \<Rightarrow> None)"

subsection \<open>Unpacking (convert.go)\<close>

definition protoToMetric :: "pb_metric \<Rightarrow> metric" where
  "protoToMetric m =
     \<lparr>me_name = pm_name m, me_hostID = pm_hostId m,
      me_labels = (if 0 < length (pm_labels m) then cloneLabels (pm_labels m) else []),
      me_value = pm_value m, me_timestamp = from_unix_milli (pm_timestampMs m)\<rparr>"

definition protoToEvent :: "pb_event \<Rightarrow> event" where
  "protoToEvent e =
     \<lparr>ev_id = pe_id e, ev_ts = from_unix_milli (pe_tsMs e),
      ev_tsReceived =
        (if pe_tsReceivedMs e \<noteq> 0 then from_unix_milli (pe_tsReceivedMs e) else time_zero),
      ev_hostID = pe_hostId e, ev_source = pe_source e, ev_type = pe_type e,
      ev_severity = pe_severity e, ev_title = pe_title e,
      ev_subject =
        (case pe_subject e of
           None \<Rightarrow> \<lparr>es_kind = [], es_name = [], es_pid = 0\<rparr>
         | Some s \<Rightarrow> \<lparr>es_kind = ps_kind s, es_name = ps_name s, es_pid = ps_pid s\<rparr>),
      ev_attrs = (if 0 < length (pe_attrs e) then cloneLabels (pe_attrs e) else []),
      ev_fingerprint = pe_fingerprint e,
      ev_logRefs = map (\<lambda>r. \<lparr>lr_blockID = pr_blockId r, lr_line = pr_line r\<rparr>) (pe_logRefs e),
      ev_schema = pe_schema e\<rparr>"

definition protoToLogLine :: "pb_logline \<Rightarrow> logLine" where
  "protoToLogLine l =
     \<lparr>ll_ts = from_unix_milli (pl_tsMs l), ll_hostID = pl_hostId l, ll_source = pl_source l,
      ll_stream = pl_stream l, ll_unitOrContainer = pl_unitOrContainer l, ll_level = pl_level l,
      ll_pid = pl_pid l, ll_message = pl_message l\<rparr>"

subsection \<open>The receiver (receiver.go)\<close>

text \<open>The backends: each takes an item and its state and may reject it (\<open>Some\<close> an error).\<close>

record ('e, 'st) receiver =
  rc_metrics :: "metric \<Rightarrow> 'st \<Rightarrow> 'e option \<times> 'st"
  rc_events :: "event \<Rightarrow> 'st \<Rightarrow> 'e option \<times> 'st"
  rc_logs :: "logLine \<Rightarrow> 'st \<Rightarrow> 'e option \<times> 'st"

definition ReceiveBatch ::
  "('e, 'st) receiver \<Rightarrow> 'e option \<Rightarrow> batch \<Rightarrow> 'st \<Rightarrow> 'e option \<times> 'st" where
  "ReceiveBatch R ctxErr b st0 =
     (case ctxErr of
        Some e \<Rightarrow> (Some e, st0)
      | None \<Rightarrow>
          let st1 = foldl (\<lambda>st m. snd (rc_metrics R (protoToMetric m) st)) st0 (ba_metrics b);
              st2 = foldl (\<lambda>st e. snd (rc_events R (protoToEvent e) st)) st1 (ba_events b);
              st3 = foldl (\<lambda>st l. snd (rc_logs R (protoToLogLine l) st)) st2 (ba_logLines b) in
          (None, st3))"

subsection \<open>Round trip\<close>

definition to_ms :: "time \<Rightarrow> time" where
  "to_ms t = from_unix_milli (unix_milli t)"

definition int32_range :: "int \<Rightarrow> bool" where
  "int32_range x \<longleftrightarrow> - (2 ^ 31) \<le> x \<and> x < 2 ^ 31"

lemma wrap32_id [simp]: "int32_range x \<Longrightarrow> wrap32 x = x"
  by (simp add: wrap32_def int32_range_def)

lemma wrap32_range: "int32_range (wrap32 x)"
  using pos_mod_sign [of "2 ^ 32" "x + 2 ^ 31"] pos_mod_bound [of "2 ^ 32" "x + 2 ^ 31"]
  by (simp add: wrap32_def int32_range_def)

definition ms_metric :: "metric \<Rightarrow> metric" where
  "ms_metric m = m\<lparr>me_timestamp := to_ms (me_timestamp m)\<rparr>"

definition ms_event :: "event \<Rightarrow> event" where
  "ms_event e =
     e\<lparr>ev_ts := to_ms (ev_ts e),
       ev_tsReceived := (if is_zero_time (ev_tsReceived e) then time_zero else to_ms (ev_tsReceived e))\<rparr>"

definition ms_line :: "logLine \<Rightarrow> logLine" where
  "ms_line l = l\<lparr>ll_ts := to_ms (ll_ts l)\<rparr>"

text \<open>
  What the wire carries unchanged: numbers that fit an \<open>int32\<close>, and a reception time that is unset or
  not in the first millisecond of 1970, whose code is that of an unset time.
\<close>

definition wire_event :: "event \<Rightarrow> bool" where
  "wire_event e \<longleftrightarrow>
     is_map (ev_attrs e) \<and> int32_range (es_pid (ev_subject e)) \<and> int32_range (ev_schema e) \<and>
     list_all (\<lambda>r. int32_range (lr_line r)) (ev_logRefs e) \<and>
     (is_zero_time (ev_tsReceived e) \<or> unix_milli (ev_tsReceived e) \<noteq> 0)"

definition wire_item :: "item \<Rightarrow> bool" where
  "wire_item it \<longleftrightarrow>
     (\<forall>m. it_metric it = Some m \<longrightarrow> is_map (me_labels m)) \<and>
     (\<forall>e. it_event it = Some e \<longrightarrow> wire_event e) \<and>
     (\<forall>l. it_logLine it = Some l \<longrightarrow> int32_range (ll_pid l))"

text \<open>The items by kind, in the order of preference of \<open>ItemsToBatch\<close>.\<close>

definition metrics_of :: "item list \<Rightarrow> metric list" where
  "metrics_of items = List.map_filter it_metric items"

definition events_of :: "item list \<Rightarrow> event list" where
  "events_of items = List.map_filter it_event (filter (\<lambda>it. it_metric it = None) items)"

definition lines_of :: "item list \<Rightarrow> logLine list" where
  "lines_of items = List.map_filter it_logLine (filter (\<lambda>it. it_metric it = None \<and> it_event it = None) items)"

lemma metric_roundtrip: "is_map (me_labels m) \<Longrightarrow> protoToMetric (metricToProto m) = ms_metric m"
  by (cases m) (simp add: protoToMetric_def metricToProto_def ms_metric_def to_ms_def)

lemma event_roundtrip:
  assumes "wire_event e"
  shows "protoToEvent (eventToProto e) = ms_event e"
proof -
  have "map (\<lambda>r. \<lparr>lr_blockID = lr_blockID r, lr_line = wrap32 (lr_line r)\<rparr>) (ev_logRefs e) = ev_logRefs e"
    using assms by (auto simp: wire_event_def list_all_iff intro!: map_idI)
  with assms show ?thesis
    by (cases e) (auto simp: protoToEvent_def eventToProto_def ms_event_def to_ms_def wire_event_def comp_def)
qed

lemma logLine_roundtrip: "int32_range (ll_pid l) \<Longrightarrow> protoToLogLine (logLineToProto l) = ms_line l"
  by (cases l) (simp add: protoToLogLine_def logLineToProto_def ms_line_def to_ms_def)

lemma pack_fold:
  "ba_metrics (foldl pack_item b items) = ba_metrics b @ map metricToProto (metrics_of items)"
  "ba_events (foldl pack_item b items) = ba_events b @ map eventToProto (events_of items)"
  "ba_logLines (foldl pack_item b items) = ba_logLines b @ map logLineToProto (lines_of items)"
  "ba_hostId (foldl pack_item b items) = ba_hostId b"
  "ba_batchId (foldl pack_item b items) = ba_batchId b"
  by (induction items arbitrary: b)
    (auto simp: pack_item_def metrics_of_def events_of_def lines_of_def map_filter_simps split: option.splits)

lemma batch_parts:
  "ba_metrics (ItemsToBatch u h items) = map metricToProto (metrics_of items)"
  "ba_events (ItemsToBatch u h items) = map eventToProto (events_of items)"
  "ba_logLines (ItemsToBatch u h items) = map logLineToProto (lines_of items)"
  "ba_hostId (ItemsToBatch u h items) = h" "ba_batchId (ItemsToBatch u h items) = u"
  by (simp_all add: ItemsToBatch_def pack_fold)

lemma wire_items:
  assumes "list_all wire_item items"
  shows "map (\<lambda>m. protoToMetric (metricToProto m)) (metrics_of items) = map ms_metric (metrics_of items)"
    "map (\<lambda>e. protoToEvent (eventToProto e)) (events_of items) = map ms_event (events_of items)"
    "map (\<lambda>l. protoToLogLine (logLineToProto l)) (lines_of items) = map ms_line (lines_of items)"
  using assms
  by (auto simp: list_all_iff wire_item_def metrics_of_def events_of_def lines_of_def map_filter_def
      metric_roundtrip event_roundtrip logLine_roundtrip)

text \<open>A backend that keeps what it is given, in order.\<close>

definition recorder :: "('e, metric list \<times> event list \<times> logLine list) receiver" where
  "recorder =
     \<lparr>rc_metrics = (\<lambda>m (ms, es, ls). (None, ms @ [m], es, ls)),
      rc_events = (\<lambda>e (ms, es, ls). (None, ms, es @ [e], ls)),
      rc_logs = (\<lambda>l (ms, es, ls). (None, ms, es, ls @ [l]))\<rparr>"

lemma recorder_folds:
  "foldl (\<lambda>st m. snd (rc_metrics recorder (f m) st)) (ms, es, ls) xs = (ms @ map f xs, es, ls)"
  "foldl (\<lambda>st e. snd (rc_events recorder (g e) st)) (ms, es, ls) ys = (ms, es @ map g ys, ls)"
  "foldl (\<lambda>st l. snd (rc_logs recorder (h l) st)) (ms, es, ls) zs = (ms, es, ls @ map h zs)"
proof -
  show "foldl (\<lambda>st m. snd (rc_metrics recorder (f m) st)) (ms, es, ls) xs = (ms @ map f xs, es, ls)"
    by (induction xs arbitrary: ms) (simp_all add: recorder_def)
  show "foldl (\<lambda>st e. snd (rc_events recorder (g e) st)) (ms, es, ls) ys = (ms, es @ map g ys, ls)"
    by (induction ys arbitrary: es) (simp_all add: recorder_def)
  show "foldl (\<lambda>st l. snd (rc_logs recorder (h l) st)) (ms, es, ls) zs = (ms, es, ls @ map h zs)"
    by (induction zs arbitrary: ls) (simp_all add: recorder_def)
qed



end
