(* ===== verification/Token.thy ===== *)
theory Token
  imports Netaddr
begin

text \<open>
  Agent tokens, \<open>internal/transport/token.go\<close>, and the token stores, \<open>authstore.go\<close> and
  \<open>sqlitetokenstore\<close>.  Argon2id is a parameter, as is the random salt; the encoding of a hash, with the
  base64 of the standard library and the number scanning of \<open>fmt.Sscanf\<close>, is modelled.
\<close>

subsection \<open>Base64, unpadded standard alphabet\<close>

definition b64_alphabet :: string where
  "b64_alphabet = ''ABCDEFGHIJKLMNOPQRSTUVWXYZabcdefghijklmnopqrstuvwxyz0123456789+/''"

definition b64_enc :: "nat \<Rightarrow> char" where
  "b64_enc i = b64_alphabet ! i"

definition b64_dec :: "char \<Rightarrow> nat option" where
  "b64_dec c = map_of (zip b64_alphabet [0..<64]) c"

definition byte :: "char \<Rightarrow> nat" where
  "byte c = of_char c"

fun b64_encode :: "string \<Rightarrow> string" where
  "b64_encode (a # b # c # rest) =
     [b64_enc (byte a div 4), b64_enc (byte a mod 4 * 16 + byte b div 16),
      b64_enc (byte b mod 16 * 4 + byte c div 64), b64_enc (byte c mod 64)] @ b64_encode rest"
| "b64_encode [a, b] =
     [b64_enc (byte a div 4), b64_enc (byte a mod 4 * 16 + byte b div 16), b64_enc (byte b mod 16 * 4)]"
| "b64_encode [a] = [b64_enc (byte a div 4), b64_enc (byte a mod 4 * 16)]"
| "b64_encode [] = []"

fun b64_quanta :: "nat list \<Rightarrow> string option" where
  "b64_quanta (w # x # y # z # rest) =
     map_option ((@) [char_of (w * 4 + x div 16), char_of (x mod 16 * 16 + y div 4), char_of (y mod 4 * 64 + z)])
       (b64_quanta rest)"
| "b64_quanta [w, x, y] = Some [char_of (w * 4 + x div 16), char_of (x mod 16 * 16 + y div 4)]"
| "b64_quanta [w, x] = Some [char_of (w * 4 + x div 16)]"
| "b64_quanta [w] = None"
| "b64_quanta [] = Some []"

text \<open>\<open>DecodeString\<close> skips line breaks; any other byte outside the alphabet is an error.\<close>

definition b64_decode :: "string \<Rightarrow> string option" where
  "b64_decode s =
     Option.bind (those (map b64_dec (filter (\<lambda>c. c \<noteq> CHR 0x0a \<and> c \<noteq> CHR 0x0d) s))) b64_quanta"

subsection \<open>Scanning numbers\<close>

definition skip_lit :: "string \<Rightarrow> string \<Rightarrow> string option" where
  "skip_lit p s = (if has_prefix s p then Some (drop (length p) s) else None)"

text \<open>An unsigned decimal of at most \<open>bits\<close> bits, after blanks; the rest of the input is returned.\<close>

definition scan_uint :: "nat \<Rightarrow> string \<Rightarrow> (nat \<times> string) option" where
  "scan_uint bits s =
     (let s' = dropWhile (\<lambda>c. is_space c \<and> c \<noteq> nl) s;
          ds = takeWhile is_digit s' in
      if ds = [] \<or> 2 ^ bits \<le> dec_value ds then None else Some (dec_value ds, dropWhile is_digit s'))"

text \<open>A signed decimal of 64 bits.\<close>

definition scan_int :: "string \<Rightarrow> int option" where
  "scan_int s =
     (let s' = dropWhile (\<lambda>c. is_space c \<and> c \<noteq> nl) s;
          neg = (s' \<noteq> [] \<and> hd s' = CHR ''-'');
          ds = takeWhile is_digit
                 (if s' \<noteq> [] \<and> (hd s' = CHR ''-'' \<or> hd s' = CHR ''+'') then tl s' else s');
          n = int (dec_value ds) in
      if ds = [] then None
      else if neg then (if n \<le> 2 ^ 63 then Some (- n) else None)
      else (if n < 2 ^ 63 then Some n else None))"

subsection \<open>Hashing (token.go)\<close>

record argon2Params =
  ap_memory :: nat
  ap_time :: nat
  ap_threads :: nat

definition argon2Version :: nat where
  "argon2Version = 19"

definition argon2Time :: nat where
  "argon2Time = 2"

definition argon2Memory :: nat where
  "argon2Memory = 19 * 1024"

definition argon2Threads :: nat where
  "argon2Threads = 1"

definition argon2KeyLen :: nat where
  "argon2KeyLen = 32"

definition saltLen :: nat where
  "saltLen = 16"

type_synonym idkey = "string \<Rightarrow> string \<Rightarrow> nat \<Rightarrow> nat \<Rightarrow> nat \<Rightarrow> nat \<Rightarrow> string"

text \<open>\<open>salt\<close> is what \<open>rand.Read\<close> filled in, \<open>None\<close> when it failed.\<close>

definition HashToken :: "idkey \<Rightarrow> string option \<Rightarrow> string \<Rightarrow> string option" where
  "HashToken IDKey salt token =
     (case salt of
        None \<Rightarrow> None
      | Some sa \<Rightarrow>
          let hash = IDKey token sa argon2Time argon2Memory argon2Threads argon2KeyLen in
          Some (''$argon2id$v='' @ itoa argon2Version @ ''$m='' @ itoa argon2Memory @ '',t='' @
                itoa argon2Time @ '',p='' @ itoa argon2Threads @ ''$'' @ b64_encode sa @ ''$'' @ b64_encode hash))"

definition scan_version :: "string \<Rightarrow> int option" where
  "scan_version s = Option.bind (skip_lit ''v='' s) scan_int"

definition scan_params :: "string \<Rightarrow> argon2Params option" where
  "scan_params s0 =
     Option.bind (skip_lit ''m='' s0) (\<lambda>s1.
     Option.bind (scan_uint 32 s1) (\<lambda>(m, s2).
     Option.bind (skip_lit '',t='' s2) (\<lambda>s3.
     Option.bind (scan_uint 32 s3) (\<lambda>(t, s4).
     Option.bind (skip_lit '',p='' s4) (\<lambda>s5.
     map_option (\<lambda>(p, _). \<lparr>ap_memory = m, ap_time = t, ap_threads = p\<rparr>) (scan_uint 8 s5))))))"

datatype hash_error = UnrecognizedFormat | BadVersion | UnsupportedVersion int | BadParams | BadSalt | BadHash

definition decodeHash :: "string \<Rightarrow> hash_error + argon2Params \<times> string \<times> string" where
  "decodeHash encoded =
     (case split_on (CHR ''$'') encoded of
        [p0, p1, p2, p3, p4, p5] \<Rightarrow>
          if p1 \<noteq> ''argon2id'' then Inl UnrecognizedFormat
          else (case scan_version p2 of
             None \<Rightarrow> Inl BadVersion
           | Some v \<Rightarrow>
               if v \<noteq> int argon2Version then Inl (UnsupportedVersion v)
               else (case scan_params p3 of
                  None \<Rightarrow> Inl BadParams
                | Some ps \<Rightarrow>
                    (case b64_decode p4 of
                       None \<Rightarrow> Inl BadSalt
                     | Some sa \<Rightarrow>
                         (case b64_decode p5 of None \<Rightarrow> Inl BadHash | Some h \<Rightarrow> Inr (ps, sa, h)))))
      | _ \<Rightarrow> Inl UnrecognizedFormat)"

definition VerifyToken :: "idkey \<Rightarrow> string \<Rightarrow> string \<Rightarrow> hash_error + bool" where
  "VerifyToken IDKey token encodedHash =
     (case decodeHash encodedHash of
        Inl e \<Rightarrow> Inl e
      | Inr (ps, sa, wantHash) \<Rightarrow>
          Inr (IDKey token sa (ap_time ps) (ap_memory ps) (ap_threads ps) (length wantHash) = wantHash))"

subsection \<open>Token stores (authstore.go, sqlitetokenstore.go)\<close>

record tokenRecord =
  tr_hostID :: string
  tr_hash :: string

type_synonym token_store = "tokenRecord list"

definition AddToken :: "idkey \<Rightarrow> string option \<Rightarrow> string \<Rightarrow> string \<Rightarrow> token_store \<Rightarrow> token_store option" where
  "AddToken IDKey salt hostID plaintext records =
     map_option (\<lambda>h. records @ [\<lparr>tr_hostID = hostID, tr_hash = h\<rparr>]) (HashToken IDKey salt plaintext)"

text \<open>The outcome of a lookup: an error, no match, or a host.  \<open>done i\<close>: the context is done at record \<open>i\<close>.\<close>

fun Lookup_from :: "idkey \<Rightarrow> (nat \<Rightarrow> bool) \<Rightarrow> nat \<Rightarrow> string \<Rightarrow> token_store \<Rightarrow> unit + string option" where
  "Lookup_from IDKey ctxDone i token [] = Inr None"
| "Lookup_from IDKey ctxDone i token (r # rs) =
     (if ctxDone i then Inl ()
      else (case VerifyToken IDKey token (tr_hash r) of
              Inl _ \<Rightarrow> Lookup_from IDKey ctxDone (Suc i) token rs
            | Inr ok \<Rightarrow>
                if ok then Inr (Some (tr_hostID r)) else Lookup_from IDKey ctxDone (Suc i) token rs))"

definition Lookup :: "idkey \<Rightarrow> (nat \<Rightarrow> bool) \<Rightarrow> string \<Rightarrow> token_store \<Rightarrow> unit + string option" where
  "Lookup IDKey ctxDone token records = Lookup_from IDKey ctxDone 0 token records"

subsection \<open>Base64 lemmas\<close>

lemma b64_dec_enc: "i < 64 \<Longrightarrow> b64_dec (b64_enc i) = Some i"
proof -
  have "list_all (\<lambda>i. b64_dec (b64_enc i) = Some i) [0..<64]" by code_simp
  then show "i < 64 \<Longrightarrow> b64_dec (b64_enc i) = Some i" by (simp add: list_all_iff)
qed

lemma b64_enc_set: "i < 64 \<Longrightarrow> b64_enc i \<in> set b64_alphabet"
proof -
  have "length b64_alphabet = 64" by code_simp
  then show "i < 64 \<Longrightarrow> b64_enc i \<in> set b64_alphabet" by (simp add: b64_enc_def)
qed

lemma alphabet_clean: "c \<in> set b64_alphabet \<Longrightarrow> c \<noteq> CHR 0x0a \<and> c \<noteq> CHR 0x0d \<and> c \<noteq> CHR ''$''"
  by (auto simp: b64_alphabet_def)

lemma byte_less [simp]: "byte c < 256"
  by (simp add: byte_def)

lemma char_of_byte [simp]: "char_of (byte c) = (c :: char)"
  by (simp add: byte_def)

lemma byte_parts [simp]: "byte a div 4 < 64" "byte a div 16 < 16" "byte a div 64 < 4"
  using byte_less [of a] by (simp_all add: less_mult_imp_div_less del: byte_less)

lemma b64_sextets [simp]:
  "byte a mod 4 * 16 + byte b div 16 < 64" "byte b mod 16 * 4 + byte c div 64 < 64"
  "byte c mod 64 < 64" "byte b mod 16 * 4 < 64" "byte a mod 4 * 16 < 64"
proof -
  have "byte a mod 4 \<le> 3" "byte b div 16 \<le> 15" "byte b mod 16 \<le> 15" "byte c div 64 \<le> 3"
    using byte_parts [of a] byte_parts [of b] byte_parts [of c] pos_mod_bound [of 4 "byte a"]
    by (simp_all add: less_Suc_eq_le [symmetric] del: byte_parts)
  then show "byte a mod 4 * 16 + byte b div 16 < 64" "byte b mod 16 * 4 + byte c div 64 < 64"
    "byte c mod 64 < 64" "byte b mod 16 * 4 < 64" "byte a mod 4 * 16 < 64" by simp_all
qed

lemma byte_rejoin [simp]:
  "byte a div 4 * 4 + (byte a mod 4 * 16 + byte b div 16) div 16 = byte a"
  "(byte a mod 4 * 16 + byte b div 16) mod 16 * 16 + (byte b mod 16 * 4 + byte c div 64) div 4 = byte b"
  "(byte b mod 16 * 4 + byte c div 64) mod 4 * 64 + byte c mod 64 = byte c"
  "(byte a mod 4 * 16 + byte b div 16) mod 16 * 16 + byte b mod 16 * 4 div 4 = byte b"
  "byte a div 4 * 4 + byte a mod 4 * 16 div 16 = byte a"
proof -
  have z: "byte b div 16 div 16 = 0" "byte b div 16 mod 16 = byte b div 16" "byte c div 64 div 4 = 0"
    "byte c div 64 mod 4 = byte c div 64"
    by (simp_all only: div_less mod_less byte_parts)
  show "byte a div 4 * 4 + (byte a mod 4 * 16 + byte b div 16) div 16 = byte a" by (simp add: z)
  show "(byte a mod 4 * 16 + byte b div 16) mod 16 * 16 + (byte b mod 16 * 4 + byte c div 64) div 4 = byte b"
    by (simp add: z)
  show "(byte b mod 16 * 4 + byte c div 64) mod 4 * 64 + byte c mod 64 = byte c" by (simp add: z)
  show "(byte a mod 4 * 16 + byte b div 16) mod 16 * 16 + byte b mod 16 * 4 div 4 = byte b" by (simp add: z)
  show "byte a div 4 * 4 + byte a mod 4 * 16 div 16 = byte a" by simp
qed

lemma b64_encode_alphabet: "set (b64_encode s) \<subseteq> set b64_alphabet"
  by (induction s rule: b64_encode.induct) (simp_all add: b64_enc_set)

lemma b64_quanta_encode:
  "\<exists>ns. those (map b64_dec (b64_encode s)) = Some ns \<and> b64_quanta ns = Some s"
proof (induction s rule: b64_encode.induct)
  case (1 a b c rest)
  then obtain ns where ns: "those (map b64_dec (b64_encode rest)) = Some ns" "b64_quanta ns = Some rest" by blast
  let ?w = "byte a div 4" and ?x = "byte a mod 4 * 16 + byte b div 16"
    and ?y = "byte b mod 16 * 4 + byte c div 64" and ?z = "byte c mod 64"
  have "those (map b64_dec (b64_encode (a # b # c # rest))) = Some (?w # ?x # ?y # ?z # ns)"
    by (simp add: b64_dec_enc ns(1))
  moreover have "b64_quanta (?w # ?x # ?y # ?z # ns) = Some (a # b # c # rest)"
    by (simp only: b64_quanta.simps byte_rejoin char_of_byte ns(2)) simp
  ultimately show ?case by blast
next
  case (2 a b)
  let ?w = "byte a div 4" and ?x = "byte a mod 4 * 16 + byte b div 16" and ?y = "byte b mod 16 * 4"
  have "those (map b64_dec (b64_encode [a, b])) = Some [?w, ?x, ?y]"
    by (simp add: b64_dec_enc)
  moreover have "b64_quanta [?w, ?x, ?y] = Some [a, b]"
    by (simp only: b64_quanta.simps byte_rejoin char_of_byte)
  ultimately show ?case by blast
next
  case (3 a)
  have "those (map b64_dec (b64_encode [a])) = Some [byte a div 4, byte a mod 4 * 16]"
    by (simp add: b64_dec_enc)
  moreover have "b64_quanta [byte a div 4, byte a mod 4 * 16] = Some [a]"
    by (simp only: b64_quanta.simps byte_rejoin char_of_byte)
  ultimately show ?case by blast
qed simp

lemma b64_roundtrip: "b64_decode (b64_encode s) = Some s"
proof -
  have "filter (\<lambda>c. c \<noteq> CHR 0x0a \<and> c \<noteq> CHR 0x0d) (b64_encode s) = b64_encode s"
    using alphabet_clean b64_encode_alphabet [of s] by (auto simp: filter_id_conv)
  then show ?thesis using b64_quanta_encode [of s] by (auto simp: b64_decode_def)
qed

subsection \<open>A stored hash decodes to what was stored\<close>

lemma itoa_scan:
  assumes "rest = [] \<or> \<not> is_digit (hd rest)"
  shows "takeWhile is_digit (itoa n @ rest) = itoa n" "dropWhile is_digit (itoa n @ rest) = rest"
    "dropWhile (\<lambda>c. is_space c \<and> c \<noteq> nl) (itoa n @ rest) = itoa n @ rest"
proof -
  have d: "\<forall>c \<in> set (itoa n). is_digit c" and ne: "itoa n \<noteq> []"
    using itoa_digits [of n] by (simp_all add: list_all_iff)
  have tw: "takeWhile is_digit rest = []" "dropWhile is_digit rest = rest"
    using assms by (cases rest; simp)+
  from d tw show "takeWhile is_digit (itoa n @ rest) = itoa n"
    "dropWhile is_digit (itoa n @ rest) = rest" by simp_all
  obtain x xs where x: "itoa n = x # xs" using ne by (cases "itoa n") auto
  then have "is_digit x" using d by simp
  then have "\<not> is_space x" by (auto simp: is_digit_def is_space_def)
  with x show "dropWhile (\<lambda>c. is_space c \<and> c \<noteq> nl) (itoa n @ rest) = itoa n @ rest" by simp
qed

lemma scan_uint_itoa:
  "n < 2 ^ bits \<Longrightarrow> rest = [] \<or> \<not> is_digit (hd rest) \<Longrightarrow> scan_uint bits (itoa n @ rest) = Some (n, rest)"
  using itoa_scan [of rest n] itoa_digits [of n] by (simp add: scan_uint_def Let_def)

lemma scan_int_itoa: "int n < 2 ^ 63 \<Longrightarrow> scan_int (itoa n) = Some (int n)"
proof -
  assume n: "int n < 2 ^ 63"
  obtain x xs where x: "itoa n = x # xs" using itoa_digits [of n] by (cases "itoa n") auto
  then have "is_digit x" using itoa_digits [of n] by simp
  then have "x \<noteq> CHR ''-''" "x \<noteq> CHR ''+''" by (auto simp: is_digit_def)
  moreover have "dec_value (x # xs) = n" unfolding x [symmetric] by (rule dec_value_itoa)
  ultimately show ?thesis
    using n itoa_scan [of "[]" n, unfolded x] by (simp add: scan_int_def Let_def x)
qed

lemma skip_lit_append [simp]: "skip_lit p (p @ s) = Some s"
  by (simp add: skip_lit_def has_prefix_def)

lemma scan_params_printed:
  assumes "m < 2 ^ 32" "t < 2 ^ 32" "p < 2 ^ 8"
  shows "scan_params (''m='' @ itoa m @ '',t='' @ itoa t @ '',p='' @ itoa p) =
    Some \<lparr>ap_memory = m, ap_time = t, ap_threads = p\<rparr>"
proof -
  have nd: "\<not> is_digit (CHR '','')" by (simp add: is_digit_def)
  have 1: "scan_uint 32 (itoa m @ '',t='' @ itoa t @ '',p='' @ itoa p) = Some (m, '',t='' @ itoa t @ '',p='' @ itoa p)"
    by (rule scan_uint_itoa [OF assms(1)]) (simp add: nd)
  have 2: "scan_uint 32 (itoa t @ '',p='' @ itoa p) = Some (t, '',p='' @ itoa p)"
    by (rule scan_uint_itoa [OF assms(2)]) (simp add: nd)
  have 3: "scan_uint 8 (itoa p) = Some (p, [])" using scan_uint_itoa [OF assms(3), of "[]"] by simp
  show ?thesis
    by (simp only: scan_params_def skip_lit_append Option.bind.simps 1 2 3 prod.case option.map)
qed

lemma no_dollar: "CHR ''$'' \<notin> set (b64_encode s)" "CHR ''$'' \<notin> set (itoa n)"
  using alphabet_clean b64_encode_alphabet [of s] itoa_digits [of n]
  by (auto simp: list_all_iff is_digit_def)

lemma decodeHash_HashToken:
  assumes "HashToken IDKey (Some sa) token = Some h"
  shows "decodeHash h = Inr (\<lparr>ap_memory = argon2Memory, ap_time = argon2Time, ap_threads = argon2Threads\<rparr>,
    sa, IDKey token sa argon2Time argon2Memory argon2Threads argon2KeyLen)"
proof -
  let ?v = "''v='' @ itoa argon2Version" and ?d = "CHR ''$''"
  let ?p = "''m='' @ itoa argon2Memory @ '',t='' @ itoa argon2Time @ '',p='' @ itoa argon2Threads"
  let ?k = "IDKey token sa argon2Time argon2Memory argon2Threads argon2KeyLen"
  have h: "h = [] @ ?d # ''argon2id'' @ ?d # ?v @ ?d # ?p @ ?d # b64_encode sa @ ?d # b64_encode ?k"
    using assms by (simp add: HashToken_def Let_def)
  have sp: "split_on ?d h = [[], ''argon2id'', ?v, ?p, b64_encode sa, b64_encode ?k]"
  proof -
    have "?d \<notin> set ?v" "?d \<notin> set ?p" "?d \<notin> set ''argon2id''" "?d \<notin> set []"
      by (simp_all add: no_dollar)
    then show ?thesis unfolding h by (simp only: split_on_sep split_on_none no_dollar not_False_eq_True)
  qed
  have "scan_version ?v = Some (int argon2Version)"
    by (simp only: scan_version_def skip_lit_append Option.bind.simps) (rule scan_int_itoa, simp add: argon2Version_def)
  moreover have "scan_params ?p = Some \<lparr>ap_memory = argon2Memory, ap_time = argon2Time, ap_threads = argon2Threads\<rparr>"
    by (rule scan_params_printed) (simp_all add: argon2Memory_def argon2Time_def argon2Threads_def)
  ultimately show ?thesis by (simp add: decodeHash_def sp b64_roundtrip)
qed

lemma VerifyToken_HashToken:
  assumes "HashToken IDKey (Some sa) token = Some h"
    and "\<And>pw. length (IDKey pw sa argon2Time argon2Memory argon2Threads argon2KeyLen) = argon2KeyLen"
  shows "VerifyToken IDKey token' h =
    Inr (IDKey token' sa argon2Time argon2Memory argon2Threads argon2KeyLen =
         IDKey token sa argon2Time argon2Memory argon2Threads argon2KeyLen)"
  by (simp add: VerifyToken_def decodeHash_HashToken [OF assms(1)] assms(2))

lemma Lookup_from_append:
  "Lookup_from IDKey ctx i token (rs @ rs') =
     (case Lookup_from IDKey ctx i token rs of
        Inr None \<Rightarrow> Lookup_from IDKey ctx (i + length rs) token rs'
      | x \<Rightarrow> x)"
  by (induction rs arbitrary: i) (auto split: sum.splits option.splits)

text \<open>
  A token identifies its host: after a token is added for a host, every token that resolved to a host
  before still resolves to it, and a token that resolved to none before resolves to the new host exactly
  if Argon2id derives the same key from it under the stored salt and parameters; in particular the added
  token itself does.  A malformed stored hash never hides a later record.
\<close>

theorem token_binds_host:
  assumes "AddToken IDKey (Some salt) hostID token rs = Some rs'"
    and "\<And>pw. length (IDKey pw salt argon2Time argon2Memory argon2Threads argon2KeyLen) = argon2KeyLen"
  shows "Lookup IDKey (\<lambda>_. False) t rs' =
    (case Lookup IDKey (\<lambda>_. False) t rs of
       Inr None \<Rightarrow>
         Inr (if IDKey t salt argon2Time argon2Memory argon2Threads argon2KeyLen =
                 IDKey token salt argon2Time argon2Memory argon2Threads argon2KeyLen
              then Some hostID else None)
     | x \<Rightarrow> x)"
proof -
  obtain h where h: "HashToken IDKey (Some salt) token = Some h"
    and rs': "rs' = rs @ [\<lparr>tr_hostID = hostID, tr_hash = h\<rparr>]"
    using assms(1) by (auto simp: AddToken_def)
  show ?thesis
    by (simp add: Lookup_def rs' Lookup_from_append VerifyToken_HashToken [OF h assms(2)]
        split: sum.splits option.splits)
qed

theorem token_binds_host_witness:
  "\<exists>rs'. AddToken (\<lambda>pw _ _ _ _ n. take n (pw @ replicate n CHR ''x'')) (Some ''salt'') ''nas'' ''secret'' [] = Some rs' \<and>
     Lookup (\<lambda>pw _ _ _ _ n. take n (pw @ replicate n CHR ''x'')) (\<lambda>_. False) ''secret'' rs' = Inr (Some ''nas'') \<and>
     Lookup (\<lambda>pw _ _ _ _ n. take n (pw @ replicate n CHR ''x'')) (\<lambda>_. False) ''Secret'' rs' = Inr None"
proof -
  let ?k = "\<lambda>pw _ _ _ _ n. take n (pw @ replicate n CHR ''x'') :: string"
  obtain rs' where a: "AddToken ?k (Some ''salt'') ''nas'' ''secret'' [] = Some rs'"
    by (simp add: AddToken_def HashToken_def Let_def)
  have l: "\<And>pw. length (?k pw ''salt'' argon2Time argon2Memory argon2Threads argon2KeyLen) = argon2KeyLen" by simp
  from token_binds_host [OF a l, of "''secret''"] token_binds_host [OF a l, of "''Secret''"] a show ?thesis
    by (simp add: Lookup_def argon2KeyLen_def)
qed

end
