(* ===== verification/Transport.thy ===== *)
theory Transport
  imports Wire Token
begin

text \<open>
  The ingest protocol, \<open>internal/transport\<close>: the hub's \<open>POST /v1/ingest\<close> handler (\<open>server.go\<close>) with its
  idempotency store (\<open>idempotency.go\<close>) and per-host limiter (\<open>ratelimit.go\<close>), and the agent's client
  (\<open>client.go\<close>).  Protobuf, zstd, the token bucket of \<open>golang.org/x/time/rate\<close> and the HTTP exchange
  are parameters.
\<close>

subsection \<open>Idempotency (idempotency.go)\<close>

definition seen_key :: "string \<Rightarrow> string \<Rightarrow> string" where
  "seen_key hostID batchID = hostID @ us # batchID"

definition MarkSeen :: "string \<Rightarrow> string \<Rightarrow> string list \<Rightarrow> bool \<times> string list" where
  "MarkSeen hostID batchID seen =
     (let key = seen_key hostID batchID in
      if key \<in> set seen then (True, seen) else (False, key # seen))"

subsection \<open>Rate limiting (ratelimit.go)\<close>

text \<open>The token bucket: how a new one starts, and whether it lets a request pass now.\<close>

record 'l bucket =
  bk_new :: 'l
  bk_allow :: "'l \<Rightarrow> bool \<times> 'l"

definition limiter_Allow :: "'l bucket \<Rightarrow> string \<Rightarrow> (string \<times> 'l) list \<Rightarrow> bool \<times> (string \<times> 'l) list" where
  "limiter_Allow B hostID limiters =
     (let lim = (case map_of limiters hostID of None \<Rightarrow> bk_new B | Some l \<Rightarrow> l) in
      case bk_allow B lim of (ok, lim') \<Rightarrow> (ok, AList.update hostID lim' limiters))"

subsection \<open>The handler (server.go)\<close>

definition DefaultMaxBodyBytes :: nat where
  "DefaultMaxBodyBytes = 4 * 2 ^ 20"

record request =
  rq_method :: string
  rq_auth :: string
  rq_body :: string
  rq_bodyErr :: bool

record ingestResponse =
  ir_lastOffset :: string
  ir_duplicate :: bool

record response =
  rs_status :: nat
  rs_body :: string

record ('e, 'st, 'l) server =
  sv_lookup :: "string \<Rightarrow> unit + string option"
  sv_bucket :: "'l bucket option"
  sv_maxBody :: nat
  sv_decompress :: "string \<Rightarrow> string option"
  sv_unmarshal :: "string \<Rightarrow> batch option"
  sv_marshalResp :: "ingestResponse \<Rightarrow> string option"
  sv_receiver :: "('e, 'st) receiver"

record ('st, 'l) hub =
  hb_seen :: "string list"
  hb_limiters :: "(string \<times> 'l) list"
  hb_store :: 'st

definition bearerToken :: "request \<Rightarrow> string option" where
  "bearerToken r =
     (if has_prefix (rq_auth r) ''Bearer '' then Some (trim_prefix (rq_auth r) ''Bearer '') else None)"

definition http_error :: "nat \<Rightarrow> string \<Rightarrow> response" where
  "http_error code msg = \<lparr>rs_status = code, rs_body = msg @ [nl]\<rparr>"

definition rate_check :: "('e, 'st, 'l) server \<Rightarrow> string \<Rightarrow> ('st, 'l) hub \<Rightarrow> bool \<times> ('st, 'l) hub" where
  "rate_check S hostID h =
     (case sv_bucket S of
        None \<Rightarrow> (True, h)
      | Some B \<Rightarrow>
          (case limiter_Allow B hostID (hb_limiters h) of
             (ok, ls) \<Rightarrow> (ok, h\<lparr>hb_limiters := ls\<rparr>)))"

definition read_body :: "('e, 'st, 'l) server \<Rightarrow> request \<Rightarrow> response + batch" where
  "read_body S r =
     (let maxBytes = (if sv_maxBody S = 0 then DefaultMaxBodyBytes else sv_maxBody S);
          body = take (maxBytes + 1) (rq_body r) in
      if rq_bodyErr r then Inl (http_error 400 ''reading body'')
      else if maxBytes < length body then Inl (http_error 413 ''batch too large'')
      else (case sv_decompress S body of
              None \<Rightarrow> Inl (http_error 400 ''decompressing body'')
            | Some raw \<Rightarrow>
                (case sv_unmarshal S raw of
                   None \<Rightarrow> Inl (http_error 400 ''invalid protobuf'')
                 | Some b \<Rightarrow> Inr b)))"

text \<open>The handler after authentication and rate limiting.  \<open>ctxErr\<close>: the request context's error.\<close>

definition ingest_batch ::
  "('e, 'st, 'l) server \<Rightarrow> 'e option \<Rightarrow> string \<Rightarrow> batch \<Rightarrow> ('st, 'l) hub \<Rightarrow> response \<times> ('st, 'l) hub" where
  "ingest_batch S ctxErr hostID b h =
     (if ba_hostId b \<noteq> hostID then (http_error 403 ''batch host_id does not match token'', h)
      else if ba_batchId b = [] then (http_error 400 ''batch_id is required'', h)
      else
        (case MarkSeen hostID (ba_batchId b) (hb_seen h) of
           (duplicate, seen) \<Rightarrow>
             let h1 = h\<lparr>hb_seen := seen\<rparr>;
                 stored = (if duplicate then (None, hb_store h1)
                           else ReceiveBatch (sv_receiver S) ctxErr b (hb_store h1));
                 h2 = h1\<lparr>hb_store := snd stored\<rparr> in
             if fst stored \<noteq> None then (http_error 500 ''storing batch'', h2)
             else (case sv_marshalResp S \<lparr>ir_lastOffset = ba_batchId b, ir_duplicate = duplicate\<rparr> of
                     None \<Rightarrow> (http_error 500 ''encoding response'', h2)
                   | Some bytes \<Rightarrow> (\<lparr>rs_status = 200, rs_body = bytes\<rparr>, h2))))"

definition handleIngest ::
  "('e, 'st, 'l) server \<Rightarrow> 'e option \<Rightarrow> request \<Rightarrow> ('st, 'l) hub \<Rightarrow> response \<times> ('st, 'l) hub" where
  "handleIngest S ctxErr r h =
     (if rq_method r \<noteq> ''POST'' then (http_error 405 ''method not allowed'', h)
      else (case bearerToken r of
        None \<Rightarrow> (http_error 401 ''missing bearer token'', h)
      | Some token \<Rightarrow>
          (case sv_lookup S token of
             Inl _ \<Rightarrow> (http_error 500 ''auth error'', h)
           | Inr None \<Rightarrow> (http_error 401 ''invalid token'', h)
           | Inr (Some hostID) \<Rightarrow>
               (case rate_check S hostID h of
                  (False, h1) \<Rightarrow> (http_error 429 ''rate limit exceeded'', h1)
                | (True, h1) \<Rightarrow>
                    (case read_body S r of
                       Inl resp \<Rightarrow> (resp, h1)
                     | Inr b \<Rightarrow> ingest_batch S ctxErr hostID b h1)))))"

subsection \<open>The client (client.go)\<close>

datatype 'x send_error = Insecure security_error | MarshalFailed | CompressFailed | HttpFailed 'x
  | Rejected nat string | BadResponse

record 'x client =
  cl_baseURL :: string
  cl_token :: string
  cl_marshal :: "batch \<Rightarrow> string option"
  cl_compress :: "string \<Rightarrow> string option"
  cl_unmarshalResp :: "string \<Rightarrow> ingestResponse option"
  cl_do :: "string \<Rightarrow> request \<Rightarrow> 'x + response"

definition ingest_url :: "'x client \<Rightarrow> string" where
  "ingest_url c = trim_suffix (cl_baseURL c) ''/'' @ ''/v1/ingest''"

definition Send ::
  "(string \<Rightarrow> (string \<times> string) option) \<Rightarrow> 'x client \<Rightarrow> batch \<Rightarrow> 'x send_error + ingestResponse" where
  "Send url c b =
     (case ValidateTransportSecurity url (cl_baseURL c) of
        Some e \<Rightarrow> Inl (Insecure e)
      | None \<Rightarrow> (case cl_marshal c b of
        None \<Rightarrow> Inl MarshalFailed
      | Some raw \<Rightarrow>
          (case cl_compress c raw of
             None \<Rightarrow> Inl CompressFailed
           | Some z \<Rightarrow>
               (case cl_do c (ingest_url c)
                       \<lparr>rq_method = ''POST'', rq_auth = ''Bearer '' @ cl_token c, rq_body = z, rq_bodyErr = False\<rparr> of
                  Inl x \<Rightarrow> Inl (HttpFailed x)
                | Inr resp \<Rightarrow>
                    if rs_status resp \<noteq> 200 then Inl (Rejected (rs_status resp) (trim_space (rs_body resp)))
                    else (case cl_unmarshalResp c (rs_body resp) of
                            None \<Rightarrow> Inl BadResponse
                          | Some out \<Rightarrow> Inr out)))))"

subsection \<open>Lemmas\<close>

lemma rate_check_keeps:
  "rate_check S hostID h = (ok, h') \<Longrightarrow> hb_seen h' = hb_seen h \<and> hb_store h' = hb_store h"
  by (auto simp: rate_check_def split: option.splits prod.splits)

lemma read_body_error: "read_body S r = Inl resp \<Longrightarrow> rs_status resp \<noteq> 200"
  by (auto simp: read_body_def http_error_def Let_def split: if_splits option.splits)

lemma ingest_batch_refused:
  "ba_hostId b \<noteq> hostID \<or> ba_batchId b = [] \<Longrightarrow> ingest_batch S ctxErr hostID b h = (resp, h') \<Longrightarrow>
   h' = h \<and> rs_status resp \<noteq> 200"
  by (auto simp: ingest_batch_def http_error_def split: if_splits)

text \<open>The three ways a request can end: refused, a duplicate, or a new batch.\<close>

definition authorized :: "('e, 'st, 'l) server \<Rightarrow> request \<Rightarrow> batch \<Rightarrow> bool" where
  "authorized S r b \<longleftrightarrow>
     rq_method r = ''POST'' \<and> (\<exists>token. rq_auth r = ''Bearer '' @ token \<and>
       sv_lookup S token = Inr (Some (ba_hostId b))) \<and>
     read_body S r = Inr b \<and> ba_batchId b \<noteq> []"

lemma cut_prefix_eq:
  "(if has_prefix s p then Some (trim_prefix s p) else None) = Some t \<longleftrightarrow> s = p @ t"
  by (auto simp: has_prefix_def trim_prefix_def) (metis append_take_drop_id)

lemma bearerToken_eq: "bearerToken r = Some token \<longleftrightarrow> rq_auth r = ''Bearer '' @ token"
  unfolding bearerToken_def by (rule cut_prefix_eq)

lemma handleIngest_cases:
  assumes "handleIngest S ctxErr r h = (resp, h')"
  shows "(hb_seen h' = hb_seen h \<and> hb_store h' = hb_store h \<and> rs_status resp \<noteq> 200) \<or>
    (\<exists>b. authorized S r b \<and> seen_key (ba_hostId b) (ba_batchId b) \<in> set (hb_seen h) \<and>
       hb_seen h' = hb_seen h \<and> hb_store h' = hb_store h) \<or>
    (\<exists>b. authorized S r b \<and> seen_key (ba_hostId b) (ba_batchId b) \<notin> set (hb_seen h) \<and>
       hb_seen h' = seen_key (ba_hostId b) (ba_batchId b) # hb_seen h \<and>
       hb_store h' = snd (ReceiveBatch (sv_receiver S) ctxErr b (hb_store h)) \<and>
       (rs_status resp = 200 \<longrightarrow> fst (ReceiveBatch (sv_receiver S) ctxErr b (hb_store h)) = None))"
proof (cases "\<exists>token hostID h1 b. rq_method r = ''POST'' \<and> bearerToken r = Some token \<and>
    sv_lookup S token = Inr (Some hostID) \<and> rate_check S hostID h = (True, h1) \<and>
    read_body S r = Inr b \<and> ba_hostId b = hostID \<and> ba_batchId b \<noteq> []")
  case True
  then obtain token h1 b where t: "rq_method r = ''POST''" "bearerToken r = Some token"
    "sv_lookup S token = Inr (Some (ba_hostId b))" "rate_check S (ba_hostId b) h = (True, h1)"
    "read_body S r = Inr b" "ba_batchId b \<noteq> []" by blast
  have h1: "hb_seen h1 = hb_seen h" "hb_store h1 = hb_store h" using rate_check_keeps [OF t(4)] by simp_all
  have au: "authorized S r b" using t by (auto simp: authorized_def bearerToken_eq)
  have "ingest_batch S ctxErr (ba_hostId b) b h1 = (resp, h')" using assms t by (simp add: handleIngest_def)
  then show ?thesis
    using au h1 t(6)
    by (auto simp: ingest_batch_def MarkSeen_def Let_def http_error_def split: if_splits option.splits)
next
  case False
  then have "hb_seen h' = hb_seen h \<and> hb_store h' = hb_store h \<and> rs_status resp \<noteq> 200"
    using assms rate_check_keeps [of S _ h] read_body_error [of S r]
    by (auto simp: handleIngest_def http_error_def split: if_splits option.splits sum.splits prod.splits bool.splits)
      (metis ingest_batch_refused)+
  then show ?thesis by blast
qed

subsection \<open>Sequences of requests\<close>

text \<open>
  A run of the hub: each request with its context error, and the batches that reached the receiver.
\<close>

fun ingest_run ::
  "('e, 'st, 'l) server \<Rightarrow> ('e option \<times> request) list \<Rightarrow> ('st, 'l) hub \<Rightarrow> batch list \<times> ('st, 'l) hub" where
  "ingest_run S [] h = ([], h)"
| "ingest_run S ((ctxErr, r) # rs) h =
     (let h1 = snd (handleIngest S ctxErr r h);
          new = (if hb_seen h1 = hb_seen h then []
                 else (case read_body S r of Inl _ \<Rightarrow> [] | Inr b \<Rightarrow> [b]));
          rest = ingest_run S rs h1 in
      (new @ fst rest, snd rest))"

definition batch_key :: "batch \<Rightarrow> string" where
  "batch_key b = seen_key (ba_hostId b) (ba_batchId b)"

lemma ingest_run_once:
  "distinct (hb_seen h) \<Longrightarrow> distinct (rev (map batch_key (fst (ingest_run S rs h))) @ hb_seen h) \<and>
   hb_seen (snd (ingest_run S rs h)) = rev (map batch_key (fst (ingest_run S rs h))) @ hb_seen h \<and>
   (\<forall>b \<in> set (fst (ingest_run S rs h)). \<exists>(c, r) \<in> set rs. authorized S r b)"
proof (induction rs arbitrary: h)
  case (Cons cr rs)
  obtain c r where cr: "cr = (c, r)" by (meson surj_pair)
  obtain resp h1 where h1: "handleIngest S c r h = (resp, h1)" by (meson surj_pair)
  consider (same) "hb_seen h1 = hb_seen h"
    | (new) b where "authorized S r b" "batch_key b \<notin> set (hb_seen h)" "hb_seen h1 = batch_key b # hb_seen h"
    using handleIngest_cases [OF h1] unfolding batch_key_def by blast
  then show ?case
  proof cases
    case same
    with Cons.IH [of h1] Cons.prems cr h1 show ?thesis by (auto simp: Let_def)
  next
    case new
    then have rb: "read_body S r = Inr b" by (simp add: authorized_def)
    with Cons.IH [of h1] Cons.prems cr h1 new show ?thesis by (auto simp: Let_def)
  qed
qed simp

subsection \<open>Properties\<close>



text \<open>A concrete server for the witnesses: one token, an identity codec, the recording receiver.\<close>

definition demo_server :: "(nat, metric list \<times> event list \<times> logLine list, nat) server" where
  "demo_server =
     \<lparr>sv_lookup = (\<lambda>t. if t = ''t'' then Inr (Some ''h'') else Inr None), sv_bucket = None, sv_maxBody = 0,
      sv_decompress = Some, sv_unmarshal = (\<lambda>raw. Some (ItemsToBatch raw ''h'' [])),
      sv_marshalResp = (\<lambda>x. Some ((if ir_duplicate x then CHR ''1'' else CHR ''0'') # ir_lastOffset x)), sv_receiver = recorder\<rparr>"

definition demo_request :: request where
  "demo_request = \<lparr>rq_method = ''POST'', rq_auth = ''Bearer t'', rq_body = ''b1'', rq_bodyErr = False\<rparr>"

definition demo_hub :: "(metric list \<times> event list \<times> logLine list, nat) hub" where
  "demo_hub = \<lparr>hb_seen = [], hb_limiters = [], hb_store = ([], [], [])\<rparr>"

lemma demo_ingest:
  "handleIngest demo_server None demo_request demo_hub =
     (\<lparr>rs_status = 200, rs_body = ''0b1''\<rparr>, demo_hub\<lparr>hb_seen := [seen_key ''h'' ''b1'']\<rparr>)"
proof -
  have b: "bearerToken demo_request = Some ''t''" by (simp add: bearerToken_eq demo_request_def)
  have "read_body demo_server demo_request = Inr (ItemsToBatch ''b1'' ''h'' [])"
    by (simp add: read_body_def demo_server_def demo_request_def DefaultMaxBodyBytes_def)
  with b show ?thesis
    by (simp add: handleIngest_def rate_check_def ingest_batch_def batch_parts MarkSeen_def ReceiveBatch_def
        demo_server_def demo_hub_def Let_def) (simp add: demo_request_def metrics_of_def events_of_def
        lines_of_def map_filter_simps)
qed





end
