(* ===== verification/Debversion.thy ===== *)
theory Debversion
  imports Netaddr
begin

text \<open>
  Debian version comparison, \<open>internal/debversion\<close>.  The index loops of the source are recursion on the
  rest of the string.  The locale \<open>three_way\<close> is the contract of a comparison that returns -1, 0 or 1:
  each comparison of the package is an interpretation, the later ones proved from the earlier ones.
\<close>

definition nul :: char where
  "nul = CHR 0x00"

definition charOrder :: "char \<Rightarrow> int" where
  "charOrder c =
     (if c = CHR ''~'' then - 1
      else if c = nul then 0
      else if (CHR ''a'' \<le> c \<and> c \<le> CHR ''z'') \<or> (CHR ''A'' \<le> c \<and> c \<le> CHR ''Z'') then of_char c
      else of_char c + 256)"

text \<open>The byte at the front, or the sentinel at the end of the string.\<close>

definition front :: "string \<Rightarrow> char" where
  "front s = (case s of [] \<Rightarrow> nul | c # _ \<Rightarrow> c)"

function compareNonDigitRun :: "string \<Rightarrow> string \<Rightarrow> int" where
  "compareNonDigitRun a b =
     (if a = [] \<and> b = [] then 0
      else
        let oa = charOrder (front a); ob = charOrder (front b) in
        if oa \<noteq> ob then (if oa < ob then - 1 else 1) else compareNonDigitRun (tl a) (tl b))"
  by pat_completeness auto
termination
  by (relation "measure (\<lambda>(a, b). length a + length b)") (auto simp: neq_Nil_conv)

definition compareDigitRun :: "string \<Rightarrow> string \<Rightarrow> int" where
  "compareDigitRun a0 b0 =
     (let a = dropWhile (\<lambda>c. c = CHR ''0'') a0; b = dropWhile (\<lambda>c. c = CHR ''0'') b0 in
      if length a \<noteq> length b then (if length a < length b then - 1 else 1)
      else if a < b then - 1
      else if b < a then 1
      else 0)"

definition nondigits :: "string \<Rightarrow> string" where
  "nondigits s = takeWhile (\<lambda>c. \<not> is_digit c) s"

definition after_nondigits :: "string \<Rightarrow> string" where
  "after_nondigits s = dropWhile (\<lambda>c. \<not> is_digit c) s"

definition digits :: "string \<Rightarrow> string" where
  "digits s = takeWhile is_digit (after_nondigits s)"

definition next_part :: "string \<Rightarrow> string" where
  "next_part s = dropWhile is_digit (after_nondigits s)"

lemma next_part_less: "s \<noteq> [] \<Longrightarrow> length (next_part s) < length s"
proof (cases s)
  case (Cons c r)
  have "length (dropWhile is_digit (dropWhile (\<lambda>c. \<not> is_digit c) r)) \<le> length r"
    "length (dropWhile is_digit r) \<le> length r"
    by (meson length_dropWhile_le le_trans)+
  then show ?thesis using Cons by (simp add: next_part_def after_nondigits_def less_Suc_eq_le)
qed simp

lemma next_part_Nil [simp]: "next_part [] = []" "nondigits [] = []" "digits [] = []"
  by (simp_all add: next_part_def after_nondigits_def nondigits_def digits_def)

function compareVersionPart :: "string \<Rightarrow> string \<Rightarrow> int" where
  "compareVersionPart a b =
     (if a = [] \<and> b = [] then 0
      else
        let c = compareNonDigitRun (nondigits a) (nondigits b) in
        if c \<noteq> 0 then c
        else
          let c = compareDigitRun (digits a) (digits b) in
          if c \<noteq> 0 then c else compareVersionPart (next_part a) (next_part b))"
  by pat_completeness auto
termination
proof (relation "measure (\<lambda>(a, b). length a + length b)")
  fix a b :: string
  assume "\<not> (a = [] \<and> b = [])"
  then show "((next_part a, next_part b), a, b) \<in> measure (\<lambda>(a, b). length a + length b)"
    using next_part_less [of a] next_part_less [of b] by (cases a; cases b) auto
qed simp

definition splitEpoch :: "string \<Rightarrow> string \<times> string" where
  "splitEpoch v =
     (if CHR '':'' \<in> set v
      then (takeWhile (\<lambda>c. c \<noteq> CHR '':'') v, tl (dropWhile (\<lambda>c. c \<noteq> CHR '':'') v))
      else (''0'', v))"

definition splitUpstreamRevision :: "string \<Rightarrow> string \<times> string" where
  "splitUpstreamRevision v =
     (if CHR ''-'' \<in> set v
      then (rev (tl (dropWhile (\<lambda>c. c \<noteq> CHR ''-'') (rev v))), rev (takeWhile (\<lambda>c. c \<noteq> CHR ''-'') (rev v)))
      else (v, []))"

definition Compare :: "string \<Rightarrow> string \<Rightarrow> int" where
  "Compare a b =
     (let (epochA, restA) = splitEpoch a; (epochB, restB) = splitEpoch b;
          c = compareDigitRun epochA epochB in
      if c \<noteq> 0 then c
      else
        let (upstreamA, revisionA) = splitUpstreamRevision restA;
            (upstreamB, revisionB) = splitUpstreamRevision restB;
            c = compareVersionPart upstreamA upstreamB in
        if c \<noteq> 0 then c else compareVersionPart revisionA revisionB)"

declare compareNonDigitRun.simps [simp del] compareVersionPart.simps [simp del]

subsection \<open>Three-way comparisons\<close>

locale three_way =
  fixes cmp :: "'a \<Rightarrow> 'a \<Rightarrow> int"
  assumes range: "cmp a b \<in> {- 1, 0, 1}"
    and anti: "cmp b a = - cmp a b"
    and trans_le: "cmp a b \<le> 0 \<Longrightarrow> cmp b c \<le> 0 \<Longrightarrow> cmp a c \<le> 0"
begin

lemma self: "cmp a a = 0"
  using anti [of a a] by simp

lemma trans_less:
  "cmp a b < 0 \<Longrightarrow> cmp b c \<le> 0 \<Longrightarrow> cmp a c < 0" "cmp a b \<le> 0 \<Longrightarrow> cmp b c < 0 \<Longrightarrow> cmp a c < 0"
proof -
  show "cmp a c < 0" if "cmp a b < 0" "cmp b c \<le> 0"
    using that trans_le [of a b c] trans_le [of b c a] anti [of a c] anti [of b a] by fastforce
  show "cmp a c < 0" if "cmp a b \<le> 0" "cmp b c < 0"
    using that trans_le [of a b c] trans_le [of c a b] anti [of a c] anti [of c b] by fastforce
qed

lemma trans_eq: "cmp a b = 0 \<Longrightarrow> cmp b c = 0 \<Longrightarrow> cmp a c = 0"
  using trans_le [of a b c] trans_le [of c b a] anti [of a b] anti [of b c] anti [of a c] by simp

end

text \<open>Comparing by one key and, on a tie, by another.\<close>

lemma three_way_lex:
  assumes f: "three_way f" and g: "three_way g"
  shows "three_way (\<lambda>a b. if f (h a) (h b) \<noteq> 0 then f (h a) (h b) else g (k a) (k b))"
proof
  fix a b c
  show "(if f (h a) (h b) \<noteq> 0 then f (h a) (h b) else g (k a) (k b)) \<in> {- 1, 0, 1}"
    using three_way.range [OF f] three_way.range [OF g] by auto
  show "(if f (h b) (h a) \<noteq> 0 then f (h b) (h a) else g (k b) (k a)) =
      - (if f (h a) (h b) \<noteq> 0 then f (h a) (h b) else g (k a) (k b))"
    using three_way.anti [OF f, of "h b" "h a"] three_way.anti [OF g, of "k b" "k a"] by simp
  assume "(if f (h a) (h b) \<noteq> 0 then f (h a) (h b) else g (k a) (k b)) \<le> 0"
    "(if f (h b) (h c) \<noteq> 0 then f (h b) (h c) else g (k b) (k c)) \<le> 0"
  then show "(if f (h a) (h c) \<noteq> 0 then f (h a) (h c) else g (k a) (k c)) \<le> 0"
    using three_way.trans_less [OF f, of "h a" "h b" "h c"] three_way.trans_eq [OF f, of "h a" "h b" "h c"]
      three_way.trans_le [OF g, of "k a" "k b" "k c"] by (auto split: if_splits)
qed

subsection \<open>The comparisons of the package\<close>

lemma non_digit_step:
  "compareNonDigitRun a b =
     (let oa = charOrder (front a); ob = charOrder (front b) in
      if oa \<noteq> ob then (if oa < ob then - 1 else 1) else compareNonDigitRun (tl a) (tl b))"
  by (subst compareNonDigitRun.simps) (auto simp: Let_def compareNonDigitRun.simps [of "[]" "[]"])

lemma non_digit_Nil [simp]: "compareNonDigitRun [] [] = 0"
  by (simp add: compareNonDigitRun.simps)

interpretation nondigit: three_way compareNonDigitRun
proof
  fix a b c :: string
  show "compareNonDigitRun a b \<in> {- 1, 0, 1}"
  proof (induction a b rule: compareNonDigitRun.induct)
    case (1 a b)
    then show ?case by (cases "a = [] \<and> b = []") (auto simp: non_digit_step [of a b] Let_def)
  qed
  show "compareNonDigitRun b a = - compareNonDigitRun a b"
  proof (induction a b rule: compareNonDigitRun.induct)
    case (1 a b)
    then show ?case
      by (cases "a = [] \<and> b = []") (auto simp: non_digit_step [of a b] non_digit_step [of b a] Let_def)
  qed
  show "compareNonDigitRun a b \<le> 0 \<Longrightarrow> compareNonDigitRun b c \<le> 0 \<Longrightarrow> compareNonDigitRun a c \<le> 0"
  proof (induction "length a + length b + length c" arbitrary: a b c rule: less_induct)
    case less
    show ?case
    proof (cases "a = [] \<and> b = [] \<and> c = []")
      case False
      then have "length (tl a) + length (tl b) + length (tl c) < length a + length b + length c"
        by (cases a; cases b; cases c) auto
      from less(1) [OF this] less(2,3) show ?thesis
        by (auto simp: non_digit_step [of a b] non_digit_step [of b c] non_digit_step [of a c] Let_def
            split: if_splits)
    qed simp
  qed
qed

interpretation digit: three_way compareDigitRun
  by unfold_locales (auto simp: compareDigitRun_def Let_def split: if_splits)

lemma version_part_Nil [simp]: "compareVersionPart [] [] = 0"
  by (simp add: compareVersionPart.simps)

definition part_step :: "(string \<Rightarrow> string \<Rightarrow> int) \<Rightarrow> string \<Rightarrow> string \<Rightarrow> int" where
  "part_step rest a b =
     (if compareNonDigitRun (nondigits a) (nondigits b) \<noteq> 0 then compareNonDigitRun (nondigits a) (nondigits b)
      else if compareDigitRun (digits a) (digits b) \<noteq> 0 then compareDigitRun (digits a) (digits b)
      else rest (next_part a) (next_part b))"

lemma version_part_step: "compareVersionPart a b = part_step compareVersionPart a b"
proof (cases "a = [] \<and> b = []")
  case True
  then show ?thesis by (simp add: part_step_def digit.self)
next
  case False
  then show ?thesis by (subst compareVersionPart.simps) (simp add: part_step_def Let_def digit.self)
qed

interpretation part: three_way compareVersionPart
proof
  fix a b c :: string
  show "compareVersionPart a b \<in> {- 1, 0, 1}"
  proof (induction a b rule: compareVersionPart.induct)
    case (1 a b)
    then show ?case
      using nondigit.range [of "nondigits a" "nondigits b"] digit.range [of "digits a" "digits b"]
      by (cases "a = [] \<and> b = []") (auto simp: version_part_step [of a b] part_step_def)
  qed
  show "compareVersionPart b a = - compareVersionPart a b"
  proof (induction a b rule: compareVersionPart.induct)
    case (1 a b)
    then show ?case
      using nondigit.anti [of "nondigits b" "nondigits a"] digit.anti [of "digits b" "digits a"]
      by (cases "a = [] \<and> b = []") (auto simp: version_part_step [of a b] version_part_step [of b a] part_step_def)
  qed
  show "compareVersionPart a b \<le> 0 \<Longrightarrow> compareVersionPart b c \<le> 0 \<Longrightarrow> compareVersionPart a c \<le> 0"
  proof (induction "length a + length b + length c" arbitrary: a b c rule: less_induct)
    case less
    show ?case
    proof (cases "a = [] \<and> b = [] \<and> c = []")
      case False
      then have "length (next_part a) + length (next_part b) + length (next_part c) < length a + length b + length c"
        using next_part_less [of a] next_part_less [of b] next_part_less [of c] by (cases a; cases b; cases c) auto
      note ih = less(1) [OF this]
      note nd = nondigit.trans_less [of "nondigits a" "nondigits b" "nondigits c"]
        nondigit.trans_eq [of "nondigits a" "nondigits b" "nondigits c"]
      note dg = digit.trans_less [of "digits a" "digits b" "digits c"] digit.trans_eq [of "digits a" "digits b" "digits c"]
      from less(2,3) ih nd dg show ?thesis
        unfolding version_part_step [of a b] version_part_step [of b c] version_part_step [of a c] part_step_def
        by (auto split: if_splits)
    qed simp
  qed
qed

definition upstream :: "string \<Rightarrow> string" where
  "upstream v = fst (splitUpstreamRevision (snd (splitEpoch v)))"

definition revision :: "string \<Rightarrow> string" where
  "revision v = snd (splitUpstreamRevision (snd (splitEpoch v)))"

lemma Compare_lex:
  "Compare = (\<lambda>a b. if compareDigitRun (fst (splitEpoch a)) (fst (splitEpoch b)) \<noteq> 0
     then compareDigitRun (fst (splitEpoch a)) (fst (splitEpoch b))
     else (\<lambda>a b. if compareVersionPart (upstream a) (upstream b) \<noteq> 0
       then compareVersionPart (upstream a) (upstream b)
       else compareVersionPart (revision a) (revision b)) a b)"
  by (intro ext) (simp add: Compare_def upstream_def revision_def Let_def case_prod_beta)

interpretation version: three_way Compare
  unfolding Compare_lex
  by (rule three_way_lex [OF digit.three_way_axioms three_way_lex [OF part.three_way_axioms part.three_way_axioms]])

text \<open>Versions as a type of their own, preordered by the comparison, so that the order reasoning of the library applies to them.\<close>

datatype deb_version = Deb (deb_text: string)

instantiation deb_version :: preorder
begin

definition less_eq_deb_version :: "deb_version \<Rightarrow> deb_version \<Rightarrow> bool" where
  "less_eq_deb_version x y \<longleftrightarrow> Compare (deb_text x) (deb_text y) \<le> 0"

definition less_deb_version :: "deb_version \<Rightarrow> deb_version \<Rightarrow> bool" where
  "less_deb_version x y \<longleftrightarrow> Compare (deb_text x) (deb_text y) < 0"

instance
proof
  fix x y z :: deb_version
  show "x < y \<longleftrightarrow> x \<le> y \<and> \<not> y \<le> x"
    using version.anti [of "deb_text x" "deb_text y"] by (auto simp: less_eq_deb_version_def less_deb_version_def)
  show "x \<le> x" by (simp add: less_eq_deb_version_def version.self)
  show "x \<le> y \<Longrightarrow> y \<le> z \<Longrightarrow> x \<le> z"
    unfolding less_eq_deb_version_def by (rule version.trans_le)
qed

end

lemma deb_order: "Compare a b \<le> 0 \<longleftrightarrow> Deb a \<le> Deb b" "0 < Compare a b \<longleftrightarrow> Deb b < Deb a" "\<not> Deb a \<le> Deb b \<longleftrightarrow> Deb b < Deb a"
  using version.anti [of a b] by (auto simp: less_eq_deb_version_def less_deb_version_def)

subsection \<open>Digit runs compare as numbers\<close>

lemma dec_value_append: "dec_value (s @ t) = dec_value s * 10 ^ length t + dec_value t"
proof (induction t rule: rev_induct)
  case (snoc c t)
  then show ?case unfolding append_assoc [symmetric] dec_value_snoc by simp
qed (simp add: dec_value_def)

lemma dec_value_Cons: "dec_value (c # s) = digit_val c * 10 ^ length s + dec_value s"
  using dec_value_append [of "[c]" s] by (simp add: dec_value_def)

lemma digit_val_less: "is_digit c \<Longrightarrow> digit_val c < 10"
  by (auto simp: is_digit_of_char digit_val_def)

lemma dec_value_less: "list_all is_digit s \<Longrightarrow> dec_value s < 10 ^ length s"
proof (induction s)
  case (Cons c s)
  then have "digit_val c \<le> 9" "dec_value s < 10 ^ length s" using digit_val_less [of c] by auto
  then have "digit_val c * 10 ^ length s + dec_value s < 9 * 10 ^ length s + 10 ^ length s"
    by (intro add_le_less_mono mult_le_mono1)
  then show ?case by (simp add: dec_value_Cons)
qed (simp add: dec_value_def)

lemma digit_val_mono: "is_digit c \<Longrightarrow> is_digit c' \<Longrightarrow> c < c' \<longleftrightarrow> digit_val c < digit_val c'"
  by (auto simp: is_digit_of_char digit_val_def less_char_def)

lemma digit_val_eq: "is_digit c \<Longrightarrow> is_digit c' \<Longrightarrow> digit_val c = digit_val c' \<longleftrightarrow> c = c'"
  using digit_val_mono [of c c'] digit_val_mono [of c' c] by (metis less_irrefl_nat linorder_neqE)

lemma same_length_less:
  "length a = length b \<Longrightarrow> list_all is_digit a \<Longrightarrow> list_all is_digit b \<Longrightarrow> a < b \<longleftrightarrow> dec_value a < dec_value b"
proof (induction a b rule: list_induct2)
  case (Cons x xs y ys)
  have lt: "dec_value xs < 10 ^ length xs" "dec_value ys < 10 ^ length xs"
    using dec_value_less [of xs] dec_value_less [of ys] Cons by simp_all
  have d: "is_digit x" "is_digit y" using Cons by simp_all
  consider "digit_val x < digit_val y" | "digit_val y < digit_val x" | "x = y"
    using digit_val_eq [OF d] by linarith
  then show ?case
  proof cases
    case 1
    then have "(digit_val x + 1) * 10 ^ length xs \<le> digit_val y * 10 ^ length xs" by (intro mult_le_mono1) simp
    with 1 lt Cons digit_val_mono [OF d] show ?thesis by (simp add: dec_value_Cons algebra_simps)
  next
    case 2
    then have "(digit_val y + 1) * 10 ^ length xs \<le> digit_val x * 10 ^ length xs" by (intro mult_le_mono1) simp
    with 2 lt Cons digit_val_mono [OF d(2,1)] show ?thesis
      by (auto simp: dec_value_Cons algebra_simps)
  next
    case 3
    with Cons show ?thesis by (simp add: dec_value_Cons)
  qed
qed simp

lemma strip_zeros:
  "dec_value (dropWhile (\<lambda>c. c = CHR ''0'') s) = dec_value s"
  "list_all is_digit s \<Longrightarrow> list_all is_digit (dropWhile (\<lambda>c. c = CHR ''0'') s)"
proof -
  show "dec_value (dropWhile (\<lambda>c. c = CHR ''0'') s) = dec_value s"
    by (induction s) (auto simp: dec_value_Cons digit_val_def)
  show "list_all is_digit s \<Longrightarrow> list_all is_digit (dropWhile (\<lambda>c. c = CHR ''0'') s)"
    by (auto simp: list_all_iff dest: set_dropWhileD)
qed

lemma shorter_less:
  assumes "length a < length b" "list_all is_digit a" "list_all is_digit b" "hd b \<noteq> CHR ''0''"
  shows "dec_value a < dec_value b"
proof -
  obtain c b' where b: "b = c # b'" using assms(1) by (cases b) auto
  have "digit_val c \<noteq> 0"
    using assms(3,4) b digit_val_eq [of c "CHR ''0''"] by (auto simp: digit_val_def is_digit_def)
  have "dec_value a < 10 ^ length a" by (rule dec_value_less [OF assms(2)])
  also have "\<dots> \<le> 10 ^ length b'" using assms(1) b by (intro power_increasing) auto
  also have "\<dots> \<le> digit_val c * 10 ^ length b'" using \<open>digit_val c \<noteq> 0\<close> by simp
  finally show ?thesis by (simp add: b dec_value_Cons)
qed

lemma digit_run_numeric:
  assumes "list_all is_digit a" "list_all is_digit b"
  shows "compareDigitRun a b = sgn (int (dec_value a) - int (dec_value b))"
proof -
  let ?a = "dropWhile (\<lambda>c. c = CHR ''0'') a" and ?b = "dropWhile (\<lambda>c. c = CHR ''0'') b"
  have h: "?a \<noteq> [] \<Longrightarrow> hd ?a \<noteq> CHR ''0''" "?b \<noteq> [] \<Longrightarrow> hd ?b \<noteq> CHR ''0''"
    using hd_dropWhile [of "\<lambda>c. c = CHR ''0''"] by blast+
  note z = strip_zeros(2) [OF assms(1)] strip_zeros(2) [OF assms(2)]
  consider "length ?a < length ?b" | "length ?b < length ?a" | "length ?a = length ?b" by linarith
  then have "compareDigitRun a b = sgn (int (dec_value ?a) - int (dec_value ?b))"
  proof cases
    case 1
    then have "?b \<noteq> []" by (metis length_0_conv not_less_zero)
    then have "dec_value ?a < dec_value ?b" by (rule shorter_less [OF 1 z h(2)])
    with 1 show ?thesis by (simp add: compareDigitRun_def Let_def)
  next
    case 2
    then have "?a \<noteq> []" by (metis length_0_conv not_less_zero)
    then have "dec_value ?b < dec_value ?a" by (rule shorter_less [OF 2 z(2,1) h(1)])
    with 2 show ?thesis by (simp add: compareDigitRun_def Let_def)
  next
    case 3
    note l = same_length_less [OF 3 z] same_length_less [OF 3 [symmetric] z(2,1)]
    show ?thesis using 3 l by (auto simp: compareDigitRun_def Let_def sgn_if)
  qed
  then show ?thesis by (simp add: strip_zeros(1))
qed

subsection \<open>A tilde sorts before the end\<close>

lemma tilde_run: "compareNonDigitRun (r @ CHR ''~'' # x) r = - 1"
proof (induction r)
  case Nil
  show ?case by (subst non_digit_step) (simp add: front_def charOrder_def nul_def)
next
  case (Cons c r)
  then show ?case by (subst non_digit_step) (simp add: front_def)
qed

lemma tilde_part: "compareVersionPart (v @ CHR ''~'' # x) v = - 1"
proof (induction "length v" arbitrary: v rule: less_induct)
  case less
  have t: "\<not> is_digit (CHR ''~'')" by (simp add: is_digit_def)
  show ?case
  proof (cases "list_all (\<lambda>c. \<not> is_digit c) v")
    case True
    then have "nondigits v = v" "nondigits (v @ CHR ''~'' # x) = v @ CHR ''~'' # nondigits x"
      using t by (auto simp: nondigits_def list_all_iff takeWhile_append)
    then show ?thesis by (subst version_part_step) (simp add: part_step_def tilde_run)
  next
    case False
    then obtain p d s where v: "v = p @ d # s" "\<forall>c \<in> set p. \<not> is_digit c" "is_digit d"
      using split_list_first_prop [of v is_digit] by (auto simp: list_all_iff)
    have run: "nondigits (v @ y) = p" "after_nondigits (v @ y) = d # s @ y" for y
      using v by (simp_all add: nondigits_def after_nondigits_def)
    show ?thesis
    proof (cases "list_all is_digit s")
      case True
      then have "digits (v @ CHR ''~'' # x) = d # s" "next_part (v @ CHR ''~'' # x) = CHR ''~'' # x"
        "digits (v @ []) = d # s" "next_part (v @ []) = []"
        using v(3) t unfolding digits_def next_part_def run(2) by (auto simp: list_all_iff)
      moreover have "compareVersionPart (CHR ''~'' # x) [] = - 1"
      proof -
        have "nondigits (CHR ''~'' # x) = [] @ CHR ''~'' # nondigits x" using t by (simp add: nondigits_def)
        then show ?thesis using tilde_run [of "[]"] by (subst version_part_step) (simp add: part_step_def)
      qed
      ultimately show ?thesis
        using run(1) [of "CHR ''~'' # x"] run(1) [of "[]"]
        by (subst version_part_step) (simp add: part_step_def nondigit.self digit.self)
    next
      case False
      then have e: "\<exists>c \<in> set s. \<not> is_digit c" by (auto simp: list_all_iff)
      then have "digits (v @ y) = d # takeWhile is_digit s" "next_part (v @ y) = dropWhile is_digit s @ y" for y
        using v(3) run(2) by (auto simp: digits_def next_part_def takeWhile_append dropWhile_append)
      note s = this [of "CHR ''~'' # x"] this [of "[]", simplified]
      have "length (dropWhile is_digit s) < length v" using v(1) length_dropWhile_le [of is_digit s] by simp
      from less [OF this] show ?thesis
        using run(1) [of "CHR ''~'' # x"] run(1) [of "[]"] s
        by (subst version_part_step) (simp add: part_step_def nondigit.self digit.self)
    qed
  qed
qed

subsection \<open>Properties\<close>

text \<open>
  Version comparison is a total preorder: \<open>Compare\<close> returns -1, 0 or 1, comparing the other way round
  negates the result, and "not newer" is transitive; so sorting and picking the newest candidate are well
  defined whatever the version strings are.
\<close>

theorem compare_total_preorder:
  "Compare a b \<in> {- 1, 0, 1} \<and> Compare b a = - Compare a b \<and> Compare a a = 0 \<and>
   (Compare a b \<le> 0 \<longrightarrow> Compare b c \<le> 0 \<longrightarrow> Compare a c \<le> 0) \<and>
   (Compare a b = 0 \<longrightarrow> Compare a c = Compare b c)"
proof -
  have "Compare a b = 0 \<Longrightarrow> Compare a c = Compare b c"
    using version.trans_less(2) [of a b c] version.trans_eq [of a b c] version.trans_less(2) [of b a c]
      version.trans_eq [of b a c] version.anti [of b a] version.range [of a c] version.range [of b c] by fastforce
  then show ?thesis using version.range [of a b] version.anti [of a b] version.self [of a] version.trans_le [of a b c]
    by simp
qed

theorem compare_total_preorder_witness:
  "Compare ''1.9'' ''1.10'' = - 1 \<and> Compare ''1.10'' ''1:0'' = - 1 \<and> Compare ''1.9'' ''1:0'' \<le> 0 \<and>
   Compare ''1.0-1'' ''1.00-1'' = 0 \<and> Compare ''1.0-1'' ''2'' = Compare ''1.00-1'' ''2''"
proof -
  have a: "Compare ''1.9'' ''1.10'' = - 1" "Compare ''1.10'' ''1:0'' = - 1" "Compare ''1.0-1'' ''1.00-1'' = 0"
    by code_simp+
  then show ?thesis
    using compare_total_preorder [of "''1.9''" "''1.10''" "''1:0''"]
      compare_total_preorder [of "''1.0-1''" "''1.00-1''" "''2''"] by simp
qed

text \<open>
  The policy's two distinctive rules.  A run of digits counts as the number it denotes, of any length
  and with any leading zeros, and a version extended by a tilde and anything after it sorts before the
  version itself.
\<close>

theorem compare_policy:
  assumes "list_all is_digit a" "list_all is_digit b"
  shows "compareDigitRun a b = sgn (int (dec_value a) - int (dec_value b)) \<and>
    compareVersionPart (v @ CHR ''~'' # x) v = - 1"
  using digit_run_numeric [OF assms] tilde_part by simp

theorem compare_policy_witness:
  "compareDigitRun ''0010'' ''9'' = 1 \<and> compareVersionPart (''1.0'' @ CHR ''~'' # ''beta1'') ''1.0'' = - 1"
  using compare_policy [of "''0010''" "''9''" "''1.0''" "''beta1''"] by (simp add: is_digit_def dec_value_def digit_val_def)

end
