(* ===== verification/Strconv.thy ===== *)
theory Strconv
  imports Netaddr
begin

text \<open>
  The parts of \<open>strconv\<close> and \<open>fmt\<close> that the parsers of this development use: \<open>Atoi\<close>, \<open>ParseInt\<close> and
  \<open>ParseUint\<close> in base 10, printing of signed integers, and \<open>%.6f\<close> of a value in [0, 1].
\<close>

definition ParseUint :: "nat \<Rightarrow> string \<Rightarrow> nat option" where
  "ParseUint bits s =
     (if s = [] \<or> \<not> list_all is_digit s \<or> 2 ^ bits \<le> dec_value s then None else Some (dec_value s))"

definition Atoi :: "string \<Rightarrow> int option" where
  "Atoi s =
     (let neg = (s \<noteq> [] \<and> hd s = CHR ''-'');
          ds = (if s \<noteq> [] \<and> (hd s = CHR ''-'' \<or> hd s = CHR ''+'') then tl s else s);
          n = int (dec_value ds) in
      if ds = [] \<or> \<not> list_all is_digit ds then None
      else if neg then (if n \<le> 2 ^ 63 then Some (- n) else None)
      else (if n < 2 ^ 63 then Some n else None))"

definition itoa_int :: "int \<Rightarrow> string" where
  "itoa_int n = (if n < 0 then CHR ''-'' # itoa (nat (- n)) else itoa (nat n))"

definition pad_zeros :: "nat \<Rightarrow> string \<Rightarrow> string" where
  "pad_zeros w s = replicate (w - length s) (CHR ''0'') @ s"

text \<open>Round half to even, to an integer.\<close>

definition round_even :: "rat \<Rightarrow> int" where
  "round_even x =
     (let f = \<lfloor>x\<rfloor>; d = x - of_int f in
      if d < 1 / 2 then f else if 1 / 2 < d then f + 1 else if even f then f else f + 1)"

definition fmt6 :: "rat \<Rightarrow> string" where
  "fmt6 x = (let n = nat (round_even (x * 1000000)) in
             itoa (n div 1000000) @ ''.'' @ pad_zeros 6 (itoa (n mod 1000000)))"

lemma Atoi_itoa_int:
  assumes "- (2 ^ 63) \<le> n" "n < 2 ^ 63"
  shows "Atoi (itoa_int n) = Some n"
proof -
  have d: "list_all is_digit (itoa m)" "itoa m \<noteq> []" for m using itoa_digits [of m] by simp_all
  have h: "hd (itoa m) \<noteq> CHR ''-''" "hd (itoa m) \<noteq> CHR ''+''" for m
    using d [of m] by (cases "itoa m"; auto simp: is_digit_def)+
  show ?thesis
  proof (cases "n < 0")
    case True
    with assms d show ?thesis by (simp add: Atoi_def itoa_int_def Let_def)
  next
    case False
    with assms d h show ?thesis by (simp add: Atoi_def itoa_int_def Let_def)
  qed
qed

lemma Atoi_range: "Atoi s = Some n \<Longrightarrow> - (2 ^ 63) \<le> n \<and> n < 2 ^ 63"
  by (auto simp: Atoi_def Let_def split: if_splits)

end
