(* ===== verification/Faultcluster.thy ===== *)
theory Faultcluster
  imports Schema Strconv
begin

text \<open>
  Segfault clustering by physical core, \<open>internal/faultcluster\<close>: the topology read from sysfs
  (\<open>topology.go\<close>), the binomial test (\<open>binomial.go\<close>) and the tracker (\<open>tracker.go\<close>).  The sysfs tree is a
  function from paths to file contents.  Floating point is rational arithmetic with a rounding function
  after every operation: \<open>rnd = (\<lambda>x. x)\<close> is exact arithmetic, and any other \<open>rnd\<close> is a statement about
  rounded arithmetic.
\<close>

subsection \<open>Topology (topology.go)\<close>

datatype coreType = CoreTypeP | CoreTypeE | CoreTypeUnknown

definition coreType_string :: "coreType \<Rightarrow> string" where
  "coreType_string t =
     (case t of CoreTypeP \<Rightarrow> ''p-core'' | CoreTypeE \<Rightarrow> ''e-core'' | CoreTypeUnknown \<Rightarrow> ''unknown'')"

record topology =
  tp_core :: "(int \<times> int) list"
  tp_type :: "(int \<times> coreType) list"
  tp_online :: "(int \<times> bool) list"

definition parseCPUDirName :: "string \<Rightarrow> int option" where
  "parseCPUDirName name =
     (let ds = drop 3 name in
      if has_prefix name ''cpu'' \<and> ds \<noteq> [] \<and> list_all is_digit ds then Atoi ds else None)"

text \<open>
  One element of a CPU list.  A range up to the largest integer never ends: the loop variable wraps
  around; this is \<open>None\<close>.
\<close>

definition cpu_range :: "string \<Rightarrow> int list option" where
  "cpu_range part0 =
     (let part = trim_space part0 in
      if part = [] then Some []
      else if CHR ''-'' \<in> set part then
        let lo = takeWhile (\<lambda>c. c \<noteq> CHR ''-'') part; hi = tl (dropWhile (\<lambda>c. c \<noteq> CHR ''-'') part) in
        (case (Atoi lo, Atoi hi) of
           (Some l, Some h) \<Rightarrow> if h = max_int64 then None else Some [l..h]
         | _ \<Rightarrow> Some [])
      else (case Atoi part of None \<Rightarrow> Some [] | Some n \<Rightarrow> Some [n]))"

definition parseCPUList :: "string \<Rightarrow> int list option" where
  "parseCPUList s =
     (if s = [] then Some []
      else map_option concat (those (map cpu_range (split_on (CHR '','') s))))"

definition hybridCPUSet :: "(string \<Rightarrow> string option) \<Rightarrow> string \<Rightarrow> int list option" where
  "hybridCPUSet sys pmuName =
     (case sys (''bus/event_source/devices/'' @ pmuName @ ''/cpus'') of
        None \<Rightarrow> Some []
      | Some raw \<Rightarrow> parseCPUList (trim_space raw))"

definition read_cpu :: "(string \<Rightarrow> string option) \<Rightarrow> string \<Rightarrow> topology \<Rightarrow> topology" where
  "read_cpu sys name t =
     (case parseCPUDirName name of
        None \<Rightarrow> t
      | Some cpu \<Rightarrow>
          let dir = ''devices/system/cpu/'' @ name;
              core = (case sys (dir @ ''/topology/core_id'') of
                        None \<Rightarrow> cpu
                      | Some raw \<Rightarrow> (case Atoi (trim_space raw) of None \<Rightarrow> cpu | Some n \<Rightarrow> n));
              online = (case sys (dir @ ''/online'') of None \<Rightarrow> True | Some raw \<Rightarrow> trim_space raw = ''1'') in
          t\<lparr>tp_core := AList.update cpu core (tp_core t),
            tp_type := AList.update cpu CoreTypeUnknown (tp_type t),
            tp_online := AList.update cpu online (tp_online t)\<rparr>)"

definition mark_type :: "coreType \<Rightarrow> int \<Rightarrow> topology \<Rightarrow> topology" where
  "mark_type ty cpu t =
     (if map_of (tp_core t) cpu = None then t else t\<lparr>tp_type := AList.update cpu ty (tp_type t)\<rparr>)"

text \<open>\<open>entries\<close> is the listing of the CPU directory, \<open>None\<close> when it cannot be read.\<close>

definition ReadTopology :: "string list option \<Rightarrow> (string \<Rightarrow> string option) \<Rightarrow> (unit + topology) option" where
  "ReadTopology entries sys =
     (case entries of
        None \<Rightarrow> Some (Inl ())
      | Some names \<Rightarrow>
          let t = fold (read_cpu sys) names \<lparr>tp_core = [], tp_type = [], tp_online = []\<rparr> in
          (case (hybridCPUSet sys ''cpu_core'', hybridCPUSet sys ''cpu_atom'') of
             (Some ps, Some es) \<Rightarrow> Some (Inr (fold (mark_type CoreTypeE) es (fold (mark_type CoreTypeP) ps t)))
           | _ \<Rightarrow> None))"

definition OfflineCPUs :: "topology \<Rightarrow> int list" where
  "OfflineCPUs t = sort (map fst (filter (\<lambda>(_, online). \<not> online) (tp_online t)))"

definition ActiveCores :: "topology \<Rightarrow> int list" where
  "ActiveCores t =
     remdups (map snd (filter (\<lambda>(cpu, _). map_of (tp_online t) cpu = Some True) (tp_core t)))"

subsection \<open>The binomial test (binomial.go)\<close>

text \<open>One turn of the loop, on the pair of the current term and the sum.\<close>

definition tail_step :: "(rat \<Rightarrow> rat) \<Rightarrow> nat \<Rightarrow> nat \<Rightarrow> rat \<Rightarrow> rat \<Rightarrow> nat \<Rightarrow> rat \<times> rat \<Rightarrow> rat \<times> rat" where
  "tail_step rnd n k p q i st =
     (let term = (if 0 < i
                  then rnd (fst st * rnd (rnd (rnd (of_nat (n - i + 1) / of_nat i) * p) / q))
                  else fst st) in
      (term, if k \<le> i then rnd (snd st + term) else snd st))"

definition upperTailPValue :: "(rat \<Rightarrow> rat) \<Rightarrow> int \<Rightarrow> int \<Rightarrow> rat \<Rightarrow> rat" where
  "upperTailPValue rnd n k p =
     (if k \<le> 0 then 1
      else if n \<le> 0 \<or> n < k then 0
      else if p \<le> 0 then 0
      else if 1 \<le> p then 1
      else
        let q = rnd (1 - p);
            sum = snd (fold (tail_step rnd (nat n) (nat k) p q) [0..<nat n + 1] (rnd (q ^ nat n), 0)) in
        if 1 < sum then 1 else sum)"

subsection \<open>The tracker (tracker.go)\<close>

definition MinSamples :: nat where
  "MinSamples = 5"

definition MaxPValue :: "(rat \<Rightarrow> rat) \<Rightarrow> rat" where
  "MaxPValue rnd = rnd (1 / 100)"

record tracker =
  tk_topo :: topology
  tk_count :: "(int \<times> nat) list"
  tk_total :: nat
  tk_flagged :: "int list"

definition NewTracker :: "topology \<Rightarrow> tracker" where
  "NewTracker topo = \<lparr>tk_topo = topo, tk_count = [], tk_total = 0, tk_flagged = []\<rparr>"

definition count_of :: "tracker \<Rightarrow> int \<Rightarrow> nat" where
  "count_of t core = (case map_of (tk_count t) core of None \<Rightarrow> 0 | Some n \<Rightarrow> n)"

definition fault_event ::
  "topology \<Rightarrow> string \<Rightarrow> string \<Rightarrow> string \<Rightarrow> int \<Rightarrow> int \<Rightarrow> nat \<Rightarrow> nat \<Rightarrow> rat \<Rightarrow> time \<Rightarrow> event" where
  "fault_event topo ulid hostID comm core cpu k n pv now =
     \<lparr>ev_id = ulid, ev_ts = now, ev_tsReceived = time_zero, ev_hostID = hostID,
      ev_source = ''faultcluster'', ev_type = ''hw.cpu_fault_cluster'', ev_severity = ''warn'',
      ev_title = itoa k @ '' of '' @ itoa n @ '' segfaults clustered on physical core '' @ itoa_int core,
      ev_subject = \<lparr>es_kind = ''cpu_core'', es_name = itoa_int core, es_pid = 0\<rparr>,
      ev_attrs = [(''comm'', comm), (''core_id'', itoa_int core), (''cpu'', itoa_int cpu),
        (''fault_count'', itoa k), (''total_faults'', itoa n), (''p_value'', fmt6 pv),
        (''core_type'', (case map_of (tp_type topo) cpu of None \<Rightarrow> [] | Some ty \<Rightarrow> coreType_string ty))],
      ev_fingerprint = [], ev_logRefs = [], ev_schema = CurrentSchemaVersion\<rparr>"

definition Observe ::
  "(rat \<Rightarrow> rat) \<Rightarrow> string \<Rightarrow> string \<Rightarrow> string \<Rightarrow> int \<Rightarrow> time \<Rightarrow> tracker \<Rightarrow> event option \<times> tracker" where
  "Observe rnd ulid hostID comm cpu now t0 =
     (case map_of (tp_core (tk_topo t0)) cpu of
        None \<Rightarrow> (None, t0)
      | Some core \<Rightarrow>
          let k = count_of t0 core + 1;
              t = t0\<lparr>tk_count := AList.update core k (tk_count t0), tk_total := tk_total t0 + 1\<rparr>;
              active = length (ActiveCores (tk_topo t)) in
          if core \<in> set (tk_flagged t) \<or> k < MinSamples then (None, t)
          else if active = 0 then (None, t)
          else
            let pv = upperTailPValue rnd (int (tk_total t)) (int k) (rnd (1 / of_nat active)) in
            if MaxPValue rnd \<le> pv then (None, t)
            else (Some (fault_event (tk_topo t) ulid hostID comm core cpu k (tk_total t) pv now),
                  t\<lparr>tk_flagged := core # tk_flagged t\<rparr>))"

subsection \<open>The loop computes the binomial tail\<close>

definition binom_term :: "nat \<Rightarrow> rat \<Rightarrow> nat \<Rightarrow> rat" where
  "binom_term n p i = of_nat (n choose i) * p ^ i * (1 - p) ^ (n - i)"

definition binom_tail :: "nat \<Rightarrow> nat \<Rightarrow> rat \<Rightarrow> rat" where
  "binom_tail n k p = (\<Sum>i \<in> {k..n}. binom_term n p i)"

lemma binom_term_Suc:
  assumes "i < n" "p \<noteq> 1"
  shows "binom_term n p (Suc i) = binom_term n p i * (of_nat (n - i) / of_nat (Suc i) * p / (1 - p))"
proof -
  have "Suc i * (n choose Suc i) = (n - i) * (n choose i)"
    using assms(1) binomial_absorb_comp [of n i] Suc_times_binomial_eq [of "n - 1" i]
    by (cases n) (simp_all add: binomial_absorption)
  then have "of_nat (Suc i) * (of_nat (n choose Suc i) :: rat) = of_nat (n - i) * of_nat (n choose i)"
    by (metis of_nat_mult)
  then have c: "(of_nat (n choose Suc i) :: rat) = of_nat (n choose i) * (of_nat (n - i) / of_nat (Suc i))"
    by (simp add: field_simps del: of_nat_Suc)
  have e: "(1 - p) ^ (n - i) = (1 - p) * (1 - p) ^ (n - Suc i)"
    using assms(1) by (metis Suc_diff_Suc power_Suc)
  define q where "q = 1 - p"
  define x where "x = (of_nat (n - i) / of_nat (Suc i) :: rat)"
  have "q \<noteq> 0" using assms(2) by (simp add: q_def)
  moreover have "q ^ (n - i) = q * q ^ (n - Suc i)" using e by (simp only: q_def)
  ultimately show ?thesis
    unfolding binom_term_def c q_def [symmetric] x_def [symmetric] by (simp add: mult_ac)
qed

lemma tail_loop:
  assumes "p \<noteq> 1" "m \<le> n"
  shows "fold (tail_step (\<lambda>x. x) n k p (1 - p)) [0..<m + 1] ((1 - p) ^ n, 0) =
    (binom_term n p m, \<Sum>i \<in> {k..m}. binom_term n p i)"
  using assms(2)
proof (induction m)
  case 0
  show ?case by (simp add: tail_step_def binom_term_def Let_def)
next
  case (Suc m)
  have "fold (tail_step (\<lambda>x. x) n k p (1 - p)) [0..<Suc m + 1] ((1 - p) ^ n, 0) =
      tail_step (\<lambda>x. x) n k p (1 - p) (Suc m) (binom_term n p m, \<Sum>i \<in> {k..m}. binom_term n p i)"
    using Suc by simp
  also have "n - Suc m + 1 = n - m" using Suc.prems by simp
  then have "tail_step (\<lambda>x. x) n k p (1 - p) (Suc m) (binom_term n p m, \<Sum>i \<in> {k..m}. binom_term n p i) =
      (binom_term n p (Suc m), \<Sum>i \<in> {k..Suc m}. binom_term n p i)"
    using binom_term_Suc [of m n p] Suc.prems assms(1)
    by (simp add: tail_step_def Let_def sum.cl_ivl_Suc add.commute)
  finally show ?case .
qed

lemma binom_nonneg: "0 \<le> p \<Longrightarrow> p \<le> 1 \<Longrightarrow> 0 \<le> binom_term n p i"
  by (simp add: binom_term_def)

lemma binom_all: "binom_tail n 0 p = 1"
  using binomial_ring [of p "1 - p" n] by (simp add: binom_tail_def binom_term_def atLeast0AtMost)

lemma binom_tail_mono:
  assumes "0 \<le> p" "p \<le> 1" "k \<le> k'"
  shows "binom_tail n k' p \<le> binom_tail n k p"
  unfolding binom_tail_def using assms by (intro sum_mono2) (auto intro: binom_nonneg)

lemma pvalue_tail:
  assumes "0 \<le> p" "p \<le> 1"
  shows "upperTailPValue (\<lambda>x. x) (int n) (int k) p = binom_tail n k p"
proof -
  have le: "binom_tail n k p \<le> 1" using binom_tail_mono [OF assms, of 0 k n] binom_all [of n p] by simp
  consider "k = 0" | "0 < k" "n < k" | "0 < k" "k \<le> n" "p = 0" | "0 < k" "k \<le> n" "p = 1"
    | "0 < k" "k \<le> n" "0 < p" "p < 1" using assms by linarith
  then show ?thesis
  proof cases
    case 1
    then show ?thesis using binom_all [of n p] by (simp add: upperTailPValue_def)
  next
    case 2
    then show ?thesis by (simp add: upperTailPValue_def binom_tail_def)
  next
    case 3
    then have "binom_tail n k 0 = 0" by (simp add: binom_tail_def binom_term_def)
    with 3 show ?thesis by (simp add: upperTailPValue_def)
  next
    case 4
    then have "binom_tail n k 1 = (\<Sum>i \<in> {k..n}. if i = n then 1 else 0)"
      unfolding binom_tail_def binom_term_def by (intro sum.cong) auto
    with 4 show ?thesis by (simp add: upperTailPValue_def)
  next
    case 5
    then show ?thesis
      using tail_loop [of p n n k] le by (simp add: upperTailPValue_def Let_def binom_tail_def)
  qed
qed

subsection \<open>Runs of the tracker\<close>

text \<open>An observation: the event id, the process name, the logical CPU and the time.\<close>

type_synonym fault = "string \<times> string \<times> int \<times> time"

fun observe_all :: "(rat \<Rightarrow> rat) \<Rightarrow> string \<Rightarrow> fault list \<Rightarrow> tracker \<Rightarrow> (int \<times> event) list \<times> tracker" where
  "observe_all rnd hostID [] t = ([], t)"
| "observe_all rnd hostID ((ulid, comm, cpu, now) # fs) t =
     (case Observe rnd ulid hostID comm cpu now t of
        (e, t1) \<Rightarrow>
          (case observe_all rnd hostID fs t1 of
             (es, t2) \<Rightarrow>
               ((case (e, map_of (tp_core (tk_topo t)) cpu) of
                   (Some ev, Some core) \<Rightarrow> [(core, ev)]
                 | _ \<Rightarrow> []) @ es, t2)))"

definition faults_on :: "topology \<Rightarrow> int \<Rightarrow> fault list \<Rightarrow> nat" where
  "faults_on topo core fs = length (filter (\<lambda>(_, _, cpu, _). map_of (tp_core topo) cpu = Some core) fs)"

definition known_faults :: "topology \<Rightarrow> fault list \<Rightarrow> nat" where
  "known_faults topo fs = length (filter (\<lambda>(_, _, cpu, _). map_of (tp_core topo) cpu \<noteq> None) fs)"

lemma Observe_frame:
  assumes "Observe rnd ulid hostID comm cpu now t = (e, t')"
  shows "tk_topo t' = tk_topo t"
    "count_of t' core = count_of t core + faults_on (tk_topo t) core [(ulid, comm, cpu, now)]"
    "tk_total t' = tk_total t + known_faults (tk_topo t) [(ulid, comm, cpu, now)]"
    "set (tk_flagged t) \<subseteq> set (tk_flagged t')"
  using assms
  by (auto simp: Observe_def Let_def count_of_def faults_on_def known_faults_def update_conv'
      split: option.splits if_splits)

lemma Observe_event:
  assumes "Observe rnd ulid hostID comm cpu now t = (Some e, t')"
  shows "\<exists>core. map_of (tp_core (tk_topo t)) cpu = Some core \<and> core \<notin> set (tk_flagged t) \<and>
    tk_flagged t' = core # tk_flagged t \<and> MinSamples \<le> count_of t' core \<and>
    upperTailPValue rnd (int (tk_total t')) (int (count_of t' core))
      (rnd (1 / of_nat (length (ActiveCores (tk_topo t))))) < MaxPValue rnd"
  using assms
  by (auto simp: Observe_def Let_def count_of_def update_conv' split: option.splits if_splits)

lemma Observe_flagged:
  "Observe rnd ulid hostID comm cpu now t = (None, t') \<Longrightarrow> tk_flagged t' = tk_flagged t"
  by (auto simp: Observe_def Let_def split: option.splits if_splits)

lemma observe_all_once:
  assumes "observe_all rnd hostID fs t = (es, t')" "distinct (tk_flagged t)"
  shows "distinct (rev (map fst es) @ tk_flagged t) \<and> tk_flagged t' = rev (map fst es) @ tk_flagged t"
  using assms
proof (induction fs arbitrary: t es)
  case (Cons f fs)
  obtain ulid comm cpu now where f: "f = (ulid, comm, cpu, now)" by (metis prod_cases4)
  obtain e t1 where o: "Observe rnd ulid hostID comm cpu now t = (e, t1)" by (meson surj_pair)
  obtain es1 where a: "observe_all rnd hostID fs t1 = (es1, t')"
    using Cons.prems(1) o by (auto simp: f split: prod.splits)
  show ?case
  proof (cases e)
    case None
    with Cons.prems o a Cons.IH [OF a] Observe_flagged [of rnd ulid hostID comm cpu now t t1]
    show ?thesis by (auto simp: f)
  next
    case (Some ev)
    then obtain core where c: "map_of (tp_core (tk_topo t)) cpu = Some core" "core \<notin> set (tk_flagged t)"
        "tk_flagged t1 = core # tk_flagged t"
      using Observe_event [of rnd ulid hostID comm cpu now t ev t1] o by auto
    with Cons.prems o a Cons.IH [OF a] Some show ?thesis by (auto simp: f simp flip: set_map)
  qed
qed simp

lemma observe_all_counts:
  "observe_all rnd hostID fs t = (es, t') \<Longrightarrow>
   tk_topo t' = tk_topo t \<and> count_of t' core = count_of t core + faults_on (tk_topo t) core fs \<and>
   tk_total t' = tk_total t + known_faults (tk_topo t) fs"
proof (induction fs arbitrary: t es)
  case (Cons f fs)
  obtain ulid comm cpu now where f: "f = (ulid, comm, cpu, now)" by (metis prod_cases4)
  obtain e t1 where o: "Observe rnd ulid hostID comm cpu now t = (e, t1)" by (meson surj_pair)
  obtain es1 where a: "observe_all rnd hostID fs t1 = (es1, t')"
    using Cons.prems o by (auto simp: f split: prod.splits)
  show ?case
    using Cons.IH [OF a] Observe_frame(1,3) [OF o] Observe_frame(2) [OF o, of core]
    by (auto simp: f faults_on_def known_faults_def)
qed (simp add: faults_on_def known_faults_def)

subsection \<open>Properties\<close>

text \<open>
  C21 In exact arithmetic the recurrence of \<open>upperTailPValue\<close> computes the upper tail of the binomial
  distribution, for every sample size, threshold and probability, including the boundary cases the
  code treats apart; hence it is a probability, and it never grows with the threshold.
\<close>

theorem pvalue_is_binomial_tail:
  assumes "0 \<le> p" "p \<le> 1"
  shows "upperTailPValue (\<lambda>x. x) (int n) (int k) p =
      (\<Sum>i \<in> {k..n}. of_nat (n choose i) * p ^ i * (1 - p) ^ (n - i)) \<and>
    0 \<le> upperTailPValue (\<lambda>x. x) (int n) (int k) p \<and> upperTailPValue (\<lambda>x. x) (int n) (int k) p \<le> 1 \<and>
    (\<forall>k' \<ge> k. upperTailPValue (\<lambda>x. x) (int n) (int k') p \<le> upperTailPValue (\<lambda>x. x) (int n) (int k) p)"
proof -
  have "0 \<le> binom_tail n k p" by (simp add: binom_tail_def sum_nonneg binom_nonneg assms)
  moreover have "binom_tail n k p \<le> 1"
    using binom_tail_mono [OF assms, of 0 k n] binom_all [of n p] by simp
  ultimately show ?thesis
    using binom_tail_mono [OF assms, of k] pvalue_tail [OF assms, of n]
    by (auto simp: binom_tail_def binom_term_def)
qed

theorem pvalue_is_binomial_tail_witness:
  "upperTailPValue (\<lambda>x. x) (int 3) (int 2) (1 / 2) = 1 / 2 \<and>
   upperTailPValue (\<lambda>x. x) (int 3) (int 3) (1 / 2) \<le> upperTailPValue (\<lambda>x. x) (int 3) (int 2) (1 / 2)"
proof -
  have "{2..3 :: nat} = {2, 3}" by auto
  moreover have "(3 :: nat) choose 2 = 3" by (simp add: numeral_eq_Suc)
  ultimately show ?thesis
    using pvalue_is_binomial_tail [of "1 / 2" 3 2]
    by (auto simp: power2_eq_square power3_eq_cube elim!: allE [of _ 3])
qed

text \<open>
  With rounding, the recurrence breaks down once the first term underflows: whatever the data, if the
  rounded probability of no fault at all is zero, the p-value is zero for every threshold, so a perfectly
  uniform distribution over enough faults is reported as a cluster.
\<close>

theorem pvalue_underflow:
  assumes "rnd 0 = 0" "rnd (rnd (1 - p) ^ n) = 0" "0 < k" "k \<le> n" "0 < p" "p < 1"
  shows "upperTailPValue rnd (int n) (int k) p = 0"
proof -
  have step: "tail_step rnd n k p q i (0, 0) = (0, 0)" for q i by (simp add: tail_step_def Let_def assms(1))
  then have "fold (tail_step rnd n k p q) xs (0, 0) = (0, 0)" for q xs by (induction xs) simp_all
  with assms step show ?thesis by (simp add: upperTailPValue_def Let_def)
qed

theorem pvalue_underflow_witness:
  "upperTailPValue (\<lambda>x. if \<bar>x\<bar> < 1 / 2 ^ 1075 then 0 else x) (int 1100) (int 550) (1 / 2) = 0"
proof -
  have "(1 / 2 :: rat) ^ 1100 < 1 / 2 ^ 1075"
    using power_strict_decreasing [of 1075 1100 "1 / 2 :: rat"] by (simp add: power_one_over)
  moreover have "(1 :: rat) \<le> 2 ^ 1075 * (1 / 2)"
    using one_le_power [of "2 :: rat" 1074] power_Suc [of "2 :: rat" 1074] by simp
  ultimately show ?thesis
    by (intro pvalue_underflow) (simp_all add: field_simps)
qed

text \<open>
  The tracker reports a core at most once, and only on evidence: over any sequence of segfaults the
  events are of distinct cores; the counts are exactly the number of observed faults of each core and of
  all known cores, faults on unknown CPUs counting nowhere; and an event is returned only for a core with
  at least five faults whose p-value, on these counts, is below the threshold.
\<close>

theorem tracker_reports_once:
  assumes "observe_all rnd hostID fs (NewTracker topo) = (es, t)"
  shows "distinct (map fst es) \<and> set (tk_flagged t) = set (map fst es) \<and>
    (\<forall>core. count_of t core = faults_on topo core fs) \<and> tk_total t = known_faults topo fs \<and>
    (\<forall>ulid comm cpu now e t'. Observe rnd ulid hostID comm cpu now t = (Some e, t') \<longrightarrow>
      (\<exists>core. map_of (tp_core topo) cpu = Some core \<and> core \<notin> set (map fst es) \<and>
         5 \<le> faults_on topo core fs + 1 \<and>
         upperTailPValue rnd (int (known_faults topo fs + 1)) (int (faults_on topo core fs + 1))
           (rnd (1 / of_nat (length (ActiveCores topo)))) < rnd (1 / 100)))"
proof -
  have nt: "tk_flagged (NewTracker topo) = []" "tk_topo (NewTracker topo) = topo" "tk_total (NewTracker topo) = 0"
    "count_of (NewTracker topo) c = 0" for c
    by (simp_all add: NewTracker_def count_of_def)
  have once: "distinct (map fst es)" "tk_flagged t = rev (map fst es)"
    using observe_all_once [OF assms] by (simp_all add: nt)
  have cnt: "tk_topo t = topo" "count_of t core = faults_on topo core fs" "tk_total t = known_faults topo fs" for core
    using observe_all_counts [OF assms, of core] by (simp_all add: nt)
  have "\<exists>core. map_of (tp_core topo) cpu = Some core \<and> core \<notin> set (map fst es) \<and>
      5 \<le> faults_on topo core fs + 1 \<and>
      upperTailPValue rnd (int (known_faults topo fs + 1)) (int (faults_on topo core fs + 1))
        (rnd (1 / of_nat (length (ActiveCores topo)))) < rnd (1 / 100)"
    if o: "Observe rnd ulid hostID comm cpu now t = (Some e, t')" for ulid comm cpu now e t'
  proof -
    obtain core where c: "map_of (tp_core topo) cpu = Some core" "core \<notin> set (map fst es)"
        "MinSamples \<le> count_of t' core"
        "upperTailPValue rnd (int (tk_total t')) (int (count_of t' core))
          (rnd (1 / of_nat (length (ActiveCores topo)))) < MaxPValue rnd"
      using Observe_event [OF o] once(2) cnt(1) by auto
    have "count_of t' core = faults_on topo core fs + 1" "tk_total t' = known_faults topo fs + 1"
      using Observe_frame(3) [OF o] Observe_frame(2) [OF o, of core] cnt c(1) by (simp_all add: faults_on_def known_faults_def)
    with c show ?thesis by (simp add: MinSamples_def MaxPValue_def)
  qed
  with once cnt show ?thesis by auto
qed

theorem tracker_reports_once_witness:
  "\<exists>es t. observe_all (\<lambda>x. x) ''h'' [(''a'', ''sh'', 0, 1), (''b'', ''sh'', 7, 2)]
       (NewTracker \<lparr>tp_core = [(0, 4)], tp_type = [], tp_online = [(0, True)]\<rparr>) = (es, t) \<and>
     count_of t 4 = 1 \<and> tk_total t = 1"
proof -
  let ?topo = "\<lparr>tp_core = [(0, 4)], tp_type = [], tp_online = [(0, True)]\<rparr> :: topology"
  obtain es t where o: "observe_all (\<lambda>x. x) ''h'' [(''a'', ''sh'', 0, 1), (''b'', ''sh'', 7, 2)] (NewTracker ?topo) = (es, t)"
    by (meson surj_pair)
  from tracker_reports_once [OF o] o show ?thesis by (auto simp: faults_on_def known_faults_def)
qed

end
