(* ===== verification/Gopath.thy ===== *)
theory Gopath
  imports Prelude
begin

text \<open>\<open>filepath.Join\<close>, \<open>Clean\<close> and \<open>Base\<close> of the standard library, on slash-separated paths.\<close>

text \<open>The components of a cleaned path, innermost first.\<close>

fun clean_parts :: "bool \<Rightarrow> string list \<Rightarrow> string list \<Rightarrow> string list" where
  "clean_parts rooted acc [] = acc"
| "clean_parts rooted acc (p # ps) =
     (if p = [] \<or> p = ''.'' then clean_parts rooted acc ps
      else if p = ''..'' then
        (case acc of
           [] \<Rightarrow> clean_parts rooted (if rooted then [] else [p]) ps
         | q # acc' \<Rightarrow> if q = ''..'' then clean_parts rooted (p # acc) ps else clean_parts rooted acc' ps)
      else clean_parts rooted (p # acc) ps)"

fun join_slash :: "string list \<Rightarrow> string" where
  "join_slash [] = []"
| "join_slash [p] = p"
| "join_slash (p # q # ps) = p @ CHR ''/'' # join_slash (q # ps)"

definition Clean :: "string \<Rightarrow> string" where
  "Clean path =
     (let rooted = (path \<noteq> [] \<and> hd path = CHR ''/'');
          s = join_slash (rev (clean_parts rooted [] (split_on (CHR ''/'') path))) in
      if rooted then CHR ''/'' # s else if s = [] then ''.'' else s)"

definition Join :: "string list \<Rightarrow> string" where
  "Join elems =
     (let es = filter (\<lambda>e. e \<noteq> []) elems in if es = [] then [] else Clean (join_slash es))"

definition Base :: "string \<Rightarrow> string" where
  "Base path =
     (if path = [] then ''.''
      else
        let s = rev (dropWhile (\<lambda>c. c = CHR ''/'') (rev path)) in
        if s = [] then ''/'' else rev (takeWhile (\<lambda>c. c \<noteq> CHR ''/'') (rev s)))"

text \<open>A single ordinary path element.\<close>

definition plain_elem :: "string \<Rightarrow> bool" where
  "plain_elem e \<longleftrightarrow> e \<noteq> [] \<and> e \<noteq> ''.'' \<and> e \<noteq> ''..'' \<and> CHR ''/'' \<notin> set e"

lemma clean_plain: "list_all plain_elem ps \<Longrightarrow> clean_parts r acc ps = rev ps @ acc"
  by (induction ps arbitrary: acc) (auto simp: plain_elem_def)

lemma split_join:
  "ps \<noteq> [] \<Longrightarrow> list_all plain_elem ps \<Longrightarrow> split_on (CHR ''/'') (join_slash ps) = ps"
  by (induction ps rule: join_slash.induct) (auto simp: plain_elem_def)

lemma join_slash_hd: "ps \<noteq> [] \<Longrightarrow> list_all plain_elem ps \<Longrightarrow> join_slash ps \<noteq> [] \<and> hd (join_slash ps) \<noteq> CHR ''/''"
  by (induction ps rule: join_slash.induct) (auto simp: plain_elem_def neq_Nil_conv)

lemma Clean_join: "ps \<noteq> [] \<Longrightarrow> list_all plain_elem ps \<Longrightarrow> Clean (join_slash ps) = join_slash ps"
  using join_slash_hd [of ps] by (simp add: Clean_def Let_def split_join clean_plain)

lemma Join_plain: "ps \<noteq> [] \<Longrightarrow> list_all plain_elem ps \<Longrightarrow> Join ps = join_slash ps"
proof -
  assume a: "ps \<noteq> []" "list_all plain_elem ps"
  then have "filter (\<lambda>e. e \<noteq> []) ps = ps" by (auto simp: filter_id_conv list_all_iff plain_elem_def)
  with a show ?thesis by (simp add: Join_def Clean_join)
qed

lemma join_slash_inj:
  assumes "ps \<noteq> []" "list_all plain_elem ps" "qs \<noteq> []" "list_all plain_elem qs" "join_slash ps = join_slash qs"
  shows "ps = qs"
  by (metis assms split_join)

lemma join_slash_snoc: "ps \<noteq> [] \<Longrightarrow> join_slash (ps @ [p]) = join_slash ps @ CHR ''/'' # p"
  by (induction ps rule: join_slash.induct) auto

lemma join_slash_append:
  "ps \<noteq> [] \<Longrightarrow> qs \<noteq> [] \<Longrightarrow> join_slash (ps @ qs) = join_slash ps @ CHR ''/'' # join_slash qs"
  by (induction ps rule: join_slash.induct) (auto simp: neq_Nil_conv)

lemma Base_join:
  assumes "plain_elem p"
  shows "Base (s @ CHR ''/'' # p) = p" "Base p = p"
proof -
  have p: "rev p \<noteq> []" "CHR ''/'' \<notin> set (rev p)" "hd (rev p) \<noteq> CHR ''/''"
    using assms hd_in_set [of "rev p"] by (auto simp: plain_elem_def)
  have tw: "takeWhile (\<lambda>c. c \<noteq> CHR ''/'') (rev p @ CHR ''/'' # t) = rev p" for t
    using p(2) by (subst takeWhile_append2) auto
  obtain c r where cr: "rev p = c # r" using p(1) by (cases "rev p") auto
  have dw: "dropWhile (\<lambda>c. c = CHR ''/'') (rev p @ t) = rev p @ t" for t using p(3) cr by simp
  have ne: "s @ CHR ''/'' # p \<noteq> []" "p \<noteq> []" using p(1) by simp_all
  have r: "rev (s @ CHR ''/'' # p) = rev p @ CHR ''/'' # rev s" by simp
  have "rev (dropWhile (\<lambda>c. c = CHR ''/'') (rev (s @ CHR ''/'' # p))) = s @ CHR ''/'' # p"
    unfolding r dw by simp
  then show "Base (s @ CHR ''/'' # p) = p" by (simp only: Base_def Let_def ne if_False r tw rev_rev_ident)
  have "takeWhile (\<lambda>c. c \<noteq> CHR ''/'') (rev p) = rev p" using p(2) by (intro takeWhile_eq_all_conv [THEN iffD2]) auto
  moreover have "rev (dropWhile (\<lambda>c. c = CHR ''/'') (rev p)) = p" using dw [of "[]"] by simp
  ultimately show "Base p = p" by (simp only: Base_def Let_def ne if_False rev_rev_ident)
qed

subsection \<open>Paths below a rooted directory\<close>

definition rooted_dir :: "string list \<Rightarrow> string" where
  "rooted_dir bs = CHR ''/'' # join_slash bs"

lemma Clean_rooted: "ps \<noteq> [] \<Longrightarrow> list_all plain_elem ps \<Longrightarrow> Clean (rooted_dir ps) = rooted_dir ps"
  by (simp add: rooted_dir_def Clean_def Let_def split_join clean_plain)

lemma Join_rooted:
  assumes "bs \<noteq> []" "list_all plain_elem bs" "ps \<noteq> []" "list_all plain_elem ps"
  shows "Join [rooted_dir bs, join_slash ps] = rooted_dir (bs @ ps)"
    "plain_elem f \<Longrightarrow> Join [rooted_dir bs, join_slash ps, f] = rooted_dir (bs @ ps @ [f])"
proof -
  have "join_slash [rooted_dir bs, join_slash ps] = rooted_dir (bs @ ps)"
    using assms by (simp add: rooted_dir_def join_slash_append)
  then show "Join [rooted_dir bs, join_slash ps] = rooted_dir (bs @ ps)"
    using join_slash_hd [OF assms(3,4)] assms by (simp add: Join_def Clean_rooted) (simp add: rooted_dir_def)
  assume f: "plain_elem f"
  have "join_slash [rooted_dir bs, join_slash ps, f] = rooted_dir (bs @ ps @ [f])"
    using assms by (simp add: rooted_dir_def join_slash_append join_slash_snoc)
  then show "Join [rooted_dir bs, join_slash ps, f] = rooted_dir (bs @ ps @ [f])"
    using join_slash_hd [OF assms(3,4)] assms f
    by (simp add: Join_def Clean_rooted plain_elem_def) (simp add: rooted_dir_def)
qed

lemma rooted_last:
  assumes "rooted_dir (ps @ [f]) = rooted_dir (qs @ [g])"
    and "list_all plain_elem ps" "plain_elem f" "list_all plain_elem qs" "plain_elem g"
  shows "f = g"
proof -
  have "ps @ [f] = qs @ [g]"
    using assms by (intro join_slash_inj) (simp_all add: rooted_dir_def)
  then show ?thesis by simp
qed

end
