(* ===== verification/Gotime.thy ===== *)
theory Gotime
  imports Strconv
begin

text \<open>Calendar dates in UTC, as \<open>Time.Year\<close>, \<open>Month\<close>, \<open>Day\<close> and \<open>Format\<close> give them.\<close>

definition civil :: "time \<Rightarrow> int \<times> int \<times> int" where
  "civil t =
     (let z = t div (86400 * second) + 719468;
          era = z div 146097; doe = z mod 146097;
          yoe = (doe - doe div 1460 + doe div 36524 - doe div 146096) div 365;
          doy = doe - (365 * yoe + yoe div 4 - yoe div 100);
          mp = (5 * doy + 2) div 153;
          m = (if mp < 10 then mp + 3 else mp - 9);
          y = yoe + era * 400 in
      (if m \<le> 2 then y + 1 else y, m, doy - (153 * mp + 2) div 5 + 1))"

text \<open>\<open>%0wd\<close> of \<open>fmt\<close>.\<close>

definition fmt_pad :: "nat \<Rightarrow> int \<Rightarrow> string" where
  "fmt_pad w n =
     (if n < 0 then CHR ''-'' # pad_zeros (w - 1) (itoa (nat (- n))) else pad_zeros w (itoa (nat n)))"

text \<open>The layouts \<open>time.RFC3339\<close> and, with milliseconds, that of the webhook, for a time in UTC.\<close>

definition format_date_time :: "time \<Rightarrow> string" where
  "format_date_time t =
     (case civil t of (y, m, d) \<Rightarrow>
       let s = t div second mod 86400; two = (\<lambda>n. pad_zeros 2 (itoa (nat n))) in
       (if y < 0 then CHR ''-'' # pad_zeros 4 (itoa (nat (- y))) else pad_zeros 4 (itoa (nat y))) @
       ''-'' @ two m @ ''-'' @ two d @ ''T'' @ two (s div 3600) @ '':'' @ two (s div 60 mod 60) @ '':'' @ two (s mod 60))"

definition FormatRFC3339 :: "time \<Rightarrow> string" where
  "FormatRFC3339 t = format_date_time t @ ''Z''"

definition FormatMillis :: "time \<Rightarrow> string" where
  "FormatMillis t = format_date_time t @ ''.'' @ pad_zeros 3 (itoa (nat (t div 1000000 mod 1000))) @ ''Z''"

text \<open>\<open>Duration.Seconds\<close>; \<open>rnd\<close> rounds to a \<open>float64\<close>.\<close>

definition duration_Seconds :: "(rat \<Rightarrow> rat) \<Rightarrow> duration \<Rightarrow> gofloat" where
  "duration_Seconds rnd d =
     (let sec = sgn d * (\<bar>d\<bar> div second); nsec = sgn d * (\<bar>d\<bar> mod second) in
      Fin (rnd (rnd (of_int sec) + rnd (rnd (of_int nsec) / 1000000000))))"

text \<open>
  \<open>time.ParseDuration\<close>.  Numbers are \<open>uint64\<close> in the source and never exceed \<open>2^63\<close>; the fraction is computed in
  floating point, \<open>rnd\<close> rounds.
\<close>

definition unitMap :: "(string \<times> int) list" where
  "unitMap = [(''ns'', 1), (''us'', 1000), ([CHR 0xc2, CHR 0xb5] @ ''s'', 1000), ([CHR 0xce, CHR 0xbc] @ ''s'', 1000),
     (''ms'', 1000000), (''s'', second), (''m'', minute), (''h'', hour)]"

text \<open>The digits of the fraction, of which those that would overflow are dropped, and the power of ten they are over.\<close>

fun leadingFraction :: "int \<Rightarrow> int \<Rightarrow> bool \<Rightarrow> string \<Rightarrow> int \<times> int" where
  "leadingFraction x scale full [] = (x, scale)"
| "leadingFraction x scale full (c # cs) =
     (if full \<or> max_int64 div 10 < x then leadingFraction x scale True cs
      else
        let y = x * 10 + int (digit_val c) in
        if 2 ^ 63 < y then leadingFraction x scale True cs else leadingFraction y (scale * 10) False cs)"

text \<open>One number with its unit: the value, or nothing when the text is malformed or too large.\<close>

definition duration_part :: "(rat \<Rightarrow> rat) \<Rightarrow> string \<Rightarrow> (int \<times> string) option" where
  "duration_part rnd s =
     (let ds = takeWhile is_digit s; s1 = dropWhile is_digit s;
          dot = (s1 \<noteq> [] \<and> hd s1 = CHR ''.'');
          fs = (if dot then takeWhile is_digit (tl s1) else []);
          s2 = (if dot then dropWhile is_digit (tl s1) else s1);
          u = takeWhile (\<lambda>c. \<not> (c = CHR ''.'' \<or> is_digit c)) s2;
          v = int (dec_value ds) in
      if ds = [] \<and> fs = [] \<or> 2 ^ 63 < v then None
      else
        (case map_of unitMap u of
           None \<Rightarrow> None
         | Some unit \<Rightarrow>
             if 2 ^ 63 div unit < v then None
             else
               (case leadingFraction 0 1 False fs of (f, scale) \<Rightarrow>
                  let w = v * unit + (if 0 < f then \<lfloor>rnd (rnd (of_int f) * rnd (of_int unit / of_int scale))\<rfloor> else 0) in
                  if 2 ^ 63 < w then None else Some (w, drop (length u) s2))))"

lemma duration_part_shorter: "duration_part rnd s = Some (w, r) \<Longrightarrow> length r < length s"
proof -
  assume a: "duration_part rnd s = Some (w, r)"
  let ?s1 = "dropWhile is_digit s"
  let ?dot = "?s1 \<noteq> [] \<and> hd ?s1 = CHR ''.''"
  let ?s2 = "if ?dot then dropWhile is_digit (tl ?s1) else ?s1"
  let ?u = "takeWhile (\<lambda>c. \<not> (c = CHR ''.'' \<or> is_digit c)) ?s2"
  have "map_of unitMap ?u \<noteq> None" "r = drop (length ?u) ?s2"
    using a by (auto simp: duration_part_def Let_def split: if_splits option.splits prod.splits)
  moreover have "map_of unitMap [] = None" by (simp add: unitMap_def)
  ultimately have u: "?u \<noteq> []" and r: "r = drop (length ?u) ?s2" by (metis, blast)
  have "length ?s2 \<le> length s"
    using length_dropWhile_le [of is_digit s] length_dropWhile_le [of is_digit "tl ?s1"] by auto
  moreover have "length ?u \<le> length ?s2" by (rule length_takeWhile_le)
  moreover have "0 < length ?u" unfolding length_greater_0_conv by (rule u)
  moreover have "length r = length ?s2 - length ?u" unfolding r by (rule length_drop)
  ultimately show "length r < length s" by linarith
qed

function duration_parts :: "(rat \<Rightarrow> rat) \<Rightarrow> int \<Rightarrow> string \<Rightarrow> int option" where
  "duration_parts rnd d s =
     (if s = [] then Some d
      else
        (case duration_part rnd s of
           None \<Rightarrow> None
         | Some (w, r) \<Rightarrow> if 2 ^ 63 < d + w then None else duration_parts rnd (d + w) r))"
  by pat_completeness auto

termination
  by (relation "measure (\<lambda>(_, _, s). length s)") (auto dest: duration_part_shorter)

declare duration_parts.simps [simp del]

definition ParseDuration :: "(rat \<Rightarrow> rat) \<Rightarrow> string \<Rightarrow> duration option" where
  "ParseDuration rnd s =
     (let neg = (s \<noteq> [] \<and> hd s = CHR ''-'');
          r = (if s \<noteq> [] \<and> (hd s = CHR ''-'' \<or> hd s = CHR ''+'') then tl s else s) in
      if r = ''0'' then Some 0
      else if r = [] then None
      else
        (case duration_parts rnd 0 r of
           None \<Rightarrow> None
         | Some d \<Rightarrow> if neg then Some (- d) else if max_int64 < d then None else Some d))"

lemma ParseDuration_minutes: "ParseDuration rnd ''15m'' = Some (15 * minute)"
  by code_simp

lemma civil_epoch: "civil 0 = (1970, 1, 1)"
  by code_simp

end
