(* ===== verification/Gotext.thy ===== *)
theory Gotext
  imports Strconv
begin

text \<open>
  Text helpers of the standard library that the parsers of \<open>/proc\<close>, \<open>/sys\<close> and command output share:
  \<open>strings.Fields\<close>, the lines of a \<open>bufio.Scanner\<close>, and numbers read from one-line files.
\<close>

text \<open>\<open>strings.Fields\<close> on ASCII text.\<close>

fun fields_acc :: "string \<Rightarrow> string \<Rightarrow> string list" where
  "fields_acc cur [] = (if cur = [] then [] else [cur])"
| "fields_acc cur (c # cs) =
     (if is_space c then (if cur = [] then fields_acc [] cs else cur # fields_acc [] cs)
      else fields_acc (cur @ [c]) cs)"

definition Fields :: "string \<Rightarrow> string list" where
  "Fields s = fields_acc [] s"

text \<open>
  The lines of a scanner with the default buffer: cut at newlines, without a final carriage return and
  without an empty piece after the last newline; a line that does not fit in 65535 bytes ends the scan.
\<close>

definition trim_cr :: "string \<Rightarrow> string" where
  "trim_cr s = (if s \<noteq> [] \<and> last s = CHR 0x0d then butlast s else s)"

definition scan_lines :: "string \<Rightarrow> string list" where
  "scan_lines s =
     (let ls = split_on nl s;
          full = (if last ls = [] then butlast ls else ls) in
      map trim_cr (takeWhile (\<lambda>l. length l < 65536) full))"

text \<open>\<open>strings.CutPrefix\<close>.\<close>

definition cut_prefix :: "string \<Rightarrow> string \<Rightarrow> string option" where
  "cut_prefix s p = (if has_prefix s p then Some (drop (length p) s) else None)"

text \<open>\<open>strings.ToLower\<close> on ASCII, and \<open>strings.Contains\<close>.\<close>

definition lower_char :: "char \<Rightarrow> char" where
  "lower_char c = (if CHR ''A'' \<le> c \<and> c \<le> CHR ''Z'' then char_of (of_char c + 32 :: nat) else c)"

definition ToLower :: "string \<Rightarrow> string" where
  "ToLower s = map lower_char s"

fun contains :: "string \<Rightarrow> string \<Rightarrow> bool" where
  "contains [] p = (p = [])"
| "contains (c # s) p = (has_prefix (c # s) p \<or> contains s p)"

lemma contains_iff: "contains s p \<longleftrightarrow> (\<exists>a b. s = a @ p @ b)"
proof (induction s)
  case (Cons c s)
  have "(\<exists>a b. c # s = a @ p @ b) \<longleftrightarrow> (\<exists>b. c # s = p @ b) \<or> (\<exists>a b. s = a @ p @ b)"
    by (metis append_Cons append_Nil list.exhaust list.inject)
  then show ?case using Cons by (simp add: has_prefix_iff)
qed auto

text \<open>A file with one number; \<open>rd\<close> is \<open>os.ReadFile\<close>.\<close>

definition readUintFile :: "(string \<Rightarrow> string option) \<Rightarrow> string \<Rightarrow> nat option" where
  "readUintFile rd path =
     (case rd path of None \<Rightarrow> None | Some raw \<Rightarrow> ParseUint 64 (trim_space raw))"

definition readIntFile :: "(string \<Rightarrow> string option) \<Rightarrow> string \<Rightarrow> int option" where
  "readIntFile rd path =
     (case rd path of None \<Rightarrow> None | Some raw \<Rightarrow> Atoi (trim_space raw))"

lemma fields_nonempty: "f \<in> set (fields_acc cur s) \<Longrightarrow> f \<noteq> []"
  by (induction cur s rule: fields_acc.induct) (auto split: if_splits)

lemma Fields_nonempty: "f \<in> set (Fields s) \<Longrightarrow> f \<noteq> []"
  by (auto simp: Fields_def dest: fields_nonempty)

lemma fields_no_space: "list_all (\<lambda>c. \<not> is_space c) cur \<Longrightarrow> f \<in> set (fields_acc cur s) \<Longrightarrow> list_all (\<lambda>c. \<not> is_space c) f"
  by (induction cur s rule: fields_acc.induct) (auto split: if_splits)

text \<open>Fields come back from text in which they are separated by single spaces.\<close>

lemma fields_word: "list_all (\<lambda>c. \<not> is_space c) w \<Longrightarrow> fields_acc cur (w @ s) = fields_acc (cur @ w) s"
  by (induction w arbitrary: cur) auto

lemma Fields_cons:
  "w \<noteq> [] \<Longrightarrow> list_all (\<lambda>c. \<not> is_space c) w \<Longrightarrow> Fields (w @ CHR '' '' # s) = w # Fields s"
  "w \<noteq> [] \<Longrightarrow> list_all (\<lambda>c. \<not> is_space c) w \<Longrightarrow> Fields w = [w]"
  using fields_word [of w "[]" "CHR '' '' # s"] fields_word [of w "[]" "[]"] by (simp_all add: Fields_def is_space_def)

end
