(* ===== verification/Logstore.thy ===== *)
theory Logstore
  imports Wal_Inv Gopath Gotime Gotext
begin

unbundle bit_operations_syntax

text \<open>
  The hub's log block store, \<open>internal/logstore\<close>: lines accumulate per host and source and are written
  as immutable compressed blocks with a metadata sidecar (\<open>logstore.go\<close>), from which the index is
  rebuilt by scanning (\<open>index.go\<close>).  Files are those of a \<open>disk\<close>, by their full path, with its fault
  script; zstd and JSON are the parameter \<open>blockCodec\<close>; ULIDs and clock readings are arguments.  Log
  levels are ASCII, as \<open>strings.ToLower\<close> treats them.
\<close>

subsection \<open>Blocks (logstore.go)\<close>

definition LogMaxBytes :: int where
  "LogMaxBytes = 5 * 1024 * 1024"

definition LogMaxAge :: duration where
  "LogMaxAge = 5 * minute"

text \<open>The bit number of a level.\<close>

definition levelBit :: "string \<Rightarrow> nat option" where
  "levelBit s =
     map_of [(''debug'', 0), (''info'', 1), (''notice'', 2), (''warn'', 3), (''warning'', 3),
       (''error'', 4), (''critical'', 5)] s"

record blockMeta =
  bm_blockID :: string
  bm_hostID :: string
  bm_source :: string
  bm_tsMin :: time
  bm_tsMax :: time
  bm_unit :: string
  bm_nLines :: nat
  bm_levels :: nat
  bm_path :: string
  bm_sizeRaw :: nat
  bm_sizeCompressed :: nat

record blockCodec =
  bc_compress :: "string \<Rightarrow> string option"
  bc_decompress :: "string \<Rightarrow> string option"
  bc_marshal :: "blockMeta \<Rightarrow> string option"
  bc_unmarshal :: "string \<Rightarrow> blockMeta option"

record logBuffer =
  lb_lines :: "logLine list"
  lb_rawBytes :: nat
  lb_firstAt :: time

record logStore =
  lo_baseDir :: string
  lo_maxBytes :: int
  lo_maxAge :: duration
  lo_buffers :: "((string \<times> string) \<times> logBuffer) list"

datatype log_error = InvalidLine schema_error | LogIO io_error | CompressError | MarshalError

definition NewStore :: "string \<Rightarrow> int \<Rightarrow> duration \<Rightarrow> logStore" where
  "NewStore baseDir maxBytes maxAge =
     \<lparr>lo_baseDir = baseDir, lo_maxBytes = maxBytes, lo_maxAge = maxAge, lo_buffers = []\<rparr>"

text \<open>
  \<open>writeAtomic\<close>: create, write, sync and close a temporary file, which is removed when one of these
  fails, and rename it.
\<close>

definition writeAtomic :: "string \<Rightarrow> string \<Rightarrow> disk \<Rightarrow> io_error option \<times> disk" where
  "writeAtomic path data d =
     (case calls 4 d of
        (False, d1) \<Rightarrow> (Some EIO, d1)
      | (True, d1) \<Rightarrow>
          (case next_call d1 of
             (Some _, d2) \<Rightarrow> (Some EIO, d2\<lparr>dk_temps := data # dk_temps d2\<rparr>)
           | (None, d2) \<Rightarrow> (None, put_file path data d2)))"

definition raw_text :: "logLine list \<Rightarrow> string" where
  "raw_text lines = concat (map (\<lambda>l. ll_message l @ [nl]) lines)"

text \<open>The loop over the lines: earliest and latest time and the level bits.\<close>

definition scan_line :: "logLine \<Rightarrow> time \<times> time \<times> nat \<Rightarrow> time \<times> time \<times> nat" where
  "scan_line l acc =
     (case acc of (tsMin, tsMax, bitmap) \<Rightarrow>
       (if ll_ts l < tsMin then ll_ts l else tsMin,
        if tsMax < ll_ts l then ll_ts l else tsMax,
        case levelBit (ToLower (ll_level l)) of None \<Rightarrow> bitmap | Some b \<Rightarrow> bitmap OR 2 ^ b))"

definition relDir :: "string \<Rightarrow> time \<Rightarrow> string" where
  "relDir hostID tsMin =
     (case civil tsMin of (y, m, dd) \<Rightarrow> Join [hostID, fmt_pad 4 y, fmt_pad 2 m, fmt_pad 2 dd])"

definition writeBlock ::
  "blockCodec \<Rightarrow> string \<Rightarrow> string \<Rightarrow> string \<Rightarrow> string \<Rightarrow> logLine list \<Rightarrow> disk \<Rightarrow> (log_error + blockMeta) \<times> disk" where
  "writeBlock K baseDir ulid hostID source lines d =
     (let l0 = hd lines; raw = raw_text lines in
      case fold scan_line lines (ll_ts l0, ll_ts l0, 0) of (tsMin, tsMax, bitmap) \<Rightarrow>
      let dir = relDir hostID tsMin; relPath = Join [dir, ulid @ ''.zst''] in
      case next_call d of
        (Some _, d1) \<Rightarrow> (Inl (LogIO EIO), d1)
      | (None, d1) \<Rightarrow>
          (case bc_compress K raw of
             None \<Rightarrow> (Inl CompressError, d1)
           | Some compressed \<Rightarrow>
               (case writeAtomic (Join [baseDir, relPath]) compressed d1 of
                  (Some e, d2) \<Rightarrow> (Inl (LogIO e), d2)
                | (None, d2) \<Rightarrow>
                    let meta = \<lparr>bm_blockID = ulid, bm_hostID = hostID, bm_source = source, bm_tsMin = tsMin,
                          bm_tsMax = tsMax, bm_unit = ll_unitOrContainer l0, bm_nLines = length lines,
                          bm_levels = bitmap, bm_path = relPath, bm_sizeRaw = length raw,
                          bm_sizeCompressed = length compressed\<rparr> in
                    (case bc_marshal K meta of
                       None \<Rightarrow> (Inl MarshalError, d2)
                     | Some encoded \<Rightarrow>
                         (case writeAtomic (Join [baseDir, dir, ulid @ ''.meta.json'']) encoded d2 of
                            (Some e, d3) \<Rightarrow> (Inl (LogIO e), d3)
                          | (None, d3) \<Rightarrow> (Inr meta, d3))))))"

definition log_Flush ::
  "blockCodec \<Rightarrow> string \<Rightarrow> string \<times> string \<Rightarrow> logStore \<Rightarrow> disk \<Rightarrow>
   (log_error + blockMeta option) \<times> logStore \<times> disk" where
  "log_Flush K ulid key s d =
     (case map_of (lo_buffers s) key of
        None \<Rightarrow> (Inr None, s, d)
      | Some buf \<Rightarrow>
          if lb_lines buf = [] then (Inr None, s, d)
          else
            let s' = s\<lparr>lo_buffers := AList.delete key (lo_buffers s)\<rparr> in
            (case writeBlock K (lo_baseDir s) ulid (fst key) (snd key) (lb_lines buf) d of
               (Inl e, d') \<Rightarrow> (Inl e, s', d')
             | (Inr meta, d') \<Rightarrow> (Inr (Some meta), s', d')))"

text \<open>\<open>now1\<close> is the clock when a new accumulator starts, \<open>now2\<close> when its age is checked.\<close>

definition log_Append ::
  "blockCodec \<Rightarrow> string \<Rightarrow> time \<Rightarrow> time \<Rightarrow> logLine \<Rightarrow> logStore \<Rightarrow> disk \<Rightarrow>
   (log_error + blockMeta option) \<times> logStore \<times> disk" where
  "log_Append K ulid now1 now2 line s d =
     (case LogLine_Validate line of
        Some e \<Rightarrow> (Inl (InvalidLine e), s, d)
      | None \<Rightarrow>
          let key = (ll_hostID line, ll_source line);
              buf0 = (case map_of (lo_buffers s) key of
                        None \<Rightarrow> \<lparr>lb_lines = [], lb_rawBytes = 0, lb_firstAt = now1\<rparr>
                      | Some b \<Rightarrow> b);
              buf = buf0\<lparr>lb_lines := lb_lines buf0 @ [line],
                         lb_rawBytes := lb_rawBytes buf0 + length (ll_message line) + 1\<rparr>;
              s1 = s\<lparr>lo_buffers := AList.update key buf (lo_buffers s)\<rparr>;
              shouldFlush = (lo_maxBytes s \<le> int (lb_rawBytes buf) \<or>
                             lo_maxAge s \<le> time_sub now2 (lb_firstAt buf)) in
          if shouldFlush then log_Flush K ulid key s1 d else (Inr None, s1, d))"

text \<open>\<open>FlushAll\<close>, over the keys in the order the map yields them, each with the ULID of its block.\<close>

fun flush_keys ::
  "blockCodec \<Rightarrow> ((string \<times> string) \<times> string) list \<Rightarrow> logStore \<Rightarrow> disk \<Rightarrow>
   blockMeta list \<times> log_error option \<times> logStore \<times> disk" where
  "flush_keys K [] s d = ([], None, s, d)"
| "flush_keys K ((key, ulid) # ks) s d =
     (case log_Flush K ulid key s d of
        (Inl e, s1, d1) \<Rightarrow> ([], Some e, s1, d1)
      | (Inr m, s1, d1) \<Rightarrow>
          (case flush_keys K ks s1 d1 of
             (ms, e, s2, d2) \<Rightarrow> ((case m of None \<Rightarrow> ms | Some meta \<Rightarrow> meta # ms), e, s2, d2)))"

definition FlushAll ::
  "blockCodec \<Rightarrow> string list \<Rightarrow> logStore \<Rightarrow> disk \<Rightarrow> blockMeta list \<times> log_error option \<times> logStore \<times> disk" where
  "FlushAll K ulids s d = flush_keys K (zip (map fst (lo_buffers s)) ulids) s d"

definition DecompressBlock :: "blockCodec \<Rightarrow> string \<Rightarrow> disk \<Rightarrow> (io_error + string) \<times> disk" where
  "DecompressBlock K path d =
     (case read_file path d of
        (Inl e, d1) \<Rightarrow> (Inl e, d1)
      | (Inr c, d1) \<Rightarrow>
          (case next_call d1 of
             (Some _, d2) \<Rightarrow> (Inl EIO, d2)
           | (None, d2) \<Rightarrow>
               (case bc_decompress K c of None \<Rightarrow> (Inl EDecompress, d2) | Some raw \<Rightarrow> (Inr raw, d2))))"

subsection \<open>The index (index.go)\<close>

record verifyResult =
  vr_blocks :: "blockMeta list"
  vr_totalRaw :: int
  vr_totalComp :: int
  vr_orphanPayloads :: "string list"
  vr_orphanMeta :: "string list"
  vr_corrupt :: "string list"

text \<open>The files below the base directory, as \<open>filepath.Walk\<close> visits them.\<close>

definition below :: "string \<Rightarrow> disk \<Rightarrow> string list" where
  "below baseDir d = sort (filter (\<lambda>p. has_prefix p (Clean baseDir @ ''/'')) (map fst (dk_files d)))"

fun collect_files ::
  "string list \<Rightarrow> (string \<times> string) list \<times> (string \<times> string) list \<Rightarrow>
   (string \<times> string) list \<times> (string \<times> string) list" where
  "collect_files [] acc = acc"
| "collect_files (p # ps) (metas, payloads) =
     collect_files ps
       (if has_suffix p ''.meta.json'' then (AList.update (trim_suffix (Base p) ''.meta.json'') p metas, payloads)
        else if has_suffix p ''.zst'' then (metas, AList.update (trim_suffix (Base p) ''.zst'') p payloads)
        else (metas, payloads))"

fun scan_metas ::
  "blockCodec \<Rightarrow> (string \<times> string) list \<Rightarrow> (string \<times> string) list \<Rightarrow> disk \<Rightarrow> verifyResult \<Rightarrow> verifyResult \<times> disk" where
  "scan_metas K [] payloads d r = (r, d)"
| "scan_metas K ((blk, metaPath) # ms) payloads d r =
     (if map_of payloads blk = None then
        scan_metas K ms payloads d (r\<lparr>vr_orphanMeta := vr_orphanMeta r @ [metaPath]\<rparr>)
      else
        (case read_file metaPath d of
           (Inl e, d1) \<Rightarrow> scan_metas K ms payloads d1 (r\<lparr>vr_corrupt := vr_corrupt r @ [metaPath]\<rparr>)
         | (Inr raw, d1) \<Rightarrow>
             (case bc_unmarshal K raw of
                None \<Rightarrow> scan_metas K ms payloads d1 (r\<lparr>vr_corrupt := vr_corrupt r @ [metaPath]\<rparr>)
              | Some m \<Rightarrow>
                  scan_metas K ms payloads d1
                    (r\<lparr>vr_blocks := vr_blocks r @ [m], vr_totalRaw := vr_totalRaw r + int (bm_sizeRaw m),
                       vr_totalComp := vr_totalComp r + int (bm_sizeCompressed m)\<rparr>))))"

definition empty_result :: verifyResult where
  "empty_result = \<lparr>vr_blocks = [], vr_totalRaw = 0, vr_totalComp = 0, vr_orphanPayloads = [], vr_orphanMeta = [],
     vr_corrupt = []\<rparr>"

definition ScanIndex :: "blockCodec \<Rightarrow> string \<Rightarrow> disk \<Rightarrow> (io_error + verifyResult) \<times> disk" where
  "ScanIndex K baseDir d =
     (case next_call d of
        (Some _, d1) \<Rightarrow> (Inl EIO, d1)
      | (None, d1) \<Rightarrow>
          (case collect_files (below baseDir d) ([], []) of
             (metas, payloads) \<Rightarrow>
               (case scan_metas K metas payloads d1 empty_result of
                  (r, d2) \<Rightarrow>
                    (Inr (r\<lparr>vr_orphanPayloads :=
                       map snd (filter (\<lambda>(blk, _). map_of metas blk = None) payloads)\<rparr>), d2))))"

subsection \<open>Paths of blocks\<close>

lemma pad_zeros_digits: "set (pad_zeros w (itoa n)) \<subseteq> {c. is_digit c}" "pad_zeros w (itoa n) \<noteq> []"
proof -
  have "is_digit (CHR ''0'')" by (simp add: is_digit_def)
  then show "set (pad_zeros w (itoa n)) \<subseteq> {c. is_digit c}" "pad_zeros w (itoa n) \<noteq> []"
    using itoa_digits [of n] by (auto simp: pad_zeros_def list_all_iff)
qed

lemma plain_fmt_pad: "plain_elem (fmt_pad w n)"
proof -
  have sub: "set (fmt_pad w n) \<subseteq> {c. is_digit c} \<union> {CHR ''-''}" and ne: "fmt_pad w n \<noteq> []"
    using pad_zeros_digits by (auto simp: fmt_pad_def)
  have "CHR ''.'' \<notin> set (fmt_pad w n)" "CHR ''/'' \<notin> set (fmt_pad w n)"
    using sub by (auto simp: is_digit_def)
  then show ?thesis using ne by (auto simp: plain_elem_def)
qed

definition day_parts :: "string \<Rightarrow> time \<Rightarrow> string list" where
  "day_parts hostID t = (case civil t of (y, m, dd) \<Rightarrow> [hostID, fmt_pad 4 y, fmt_pad 2 m, fmt_pad 2 dd])"

lemma day_parts_plain: "plain_elem hostID \<Longrightarrow> list_all plain_elem (day_parts hostID t) \<and> day_parts hostID t \<noteq> []"
  by (simp add: day_parts_def plain_fmt_pad split: prod.splits)

lemma relDir_plain: "plain_elem hostID \<Longrightarrow> relDir hostID t = join_slash (day_parts hostID t)"
  using day_parts_plain [of hostID t] by (simp add: relDir_def day_parts_def Join_plain split: prod.splits)

definition block_path :: "string list \<Rightarrow> string \<Rightarrow> time \<Rightarrow> string \<Rightarrow> string" where
  "block_path bs hostID t f = rooted_dir ((bs @ day_parts hostID t) @ [f])"

text \<open>The names a block uses are ordinary path elements.\<close>

definition names_ok :: "string list \<Rightarrow> string \<Rightarrow> string \<Rightarrow> bool" where
  "names_ok bs hostID ulid \<longleftrightarrow>
     bs \<noteq> [] \<and> list_all plain_elem bs \<and> plain_elem hostID \<and> ulid \<noteq> [] \<and> CHR ''/'' \<notin> set ulid"

lemma ulid_files_plain:
  "ulid \<noteq> [] \<Longrightarrow> CHR ''/'' \<notin> set ulid \<Longrightarrow> plain_elem (ulid @ ''.zst'')"
  "ulid \<noteq> [] \<Longrightarrow> CHR ''/'' \<notin> set ulid \<Longrightarrow> plain_elem (ulid @ ''.meta.json'')"
  by (auto simp: plain_elem_def dest: arg_cong [of _ _ length])

lemma block_paths:
  assumes "names_ok bs hostID ulid"
  shows "Join [rooted_dir bs, Join [relDir hostID t, ulid @ ''.zst'']] = block_path bs hostID t (ulid @ ''.zst'')"
    "Join [rooted_dir bs, relDir hostID t, ulid @ ''.meta.json''] = block_path bs hostID t (ulid @ ''.meta.json'')"
    "Join [relDir hostID t, ulid @ ''.zst''] = join_slash (day_parts hostID t @ [ulid @ ''.zst''])"
proof -
  have n: "bs \<noteq> []" "list_all plain_elem bs" "plain_elem hostID" "plain_elem (ulid @ ''.zst'')"
      "plain_elem (ulid @ ''.meta.json'')"
    using assms ulid_files_plain by (auto simp: names_ok_def)
  note dp = day_parts_plain [OF n(3), of t]
  have j: "join_slash [relDir hostID t, ulid @ ''.zst''] = join_slash (day_parts hostID t @ [ulid @ ''.zst''])"
    using dp by (simp add: relDir_plain [OF n(3)] join_slash_snoc)
  have ne: "relDir hostID t \<noteq> []" using dp join_slash_hd relDir_plain [OF n(3)] by metis
  have pl: "list_all plain_elem (day_parts hostID t @ [ulid @ ''.zst''])" using dp n(4) by simp
  show c: "Join [relDir hostID t, ulid @ ''.zst''] = join_slash (day_parts hostID t @ [ulid @ ''.zst''])"
    using ne Clean_join [OF _ pl] j by (simp add: Join_def)
  show "Join [rooted_dir bs, Join [relDir hostID t, ulid @ ''.zst'']] = block_path bs hostID t (ulid @ ''.zst'')"
    unfolding c block_path_def using Join_rooted(1) [OF n(1,2) _ pl] by simp
  show "Join [rooted_dir bs, relDir hostID t, ulid @ ''.meta.json''] = block_path bs hostID t (ulid @ ''.meta.json'')"
    unfolding block_path_def relDir_plain [OF n(3)] using Join_rooted(2) [OF n(1,2) _ _ n(5)] dp by simp
qed

lemma block_path_file:
  assumes "names_ok bs h u" "names_ok bs h' u'" "f \<in> {u @ ''.zst'', u @ ''.meta.json''}"
    and "g \<in> {u' @ ''.zst'', u' @ ''.meta.json''}" "block_path bs h t f = block_path bs h' t' g"
  shows "f = g"
proof (rule rooted_last)
  show "rooted_dir ((bs @ day_parts h t) @ [f]) = rooted_dir ((bs @ day_parts h' t') @ [g])"
    using assms(5) by (simp add: block_path_def)
  show "list_all plain_elem (bs @ day_parts h t)" "list_all plain_elem (bs @ day_parts h' t')"
    using assms(1,2) day_parts_plain by (auto simp: names_ok_def)
  show "plain_elem f" "plain_elem g"
    using assms(1-4) ulid_files_plain by (auto simp: names_ok_def)
qed

lemma zst_meta_differ [simp]: "u @ ''.zst'' \<noteq> u' @ ''.meta.json''"
  by (auto dest: arg_cong [of _ _ last])

subsection \<open>Writing one block\<close>

text \<open>
  JSON keeps ASCII strings and times of the years 0 to 9999.  What the store relies on: \<open>zstd\<close> gives back
  what it compressed and JSON gives back such metadata.
\<close>

definition ascii :: "string \<Rightarrow> bool" where
  "ascii s \<longleftrightarrow> list_all (\<lambda>c. of_char c < (128::nat)) s"

definition json_time :: "time \<Rightarrow> bool" where
  "json_time t \<longleftrightarrow> 0 \<le> fst (civil t) \<and> fst (civil t) \<le> 9999"

definition json_meta :: "blockMeta \<Rightarrow> bool" where
  "json_meta m \<longleftrightarrow> list_all ascii [bm_blockID m, bm_hostID m, bm_source m, bm_unit m, bm_path m] \<and>
     json_time (bm_tsMin m) \<and> json_time (bm_tsMax m)"

definition block_codec_ok :: "blockCodec \<Rightarrow> bool" where
  "block_codec_ok K \<longleftrightarrow>
     (\<forall>raw. \<exists>z. bc_compress K raw = Some z \<and> bc_decompress K z = Some raw) \<and>
     (\<forall>m. json_meta m \<longrightarrow> (\<exists>s. bc_marshal K m = Some s \<and> bc_unmarshal K s = Some m))"

definition json_line :: "string \<times> string \<Rightarrow> logLine \<Rightarrow> bool" where
  "json_line key l \<longleftrightarrow>
     json_time (ll_ts l) \<and> ascii (ll_unitOrContainer l) \<and> (ll_hostID l, ll_source l) = key \<and>
     ascii (ll_hostID l) \<and> ascii (ll_source l)"

lemma ascii_append [simp]: "ascii (s @ t) \<longleftrightarrow> ascii s \<and> ascii t" "ascii (c # t) \<longleftrightarrow> of_char c < (128::nat) \<and> ascii t"
  "ascii []"
  by (simp_all add: ascii_def)

lemma ascii_fmt_pad: "ascii (fmt_pad w n)"
proof -
  have "of_char c < (128::nat)" if "is_digit c" for c
    using that by (auto simp: is_digit_def less_eq_char_def)
  then have "ascii (pad_zeros w (itoa n))" for w n
    using pad_zeros_digits(1) [of w n] by (auto simp: ascii_def list_all_iff)
  then show ?thesis by (simp add: fmt_pad_def)
qed

lemma ascii_day_path: "ascii h \<Longrightarrow> ascii f \<Longrightarrow> ascii (join_slash (day_parts h t @ [f]))"
  by (simp add: day_parts_def ascii_fmt_pad split: prod.splits)

lemma writeAtomic_quiet: "dk_faults d = [] \<Longrightarrow> writeAtomic p c d = (None, put_file p c d)"
  by (simp add: writeAtomic_def)

lemma fold_scan:
  "fold scan_line ls (a, b, m) =
     (Min (insert a (ll_ts ` set ls)), Max (insert b (ll_ts ` set ls)), snd (snd (fold scan_line ls (a, b, m))))"
proof (induction ls arbitrary: a b m)
  case (Cons l ls)
  obtain a' b' m' where s: "scan_line l (a, b, m) = (a', b', m')" by (metis prod_cases3)
  then have "a' = min a (ll_ts l)" "b' = max b (ll_ts l)" by (auto simp: scan_line_def min_def max_def)
  moreover have "Min (insert (min a (ll_ts l)) (ll_ts ` set ls)) = Min (insert a (ll_ts ` set (l # ls)))"
    "Max (insert (max b (ll_ts l)) (ll_ts ` set ls)) = Max (insert b (ll_ts ` set (l # ls)))"
    by (cases "ls = []"; simp add: min.assoc max.assoc)+
  ultimately show ?case using Cons [of a' b' m'] s by simp
qed simp

lemma fold_scan_bits:
  "bit (snd (snd (fold scan_line ls (a, b, m)))) i \<longleftrightarrow>
     bit m i \<or> (\<exists>l \<in> set ls. levelBit (ToLower (ll_level l)) = Some i)"
proof (induction ls arbitrary: a b m)
  case (Cons l ls)
  obtain a' b' m' where s: "scan_line l (a, b, m) = (a', b', m')" by (metis prod_cases3)
  then have "bit m' i \<longleftrightarrow> bit m i \<or> levelBit (ToLower (ll_level l)) = Some i"
    by (auto simp: scan_line_def bit_or_iff bit_exp_iff split: option.splits)
  with Cons s show ?case by auto
qed simp

text \<open>The metadata a block must have.\<close>

definition block_of :: "string \<Rightarrow> string \<times> string \<Rightarrow> logLine list \<Rightarrow> blockMeta \<Rightarrow> bool" where
  "block_of ulid key lines m \<longleftrightarrow>
     bm_blockID m = ulid \<and> (bm_hostID m, bm_source m) = key \<and> bm_nLines m = length lines \<and>
     bm_tsMin m = Min (ll_ts ` set lines) \<and> bm_tsMax m = Max (ll_ts ` set lines) \<and>
     bm_sizeRaw m = length (raw_text lines) \<and>
     (\<forall>i. bit (bm_levels m) i \<longleftrightarrow> (\<exists>l \<in> set lines. levelBit (ToLower (ll_level l)) = Some i)) \<and>
     bm_path m = join_slash (day_parts (fst key) (bm_tsMin m) @ [ulid @ ''.zst''])"

definition zst_path :: "string list \<Rightarrow> blockMeta \<Rightarrow> string" where
  "zst_path bs m = block_path bs (bm_hostID m) (bm_tsMin m) (bm_blockID m @ ''.zst'')"

definition meta_path :: "string list \<Rightarrow> blockMeta \<Rightarrow> string" where
  "meta_path bs m = block_path bs (bm_hostID m) (bm_tsMin m) (bm_blockID m @ ''.meta.json'')"

lemma writeBlock_quiet:
  assumes K: "block_codec_ok K" and n: "names_ok bs (fst key) ulid" and q: "dk_faults d = []" and ne: "lines \<noteq> []"
    and js: "list_all (json_line key) lines" and ua: "ascii ulid"
  shows "\<exists>m z s. writeBlock K (rooted_dir bs) ulid (fst key) (snd key) lines d =
      (Inr m, put_file (meta_path bs m) s (put_file (zst_path bs m) z d)) \<and>
    block_of ulid key lines m \<and> bc_decompress K z = Some (raw_text lines) \<and> bc_unmarshal K s = Some m"
proof -
  let ?st = "fold scan_line lines (ll_ts (hd lines), ll_ts (hd lines), 0)"
  obtain lo hi bm where st: "?st = (lo, hi, bm)" by (metis prod_cases3)
  have mem: "ll_ts (hd lines) \<in> ll_ts ` set lines" using ne by simp
  have mm: "lo = Min (ll_ts ` set lines)" "hi = Max (ll_ts ` set lines)"
    using fold_scan [of lines "ll_ts (hd lines)" "ll_ts (hd lines)" 0] insert_absorb [OF mem] st by simp_all
  have bits: "bit bm i \<longleftrightarrow> (\<exists>l \<in> set lines. levelBit (ToLower (ll_level l)) = Some i)" for i
    using fold_scan_bits [of lines "ll_ts (hd lines)" "ll_ts (hd lines)" 0 i] st by simp
  obtain z where z: "bc_compress K (raw_text lines) = Some z" "bc_decompress K z = Some (raw_text lines)"
    using K by (auto simp: block_codec_ok_def)
  let ?m = "\<lparr>bm_blockID = ulid, bm_hostID = fst key, bm_source = snd key, bm_tsMin = lo, bm_tsMax = hi,
    bm_unit = ll_unitOrContainer (hd lines), bm_nLines = length lines, bm_levels = bm,
    bm_path = Join [relDir (fst key) lo, ulid @ ''.zst''], bm_sizeRaw = length (raw_text lines),
    bm_sizeCompressed = length z\<rparr>"
  note p = block_paths [OF n, of lo]
  have "lo \<in> ll_ts ` set lines" "hi \<in> ll_ts ` set lines" using mm ne by auto
  then have "json_meta ?m"
    using js ua ne p(3) hd_in_set [OF ne]
    by (auto simp: json_meta_def json_line_def list_all_iff intro!: ascii_day_path)
  then obtain s where s: "bc_marshal K ?m = Some s" "bc_unmarshal K s = Some ?m"
    using K unfolding block_codec_ok_def by meson
  have "writeBlock K (rooted_dir bs) ulid (fst key) (snd key) lines d =
      (Inr ?m, put_file (meta_path bs ?m) s (put_file (zst_path bs ?m) z d))"
    using q st z s
    by (simp add: writeBlock_def Let_def writeAtomic_quiet p(2,3) p(1) [unfolded p(3)] meta_path_def zst_path_def)
  moreover have "block_of ulid key lines ?m" using mm bits p(3) by (simp add: block_of_def)
  ultimately show ?thesis using z(2) s(2) by blast
qed

subsection \<open>Sequences of operations\<close>

datatype log_op = OpAppend string time time logLine | OpFlush string "string \<times> string"

fun op_ulid :: "log_op \<Rightarrow> string" where
  "op_ulid (OpAppend u _ _ _) = u"
| "op_ulid (OpFlush u _) = u"

fun log_step ::
  "blockCodec \<Rightarrow> log_op \<Rightarrow> logStore \<Rightarrow> disk \<Rightarrow> (log_error + blockMeta option) \<times> logStore \<times> disk" where
  "log_step K (OpAppend u now1 now2 l) s d = log_Append K u now1 now2 l s d"
| "log_step K (OpFlush u key) s d = log_Flush K u key s d"

text \<open>A run, with the metadata of the blocks it wrote.\<close>

fun log_run :: "blockCodec \<Rightarrow> log_op list \<Rightarrow> logStore \<Rightarrow> disk \<Rightarrow> blockMeta list \<times> logStore \<times> disk" where
  "log_run K [] s d = ([], s, d)"
| "log_run K (op # ops) s d =
     (case log_step K op s d of (r, s1, d1) \<Rightarrow>
       (case log_run K ops s1 d1 of (ms, s2, d2) \<Rightarrow>
         ((case r of Inr (Some m) \<Rightarrow> m # ms | _ \<Rightarrow> ms), s2, d2)))"

text \<open>The lines of a host and source an operation accepts, and those still in memory.\<close>

fun accepted :: "string \<times> string \<Rightarrow> log_op \<Rightarrow> logLine list" where
  "accepted key (OpAppend _ _ _ l) =
     (if LogLine_Validate l = None \<and> (ll_hostID l, ll_source l) = key then [l] else [])"
| "accepted key (OpFlush _ _) = []"

definition buffered :: "logStore \<Rightarrow> string \<times> string \<Rightarrow> logLine list" where
  "buffered s key = (case map_of (lo_buffers s) key of None \<Rightarrow> [] | Some b \<Rightarrow> lb_lines b)"

fun op_ok :: "string list \<Rightarrow> log_op \<Rightarrow> bool" where
  "op_ok bs (OpAppend u _ _ l) \<longleftrightarrow>
     names_ok bs (ll_hostID l) u \<and> ascii u \<and> json_line (ll_hostID l, ll_source l) l"
| "op_ok bs (OpFlush u _) \<longleftrightarrow> bs \<noteq> [] \<and> list_all plain_elem bs \<and> u \<noteq> [] \<and> CHR ''/'' \<notin> set u \<and> ascii u"

definition store_ok :: "string list \<Rightarrow> logStore \<Rightarrow> bool" where
  "store_ok bs s \<longleftrightarrow> lo_baseDir s = rooted_dir bs \<and>
     (\<forall>key. list_all (\<lambda>l. json_line key l \<and> plain_elem (ll_hostID l)) (buffered s key))"

text \<open>A block on disk holds exactly these lines and its sidecar describes it.\<close>

definition stored :: "blockCodec \<Rightarrow> string list \<Rightarrow> disk \<Rightarrow> blockMeta \<Rightarrow> logLine list \<Rightarrow> bool" where
  "stored K bs d m lines \<longleftrightarrow>
     block_of (bm_blockID m) (bm_hostID m, bm_source m) lines m \<and> names_ok bs (bm_hostID m) (bm_blockID m) \<and>
     (\<exists>z. content d (zst_path bs m) = Some z \<and> bc_decompress K z = Some (raw_text lines)) \<and>
     (\<exists>s. content d (meta_path bs m) = Some s \<and> bc_unmarshal K s = Some m)"

definition paths_of :: "string list \<Rightarrow> blockMeta list \<Rightarrow> string set" where
  "paths_of bs ms = zst_path bs ` set ms \<union> meta_path bs ` set ms"

lemma zst_meta_path_differ: 
  "names_ok bs (bm_hostID m) (bm_blockID m) \<Longrightarrow> names_ok bs (bm_hostID m') (bm_blockID m') \<Longrightarrow>
     zst_path bs m \<noteq> meta_path bs m'"
  unfolding zst_path_def meta_path_def using block_path_file [of bs _ _ _ _ "bm_blockID m @ ''.zst''"] by fastforce

lemma paths_apart:
  assumes "names_ok bs (bm_hostID m) (bm_blockID m)" "names_ok bs (bm_hostID m') (bm_blockID m')"
    and "bm_blockID m \<noteq> bm_blockID m'"
  shows "{zst_path bs m, meta_path bs m} \<inter> {zst_path bs m', meta_path bs m'} = {}"
proof -
  have "zst_path bs m \<noteq> zst_path bs m'" "meta_path bs m \<noteq> meta_path bs m'"
    using block_path_file [OF assms(1,2), of "bm_blockID m @ ''.zst''" "bm_blockID m' @ ''.zst''"]
      block_path_file [OF assms(1,2), of "bm_blockID m @ ''.meta.json''" "bm_blockID m' @ ''.meta.json''"] assms(3)
    unfolding zst_path_def meta_path_def by blast+
  then show ?thesis
    using zst_meta_path_differ [OF assms(1,2)] zst_meta_path_differ [OF assms(2,1)] by simp
qed

text \<open>What one operation does: nothing on disk, or one new block.\<close>

definition step_quiet ::
  "log_op \<Rightarrow> logStore \<Rightarrow> disk \<Rightarrow> (log_error + blockMeta option) \<times> logStore \<times> disk \<Rightarrow> bool" where
  "step_quiet op s d r \<longleftrightarrow>
     (\<forall>m. fst r \<noteq> Inr (Some m)) \<and> snd (snd r) = d \<and>
     (\<forall>key. buffered (fst (snd r)) key = buffered s key @ accepted key op)"

definition step_block ::
  "blockCodec \<Rightarrow> string list \<Rightarrow> log_op \<Rightarrow> logStore \<Rightarrow> disk \<Rightarrow> (log_error + blockMeta option) \<times> logStore \<times> disk \<Rightarrow> bool" where
  "step_block K bs op s d r \<longleftrightarrow>
     (\<exists>m ls. fst r = Inr (Some m) \<and> bm_blockID m = op_ulid op \<and> stored K bs (snd (snd r)) m ls \<and>
        (\<forall>p. p \<notin> paths_of bs [m] \<longrightarrow> content (snd (snd r)) p = content d p) \<and>
        (\<forall>key. (if key = (bm_hostID m, bm_source m) then ls else []) @ buffered (fst (snd r)) key =
           buffered s key @ accepted key op))"

lemma flush_step:
  assumes K: "block_codec_ok K" and q: "dk_faults d = []" and s: "store_ok bs s" and u: "op_ok bs (OpFlush ulid key)"
  shows "(step_quiet (OpFlush ulid key) s d (log_Flush K ulid key s d) \<or>
      step_block K bs (OpFlush ulid key) s d (log_Flush K ulid key s d)) \<and>
    dk_faults (snd (snd (log_Flush K ulid key s d))) = [] \<and> store_ok bs (fst (snd (log_Flush K ulid key s d)))"
proof (cases "buffered s key = []")
  case True
  then have "log_Flush K ulid key s d = (Inr None, s, d)"
    by (auto simp: log_Flush_def buffered_def split: option.splits)
  then show ?thesis using q s by (simp add: step_quiet_def)
next
  case False
  then obtain b where b: "map_of (lo_buffers s) key = Some b" "lb_lines b = buffered s key" "lb_lines b \<noteq> []"
    by (auto simp: buffered_def split: option.splits)
  have js: "list_all (json_line key) (lb_lines b)" "list_all (\<lambda>l. plain_elem (ll_hostID l)) (lb_lines b)"
    using s b(2) unfolding store_ok_def list_all_iff by metis+
  then have "plain_elem (fst key)" using hd_in_set [OF b(3)] by (auto simp: list_all_iff json_line_def)
  then have n: "names_ok bs (fst key) ulid" "ascii ulid" using u by (simp_all add: names_ok_def)
  obtain m z t where w: "writeBlock K (rooted_dir bs) ulid (fst key) (snd key) (lb_lines b) d =
      (Inr m, put_file (meta_path bs m) t (put_file (zst_path bs m) z d))"
    and m: "block_of ulid key (lb_lines b) m" "bc_decompress K z = Some (raw_text (lb_lines b))"
      "bc_unmarshal K t = Some m"
    using writeBlock_quiet [OF K n(1) q b(3) js(1) n(2)] by blast
  let ?s = "s\<lparr>lo_buffers := AList.delete key (lo_buffers s)\<rparr>"
  have r: "log_Flush K ulid key s d = (Inr (Some m), ?s, put_file (meta_path bs m) t (put_file (zst_path bs m) z d))"
    using s b w by (simp add: log_Flush_def store_ok_def)
  have idk: "bm_blockID m = ulid" "(bm_hostID m, bm_source m) = key" using m(1) by (auto simp: block_of_def)
  have "names_ok bs (bm_hostID m) (bm_blockID m)" using n(1) idk by auto
  then have st: "stored K bs (put_file (meta_path bs m) t (put_file (zst_path bs m) z d)) m (lb_lines b)"
    using m idk zst_meta_path_differ [of bs m m] by (simp add: stored_def)
  have bf: "buffered ?s k = (if k = key then [] else buffered s k)" for k
    by (simp add: buffered_def delete_conv')
  have "step_block K bs (OpFlush ulid key) s d (log_Flush K ulid key s d)"
    unfolding step_block_def r using st idk b(2) bf by (auto simp: paths_of_def)
  moreover have "store_ok bs ?s" using s bf by (simp add: store_ok_def)
  ultimately show ?thesis using q r by simp
qed

lemma append_lines:
  assumes "LogLine_Validate line = None"
  shows "\<exists>buf c. (let s1 = s\<lparr>lo_buffers := AList.update (ll_hostID line, ll_source line) buf (lo_buffers s)\<rparr> in
    log_Append K ulid now1 now2 line s d =
      (if c then log_Flush K ulid (ll_hostID line, ll_source line) s1 d else (Inr None, s1, d)) \<and>
    (\<forall>key. buffered s1 key = buffered s key @ (if (ll_hostID line, ll_source line) = key then [line] else [])))"
  using assms
  by (auto simp: log_Append_def Let_def buffered_def update_conv' split: option.splits)

lemma accepted_rejected: "LogLine_Validate l \<noteq> None \<Longrightarrow> accepted key (OpAppend u a b l) = []"
  by simp

lemma step_effect:
  assumes K: "block_codec_ok K" and q: "dk_faults d = []" and s: "store_ok bs s" and u: "op_ok bs op"
  shows "(step_quiet op s d (log_step K op s d) \<or> step_block K bs op s d (log_step K op s d)) \<and>
    dk_faults (snd (snd (log_step K op s d))) = [] \<and> store_ok bs (fst (snd (log_step K op s d)))"
proof (cases op)
  case (OpFlush ulid key)
  then show ?thesis using flush_step [OF K q s] u by simp
next
  case (OpAppend ulid now1 now2 line)
  let ?key = "(ll_hostID line, ll_source line)"
  show ?thesis
  proof (cases "LogLine_Validate line")
    case (Some e)
    then show ?thesis using OpAppend q s by (simp add: log_Append_def step_quiet_def)
  next
    case None
    then obtain buf c where "let s1 = s\<lparr>lo_buffers := AList.update ?key buf (lo_buffers s)\<rparr> in
        log_Append K ulid now1 now2 line s d = (if c then log_Flush K ulid ?key s1 d else (Inr None, s1, d)) \<and>
        (\<forall>key. buffered s1 key = buffered s key @ (if ?key = key then [line] else []))"
      using append_lines by blast
    then obtain s1 where s1: "s1 = s\<lparr>lo_buffers := AList.update ?key buf (lo_buffers s)\<rparr>"
      and r: "log_Append K ulid now1 now2 line s d = (if c then log_Flush K ulid ?key s1 d else (Inr None, s1, d))"
      and b: "\<And>key. buffered s1 key = buffered s key @ accepted key op"
      using None OpAppend by (auto simp: Let_def)
    have lok: "list_all (\<lambda>l. json_line key l \<and> plain_elem (ll_hostID l)) (accepted key op)" for key
      using u OpAppend by (auto simp: names_ok_def)
    have ok: "store_ok bs s1" using s s1 b lok by (simp add: store_ok_def)
    have fl: "op_ok bs (OpFlush ulid ?key)" using u OpAppend by (simp add: names_ok_def)
    show ?thesis
    proof (cases c)
      case False
      then show ?thesis using OpAppend r q ok b by (simp add: step_quiet_def)
    next
      case True
      then have e: "log_step K op s d = log_Flush K ulid ?key s1 d" using OpAppend r by simp
      then show ?thesis
        using flush_step [OF K q ok fl] OpAppend b unfolding e step_quiet_def step_block_def by auto
    qed
  qed
qed

lemma stored_frame:
  "stored K bs d m ls \<Longrightarrow> (\<And>p. p \<in> paths_of bs [m] \<Longrightarrow> content d' p = content d p) \<Longrightarrow> stored K bs d' m ls"
  by (simp add: stored_def paths_of_def)

definition block_lines :: "string \<times> string \<Rightarrow> (blockMeta \<times> logLine list) list \<Rightarrow> logLine list" where
  "block_lines key bls = concat (map snd (filter (\<lambda>(m, _). (bm_hostID m, bm_source m) = key) bls))"

lemma run_effect:
  assumes K: "block_codec_ok K"
  shows "log_run K ops s d = (ms, s', d') \<Longrightarrow> dk_faults d = [] \<Longrightarrow> store_ok bs s \<Longrightarrow> list_all (op_ok bs) ops \<Longrightarrow>
    distinct (map op_ulid ops) \<Longrightarrow>
    \<exists>bls. map fst bls = ms \<and> (\<forall>(m, ls) \<in> set bls. stored K bs d' m ls) \<and>
      distinct (map bm_blockID ms) \<and> bm_blockID ` set ms \<subseteq> op_ulid ` set ops \<and>
      (\<forall>p. p \<notin> paths_of bs ms \<longrightarrow> content d' p = content d p) \<and> dk_faults d' = [] \<and>
      (\<forall>key. block_lines key bls @ buffered s' key = buffered s key @ concat (map (accepted key) ops))"
proof (induction ops arbitrary: s d ms)
  case Nil
  then show ?case by (intro exI [of _ "[]"]) (auto simp: block_lines_def)
next
  case (Cons op ops)
  obtain r s1 d1 where st: "log_step K op s d = (r, s1, d1)" by (metis prod_cases3)
  obtain ms1 where rn: "log_run K ops s1 d1 = (ms1, s', d')"
    and ms: "ms = (case r of Inr (Some m) \<Rightarrow> m # ms1 | _ \<Rightarrow> ms1)"
    using Cons.prems(1) st by (auto split: prod.splits)
  have ef: "step_quiet op s d (r, s1, d1) \<or> step_block K bs op s d (r, s1, d1)" "dk_faults d1 = []" "store_ok bs s1"
    using step_effect [OF K Cons.prems(2,3), of op] Cons.prems(4) st by auto
  obtain bls where bls: "map fst bls = ms1" "\<forall>(m, ls) \<in> set bls. stored K bs d' m ls" "distinct (map bm_blockID ms1)"
      "bm_blockID ` set ms1 \<subseteq> op_ulid ` set ops" "\<And>p. p \<notin> paths_of bs ms1 \<Longrightarrow> content d' p = content d1 p"
      "dk_faults d' = []" "\<And>key. block_lines key bls @ buffered s' key = buffered s1 key @ concat (map (accepted key) ops)"
    using Cons.IH [OF rn ef(2,3)] Cons.prems(4,5) by auto
  show ?case
    using ef(1)
  proof
    assume a: "step_quiet op s d (r, s1, d1)"
    then have "ms = ms1" using ms by (auto simp: step_quiet_def split: sum.splits option.splits)
    with a bls show ?thesis by (intro exI [of _ bls]) (auto simp: step_quiet_def)
  next
    assume "step_block K bs op s d (r, s1, d1)"
    then obtain m ls where m: "r = Inr (Some m)" "bm_blockID m = op_ulid op" "stored K bs d1 m ls"
        "\<And>p. p \<notin> paths_of bs [m] \<Longrightarrow> content d1 p = content d p"
        "\<And>key. (if key = (bm_hostID m, bm_source m) then ls else []) @ buffered s1 key = buffered s key @ accepted key op"
      by (auto simp: step_block_def)
    have fresh: "op_ulid op \<notin> bm_blockID ` set ms1" using bls(4) Cons.prems(5) by auto
    have apart: "paths_of bs [m] \<inter> paths_of bs ms1 = {}"
    proof -
      have "{zst_path bs m, meta_path bs m} \<inter> {zst_path bs m', meta_path bs m'} = {}" if "m' \<in> set ms1" for m'
      proof (rule paths_apart)
        show "names_ok bs (bm_hostID m) (bm_blockID m)" using m(3) by (simp add: stored_def)
        show "names_ok bs (bm_hostID m') (bm_blockID m')" using that bls(1,2) unfolding stored_def by force
        show "bm_blockID m \<noteq> bm_blockID m'" using that fresh m(2) by auto
      qed
      note disj = this
      show ?thesis
      proof (rule Int_emptyI)
        fix p assume p: "p \<in> paths_of bs [m]" "p \<in> paths_of bs ms1"
        then obtain m' where m': "m' \<in> set ms1" "p \<in> {zst_path bs m', meta_path bs m'}" by (auto simp: paths_of_def)
        have "p \<in> {zst_path bs m, meta_path bs m}" using p(1) by (auto simp: paths_of_def)
        with disj [OF m'(1)] m'(2) show False by blast
      qed
    qed
    have "content d' p = content d1 p" if "p \<in> paths_of bs [m]" for p
      using that apart bls(5) by blast
    then have "stored K bs d' m ls" by (rule stored_frame [OF m(3)])
    moreover have "block_lines key ((m, ls) # bls) @ buffered s' key = buffered s key @ concat (map (accepted key) (op # ops))"
      for key using bls(7) [of key] m(5) [of key] by (auto simp: block_lines_def)
    ultimately show ?thesis
      using bls m ms fresh by (intro exI [of _ "(m, ls) # bls"]) (auto simp: paths_of_def)
  qed
qed

end
