(* ===== verification/Logstore_Index.thy ===== *)
theory Logstore_Index
  imports Logstore
begin

text \<open>
  The index rebuilt by \<open>ScanIndex\<close> (\<open>internal/logstore/index.go\<close>) from the files that a run of the log
  store wrote, and the claims about the store.
\<close>

subsection \<open>Rebuilding the index\<close>

lemma update_fresh: "k \<notin> fst ` set al \<Longrightarrow> AList.update k v al = al @ [(k, v)]"
  by (induction al) auto

abbreviation is_meta :: "string \<Rightarrow> bool" where
  "is_meta p \<equiv> has_suffix p ''.meta.json''"

abbreviation is_zst :: "string \<Rightarrow> bool" where
  "is_zst p \<equiv> \<not> is_meta p \<and> has_suffix p ''.zst''"

abbreviation meta_entry :: "string \<Rightarrow> string \<times> string" where
  "meta_entry p \<equiv> (trim_suffix (Base p) ''.meta.json'', p)"

abbreviation zst_entry :: "string \<Rightarrow> string \<times> string" where
  "zst_entry p \<equiv> (trim_suffix (Base p) ''.zst'', p)"

lemma collect_files_eq:
  "distinct (map fst (ms @ map meta_entry (filter is_meta ps))) \<Longrightarrow>
   distinct (map fst (zs @ map zst_entry (filter is_zst ps))) \<Longrightarrow>
   collect_files ps (ms, zs) = (ms @ map meta_entry (filter is_meta ps), zs @ map zst_entry (filter is_zst ps))"
proof (induction ps arbitrary: ms zs)
  case (Cons p ps)
  show ?case
  proof (cases "is_meta p")
    case True
    then show ?thesis using Cons.prems Cons.IH [of "ms @ [meta_entry p]" zs] by (simp add: update_fresh)
  next
    case False
    then show ?thesis
      using Cons.prems Cons.IH [of ms "zs @ [zst_entry p]"] Cons.IH [of ms zs] by (auto simp: update_fresh)
  qed
qed simp

lemma block_path_prefix:
  assumes "names_ok bs h u"
  shows "block_path bs h t f = (rooted_dir (bs @ day_parts h t)) @ CHR ''/'' # f"
    "has_prefix (block_path bs h t f) (Clean (rooted_dir bs) @ ''/'')"
proof -
  have b: "bs \<noteq> []" "list_all plain_elem bs" using assms by (auto simp: names_ok_def)
  have dn: "day_parts h t \<noteq> []" by (simp add: day_parts_def split: prod.splits)
  show "block_path bs h t f = (rooted_dir (bs @ day_parts h t)) @ CHR ''/'' # f"
    using b join_slash_snoc [of "bs @ day_parts h t" f] by (simp add: block_path_def rooted_dir_def)
  show "has_prefix (block_path bs h t f) (Clean (rooted_dir bs) @ ''/'')"
    using b dn unfolding Clean_rooted [OF b]
    by (simp add: block_path_def rooted_dir_def join_slash_append has_prefix_iff)
qed

lemma block_entries:
  assumes "names_ok bs (bm_hostID m) (bm_blockID m)"
  shows "meta_entry (meta_path bs m) = (bm_blockID m, meta_path bs m)" "is_meta (meta_path bs m)"
    "zst_entry (zst_path bs m) = (bm_blockID m, zst_path bs m)" "is_zst (zst_path bs m)"
proof -
  have pl: "plain_elem (bm_blockID m @ ''.zst'')" "plain_elem (bm_blockID m @ ''.meta.json'')"
    using assms ulid_files_plain by (auto simp: names_ok_def)
  have ns: "\<not> has_suffix (x @ ''.zst'') ''.meta.json''" for x
    by (simp add: has_suffix_def)
  show "meta_entry (meta_path bs m) = (bm_blockID m, meta_path bs m)"
    "zst_entry (zst_path bs m) = (bm_blockID m, zst_path bs m)"
    unfolding meta_path_def zst_path_def block_path_prefix(1) [OF assms] Base_join(1) [OF pl(1)] Base_join(1) [OF pl(2)]
    by simp_all
  show "is_meta (meta_path bs m)" "is_zst (zst_path bs m)"
    unfolding meta_path_def zst_path_def block_path_prefix(1) [OF assms]
    using has_suffix_append [of "rooted_dir (bs @ day_parts (bm_hostID m) (bm_tsMin m)) @ CHR ''/'' # bm_blockID m"]
      ns [of "rooted_dir (bs @ day_parts (bm_hostID m) (bm_tsMin m)) @ CHR ''/'' # bm_blockID m"] by simp_all
qed

lemma scan_metas_stored:
  assumes "dk_faults d = []" "\<And>m. m \<in> set qs \<Longrightarrow> map_of payloads (bm_blockID m) \<noteq> None"
    and "\<And>m. m \<in> set qs \<Longrightarrow> \<exists>s. content d (meta_path bs m) = Some s \<and> bc_unmarshal K s = Some m"
  shows "scan_metas K (map (\<lambda>m. (bm_blockID m, meta_path bs m)) qs) payloads d r =
    (r\<lparr>vr_blocks := vr_blocks r @ qs, vr_totalRaw := vr_totalRaw r + (\<Sum>m\<leftarrow>qs. int (bm_sizeRaw m)),
       vr_totalComp := vr_totalComp r + (\<Sum>m\<leftarrow>qs. int (bm_sizeCompressed m))\<rparr>, d)"
  using assms(2,3)
proof (induction qs arbitrary: r)
  case (Cons m qs)
  obtain s where "content d (meta_path bs m) = Some s" "bc_unmarshal K s = Some m" using Cons.prems(2) by auto
  moreover obtain z where "map_of payloads (bm_blockID m) = Some z" using Cons.prems(1) [of m] by auto
  ultimately show ?case
    using Cons.prems Cons.IH assms(1) by (simp add: read_file_quiet add.assoc)
qed simp

lemma writeAtomic_dir: "dir_ok d \<Longrightarrow> dir_ok (snd (writeAtomic p c d))"
proof -
  assume d: "dir_ok d"
  obtain b d1 where c: "calls 4 d = (b, d1)" by fastforce
  obtain f d2 where n: "next_call d1 = (f, d2)" by fastforce
  have "dir_ok d1" "dir_ok d2"
    using dir_ok_cong [OF callsD [OF c]] dir_ok_cong [OF next_callD [OF n]] d by simp_all
  then show ?thesis using c n by (auto simp: writeAtomic_def dir_ok_def split: bool.splits option.splits)
       (simp add: put_file_def distinct_update)
qed

lemma writeBlock_dir: "dir_ok d \<Longrightarrow> dir_ok (snd (writeBlock K b u h src ls d))"
proof -
  assume d: "dir_ok d"
  obtain f d1 where n: "next_call d = (f, d1)" by fastforce
  have d1: "dir_ok d1" using dir_ok_cong [OF next_callD [OF n]] d by simp
  have a: "writeAtomic p c e = (r, e') \<Longrightarrow> dir_ok e \<Longrightarrow> dir_ok e'" for p c e r e'
    using writeAtomic_dir [of e p c] by simp
  show ?thesis
    using n d1 by (auto simp: writeBlock_def Let_def split: prod.splits option.splits dest: a)
qed

lemma run_dir: "log_run K ops s d = (ms, s', d') \<Longrightarrow> dir_ok d \<Longrightarrow> dir_ok d'"
proof (induction ops arbitrary: s d ms)
  case (Cons op ops)
  have f: "dir_ok (snd (snd (log_Flush K u key st d)))" for u key st
    using Cons.prems(2) writeBlock_dir [of d K "lo_baseDir st" u "fst key" "snd key"]
    by (auto simp: log_Flush_def Let_def split: option.splits prod.splits sum.splits) (metis snd_conv)+
  have "dir_ok (snd (snd (log_step K op s d)))"
  proof (cases op)
    case (OpAppend u a b l)
    then show ?thesis using f Cons.prems(2) by (simp add: log_Append_def Let_def split: option.split)
  qed (use f in simp)
  with Cons show ?case by (auto split: prod.splits)
qed simp

lemma path_ids:
  assumes "names_ok bs (bm_hostID m) (bm_blockID m)" "names_ok bs (bm_hostID m') (bm_blockID m')"
    and "meta_path bs m = meta_path bs m' \<or> zst_path bs m = zst_path bs m'"
  shows "bm_blockID m = bm_blockID m'"
proof (rule ccontr)
  assume "bm_blockID m \<noteq> bm_blockID m'"
  from paths_apart [OF assms(1,2) this] assms(3) show False by auto
qed

text \<open>The index of a directory that holds exactly the files of some stored blocks.\<close>

lemma scan_exact:
  assumes q: "dk_faults d = []" and dir: "dir_ok d" and ids: "distinct (map bm_blockID ms)"
    and st: "\<And>m. m \<in> set ms \<Longrightarrow> \<exists>ls. stored K bs d m ls" and dom: "\<And>p. content d p \<noteq> None \<longleftrightarrow> p \<in> paths_of bs ms"
  shows "\<exists>r. ScanIndex K (rooted_dir bs) d = (Inr r, d) \<and> mset (vr_blocks r) = mset ms \<and>
    vr_orphanPayloads r = [] \<and> vr_orphanMeta r = [] \<and> vr_corrupt r = [] \<and>
    vr_totalRaw r = (\<Sum>m\<leftarrow>ms. int (bm_sizeRaw m)) \<and> vr_totalComp r = (\<Sum>m\<leftarrow>ms. int (bm_sizeCompressed m))"
proof -
  let ?ps = "below (rooted_dir bs) d"
  have n: "names_ok bs (bm_hostID m) (bm_blockID m)" if "m \<in> set ms" for m using st [OF that] by (auto simp: stored_def)
  have inj: "m = m'" if "m \<in> set ms" "m' \<in> set ms" "bm_blockID m = bm_blockID m'" for m m'
    using ids that by (auto simp: distinct_map inj_on_def)
  have pre: "has_prefix p (Clean (rooted_dir bs) @ ''/'')" if p: "p \<in> paths_of bs ms" for p
    using p block_path_prefix(2) [OF n] by (auto simp: paths_of_def zst_path_def meta_path_def)
  have ps: "set ?ps = paths_of bs ms" "distinct ?ps"
    using dom dir pre content_dom [of d] by (auto simp: below_def dir_ok_def)
  have "filter is_meta ?ps \<in> lists (meta_path bs ` set ms)" "filter is_zst ?ps \<in> lists (zst_path bs ` set ms)"
    using ps(1) block_entries(2,4) n by (auto simp: paths_of_def)
  then obtain qs zs where qs: "filter is_meta ?ps = map (meta_path bs) qs" "set qs \<subseteq> set ms"
    and zs: "filter is_zst ?ps = map (zst_path bs) zs" "set zs \<subseteq> set ms"
    unfolding lists_image by auto
  have cover: "set qs = set ms" "set zs = set ms"
  proof -
    have "m \<in> set qs \<and> m \<in> set zs" if m: "m \<in> set ms" for m
    proof -
      have "meta_path bs m \<in> meta_path bs ` set qs" "zst_path bs m \<in> zst_path bs ` set zs"
        using arg_cong [OF qs(1), of set] arg_cong [OF zs(1), of set] ps(1) m n block_entries(2,4)
        by (auto simp: paths_of_def)
      then obtain m1 m2 where e: "m1 \<in> set qs" "meta_path bs m = meta_path bs m1" "m2 \<in> set zs" "zst_path bs m = zst_path bs m2"
        by auto
      then have "bm_blockID m = bm_blockID m1" "bm_blockID m = bm_blockID m2"
        using path_ids [OF n [OF m] n [of m1]] path_ids [OF n [OF m] n [of m2]] qs(2) zs(2) by auto
      then show ?thesis using inj m e qs(2) zs(2) by (metis subsetD)
    qed
    then show "set qs = set ms" "set zs = set ms" using qs(2) zs(2) by auto
  qed
  have ents: "map meta_entry (filter is_meta ?ps) = map (\<lambda>m. (bm_blockID m, meta_path bs m)) qs"
      "map zst_entry (filter is_zst ?ps) = map (\<lambda>m. (bm_blockID m, zst_path bs m)) zs"
    unfolding qs(1) zs(1) using block_entries(1,3) n qs(2) zs(2) by auto
  have dist: "distinct qs" "distinct zs"
    using distinct_filter [OF ps(2), of is_meta] distinct_filter [OF ps(2), of is_zst] unfolding qs(1) zs(1)
    by (simp_all add: distinct_map)
  have dm: "distinct (map bm_blockID qs)" "distinct (map bm_blockID zs)"
    using dist inj cover by (auto simp: distinct_map inj_on_def)
  have cf: "collect_files ?ps ([], []) = (map (\<lambda>m. (bm_blockID m, meta_path bs m)) qs, map (\<lambda>m. (bm_blockID m, zst_path bs m)) zs)"
    using collect_files_eq [of "[]" ?ps "[]"] dm by (simp add: ents comp_def)
  have look: "map_of (map (\<lambda>m. (bm_blockID m, f m)) l) (bm_blockID m) \<noteq> None" if "m \<in> set l" for f :: "blockMeta \<Rightarrow> string" and l m
    using that by (auto simp: map_of_eq_None_iff image_iff)
  have side: "\<exists>s. content d (meta_path bs m) = Some s \<and> bc_unmarshal K s = Some m" if "m \<in> set ms" for m
    using st [OF that] by (auto simp: stored_def)
  have sm: "scan_metas K (map (\<lambda>m. (bm_blockID m, meta_path bs m)) qs) (map (\<lambda>m. (bm_blockID m, zst_path bs m)) zs) d empty_result =
      (empty_result\<lparr>vr_blocks := vr_blocks empty_result @ qs,
         vr_totalRaw := vr_totalRaw empty_result + (\<Sum>m\<leftarrow>qs. int (bm_sizeRaw m)),
         vr_totalComp := vr_totalComp empty_result + (\<Sum>m\<leftarrow>qs. int (bm_sizeCompressed m))\<rparr>, d)"
    by (rule scan_metas_stored [OF q]) (use look cover side in auto)
  have orph: "filter (\<lambda>(blk, _). map_of (map (\<lambda>m. (bm_blockID m, meta_path bs m)) qs) blk = None)
      (map (\<lambda>m. (bm_blockID m, zst_path bs m)) zs) = []"
    using look cover by (auto simp: filter_empty_conv)
  have mq: "mset qs = mset ms" using cover(1) dist(1) ids by (metis distinct_map set_eq_iff_mset_eq_distinct)
  then have "(\<Sum>m\<leftarrow>qs. f m) = (\<Sum>m\<leftarrow>ms. f m)" for f :: "blockMeta \<Rightarrow> int"
    by (metis mset_map sum_mset_sum_list)
  then show ?thesis using q cf sm orph mq by (simp add: ScanIndex_def empty_result_def)
qed

subsection \<open>A codec\<close>

definition put_nat :: "nat \<Rightarrow> string" where
  "put_nat n = replicate n (CHR ''a'') @ ''b''"

definition get_nat :: "string \<Rightarrow> nat \<times> string" where
  "get_nat s = (length (takeWhile (\<lambda>c. c = CHR ''a'') s), tl (dropWhile (\<lambda>c. c = CHR ''a'') s))"

definition put_str :: "string \<Rightarrow> string" where
  "put_str s = put_nat (length s) @ s"

definition get_str :: "string \<Rightarrow> string \<times> string" where
  "get_str s = (case get_nat s of (n, r) \<Rightarrow> (take n r, drop n r))"

definition put_int :: "int \<Rightarrow> string" where
  "put_int i = put_nat (nat i) @ put_nat (nat (- i))"

definition get_int :: "string \<Rightarrow> int \<times> string" where
  "get_int s = (case get_nat s of (a, r) \<Rightarrow> case get_nat r of (b, r') \<Rightarrow> (int a - int b, r'))"

lemma get_put [simp]: "get_nat (put_nat n @ r) = (n, r)" "get_str (put_str s @ r) = (s, r)" "get_int (put_int i @ r) = (i, r)"
proof -
  show g: "get_nat (put_nat n @ r) = (n, r)" for n r by (induction n) (auto simp: get_nat_def put_nat_def)
  show "get_str (put_str s @ r) = (s, r)" by (simp add: get_str_def put_str_def g)
  show "get_int (put_int i @ r) = (i, r)" by (simp add: get_int_def put_int_def g)
qed

definition fields_codec :: blockCodec where
  "fields_codec =
     \<lparr>bc_compress = Some, bc_decompress = Some,
      bc_marshal = (\<lambda>m. Some (put_str (bm_blockID m) @ put_str (bm_hostID m) @ put_str (bm_source m) @ put_int (bm_tsMin m) @
        put_int (bm_tsMax m) @ put_str (bm_unit m) @ put_nat (bm_nLines m) @ put_nat (bm_levels m) @ put_str (bm_path m) @
        put_nat (bm_sizeRaw m) @ put_nat (bm_sizeCompressed m))),
      bc_unmarshal = (\<lambda>s0.
        let (a, s1) = get_str s0; (b, s2) = get_str s1; (c, s3) = get_str s2; (t, s4) = get_int s3; (u, s5) = get_int s4;
            (e, s6) = get_str s5; (n, s7) = get_nat s6; (l, s8) = get_nat s7; (p, s9) = get_str s8; (x, s10) = get_nat s9;
            (y, s11) = get_nat s10 in
        Some \<lparr>bm_blockID = a, bm_hostID = b, bm_source = c, bm_tsMin = t, bm_tsMax = u, bm_unit = e, bm_nLines = n,
          bm_levels = l, bm_path = p, bm_sizeRaw = x, bm_sizeCompressed = y\<rparr>)\<rparr>"

lemma fields_codec_ok: "block_codec_ok fields_codec"
proof -
  have "get_nat (put_nat n) = (n, [])" for n using get_put(1) [of n "[]"] by simp
  then show ?thesis by (simp add: block_codec_ok_def fields_codec_def)
qed

subsection \<open>Claims\<close>

lemma store_ok_new: "store_ok bs (NewStore (rooted_dir bs) mb ma)"
  and buffered_new [simp]: "buffered (NewStore b mb ma) key = []"
  by (simp_all add: store_ok_def NewStore_def buffered_def)

lemma decompress_stored:
  assumes "stored K bs d m ls" "dk_faults d = []"
  shows "DecompressBlock K (Join [rooted_dir bs, bm_path m]) d = (Inr (raw_text ls), d)"
proof -
  have n: "names_ok bs (bm_hostID m) (bm_blockID m)" and p: "bm_path m = Join [relDir (bm_hostID m) (bm_tsMin m), bm_blockID m @ ''.zst'']"
    using assms(1) block_paths(3) by (auto simp: stored_def block_of_def)
  have "Join [rooted_dir bs, bm_path m] = zst_path bs m"
    unfolding p zst_path_def by (rule block_paths(1) [OF n])
  then show ?thesis using assms by (auto simp: stored_def DecompressBlock_def read_file_quiet)
qed


definition empty_store_disk :: disk where
  "empty_store_disk = \<lparr>dk_files = [], dk_temps = [], dk_faults = []\<rparr>"

definition sample_line :: "string \<Rightarrow> string \<Rightarrow> logLine" where
  "sample_line level msg = \<lparr>ll_ts = 86400000000000, ll_hostID = ''h'', ll_source = ''journald'', ll_stream = [],
     ll_unitOrContainer = ''sshd'', ll_level = level, ll_pid = 1, ll_message = msg\<rparr>"

definition sample_ops :: "log_op list" where
  "sample_ops = [OpAppend ''A'' 0 0 (sample_line ''INFO'' ''hello''), OpAppend ''B'' 0 0 (sample_line ''error'' ''x''),
     OpFlush ''C'' (''h'', ''journald''), OpAppend ''D'' 0 0 (sample_line ''info'' ''late'')]"

lemma sample_time: "json_time 86400000000000"
  by code_simp

lemma sample_ops_ok: "list_all (op_ok [''logs'']) sample_ops" "distinct (map op_ulid sample_ops)"
  using sample_time by (simp_all add: sample_ops_def sample_line_def names_ok_def plain_elem_def json_line_def)

lemma sample_accepted:
  "concat (map (accepted (''h'', ''journald'')) sample_ops) =
     [sample_line ''INFO'' ''hello'', sample_line ''error'' ''x'', sample_line ''info'' ''late'']"
  by code_simp

definition sample_run :: "blockMeta list \<times> logStore \<times> disk" where
  "sample_run = log_run fields_codec sample_ops (NewStore (rooted_dir [''logs'']) 100 LogMaxAge) empty_store_disk"


text \<open>
  C20 The index is rebuilt from the directory alone.  After any sequence of appends and flushes that began
  with an empty directory, \<open>ScanIndex\<close> finds exactly the blocks whose metadata the store returned, with
  their total sizes, and reports no orphan and nothing corrupt.
\<close>

theorem index_rebuilt:
  assumes "block_codec_ok K" "dk_faults d = []" "dk_files d = []" "list_all (op_ok bs) ops"
    and "distinct (map op_ulid ops)" "log_run K ops (NewStore (rooted_dir bs) mb ma) d = (ms, s', d')"
  shows "\<exists>r. ScanIndex K (rooted_dir bs) d' = (Inr r, d') \<and> mset (vr_blocks r) = mset ms \<and>
    vr_orphanPayloads r = [] \<and> vr_orphanMeta r = [] \<and> vr_corrupt r = [] \<and>
    vr_totalRaw r = (\<Sum>m\<leftarrow>ms. int (bm_sizeRaw m)) \<and> vr_totalComp r = (\<Sum>m\<leftarrow>ms. int (bm_sizeCompressed m))"
proof -
  obtain bls where bls: "map fst bls = ms" "\<forall>(m, ls) \<in> set bls. stored K bs d' m ls" "dk_faults d' = []"
      "distinct (map bm_blockID ms)" "\<forall>p. p \<notin> paths_of bs ms \<longrightarrow> content d' p = content d p"
    using run_effect [OF assms(1,6,2) store_ok_new assms(4,5)] by auto
  have st: "\<exists>ls. stored K bs d' m ls" if "m \<in> set ms" for m using that bls(1,2) by fastforce
  have none: "content d p = None" for p using assms(3) by (simp add: content_def)
  have "content d' (zst_path bs m) \<noteq> None \<and> content d' (meta_path bs m) \<noteq> None" if "m \<in> set ms" for m
    using st [OF that] by (auto simp: stored_def)
  then have "content d' p \<noteq> None \<longleftrightarrow> p \<in> paths_of bs ms" for p
    using bls(5) none by (auto simp: paths_of_def)
  moreover have "dir_ok d'" using run_dir [OF assms(6)] assms(3) by (simp add: dir_ok_def)
  ultimately show ?thesis using scan_exact [OF bls(3) _ bls(4) st] by blast
qed

theorem index_rebuilt_witness:
  "\<exists>r. fst (ScanIndex fields_codec (rooted_dir [''logs'']) (snd (snd sample_run))) = Inr r \<and>
     mset (vr_blocks r) = mset (fst sample_run) \<and> vr_orphanPayloads r = [] \<and> vr_orphanMeta r = [] \<and> vr_corrupt r = []"
proof -
  obtain ms s' d' where r: "sample_run = (ms, s', d')" by (metis prod_cases3)
  have q: "dk_faults empty_store_disk = []" "dk_files empty_store_disk = []" by (simp_all add: empty_store_disk_def)
  show ?thesis
    using index_rebuilt [OF fields_codec_ok q sample_ops_ok r [unfolded sample_run_def]]
    unfolding r fst_conv snd_conv by auto
qed

subsection \<open>Failed writes\<close>

lemma content_temps: "content (d\<lparr>dk_temps := t\<rparr>) = content d"
  by (rule ext) (simp add: content_def)

lemma writeAtomic_cases:
  assumes "writeAtomic p c d = (r, d')"
  shows "(r = None \<and> content d' = (content d)(p \<mapsto> c)) \<or> (r \<noteq> None \<and> content d' = content d)"
proof -
  obtain b d1 where c: "calls 4 d = (b, d1)" by fastforce
  obtain f d2 where n: "next_call d1 = (f, d2)" by fastforce
  have "content d1 = content d" "content d2 = content d"
    using content_cong [OF callsD [OF c]] content_cong [OF next_callD [OF n]] by simp_all
  then show ?thesis
    using assms c n by (auto simp: writeAtomic_def content_temps split: bool.splits option.splits)
qed

lemma writeBlock_error:
  assumes "writeBlock K b u h src ls d = (Inl e, d')"
  shows "content d' = content d \<or> (\<exists>dir z. content d' = (content d)(Join [b, Join [dir, u @ ''.zst'']] \<mapsto> z))"
proof -
  obtain lo hi bm where st: "fold scan_line ls (ll_ts (hd ls), ll_ts (hd ls), 0) = (lo, hi, bm)" by (metis prod_cases3)
  obtain f d1 where n: "next_call d = (f, d1)" by fastforce
  have c1: "content d1 = content d" using content_cong [OF next_callD [OF n]] .
  let ?p = "Join [b, Join [relDir h lo, u @ ''.zst'']]"
  show ?thesis
  proof (cases "f = None \<and> bc_compress K (raw_text ls) \<noteq> None")
    case True
    then obtain z where z: "bc_compress K (raw_text ls) = Some z" "f = None" by auto
    obtain r d2 where w: "writeAtomic ?p z d1 = (r, d2)" by fastforce
    have c2: "content d2 = content d \<or> r = None \<and> content d2 = (content d)(?p \<mapsto> z)"
      using writeAtomic_cases [OF w] c1 by auto
    have "content d' = content d2"
      using assms n st z w
      by (auto simp: writeBlock_def Let_def split: prod.splits option.splits dest: writeAtomic_cases)
    then show ?thesis using c2 by metis
  next
    case False
    then have "d' = d1" using assms n st by (auto simp: writeBlock_def Let_def split: option.splits)
    then show ?thesis using c1 by simp
  qed
qed

text \<open>
  What a flush that fails leaves, whatever calls fail: at most the payload of the block is on disk,
  never a sidecar, so the directory has at most an orphan payload more; and the lines of the accumulator
  are no longer in memory.
\<close>

theorem failed_flush:
  assumes "log_Flush K u key s d = (Inl e, s', d')"
  shows "(content d' = content d \<or>
      (\<exists>dir z. content d' = (content d)(Join [lo_baseDir s, Join [dir, u @ ''.zst'']] \<mapsto> z))) \<and>
    buffered s' key = [] \<and> (\<forall>k. k \<noteq> key \<longrightarrow> buffered s' k = buffered s k)"
  using assms
  by (auto simp: log_Flush_def Let_def buffered_def delete_conv' split: option.splits if_splits prod.splits sum.splits
      dest!: writeBlock_error)

theorem failed_flush_witness:
  "\<exists>e s' d'. log_Flush fields_codec ''C'' (''h'', ''j'')
      ((NewStore ''/logs'' 100 LogMaxAge)\<lparr>lo_buffers :=
         [((''h'', ''j''), \<lparr>lb_lines = [sample_line ''info'' ''x''], lb_rawBytes = 2, lb_firstAt = 0\<rparr>)]\<rparr>)
      (empty_store_disk\<lparr>dk_faults := [Some 0]\<rparr>) = (Inl e, s', d') \<and> buffered s' (''h'', ''j'') = []"
proof -
  let ?s = "(NewStore ''/logs'' 100 LogMaxAge)\<lparr>lo_buffers :=
    [((''h'', ''j''), \<lparr>lb_lines = [sample_line ''info'' ''x''], lb_rawBytes = 2, lb_firstAt = 0\<rparr>)]\<rparr>"
  let ?d = "empty_store_disk\<lparr>dk_faults := [Some 0]\<rparr>"
  have "\<exists>e s' d'. log_Flush fields_codec ''C'' (''h'', ''j'') ?s ?d = (Inl e, s', d')"
    by (simp add: log_Flush_def writeBlock_def Let_def next_call_def empty_store_disk_def split: prod.split)
  then show ?thesis using failed_flush by blast
qed

end
