(* ===== verification/Blackbox.thy ===== *)
theory Blackbox
  imports Prelude "HOL-Library.Word"
begin

text \<open>
  The flight recorder's file, \<open>internal/blackbox\<close>: the fixed-size record (\<open>sample.go\<close>, \<open>encode.go\<close>), the
  header (\<open>header.go\<close>), the memory-mapped ring (\<open>recorder.go\<close>) and the reader (\<open>reader.go\<close>).  Files are lists
  of bytes and every field has the width it has in the source; a \<open>float32\<close> is its 32 bits.  A shared
  mapping is the content of its file.  Go panics are values.
\<close>

type_synonym byte = "8 word"

subsection \<open>Little-endian integers (encoding/binary)\<close>

fun le_bytes :: "nat \<Rightarrow> nat \<Rightarrow> byte list" where
  "le_bytes 0 x = []"
| "le_bytes (Suc n) x = of_nat x # le_bytes n (x div 256)"

fun from_le :: "byte list \<Rightarrow> nat" where
  "from_le [] = 0"
| "from_le (b # bs) = unat b + 256 * from_le bs"

definition put_le :: "nat \<Rightarrow> 'a::len word \<Rightarrow> byte list" where
  "put_le n x = le_bytes n (unat x)"

definition get_le :: "nat \<Rightarrow> byte list \<Rightarrow> 'a::len word \<times> byte list" where
  "get_le n bs = (of_nat (from_le (take n bs)), drop n bs)"

definition put_arr :: "nat \<Rightarrow> 'a::len word list \<Rightarrow> byte list" where
  "put_arr n xs = concat (map (put_le n) xs)"

fun get_arr :: "nat \<Rightarrow> nat \<Rightarrow> byte list \<Rightarrow> 'a::len word list \<times> byte list" where
  "get_arr n 0 bs = ([], bs)"
| "get_arr n (Suc k) bs =
     (case get_le n bs of (x, bs') \<Rightarrow> (case get_arr n k bs' of (xs, bs'') \<Rightarrow> (x # xs, bs'')))"

subsection \<open>Samples (sample.go, encode.go)\<close>

definition MaxCPUs :: nat where
  "MaxCPUs = 64"

definition MaxSensors :: nat where
  "MaxSensors = 24"

definition MaxBlockDevices :: nat where
  "MaxBlockDevices = 16"

type_synonym f32 = "32 word"

record sample =
  TimestampUnixMilli :: "64 word"
  NumCPUs :: "16 word"
  CPUBusyPct :: "f32 list"
  CPUFreqMHz :: "32 word list"
  ThrottledMask :: "64 word"
  NumSensors :: "16 word"
  SensorTempMilliC :: "32 word list"
  MemTotalKB :: "64 word"
  MemAvailableKB :: "64 word"
  MemCachedKB :: "64 word"
  MemSwapUsedKB :: "64 word"
  MemDirtyKB :: "64 word"
  MemWritebackKB :: "64 word"
  LoadAvg1 :: f32
  ProcsRunnable :: "32 word"
  ProcsBlockedD :: "32 word"
  InterruptsPerCPU :: "64 word list"
  PSICPUSome10 :: f32
  PSIMemSome10 :: f32
  PSIMemFull10 :: f32
  PSIIOSome10 :: f32
  PSIIOFull10 :: f32
  NumBlockDevices :: "16 word"
  BlockQueueDepth :: "32 word list"
  BlockLatencyUs :: "32 word list"
  EDACCorrectableDelta :: "64 word"
  EDACUncorrectableDelta :: "64 word"

text \<open>The lengths of the arrays, which Go has in the type.\<close>

definition sample_ok :: "sample \<Rightarrow> bool" where
  "sample_ok s \<longleftrightarrow> length (CPUBusyPct s) = MaxCPUs \<and> length (CPUFreqMHz s) = MaxCPUs \<and>
     length (SensorTempMilliC s) = MaxSensors \<and> length (InterruptsPerCPU s) = MaxCPUs \<and>
     length (BlockQueueDepth s) = MaxBlockDevices \<and> length (BlockLatencyUs s) = MaxBlockDevices"

definition encodeSample :: "sample \<Rightarrow> byte list" where
  "encodeSample s =
     put_le 8 (TimestampUnixMilli s) @ put_le 2 (NumCPUs s) @ le_bytes 6 0 @ put_arr 4 (CPUBusyPct s) @
     put_arr 4 (CPUFreqMHz s) @ put_le 8 (ThrottledMask s) @ put_le 2 (NumSensors s) @ le_bytes 6 0 @
     put_arr 4 (SensorTempMilliC s) @ put_le 8 (MemTotalKB s) @ put_le 8 (MemAvailableKB s) @
     put_le 8 (MemCachedKB s) @ put_le 8 (MemSwapUsedKB s) @ put_le 8 (MemDirtyKB s) @ put_le 8 (MemWritebackKB s) @
     put_le 4 (LoadAvg1 s) @ put_le 4 (ProcsRunnable s) @ put_le 4 (ProcsBlockedD s) @
     put_arr 8 (InterruptsPerCPU s) @ put_le 4 (PSICPUSome10 s) @ put_le 4 (PSIMemSome10 s) @
     put_le 4 (PSIMemFull10 s) @ put_le 4 (PSIIOSome10 s) @ put_le 4 (PSIIOFull10 s) @ put_le 2 (NumBlockDevices s) @
     le_bytes 6 0 @ put_arr 4 (BlockQueueDepth s) @ put_arr 4 (BlockLatencyUs s) @
     put_le 8 (EDACCorrectableDelta s) @ put_le 8 (EDACUncorrectableDelta s)"

definition sampleEncodedSize :: nat where
  "sampleEncodedSize = 1384"

datatype blackbox_error = RecordSize | HeaderShort | BadMagic | BadVersion | TruncatedAt nat | BlackboxIO

definition decodeSample :: "byte list \<Rightarrow> blackbox_error + sample" where
  "decodeSample raw =
     (if length raw \<noteq> sampleEncodedSize then Inl RecordSize
      else
        let (ts, b) = get_le 8 raw; (nc, b) = get_le 2 b; b = drop 6 b; (busy, b) = get_arr 4 MaxCPUs b;
            (freq, b) = get_arr 4 MaxCPUs b; (thr, b) = get_le 8 b; (ns, b) = get_le 2 b; b = drop 6 b;
            (temp, b) = get_arr 4 MaxSensors b; (mt, b) = get_le 8 b; (ma, b) = get_le 8 b; (mc, b) = get_le 8 b;
            (ms, b) = get_le 8 b; (md, b) = get_le 8 b; (mw, b) = get_le 8 b; (la, b) = get_le 4 b;
            (pr, b) = get_le 4 b; (pd, b) = get_le 4 b; (irq, b) = get_arr 8 MaxCPUs b; (p1, b) = get_le 4 b;
            (p2, b) = get_le 4 b; (p3, b) = get_le 4 b; (p4, b) = get_le 4 b; (p5, b) = get_le 4 b;
            (nb, b) = get_le 2 b; b = drop 6 b; (qd, b) = get_arr 4 MaxBlockDevices b;
            (lat, b) = get_arr 4 MaxBlockDevices b; (ce, b) = get_le 8 b; (ue, b) = get_le 8 b in
        Inr \<lparr>TimestampUnixMilli = ts, NumCPUs = nc, CPUBusyPct = busy, CPUFreqMHz = freq, ThrottledMask = thr,
          NumSensors = ns, SensorTempMilliC = temp, MemTotalKB = mt, MemAvailableKB = ma, MemCachedKB = mc,
          MemSwapUsedKB = ms, MemDirtyKB = md, MemWritebackKB = mw, LoadAvg1 = la, ProcsRunnable = pr,
          ProcsBlockedD = pd, InterruptsPerCPU = irq, PSICPUSome10 = p1, PSIMemSome10 = p2, PSIMemFull10 = p3,
          PSIIOSome10 = p4, PSIIOFull10 = p5, NumBlockDevices = nb, BlockQueueDepth = qd, BlockLatencyUs = lat,
          EDACCorrectableDelta = ce, EDACUncorrectableDelta = ue\<rparr>)"

subsection \<open>The header (header.go)\<close>

definition magic :: "byte list" where
  "magic = map (\<lambda>c. of_nat (of_char c)) ''BTCRBLKB''"

definition formatVersion :: "32 word" where
  "formatVersion = 1"

definition headerSize :: nat where
  "headerSize = 64"

record header =
  hd_magic :: "byte list"
  hd_version :: "32 word"
  hd_sampleSize :: "32 word"
  hd_capacity :: "32 word"
  hd_writeIndex :: "64 word"

definition newHeader :: "32 word \<Rightarrow> header" where
  "newHeader capacity = \<lparr>hd_magic = magic, hd_version = formatVersion,
     hd_sampleSize = of_nat sampleEncodedSize, hd_capacity = capacity, hd_writeIndex = 0\<rparr>"

definition encodeHeader :: "header \<Rightarrow> byte list" where
  "encodeHeader h =
     (let bw = hd_magic h @ put_le 4 (hd_version h) @ put_le 4 (hd_sampleSize h) @ put_le 4 (hd_capacity h) @
               le_bytes 4 0 @ put_le 8 (hd_writeIndex h) in
      take headerSize bw @ replicate (headerSize - length bw) 0)"

definition decodeHeader :: "byte list \<Rightarrow> blackbox_error + header" where
  "decodeHeader raw =
     (if length raw < headerSize then Inl HeaderShort
      else
        let m = take 8 raw; b = drop 8 raw; (v, b) = get_le 4 b; (sz, b) = get_le 4 b; (cap, b) = get_le 4 b;
            b = drop 4 b; (wi, b) = get_le 8 b in
        if m \<noteq> magic then Inl BadMagic
        else if v \<noteq> formatVersion then Inl BadVersion
        else Inr \<lparr>hd_magic = m, hd_version = v, hd_sampleSize = sz, hd_capacity = cap, hd_writeIndex = wi\<rparr>)"

subsection \<open>The ring (recorder.go)\<close>

definition DefaultCapacity :: "32 word" where
  "DefaultCapacity = 900"

record recorder =
  rc_data :: "byte list"
  rc_capacity :: "32 word"
  rc_writeIndex :: "64 word"

text \<open>\<open>File.Truncate\<close>, and \<open>copy\<close> into a slice of a byte slice.\<close>

definition truncate_file :: "nat \<Rightarrow> byte list \<Rightarrow> byte list" where
  "truncate_file n raw = take n raw @ replicate (n - length raw) 0"

definition splice :: "nat \<Rightarrow> byte list \<Rightarrow> byte list \<Rightarrow> byte list" where
  "splice off bs data = take off data @ bs @ drop (off + length bs) data"

text \<open>
  \<open>prepareFile\<close> on the file's content; \<open>fails i\<close> says that the i-th of the calls \<open>Stat\<close>, \<open>ReadAt\<close>,
  \<open>Truncate\<close> (of a matching file), \<open>Truncate\<close> and \<open>Truncate\<close> (of any other) fails.
\<close>

definition prepareFile ::
  "(nat \<Rightarrow> bool) \<Rightarrow> byte list \<Rightarrow> nat \<Rightarrow> 32 word \<Rightarrow> (blackbox_error + 64 word) \<times> byte list" where
  "prepareFile fails raw sz capacity =
     (if fails 0 then (Inl BlackboxIO, raw)
      else
        let reset = (if fails 3 then (Inl BlackboxIO, raw)
                     else if fails 4 then (Inl BlackboxIO, [])
                     else (Inr 0, truncate_file sz [])) in
        if headerSize \<le> length raw \<and> \<not> fails 1 then
          (case decodeHeader (take headerSize raw) of
             Inr h \<Rightarrow>
               if hd_capacity h = capacity \<and> hd_sampleSize h = of_nat sampleEncodedSize then
                 (if fails 2 then (Inl BlackboxIO, raw) else (Inr (hd_writeIndex h), truncate_file sz raw))
               else reset
           | Inl _ \<Rightarrow> reset)
        else reset)"

definition writeHeaderLocked :: "recorder \<Rightarrow> recorder" where
  "writeHeaderLocked r =
     r\<lparr>rc_data := splice 0 (encodeHeader \<lparr>hd_magic = magic, hd_version = formatVersion,
        hd_sampleSize = of_nat sampleEncodedSize, hd_capacity = rc_capacity r, hd_writeIndex = rc_writeIndex r\<rparr>) (rc_data r)\<rparr>"

text \<open>
  \<open>Open\<close> on the file's content, \<open>None\<close> if there is no file; calls 5 and 6 are opening and mapping it.
  With the result comes the content the file is left with (on success, that of the mapping).
\<close>

definition blackbox_Open ::
  "(nat \<Rightarrow> bool) \<Rightarrow> byte list option \<Rightarrow> 32 word \<Rightarrow> (blackbox_error + recorder) \<times> byte list option" where
  "blackbox_Open fails existing capacity0 =
     (let capacity = (if capacity0 = 0 then DefaultCapacity else capacity0);
          sz = headerSize + unat capacity * sampleEncodedSize in
      if fails 5 then (Inl BlackboxIO, existing)
      else
        (case prepareFile fails (case existing of None \<Rightarrow> [] | Some raw \<Rightarrow> raw) sz capacity of
           (Inl e, raw) \<Rightarrow> (Inl e, Some raw)
         | (Inr writeIndex, raw) \<Rightarrow>
             if fails 6 then (Inl BlackboxIO, Some raw)
             else
               let r = writeHeaderLocked \<lparr>rc_data = raw, rc_capacity = capacity, rc_writeIndex = writeIndex\<rparr> in
               (Inr r, Some (rc_data r))))"

text \<open>\<open>Record\<close>; \<open>None\<close> is a panic (division by zero or a slice out of range).\<close>

definition Record :: "sample \<Rightarrow> recorder \<Rightarrow> recorder option" where
  "Record s r =
     (if rc_capacity r = 0 then None
      else
        let slot = rc_writeIndex r mod ucast (rc_capacity r);
            offset = headerSize + unat slot * sampleEncodedSize in
        if length (rc_data r) < offset + sampleEncodedSize \<or> length (rc_data r) < headerSize then None
        else
          Some (writeHeaderLocked
            (r\<lparr>rc_data := splice offset (encodeSample s) (rc_data r), rc_writeIndex := rc_writeIndex r + 1\<rparr>)))"

fun record_all :: "sample list \<Rightarrow> recorder \<Rightarrow> recorder option" where
  "record_all [] r = Some r"
| "record_all (s # ss) r = (case Record s r of None \<Rightarrow> None | Some r' \<Rightarrow> record_all ss r')"

subsection \<open>The reader (reader.go)\<close>

datatype dump_result = DumpOk "sample list" | DumpErr "sample list" blackbox_error | DumpPanic

fun dump_loop :: "byte list \<Rightarrow> header \<Rightarrow> nat \<Rightarrow> nat \<Rightarrow> nat \<Rightarrow> sample list \<Rightarrow> dump_result" where
  "dump_loop raw h start i 0 samples = DumpOk samples"
| "dump_loop raw h start i (Suc n) samples =
     (let slot = (start + i) mod unat (hd_capacity h);
          sz = int (unat (hd_sampleSize h));
          offset = wrap64 (int headerSize + wrap64 (int slot * sz));
          last = wrap64 (offset + sz) in
      if int (length raw) < last then DumpErr samples (TruncatedAt slot)
      else if offset < 0 \<or> last < offset then DumpPanic
      else
        (case decodeSample (take (nat sz) (drop (nat offset) raw)) of
           Inl e \<Rightarrow> DumpErr samples e
         | Inr s \<Rightarrow> dump_loop raw h start (Suc i) n (samples @ [s])))"

text \<open>\<open>None\<close>: the file cannot be read.\<close>

definition Dump :: "byte list option \<Rightarrow> dump_result" where
  "Dump content =
     (case content of
        None \<Rightarrow> DumpErr [] BlackboxIO
      | Some raw \<Rightarrow>
          (case decodeHeader raw of
             Inl e \<Rightarrow> DumpErr [] e
           | Inr h \<Rightarrow>
               let cap = unat (hd_capacity h); wi = unat (hd_writeIndex h); written = min wi cap in
               if cap < wi \<and> cap = 0 then DumpPanic
               else
                 let start = (if cap < wi then wi mod cap else 0) in
                 dump_loop raw h start 0 written []))"

subsection \<open>Encoding round trips\<close>

lemma length_le_bytes [simp]: "length (le_bytes n x) = n"
  by (induction n arbitrary: x) auto

lemma from_le_bytes: "from_le (le_bytes n x) = x mod 256 ^ n"
proof (induction n arbitrary: x)
  case (Suc n)
  have "unat (of_nat x :: byte) = x mod 256" by (simp add: unat_of_nat)
  with Suc show ?case by (simp add: mod_mult2_eq [of x 256 "256 ^ n"])
qed simp

lemma length_put_le [simp]: "length (put_le n x) = n"
  by (simp add: put_le_def)

lemma get_put_le:
  "LENGTH('a::len) = 8 * n \<Longrightarrow> get_le n (put_le n x @ r) = (x :: 'a word, r)"
proof -
  assume n: "LENGTH('a) = 8 * n"
  have "unat x < 2 ^ LENGTH('a)" by (rule unsigned_less)
  also have "(2 :: nat) ^ LENGTH('a) = 256 ^ n" by (simp add: n power_mult)
  finally show ?thesis by (simp add: get_le_def put_le_def from_le_bytes)
qed

lemma length_put_arr [simp]: "length (put_arr n xs) = n * length xs"
  by (induction xs) (auto simp: put_arr_def)

lemma get_put_arr:
  "LENGTH('a::len) = 8 * n \<Longrightarrow> length xs = k \<Longrightarrow> get_arr n k (put_arr n xs @ r) = (xs :: 'a word list, r)"
proof (induction xs arbitrary: k)
  case (Cons x xs)
  then show ?case by (cases k) (auto simp: put_arr_def get_put_le)
qed (simp add: put_arr_def)

lemmas get_put_fields =
  get_put_le [where 'a = 16 and n = 2, simplified] get_put_le [where 'a = 32 and n = 4, simplified]
  get_put_le [where 'a = 64 and n = 8, simplified] get_put_arr [where 'a = 32 and n = 4, simplified]
  get_put_arr [where 'a = 64 and n = 8, simplified]

lemma encodeSample_length [simp]: "sample_ok s \<Longrightarrow> length (encodeSample s) = sampleEncodedSize"
  by (simp add: encodeSample_def sample_ok_def sampleEncodedSize_def MaxCPUs_def MaxSensors_def MaxBlockDevices_def)

lemma decode_encode_sample: "sample_ok s \<Longrightarrow> decodeSample (encodeSample s) = Inr s"
proof -
  assume ok: "sample_ok s"
  note ls = ok [unfolded sample_ok_def]
  have last: "get_le 8 (put_le 8 x) = (x :: 64 word, [])" for x
    using get_put_fields(3) [of x "[]"] by simp
  have l: "length (encodeSample s) = sampleEncodedSize" using ok by simp
  show ?thesis
    unfolding decodeSample_def l
    by (simp add: encodeSample_def get_put_fields ls last)
qed

subsection \<open>The header\<close>

definition ring_header :: "32 word \<Rightarrow> 64 word \<Rightarrow> byte list" where
  "ring_header cap wi = encodeHeader \<lparr>hd_magic = magic, hd_version = formatVersion,
     hd_sampleSize = of_nat sampleEncodedSize, hd_capacity = cap, hd_writeIndex = wi\<rparr>"

lemma length_magic [simp]: "length magic = 8"
  by (simp add: magic_def)

lemma length_fit: "length (take n b @ replicate (n - length b) x) = n"
  by simp

lemma length_encodeHeader [simp]: "length (encodeHeader h) = headerSize"
  unfolding encodeHeader_def Let_def by (rule length_fit)

lemma decode_ring_header:
  "decodeHeader (ring_header cap wi @ r) =
     Inr \<lparr>hd_magic = magic, hd_version = formatVersion, hd_sampleSize = of_nat sampleEncodedSize,
       hd_capacity = cap, hd_writeIndex = wi\<rparr>"
  by (simp add: decodeHeader_def ring_header_def encodeHeader_def Let_def headerSize_def get_put_fields)

lemma length_ring_header [simp]: "length (ring_header cap wi) = headerSize"
  by (simp add: ring_header_def)

text \<open>\<open>writeHeaderLocked\<close> replaces the header and nothing else.\<close>

lemma writeHeader_eq:
  "length hdr = headerSize \<Longrightarrow>
   writeHeaderLocked \<lparr>rc_data = hdr @ body, rc_capacity = cap, rc_writeIndex = wi\<rparr> =
     \<lparr>rc_data = ring_header cap wi @ body, rc_capacity = cap, rc_writeIndex = wi\<rparr>"
  by (simp add: writeHeaderLocked_def ring_header_def splice_def)

subsection \<open>The ring holds the last samples\<close>

lemma concat_splice:
  assumes "\<And>x. x \<in> set xs \<Longrightarrow> length x = z" "i < length xs" "length y = z"
  shows "splice (i * z) y (concat xs) = concat (xs[i := y])"
  using assms
proof (induction xs arbitrary: i)
  case (Cons x xs)
  show ?case
  proof (cases i)
    case 0
    with Cons.prems show ?thesis by (simp add: splice_def)
  next
    case (Suc j)
    with Cons.prems Cons.IH [of j] show ?thesis by (simp add: splice_def add.commute)
  qed
qed simp

lemma concat_slice:
  assumes "\<And>x. x \<in> set xs \<Longrightarrow> length x = z" "i < length xs"
  shows "take z (drop (i * z) (concat xs)) = xs ! i"
  using assms
proof (induction xs arbitrary: i)
  case (Cons x xs)
  then show ?case by (cases i) simp_all
qed simp

lemma length_concat_const: "(\<And>x. x \<in> set xs \<Longrightarrow> length x = z) \<Longrightarrow> length (concat xs) = length xs * z"
  by (induction xs) auto

text \<open>
  The file of a recorder of capacity \<open>cap\<close> that has taken the samples \<open>ss\<close>: the header with their number
  and slots that hold the last \<open>cap\<close> of them, each at its position modulo the capacity.
\<close>

definition ring :: "32 word \<Rightarrow> sample list \<Rightarrow> byte list \<Rightarrow> bool" where
  "ring cap ss raw \<longleftrightarrow>
     cap \<noteq> 0 \<and> list_all sample_ok ss \<and> length ss < 2 ^ 64 \<and>
     (\<exists>slots. raw = ring_header cap (of_nat (length ss)) @ concat slots \<and> length slots = unat cap \<and>
        (\<forall>x \<in> set slots. length x = sampleEncodedSize) \<and>
        (\<forall>k < length ss. length ss \<le> k + unat cap \<longrightarrow> slots ! (k mod unat cap) = encodeSample (ss ! k)))"

definition mapped :: "32 word \<Rightarrow> sample list \<Rightarrow> recorder \<Rightarrow> bool" where
  "mapped cap ss r \<longleftrightarrow> ring cap ss (rc_data r) \<and> rc_capacity r = cap \<and> rc_writeIndex r = of_nat (length ss)"

lemma unat_bound: "unat (c :: 32 word) < 2 ^ 32"
proof -
  have "unat c < 2 ^ LENGTH(32)" by (rule unsigned_less)
  then show ?thesis by simp
qed

lemma slot_unat:
  assumes "cap \<noteq> (0 :: 32 word)" "n < 2 ^ 64"
  shows "unat ((of_nat n :: 64 word) mod ucast cap) = n mod unat cap"
proof -
  have "unat cap < 2 ^ 64" using unat_bound [of cap] by simp
  then have "unat (ucast cap :: 64 word) = unat cap" by (simp add: unsigned_ucast_eq take_bit_nat_eq_self)
  moreover have "unat (of_nat n :: 64 word) = n" using assms(2) by (simp add: unat_of_nat)
  ultimately show ?thesis by (simp add: unat_mod)
qed

lemma mod_apart: "k < n \<Longrightarrow> n < k + c \<Longrightarrow> k mod c \<noteq> n mod (c :: nat)"
proof
  assume a: "k < n" "n < k + c" "k mod c = n mod c"
  then have "c dvd n - k" by (metis mod_eq_dvd_iff_nat less_imp_le)
  with a show False by (auto dest: dvd_imp_le)
qed

lemma Record_ring:
  assumes m: "mapped cap ss r" and s: "sample_ok s" and n: "length ss + 1 < 2 ^ 64"
  shows "\<exists>r'. Record s r = Some r' \<and> mapped cap (ss @ [s]) r'"
proof -
  obtain slots where raw: "rc_data r = ring_header cap (of_nat (length ss)) @ concat slots"
    and sl: "length slots = unat cap" "\<And>x. x \<in> set slots \<Longrightarrow> length x = sampleEncodedSize"
      "\<And>k. k < length ss \<Longrightarrow> length ss \<le> k + unat cap \<Longrightarrow> slots ! (k mod unat cap) = encodeSample (ss ! k)"
    and c: "cap \<noteq> 0" "rc_capacity r = cap" "rc_writeIndex r = of_nat (length ss)" "list_all sample_ok ss"
    using m by (auto simp: mapped_def ring_def)
  let ?i = "length ss mod unat cap"
  have cp: "0 < unat cap" using c(1) by (simp add: unat_gt_0)
  then have i: "?i < length slots" using sl(1) by simp
  have slot: "unat (rc_writeIndex r mod ucast (rc_capacity r)) = ?i" using slot_unat [OF c(1)] n c by simp
  have len: "length (rc_data r) = headerSize + unat cap * sampleEncodedSize"
    using raw sl(1) length_concat_const [OF sl(2)] by simp
  have "(?i + 1) * sampleEncodedSize \<le> unat cap * sampleEncodedSize"
    using i sl(1) by (intro mult_le_mono1) simp
  then have fits: "headerSize + ?i * sampleEncodedSize + sampleEncodedSize \<le> length (rc_data r)"
    using len by simp
  let ?slots = "slots[?i := encodeSample s]"
  have "splice (headerSize + ?i * sampleEncodedSize) (encodeSample s) (rc_data r) =
      ring_header cap (of_nat (length ss)) @ splice (?i * sampleEncodedSize) (encodeSample s) (concat slots)"
    unfolding raw by (simp add: splice_def)
  also have "splice (?i * sampleEncodedSize) (encodeSample s) (concat slots) = concat ?slots"
    using sl(2) i s by (intro concat_splice) auto
  finally have "Record s r = Some \<lparr>rc_data = ring_header cap (of_nat (length ss) + 1) @ concat ?slots,
      rc_capacity = cap, rc_writeIndex = of_nat (length ss) + 1\<rparr>"
    using fits c slot by (cases r) (simp add: Record_def Let_def writeHeader_eq)
  moreover have "ring cap (ss @ [s]) (ring_header cap (of_nat (length ss) + 1) @ concat ?slots)"
  proof -
    have "?slots ! (k mod unat cap) = encodeSample ((ss @ [s]) ! k)"
      if "k < length (ss @ [s])" "length (ss @ [s]) \<le> k + unat cap" for k
    proof (cases "k = length ss")
      case True
      then show ?thesis using i by simp
    next
      case False
      then have "k < length ss" "k mod unat cap \<noteq> ?i" using that mod_apart [of k "length ss" "unat cap"] by auto
      then show ?thesis using sl(3) [of k] that by (simp add: nth_append)
    qed
    moreover have "length x = sampleEncodedSize" if "x \<in> set ?slots" for x
      using that sl(2) s set_update_subset_insert [of slots ?i "encodeSample s"] by auto
    ultimately show ?thesis
      unfolding ring_def using c(1,4) s n sl(1) by (auto simp: add.commute intro!: exI [of _ ?slots])
  qed
  ultimately show ?thesis by (simp add: mapped_def add.commute)
qed

lemma record_all_ring:
  "mapped cap ss r \<Longrightarrow> list_all sample_ok ts \<Longrightarrow> length ss + length ts < 2 ^ 64 \<Longrightarrow>
   \<exists>r'. record_all ts r = Some r' \<and> mapped cap (ss @ ts) r'"
proof (induction ts arbitrary: ss r)
  case (Cons t ts)
  obtain r' where "Record t r = Some r'" "mapped cap (ss @ [t]) r'"
    using Record_ring [of cap ss r t] Cons.prems by auto
  with Cons.IH [of "ss @ [t]" r'] Cons.prems show ?case by simp
qed simp

subsection \<open>Opening and reading a ring\<close>

lemma fresh_ring:
  assumes "cap \<noteq> 0"
  shows "ring cap [] (ring_header cap 0 @ replicate (unat cap * sampleEncodedSize) 0)"
proof -
  have r: "concat (replicate n (replicate z (0 :: byte))) = replicate (n * z) 0" for n z
    by (induction n) (simp_all add: replicate_add)
  show ?thesis
    unfolding ring_def using assms r
    by (auto intro!: exI [of _ "replicate (unat cap) (replicate sampleEncodedSize 0)"])
qed

lemma ring_size: "ring cap ss raw \<Longrightarrow> length raw = headerSize + unat cap * sampleEncodedSize"
  by (auto simp: ring_def length_concat_const)

lemma ring_decode:
  assumes "ring cap ss raw"
  shows "decodeHeader raw = Inr \<lparr>hd_magic = magic, hd_version = formatVersion,
      hd_sampleSize = of_nat sampleEncodedSize, hd_capacity = cap, hd_writeIndex = of_nat (length ss)\<rparr>"
    "decodeHeader (take headerSize raw) = decodeHeader raw"
proof -
  obtain body where raw: "raw = ring_header cap (of_nat (length ss)) @ body" using assms by (auto simp: ring_def)
  show d: "decodeHeader raw = Inr \<lparr>hd_magic = magic, hd_version = formatVersion,
      hd_sampleSize = of_nat sampleEncodedSize, hd_capacity = cap, hd_writeIndex = of_nat (length ss)\<rparr>"
    unfolding raw by (rule decode_ring_header)
  show "decodeHeader (take headerSize raw) = decodeHeader raw"
    unfolding d using decode_ring_header [of cap _ "[]"] by (simp add: raw)
qed

text \<open>Opening a ring of the same capacity resumes it unchanged; any other file starts an empty ring.\<close>

lemma Open_resumes:
  assumes "ring cap ss raw"
  shows "\<exists>r. blackbox_Open (\<lambda>_. False) (Some raw) cap = (Inr r, Some raw) \<and> mapped cap ss r"
proof -
  obtain body where raw: "raw = ring_header cap (of_nat (length ss)) @ body" using assms by (auto simp: ring_def)
  have c: "cap \<noteq> 0" using assms by (simp add: ring_def)
  have "truncate_file (headerSize + unat cap * sampleEncodedSize) raw = raw"
    using ring_size [OF assms] by (simp add: truncate_file_def)
  then have "blackbox_Open (\<lambda>_. False) (Some raw) cap =
      (Inr \<lparr>rc_data = raw, rc_capacity = cap, rc_writeIndex = of_nat (length ss)\<rparr>, Some raw)"
    using c ring_decode [OF assms] ring_size [OF assms] writeHeader_eq [of "ring_header cap (of_nat (length ss))" body]
    by (simp add: blackbox_Open_def prepareFile_def Let_def raw)
  then show ?thesis using assms by (simp add: mapped_def)
qed

lemma Open_fresh:
  assumes "cap \<noteq> 0" "\<And>raw h. existing = Some raw \<Longrightarrow> decodeHeader (take headerSize raw) = Inr h \<Longrightarrow>
      hd_capacity h \<noteq> cap \<or> hd_sampleSize h \<noteq> of_nat sampleEncodedSize"
  shows "\<exists>r. blackbox_Open (\<lambda>_. False) existing cap = (Inr r, Some (rc_data r)) \<and> mapped cap [] r"
proof -
  let ?z = "headerSize + unat cap * sampleEncodedSize"
  have hs: "headerSize \<noteq> 0" by (simp add: headerSize_def)
  have p: "prepareFile (\<lambda>_. False) (case existing of None \<Rightarrow> [] | Some raw \<Rightarrow> raw) ?z cap = (Inr 0, replicate ?z 0)"
    using assms(2) hs by (auto simp: prepareFile_def truncate_file_def Let_def split: sum.split option.split)
  have "replicate ?z (0 :: byte) = replicate headerSize 0 @ replicate (unat cap * sampleEncodedSize) 0"
    by (simp add: replicate_add)
  then show ?thesis
    using assms(1) p fresh_ring [OF assms(1)]
    by (simp add: blackbox_Open_def Let_def writeHeader_eq mapped_def)
qed

lemma wrap_small: "0 \<le> x \<Longrightarrow> x < 2 ^ 63 \<Longrightarrow> wrap64 x = x"
  by (simp add: wrap64_def)

lemma ring_loop:
  assumes r: "ring cap ss raw" and h: "decodeHeader raw = Inr h"
    and k: "length ss \<le> k0 + unat cap" "(start + i) mod unat cap = (k0 + i) mod unat cap" "k0 + i + n = length ss"
  shows "dump_loop raw h start i n acc = DumpOk (acc @ drop (k0 + i) ss)"
  using k(2,3)
proof (induction n arbitrary: i acc)
  case 0
  then show ?case by simp
next
  case (Suc n)
  obtain slots where raw: "raw = ring_header cap (of_nat (length ss)) @ concat slots"
    and sl: "length slots = unat cap" "\<And>x. x \<in> set slots \<Longrightarrow> length x = sampleEncodedSize"
      "\<And>k. k < length ss \<Longrightarrow> length ss \<le> k + unat cap \<Longrightarrow> slots ! (k mod unat cap) = encodeSample (ss ! k)"
    and c: "cap \<noteq> 0" "list_all sample_ok ss"
    using r by (auto simp: ring_def)
  let ?slot = "(k0 + i) mod unat cap"
  have hh: "hd_capacity h = cap" "unat (hd_sampleSize h) = sampleEncodedSize"
    using h ring_decode(1) [OF r] by (auto simp: sampleEncodedSize_def)
  have i: "?slot < length slots" using c(1) sl(1) by (simp add: unat_gt_0)
  have kk: "k0 + i < length ss" using Suc.prems(2) by simp
  have off: "wrap64 (int headerSize + wrap64 (int ?slot * int sampleEncodedSize)) = int (headerSize + ?slot * sampleEncodedSize)"
    "wrap64 (int (headerSize + ?slot * sampleEncodedSize) + int sampleEncodedSize) =
       int (headerSize + ?slot * sampleEncodedSize + sampleEncodedSize)"
  proof -
    have b: "?slot < 2 ^ 32" using i sl(1) unat_bound [of cap] by linarith
    then have "int ?slot * int sampleEncodedSize < 2 ^ 62" by (simp add: sampleEncodedSize_def)
    then show "wrap64 (int headerSize + wrap64 (int ?slot * int sampleEncodedSize)) = int (headerSize + ?slot * sampleEncodedSize)"
      "wrap64 (int (headerSize + ?slot * sampleEncodedSize) + int sampleEncodedSize) =
        int (headerSize + ?slot * sampleEncodedSize + sampleEncodedSize)"
      using b by (simp_all add: wrap_small headerSize_def sampleEncodedSize_def)
  qed
  have "(?slot + 1) * sampleEncodedSize \<le> unat cap * sampleEncodedSize"
    using i sl(1) by (intro mult_le_mono1) simp
  then have fits: "headerSize + ?slot * sampleEncodedSize + sampleEncodedSize \<le> length raw"
    using ring_size [OF r] by simp
  have "take sampleEncodedSize (drop (headerSize + ?slot * sampleEncodedSize) raw) = slots ! ?slot"
    unfolding raw using concat_slice [OF sl(2) i] by simp
  also have "\<dots> = encodeSample (ss ! (k0 + i))" using sl(3) [OF kk] k(1) by simp
  finally have dec: "decodeSample (take sampleEncodedSize (drop (headerSize + ?slot * sampleEncodedSize) raw)) = Inr (ss ! (k0 + i))"
    using c(2) kk by (simp add: decode_encode_sample list_all_length)
  have nx: "(start + Suc i) mod unat cap = (k0 + Suc i) mod unat cap"
    using Suc.prems(1) by (metis add_Suc_right mod_Suc_eq)
  have "dump_loop raw h start i (Suc n) acc = dump_loop raw h start (Suc i) n (acc @ [ss ! (k0 + i)])"
  proof -
    obtain off0 where off0: "off0 = headerSize + ?slot * sampleEncodedSize" by simp
    have "\<not> int (length raw) < int (off0 + sampleEncodedSize)" "\<not> (int off0 < 0 \<or> int (off0 + sampleEncodedSize) < int off0)"
      using fits off0 by linarith+
    then show ?thesis
      unfolding dump_loop.simps Let_def hh Suc.prems(1) off [folded off0] using dec [folded off0]
      by (simp only: if_False nat_int sum.case)
  qed
  also have "\<dots> = DumpOk (acc @ [ss ! (k0 + i)] @ drop (k0 + Suc i) ss)"
    using Suc.IH [of "Suc i"] Suc.prems(2) nx by simp
  finally show ?case using kk by (simp add: Cons_nth_drop_Suc)
qed

lemma Dump_ring:
  assumes "ring cap ss raw"
  shows "Dump (Some raw) = DumpOk (drop (length ss - unat cap) ss)"
proof -
  let ?n = "length ss"
  have c: "cap \<noteq> 0" "unat (of_nat ?n :: 64 word) = ?n" using assms by (auto simp: ring_def unat_of_nat)
  have "0 < unat cap" using c(1) by (simp add: unat_gt_0)
  moreover have "?n mod unat cap = (?n - unat cap) mod unat cap" if "unat cap < ?n"
    using that by (simp add: le_mod_geq)
  ultimately show ?thesis
    using c ring_decode(1) [OF assms] ring_loop [OF assms ring_decode(1) [OF assms], of "?n - unat cap"]
    by (auto simp: Dump_def Let_def min_def)
qed

subsection \<open>Claims\<close>

text \<open>Sessions of the agent: open the file, record, stop, with no failing call.\<close>

fun bb_sessions :: "32 word \<Rightarrow> sample list list \<Rightarrow> byte list option \<Rightarrow> byte list option option" where
  "bb_sessions cap [] f = Some f"
| "bb_sessions cap (ss # sss) f =
     (case fst (blackbox_Open (\<lambda>_. False) f cap) of
        Inl _ \<Rightarrow> None
      | Inr r \<Rightarrow> (case record_all ss r of None \<Rightarrow> None | Some r' \<Rightarrow> bb_sessions cap sss (Some (rc_data r'))))"

lemma sessions_ring:
  "ring cap ss raw \<Longrightarrow> list_all (list_all sample_ok) sss \<Longrightarrow> length ss + length (concat sss) < 2 ^ 64 \<Longrightarrow>
   \<exists>raw'. bb_sessions cap sss (Some raw) = Some (Some raw') \<and> ring cap (ss @ concat sss) raw'"
proof (induction sss arbitrary: ss raw)
  case (Cons ts sss)
  obtain r where r: "blackbox_Open (\<lambda>_. False) (Some raw) cap = (Inr r, Some raw)" "mapped cap ss r"
    using Open_resumes [OF Cons.prems(1)] by blast
  obtain r' where r': "record_all ts r = Some r'" "mapped cap (ss @ ts) r'"
    using record_all_ring [OF r(2), of ts] Cons.prems by auto
  then show ?case using Cons.IH [of "ss @ ts" "rc_data r'"] Cons.prems r by (auto simp: mapped_def)
qed simp

text \<open>
  C22 The recorder keeps exactly the last samples, across restarts.  Starting without a file, after any
  sessions of opening the ring and recording, \<open>Dump\<close> of the file returns the last \<open>capacity\<close> samples recorded
  over all sessions, oldest first and bit for bit, and no step panics.
\<close>

theorem ring_survives_restarts:
  assumes "cap \<noteq> 0" "sss \<noteq> []" "list_all (list_all sample_ok) sss" "length (concat sss) < 2 ^ 64"
  shows "\<exists>raw. bb_sessions cap sss None = Some (Some raw) \<and>
    Dump (Some raw) = DumpOk (drop (length (concat sss) - unat cap) (concat sss))"
proof -
  obtain ts rest where sss: "sss = ts # rest" using assms(2) by (cases sss) auto
  obtain r where r: "blackbox_Open (\<lambda>_. False) None cap = (Inr r, Some (rc_data r))" "mapped cap [] r"
    using Open_fresh [OF assms(1), of None] by auto
  obtain r' where r': "record_all ts r = Some r'" "mapped cap ts r'"
    using record_all_ring [OF r(2), of ts] assms(3,4) sss by auto
  obtain raw where "bb_sessions cap rest (Some (rc_data r')) = Some (Some raw)" "ring cap (ts @ concat rest) raw"
    using sessions_ring [of cap ts "rc_data r'" rest] r'(2) assms(3,4) sss by (auto simp: mapped_def)
  then show ?thesis using Dump_ring [of cap "concat sss" raw] r r' sss by auto
qed

definition zero_sample :: sample where
  "zero_sample = \<lparr>TimestampUnixMilli = 0, NumCPUs = 0, CPUBusyPct = replicate MaxCPUs 0, CPUFreqMHz = replicate MaxCPUs 0,
     ThrottledMask = 0, NumSensors = 0, SensorTempMilliC = replicate MaxSensors 0, MemTotalKB = 0, MemAvailableKB = 0,
     MemCachedKB = 0, MemSwapUsedKB = 0, MemDirtyKB = 0, MemWritebackKB = 0, LoadAvg1 = 0, ProcsRunnable = 0,
     ProcsBlockedD = 0, InterruptsPerCPU = replicate MaxCPUs 0, PSICPUSome10 = 0, PSIMemSome10 = 0, PSIMemFull10 = 0,
     PSIIOSome10 = 0, PSIIOFull10 = 0, NumBlockDevices = 0, BlockQueueDepth = replicate MaxBlockDevices 0,
     BlockLatencyUs = replicate MaxBlockDevices 0, EDACCorrectableDelta = 0, EDACUncorrectableDelta = 0\<rparr>"

definition sample_at :: "64 word \<Rightarrow> sample" where
  "sample_at t = zero_sample\<lparr>TimestampUnixMilli := t\<rparr>"

lemma sample_at_ok [simp]: "sample_ok (sample_at t)" "sample_ok zero_sample"
  by (simp_all add: sample_ok_def sample_at_def zero_sample_def)

theorem ring_survives_restarts_witness:
  "\<exists>raw. bb_sessions 2 [[sample_at 1, sample_at 2], [sample_at 3]] None = Some (Some raw) \<and>
     Dump (Some raw) = DumpOk [sample_at 2, sample_at 3]"
  using ring_survives_restarts [of 2 "[[sample_at 1, sample_at 2], [sample_at 3]]"] by simp

lemma loop_no_panic:
  assumes "unat (hd_sampleSize h) = sampleEncodedSize" "hd_capacity h \<noteq> 0"
  shows "dump_loop raw h start i n acc \<noteq> DumpPanic \<and>
    (\<forall>ss. dump_loop raw h start i n acc = DumpOk ss \<longrightarrow> length ss = length acc + n)"
proof (induction n arbitrary: i acc)
  case (Suc n)
  let ?slot = "(start + i) mod unat (hd_capacity h)"
  have "?slot < 2 ^ 32"
    using assms(2) unat_bound [of "hd_capacity h"] mod_less_divisor [of "unat (hd_capacity h)" "start + i"]
    unfolding unat_gt_0 by linarith
  then have w: "wrap64 (int ?slot * int sampleEncodedSize) = int ?slot * int sampleEncodedSize"
    "wrap64 (int headerSize + int ?slot * int sampleEncodedSize) = int headerSize + int ?slot * int sampleEncodedSize"
    "wrap64 (int headerSize + int ?slot * int sampleEncodedSize + int sampleEncodedSize) =
       int headerSize + int ?slot * int sampleEncodedSize + int sampleEncodedSize"
    by (simp_all add: wrap_small sampleEncodedSize_def headerSize_def)
  have pos: "\<not> int headerSize + int ?slot * int sampleEncodedSize < 0" by (simp add: not_less)
  show ?case
    unfolding dump_loop.simps Let_def assms(1) w using Suc pos by (auto split: sum.splits)
qed simp

text \<open>
  Files that are not a ring of this build.  \<open>Dump\<close> refuses, without a sample, whatever lacks the magic
  bytes or has another version; a header with this build's record size and a capacity never makes it panic,
  and a full read returns as many samples as the header says are there.  A header with capacity 0 and a
  write index that is not 0 makes it panic.
\<close>

theorem dump_any_file:
  "(length raw < headerSize \<or> take 8 raw \<noteq> magic \<longrightarrow> (\<exists>e. Dump (Some raw) = DumpErr [] e)) \<and>
   (\<forall>h. decodeHeader raw = Inr h \<longrightarrow>
      (hd_capacity h \<noteq> 0 \<and> hd_sampleSize h = of_nat sampleEncodedSize \<longrightarrow>
         Dump (Some raw) \<noteq> DumpPanic \<and>
         (\<forall>ss. Dump (Some raw) = DumpOk ss \<longrightarrow> length ss = min (unat (hd_writeIndex h)) (unat (hd_capacity h)))) \<and>
      (hd_capacity h = 0 \<and> hd_writeIndex h \<noteq> 0 \<longrightarrow> Dump (Some raw) = DumpPanic))"
proof (intro conjI impI allI)
  assume "length raw < headerSize \<or> take 8 raw \<noteq> magic"
  then show "\<exists>e. Dump (Some raw) = DumpErr [] e"
    by (auto simp: Dump_def decodeHeader_def Let_def split: prod.splits)
next
  fix h assume h: "decodeHeader raw = Inr h" and a: "hd_capacity h \<noteq> 0 \<and> hd_sampleSize h = of_nat sampleEncodedSize"
  then have s: "unat (hd_sampleSize h) = sampleEncodedSize" by (simp add: sampleEncodedSize_def)
  note np = loop_no_panic [OF s conjunct1 [OF a]]
  show "Dump (Some raw) \<noteq> DumpPanic" using h a np by (auto simp: Dump_def Let_def unat_eq_0)
  fix ss assume "Dump (Some raw) = DumpOk ss"
  then show "length ss = min (unat (hd_writeIndex h)) (unat (hd_capacity h))"
    using h a np by (fastforce simp: Dump_def Let_def unat_eq_0 split: if_splits)
next
  fix h assume "decodeHeader raw = Inr h" "hd_capacity h = 0 \<and> hd_writeIndex h \<noteq> 0"
  then show "Dump (Some raw) = DumpPanic" by (simp add: Dump_def Let_def unat_gt_0)
qed

theorem dump_any_file_witness:
  "Dump (Some (ring_header 0 7)) = DumpPanic \<and> (\<exists>e. Dump (Some (map of_nat [0..<64])) = DumpErr [] e)"
proof -
  have "take 8 (map of_nat [0..<64]) \<noteq> magic" by (simp add: magic_def upt_rec)
  then show ?thesis
    using dump_any_file [of "ring_header 0 7"] dump_any_file [of "map of_nat [0..<64]"] decode_ring_header [of 0 7 "[]"]
    by auto
qed

end
