(* ===== verification/Blackbox_Sampler.thy ===== *)
theory Blackbox_Sampler
  imports Blackbox Gotext Gopath
begin

unbundle bit_operations_syntax

text \<open>
  What the flight recorder samples, \<open>internal/blackbox/sampler*.go\<close>.  The file system is a pair of functions:
  \<open>rd\<close> for \<open>os.ReadFile\<close> (also of the files a scanner reads) and \<open>ls\<close> for the names \<open>os.ReadDir\<close> lists.  The
  parsed values of the \<open>procfs\<close> package (\<open>/proc/stat\<close>, \<open>/proc/meminfo\<close>, \<open>/proc/loadavg\<close>) are arguments.
  Arithmetic on \<open>float64\<close> is rational with a rounding function \<open>rnd\<close> after every operation; \<open>f32\<close> is the
  conversion to \<open>float32\<close> and \<open>pf32\<close> is \<open>strconv.ParseFloat\<close> for it.
\<close>

subsection \<open>Sources and state (sampler.go)\<close>

record cpuStat =
  cs_User :: rat
  cs_Nice :: rat
  cs_System :: rat
  cs_Idle :: rat
  cs_Iowait :: rat
  cs_IRQ :: rat
  cs_SoftIRQ :: rat
  cs_Steal :: rat

record procStat =
  ps_CPU :: "(int \<times> cpuStat) list"
  ps_ProcessesRunning :: "64 word"
  ps_ProcessesBlocked :: "64 word"

record meminfo =
  mi_MemTotal :: "64 word option"
  mi_MemAvailable :: "64 word option"
  mi_Cached :: "64 word option"
  mi_Dirty :: "64 word option"
  mi_Writeback :: "64 word option"
  mi_SwapTotal :: "64 word option"
  mi_SwapFree :: "64 word option"

record sources =
  so_rd :: "string \<Rightarrow> string option"
  so_ls :: "string \<Rightarrow> string list option"
  so_stat1 :: "procStat option"
  so_stat2 :: "procStat option"
  so_meminfo :: "meminfo option"
  so_loadavg :: "rat option"

record floats =
  fl_rnd :: "rat \<Rightarrow> rat"
  fl_f32 :: "rat \<Rightarrow> f32"
  fl_parse32 :: "string \<Rightarrow> f32 option"

record blockCounters =
  bk_ios :: "64 word"
  bk_weightedIOTicks :: "64 word"

record sampler =
  sa_ProcRoot :: string
  sa_SysRoot :: string
  sa_prevAt :: time
  sa_cpuIDs :: "int list"
  sa_prevCPU :: "(int \<times> cpuStat) list option"
  sa_prevThrottle :: "(int \<times> 64 word) list"
  sa_prevInterrupt :: "(int \<times> 64 word) list"
  sa_prevBlock :: "(string \<times> blockCounters) list"
  sa_prevEDACCe :: "64 word"
  sa_prevEDACUe :: "64 word"

definition NewSampler :: "string \<Rightarrow> string \<Rightarrow> sampler" where
  "NewSampler procRoot sysRoot =
     \<lparr>sa_ProcRoot = procRoot, sa_SysRoot = sysRoot, sa_prevAt = time_zero, sa_cpuIDs = [], sa_prevCPU = None,
      sa_prevThrottle = [], sa_prevInterrupt = [], sa_prevBlock = [], sa_prevEDACCe = 0, sa_prevEDACUe = 0\<rparr>"

definition deltaUint64 :: "64 word \<Rightarrow> 64 word \<Rightarrow> 64 word" where
  "deltaUint64 prev cur = (if cur < prev then 0 else cur - prev)"

subsection \<open>CPU (sampler_cpu.go)\<close>

definition cpuStatTotal :: "(rat \<Rightarrow> rat) \<Rightarrow> cpuStat \<Rightarrow> rat" where
  "cpuStatTotal rnd c =
     fold (\<lambda>x acc. rnd (acc + x)) [cs_Nice c, cs_System c, cs_Idle c, cs_Iowait c, cs_IRQ c, cs_SoftIRQ c, cs_Steal c]
       (cs_User c)"

definition cpuBusyRatio :: "(rat \<Rightarrow> rat) \<Rightarrow> cpuStat \<Rightarrow> cpuStat \<Rightarrow> rat option" where
  "cpuBusyRatio rnd prev cur =
     (let deltaTotal = rnd (cpuStatTotal rnd cur - cpuStatTotal rnd prev) in
      if deltaTotal \<le> 0 then None
      else
        let deltaIdle = rnd (rnd (cs_Idle cur + cs_Iowait cur) - rnd (cs_Idle prev + cs_Iowait prev));
            busy = rnd (deltaTotal - deltaIdle) in
        Some (rnd ((if busy < 0 then 0 else busy) / deltaTotal)))"

definition busy_cpu ::
  "floats \<Rightarrow> (int \<times> cpuStat) list \<Rightarrow> (int \<times> cpuStat) list \<Rightarrow> nat \<times> int \<Rightarrow> f32 list \<Rightarrow> f32 list" where
  "busy_cpu fl prevs curs p pct =
     (case p of (i, cpu) \<Rightarrow>
       (case (map_of prevs cpu, map_of curs cpu) of
          (Some prev, Some cur) \<Rightarrow>
            (case cpuBusyRatio (fl_rnd fl) prev cur of
               None \<Rightarrow> pct
             | Some ratio \<Rightarrow> pct[i := fl_f32 fl (fl_rnd fl (ratio * 100))])
        | _ \<Rightarrow> pct))"

definition sampleCPU :: "floats \<Rightarrow> procStat option \<Rightarrow> sampler \<times> sample \<Rightarrow> sampler \<times> sample" where
  "sampleCPU fl stat so =
     (case stat of
        None \<Rightarrow> so
      | Some st \<Rightarrow>
          (case so of (s, out) \<Rightarrow>
            let ids = take MaxCPUs (sort (map fst (ps_CPU st)));
                pct = (case sa_prevCPU s of
                         None \<Rightarrow> CPUBusyPct out
                       | Some prevs \<Rightarrow>
                           if is_zero_time (sa_prevAt s) then CPUBusyPct out
                           else fold (busy_cpu fl prevs (ps_CPU st)) (enumerate 0 ids) (CPUBusyPct out)) in
            (s\<lparr>sa_cpuIDs := ids, sa_prevCPU := Some (ps_CPU st)\<rparr>,
             out\<lparr>NumCPUs := of_nat (length ids), CPUBusyPct := pct\<rparr>)))"

subsection \<open>Frequencies, throttling, sensors and ECC (sampler_sysfs.go)\<close>

definition freq_throttle ::
  "(string \<Rightarrow> string option) \<Rightarrow> sampler \<Rightarrow> nat \<times> int \<Rightarrow> (int \<times> 64 word) list \<times> sample \<Rightarrow> (int \<times> 64 word) list \<times> sample" where
  "freq_throttle rd s p st =
     (case p of (i, cpu) \<Rightarrow> (case st of (curThrottle, out0) \<Rightarrow>
       let base = Join [sa_SysRoot s, ''devices'', ''system'', ''cpu'', ''cpu'' @ itoa_int cpu];
           out = (case readUintFile rd (Join [base, ''cpufreq'', ''scaling_cur_freq'']) of
                    None \<Rightarrow> out0
                  | Some khz \<Rightarrow> out0\<lparr>CPUFreqMHz := (CPUFreqMHz out0)[i := of_nat (khz div 1000)]\<rparr>) in
       (case readUintFile rd (Join [base, ''thermal_throttle'', ''core_throttle_count'']) of
          None \<Rightarrow> (curThrottle, out)
        | Some n \<Rightarrow>
            (AList.update cpu (of_nat n) curThrottle,
             (case map_of (sa_prevThrottle s) cpu of
                None \<Rightarrow> out
              | Some prev \<Rightarrow>
                  if prev < of_nat n then out\<lparr>ThrottledMask := ThrottledMask out OR push_bit i 1\<rparr> else out)))))"

definition sampleCPUFreqAndThrottle ::
  "(string \<Rightarrow> string option) \<Rightarrow> sampler \<times> sample \<Rightarrow> sampler \<times> sample" where
  "sampleCPUFreqAndThrottle rd so =
     (case so of (s, out) \<Rightarrow>
       if sa_cpuIDs s = [] then (s, out)
       else
         (case fold (freq_throttle rd s) (enumerate 0 (sa_cpuIDs s)) ([], out) of
            (curThrottle, out') \<Rightarrow> (s\<lparr>sa_prevThrottle := curThrottle\<rparr>, out')))"

definition read_sensor ::
  "(string \<Rightarrow> string option) \<Rightarrow> string \<Rightarrow> string \<Rightarrow> nat \<times> 32 word list \<Rightarrow> nat \<times> 32 word list" where
  "read_sensor rd devicePath input st =
     (case st of (n, temps) \<Rightarrow>
       if MaxSensors \<le> n then (n, temps)
       else
         (case readIntFile rd (Join [devicePath, input]) of
            None \<Rightarrow> (n, temps)
          | Some milliC \<Rightarrow> (n + 1, temps[n := of_int milliC])))"

definition read_hwmon ::
  "(string \<Rightarrow> string option) \<Rightarrow> (string \<Rightarrow> string list option) \<Rightarrow> string \<Rightarrow> string \<Rightarrow> nat \<times> 32 word list \<Rightarrow> nat \<times> 32 word list" where
  "read_hwmon rd ls hwmonRoot dir st =
     (if MaxSensors \<le> fst st then st
      else
        let devicePath = Join [hwmonRoot, dir] in
        (case ls devicePath of
           None \<Rightarrow> st
         | Some files \<Rightarrow>
             fold (read_sensor rd devicePath)
               (sort (filter (\<lambda>f. has_prefix f ''temp'' \<and> has_suffix f ''_input'') files)) st))"

definition sampleSensors ::
  "(string \<Rightarrow> string option) \<Rightarrow> (string \<Rightarrow> string list option) \<Rightarrow> sampler \<times> sample \<Rightarrow> sampler \<times> sample" where
  "sampleSensors rd ls so =
     (case so of (s, out) \<Rightarrow>
       let hwmonRoot = Join [sa_SysRoot s, ''class'', ''hwmon''] in
       (case ls hwmonRoot of
          None \<Rightarrow> (s, out)
        | Some entries \<Rightarrow>
            (case fold (read_hwmon rd ls hwmonRoot) (sort entries) (0, SensorTempMilliC out) of
               (n, temps) \<Rightarrow> (s, out\<lparr>SensorTempMilliC := temps, NumSensors := of_nat n\<rparr>))))"

definition read_mc ::
  "(string \<Rightarrow> string option) \<Rightarrow> string \<Rightarrow> string \<Rightarrow> 64 word \<times> 64 word \<times> bool \<Rightarrow> 64 word \<times> 64 word \<times> bool" where
  "read_mc rd mcRoot name st =
     (case st of (ce, ue, found) \<Rightarrow>
       if \<not> has_prefix name ''mc'' then st
       else
         let mcPath = Join [mcRoot, name];
             c = readUintFile rd (Join [mcPath, ''ce_count'']);
             u = readUintFile rd (Join [mcPath, ''ue_count'']) in
         (case c of None \<Rightarrow> ce | Some v \<Rightarrow> ce + of_nat v,
          case u of None \<Rightarrow> ue | Some v \<Rightarrow> ue + of_nat v,
          found \<or> c \<noteq> None \<or> u \<noteq> None))"

definition sampleEDAC ::
  "(string \<Rightarrow> string option) \<Rightarrow> (string \<Rightarrow> string list option) \<Rightarrow> sampler \<times> sample \<Rightarrow> sampler \<times> sample" where
  "sampleEDAC rd ls so =
     (case so of (s, out) \<Rightarrow>
       let mcRoot = Join [sa_SysRoot s, ''devices'', ''system'', ''edac'', ''mc''] in
       (case ls mcRoot of
          None \<Rightarrow> (s, out)
        | Some entries \<Rightarrow>
            (case fold (read_mc rd mcRoot) entries (0, 0, False) of
               (ce, ue, found) \<Rightarrow>
                 if \<not> found then (s, out)
                 else
                   (s\<lparr>sa_prevEDACCe := ce, sa_prevEDACUe := ue\<rparr>,
                    if is_zero_time (sa_prevAt s) then out
                    else out\<lparr>EDACCorrectableDelta := deltaUint64 (sa_prevEDACCe s) ce,
                             EDACUncorrectableDelta := deltaUint64 (sa_prevEDACUe s) ue\<rparr>))))"

subsection \<open>Memory, load, interrupts and pressure (sampler_proc.go)\<close>

definition or_zero :: "64 word option \<Rightarrow> 64 word \<Rightarrow> 64 word" where
  "or_zero v old = (case v of None \<Rightarrow> old | Some x \<Rightarrow> x)"

definition sampleMemory :: "meminfo option \<Rightarrow> sampler \<times> sample \<Rightarrow> sampler \<times> sample" where
  "sampleMemory info so =
     (case info of
        None \<Rightarrow> so
      | Some mi \<Rightarrow>
          (case so of (s, out) \<Rightarrow>
            (s, out\<lparr>MemTotalKB := or_zero (mi_MemTotal mi) (MemTotalKB out),
                    MemAvailableKB := or_zero (mi_MemAvailable mi) (MemAvailableKB out),
                    MemCachedKB := or_zero (mi_Cached mi) (MemCachedKB out),
                    MemDirtyKB := or_zero (mi_Dirty mi) (MemDirtyKB out),
                    MemWritebackKB := or_zero (mi_Writeback mi) (MemWritebackKB out),
                    MemSwapUsedKB :=
                      (case (mi_SwapTotal mi, mi_SwapFree mi) of
                         (Some t, Some f) \<Rightarrow> if f \<le> t then t - f else MemSwapUsedKB out
                       | _ \<Rightarrow> MemSwapUsedKB out)\<rparr>)))"

definition sampleLoadAndProcs ::
  "floats \<Rightarrow> rat option \<Rightarrow> procStat option \<Rightarrow> sampler \<times> sample \<Rightarrow> sampler \<times> sample" where
  "sampleLoadAndProcs fl load stat so =
     (case so of (s, out0) \<Rightarrow>
       let out = (case load of None \<Rightarrow> out0 | Some l \<Rightarrow> out0\<lparr>LoadAvg1 := fl_f32 fl l\<rparr>) in
       (s, case stat of
             None \<Rightarrow> out
           | Some st \<Rightarrow> out\<lparr>ProcsRunnable := ucast (ps_ProcessesRunning st), ProcsBlockedD := ucast (ps_ProcessesBlocked st)\<rparr>))"

text \<open>One line of \<open>/proc/interrupts\<close> added to the totals.\<close>

definition add_irq_line :: "string \<Rightarrow> 64 word list \<Rightarrow> 64 word list" where
  "add_irq_line line totals =
     (let fields = Fields line in
      if length fields < 2 then totals
      else
        map (\<lambda>i. if i + 1 < length fields
                 then (case ParseUint 64 (fields ! (i + 1)) of None \<Rightarrow> totals ! i | Some v \<Rightarrow> totals ! i + of_nat v)
                 else totals ! i) [0..<length totals])"

definition parseInterruptTotals :: "string \<Rightarrow> nat \<Rightarrow> 64 word list option" where
  "parseInterruptTotals content numCPUs =
     (case scan_lines content of
        [] \<Rightarrow> None
      | headerLine # rest \<Rightarrow>
          let n0 = length (Fields headerLine);
              n = (if 0 < numCPUs \<and> numCPUs < n0 then numCPUs else n0) in
          Some (fold add_irq_line rest (replicate n 0)))"

definition irq_cpu ::
  "sampler \<Rightarrow> (nat \<times> int) \<times> 64 word \<Rightarrow> (int \<times> 64 word) list \<times> 64 word list \<Rightarrow> (int \<times> 64 word) list \<times> 64 word list" where
  "irq_cpu s p st =
     (case p of ((i, cpu), tot) \<Rightarrow> (case st of (cur, irqs) \<Rightarrow>
       (AList.update cpu tot cur,
        case map_of (sa_prevInterrupt s) cpu of
          None \<Rightarrow> irqs
        | Some prev \<Rightarrow> if is_zero_time (sa_prevAt s) then irqs else irqs[i := deltaUint64 prev tot])))"

definition sampleInterrupts :: "(string \<Rightarrow> string option) \<Rightarrow> sampler \<times> sample \<Rightarrow> sampler \<times> sample" where
  "sampleInterrupts rd so =
     (case so of (s, out) \<Rightarrow>
       (case rd (Join [sa_ProcRoot s, ''interrupts'']) of
          None \<Rightarrow> (s, out)
        | Some content \<Rightarrow>
            (case parseInterruptTotals content (length (sa_cpuIDs s)) of
               None \<Rightarrow> (s, out)
             | Some totals \<Rightarrow>
                 (case fold (irq_cpu s) (zip (enumerate 0 (sa_cpuIDs s)) totals) ([], InterruptsPerCPU out) of
                    (cur, irqs) \<Rightarrow> (s\<lparr>sa_prevInterrupt := cur\<rparr>, out\<lparr>InterruptsPerCPU := irqs\<rparr>)))))"

fun psi_lines :: "floats \<Rightarrow> string \<Rightarrow> string list \<Rightarrow> f32 option" where
  "psi_lines fl line [] = None"
| "psi_lines fl line (l # ls) =
     (case Fields l of
        [] \<Rightarrow> psi_lines fl line ls
      | f # fs \<Rightarrow>
          if f \<noteq> line then psi_lines fl line ls
          else
            (case List.find (\<lambda>x. has_prefix x ''avg10='') fs of
               None \<Rightarrow> psi_lines fl line ls
             | Some x \<Rightarrow> fl_parse32 fl (drop 6 x)))"

definition readPSIAvg10 :: "floats \<Rightarrow> (string \<Rightarrow> string option) \<Rightarrow> string \<Rightarrow> string \<Rightarrow> f32 option" where
  "readPSIAvg10 fl rd path line =
     (case rd path of None \<Rightarrow> None | Some raw \<Rightarrow> psi_lines fl line (split_on nl raw))"

definition or_f32 :: "f32 option \<Rightarrow> f32 \<Rightarrow> f32" where
  "or_f32 v old = (case v of None \<Rightarrow> old | Some x \<Rightarrow> x)"

definition samplePSI :: "floats \<Rightarrow> (string \<Rightarrow> string option) \<Rightarrow> sampler \<times> sample \<Rightarrow> sampler \<times> sample" where
  "samplePSI fl rd so =
     (case so of (s, out) \<Rightarrow>
       let psi = (\<lambda>res line. readPSIAvg10 fl rd (Join [sa_ProcRoot s, ''pressure'', res]) line) in
       (s, out\<lparr>PSICPUSome10 := or_f32 (psi ''cpu'' ''some'') (PSICPUSome10 out),
               PSIMemSome10 := or_f32 (psi ''memory'' ''some'') (PSIMemSome10 out),
               PSIMemFull10 := or_f32 (psi ''memory'' ''full'') (PSIMemFull10 out),
               PSIIOSome10 := or_f32 (psi ''io'' ''some'') (PSIIOSome10 out),
               PSIIOFull10 := or_f32 (psi ''io'' ''full'') (PSIIOFull10 out)\<rparr>))"

subsection \<open>Block devices (sampler_block.go)\<close>

record block_row =
  br_name :: string
  br_inProgress :: "32 word"
  br_ios :: "64 word"
  br_ticks :: "64 word"

definition virtualBlockPrefixes :: "string list" where
  "virtualBlockPrefixes = [''loop'', ''ram'', ''sr'', ''dm-'', ''md'', ''zram'']"

definition isVirtualBlockDevice :: "string \<Rightarrow> bool" where
  "isVirtualBlockDevice name \<longleftrightarrow> list_ex (has_prefix name) virtualBlockPrefixes"

definition block_line :: "string \<Rightarrow> block_row option" where
  "block_line line =
     (let fields = Fields line in
      if length fields < 14 then None
      else if isVirtualBlockDevice (fields ! 2) then None
      else
        (case (ParseUint 64 (fields ! 3), ParseUint 64 (fields ! 7), ParseUint 32 (fields ! 11), ParseUint 64 (fields ! 13)) of
           (Some rdIOs, Some wrIOs, Some inProgress, Some ticks) \<Rightarrow>
             Some \<lparr>br_name = fields ! 2, br_inProgress = of_nat inProgress, br_ios = of_nat rdIOs + of_nat wrIOs,
                   br_ticks = of_nat ticks\<rparr>
         | _ \<Rightarrow> None))"

definition block_dev ::
  "sampler \<Rightarrow> nat \<times> block_row \<Rightarrow> (string \<times> blockCounters) list \<times> sample \<Rightarrow> (string \<times> blockCounters) list \<times> sample" where
  "block_dev s p st =
     (case p of (n, r) \<Rightarrow> (case st of (cur, out0) \<Rightarrow>
       let out = out0\<lparr>BlockQueueDepth := (BlockQueueDepth out0)[n := br_inProgress r]\<rparr> in
       (AList.update (br_name r) \<lparr>bk_ios = br_ios r, bk_weightedIOTicks = br_ticks r\<rparr> cur,
        case map_of (sa_prevBlock s) (br_name r) of
          None \<Rightarrow> out
        | Some prev \<Rightarrow>
            if is_zero_time (sa_prevAt s) then out
            else
              let deltaIOs = deltaUint64 (bk_ios prev) (br_ios r);
                  deltaTicks = deltaUint64 (bk_weightedIOTicks prev) (br_ticks r) in
              if 0 < deltaIOs then out\<lparr>BlockLatencyUs := (BlockLatencyUs out)[n := ucast (deltaTicks * 1000 div deltaIOs)]\<rparr>
              else out)))"

definition sampleBlockDevices :: "(string \<Rightarrow> string option) \<Rightarrow> sampler \<times> sample \<Rightarrow> sampler \<times> sample" where
  "sampleBlockDevices rd so =
     (case so of (s, out) \<Rightarrow>
       (case rd (Join [sa_ProcRoot s, ''diskstats'']) of
          None \<Rightarrow> (s, out)
        | Some content \<Rightarrow>
            let rows = take MaxBlockDevices (sort_key br_name (List.map_filter block_line (scan_lines content))) in
            (case fold (block_dev s) (enumerate 0 rows) ([], out) of
               (cur, out') \<Rightarrow> (s\<lparr>sa_prevBlock := cur\<rparr>, out'\<lparr>NumBlockDevices := of_nat (length rows)\<rparr>))))"

subsection \<open>One sample (sampler.go)\<close>

definition Sample :: "floats \<Rightarrow> sources \<Rightarrow> time \<Rightarrow> sampler \<Rightarrow> sample \<times> sampler" where
  "Sample fl src now s0 =
     (let so0 = (s0, zero_sample\<lparr>TimestampUnixMilli := of_int (unix_milli now)\<rparr>);
          so1 = sampleCPU fl (so_stat1 src) so0;
          so2 = sampleCPUFreqAndThrottle (so_rd src) so1;
          so3 = sampleSensors (so_rd src) (so_ls src) so2;
          so4 = sampleMemory (so_meminfo src) so3;
          so5 = sampleLoadAndProcs fl (so_loadavg src) (so_stat2 src) so4;
          so6 = sampleInterrupts (so_rd src) so5;
          so7 = samplePSI fl (so_rd src) so6;
          so8 = sampleBlockDevices (so_rd src) so7;
          so9 = sampleEDAC (so_rd src) (so_ls src) so8 in
      (snd so9, (fst so9)\<lparr>sa_prevAt := now\<rparr>))"

subsection \<open>The shape of a sample\<close>

definition zero_from :: "nat \<Rightarrow> 'a::len word list \<Rightarrow> bool" where
  "zero_from n xs \<longleftrightarrow> list_all (\<lambda>x. x = 0) (drop n xs)"

lemma zero_from_update: "i < n \<Longrightarrow> zero_from n xs \<Longrightarrow> zero_from n (xs[i := v])"
  by (simp add: zero_from_def drop_update_cancel)

lemma zero_from_replicate [simp]: "zero_from n (replicate k 0)"
  by (simp add: zero_from_def list_all_iff)

lemma zero_from_Suc: "zero_from n xs \<Longrightarrow> zero_from (Suc n) (xs[n := v])"
  by (auto simp: zero_from_def list_all_iff drop_update_cancel dest: in_set_dropD) (metis Suc_n_not_le_n drop_Suc in_set_dropD drop_tl list.set_sel(2) tl_drop tl_Nil)

text \<open>
  The arrays have their lengths; beyond the \<open>n\<close> CPUs, the sensors and the block devices that are there they
  are zero, and the counts are within the arrays.
\<close>

definition shaped :: "nat \<Rightarrow> sample \<Rightarrow> bool" where
  "shaped n out \<longleftrightarrow>
     sample_ok out \<and> n \<le> MaxCPUs \<and> (NumCPUs out = 0 \<or> unat (NumCPUs out) = n) \<and>
     zero_from n (CPUBusyPct out) \<and> zero_from n (CPUFreqMHz out) \<and> zero_from n (InterruptsPerCPU out) \<and>
     (\<forall>i. n \<le> i \<longrightarrow> \<not> bit (ThrottledMask out) i) \<and>
     unat (NumSensors out) \<le> MaxSensors \<and> zero_from (unat (NumSensors out)) (SensorTempMilliC out) \<and>
     unat (NumBlockDevices out) \<le> MaxBlockDevices \<and> zero_from (unat (NumBlockDevices out)) (BlockQueueDepth out) \<and>
     zero_from (unat (NumBlockDevices out)) (BlockLatencyUs out)"

lemma shaped_zero: "n \<le> MaxCPUs \<Longrightarrow> shaped n (zero_sample\<lparr>TimestampUnixMilli := t\<rparr>)"
  by (simp add: shaped_def sample_ok_def zero_sample_def)

lemma unat_small16: "n \<le> 64 \<Longrightarrow> unat (of_nat n :: 16 word) = n"
  by (simp add: unat_of_nat)

lemma enumerate_index: "p \<in> set (enumerate 0 xs) \<Longrightarrow> fst p < length xs"
  by (cases p) (auto simp: enumerate_eq_zip dest: set_zip_leftD)

lemma fold_enumerate:
  assumes "\<And>i (x :: 'a) st. i < length xs \<Longrightarrow> P st \<Longrightarrow> P (f (i, x) st)" "P st"
  shows "P (fold f (enumerate 0 xs) st)"
proof (rule fold_invariant [where Q = "\<lambda>p. fst p < length xs"])
  fix p :: "nat \<times> 'a" and st assume "fst p < length xs" "P st"
  then show "P (f p st)" using assms(1) [of "fst p" st "snd p"] by simp
qed (use assms(2) enumerate_index in auto)

lemma sampleCPU_shaped:
  assumes "length (sa_cpuIDs s) \<le> MaxCPUs"
  shows "case sampleCPU fl stat (s, zero_sample\<lparr>TimestampUnixMilli := t\<rparr>) of (s', out) \<Rightarrow> shaped (length (sa_cpuIDs s')) out"
proof (cases stat)
  case None
  then show ?thesis using shaped_zero [OF assms] by (simp add: sampleCPU_def)
next
  case (Some st)
  let ?ids = "take MaxCPUs (sort (map fst (ps_CPU st)))"
  let ?n = "length ?ids"
  have n: "?n \<le> MaxCPUs" by simp
  then have u: "unat (of_nat ?n :: 16 word) = ?n" by (simp add: unat_small16 MaxCPUs_def)
  have "zero_from ?n pct \<and> length pct = MaxCPUs"
    if pct: "pct = fold (busy_cpu fl prevs (ps_CPU st)) (enumerate 0 ?ids) (replicate MaxCPUs 0)" for prevs pct
    unfolding pct
  proof (rule fold_enumerate)
    fix i cpu and xs :: "f32 list" assume "i < ?n" "zero_from ?n xs \<and> length xs = MaxCPUs"
    then show "zero_from ?n (busy_cpu fl prevs (ps_CPU st) (i, cpu) xs) \<and>
        length (busy_cpu fl prevs (ps_CPU st) (i, cpu) xs) = MaxCPUs"
      by (auto simp: busy_cpu_def split: option.splits intro: zero_from_update)
  qed simp
  moreover have "shaped ?n (zero_sample\<lparr>TimestampUnixMilli := t, NumCPUs := of_nat ?n, CPUBusyPct := pct\<rparr>)"
    if "zero_from ?n pct \<and> length pct = MaxCPUs" for pct
    using that u n by (simp add: shaped_def sample_ok_def zero_sample_def)
  ultimately show ?thesis
    using Some by (auto simp: sampleCPU_def Let_def zero_sample_def split: option.splits)
qed

lemma bit_mask_or:
  "(\<forall>j. n \<le> j \<longrightarrow> \<not> bit (m :: 64 word) j) \<Longrightarrow> i < n \<Longrightarrow> \<forall>j. n \<le> j \<longrightarrow> \<not> bit (m OR push_bit i 1) j"
  by (auto simp: bit_or_iff bit_exp_iff push_bit_eq_mult)

lemma freq_throttle_shaped:
  assumes "shaped n (snd st)" "i < n"
  shows "shaped n (snd (freq_throttle rd s (i, cpu) st))"
  using assms bit_mask_or [of n "ThrottledMask (snd st)" i]
  by (auto simp: freq_throttle_def Let_def shaped_def sample_ok_def split: prod.splits option.splits intro: zero_from_update)

lemma sampleCPUFreqAndThrottle_shaped:
  assumes "shaped (length (sa_cpuIDs s)) out"
  shows "case sampleCPUFreqAndThrottle rd (s, out) of (s', out') \<Rightarrow>
    sa_cpuIDs s' = sa_cpuIDs s \<and> shaped (length (sa_cpuIDs s)) out'"
proof -
  let ?n = "length (sa_cpuIDs s)"
  have "shaped ?n (snd (fold (freq_throttle rd s) (enumerate 0 (sa_cpuIDs s)) ([], out)))"
    by (rule fold_enumerate [where P = "\<lambda>st. shaped ?n (snd st)"])
      (use assms freq_throttle_shaped in \<open>auto simp: split_paired_all\<close>)
  then show ?thesis using assms by (auto simp: sampleCPUFreqAndThrottle_def split: prod.splits)
qed

definition temps_ok :: "nat \<times> 32 word list \<Rightarrow> bool" where
  "temps_ok st \<longleftrightarrow> fst st \<le> MaxSensors \<and> length (snd st) = MaxSensors \<and> zero_from (fst st) (snd st)"

lemma read_sensor_ok: "temps_ok st \<Longrightarrow> temps_ok (read_sensor rd dev f st)"
  by (auto simp: read_sensor_def temps_ok_def zero_from_Suc split: prod.splits option.splits)

lemma read_hwmon_ok: "temps_ok st \<Longrightarrow> temps_ok (read_hwmon rd ls r dir st)"
  by (auto simp: read_hwmon_def Let_def split: option.splits
      intro: fold_invariant [where Q = "\<lambda>_. True" and P = temps_ok] read_sensor_ok)

lemma sampleSensors_shaped:
  assumes "shaped n out" "SensorTempMilliC out = replicate MaxSensors 0"
  shows "case sampleSensors rd ls (s, out) of (s', out') \<Rightarrow> s' = s \<and> shaped n out'"
proof -
  let ?root = "Join [sa_SysRoot s, ''class'', ''hwmon'']"
  have t: "temps_ok (fold (read_hwmon rd ls ?root) (sort es) (0, SensorTempMilliC out))" for es
    by (rule fold_invariant [where Q = "\<lambda>_. True" and P = temps_ok])
      (use assms(2) read_hwmon_ok in \<open>auto simp: temps_ok_def\<close>)
  show ?thesis
  proof (cases "ls ?root")
    case (Some es)
    obtain k temps where f: "fold (read_hwmon rd ls ?root) (sort es) (0, SensorTempMilliC out) = (k, temps)" by fastforce
    have k: "k \<le> MaxSensors" "length temps = MaxSensors" "zero_from k temps" using t [of es] f by (simp_all add: temps_ok_def)
    then have "unat (of_nat k :: 16 word) = k" using unat_small16 [of k] by (simp add: MaxSensors_def)
    then show ?thesis using Some f k assms(1) by (simp add: sampleSensors_def Let_def shaped_def sample_ok_def)
  qed (use assms in \<open>simp add: sampleSensors_def\<close>)
qed

lemma sampleInterrupts_shaped:
  assumes "shaped (length (sa_cpuIDs s)) out"
  shows "case sampleInterrupts rd (s, out) of (s', out') \<Rightarrow>
    sa_cpuIDs s' = sa_cpuIDs s \<and> shaped (length (sa_cpuIDs s)) out'"
proof -
  let ?n = "length (sa_cpuIDs s)"
  define P where "P st \<longleftrightarrow> zero_from ?n (snd st) \<and> length (snd st) = MaxCPUs" for st :: "(int \<times> 64 word) list \<times> 64 word list"
  have "P (fold (irq_cpu s) (zip (enumerate 0 (sa_cpuIDs s)) totals) ([], InterruptsPerCPU out))" for totals
  proof (rule fold_invariant [where Q = "\<lambda>p. fst (fst p) < ?n"])
    fix p :: "(nat \<times> int) \<times> 64 word" and st assume "fst (fst p) < ?n" "P st"
    then show "P (irq_cpu s p st)"
      by (auto simp: irq_cpu_def P_def split: prod.splits option.splits intro: zero_from_update)
  next
    fix p assume "p \<in> set (zip (enumerate 0 (sa_cpuIDs s)) totals)"
    then show "fst (fst p) < ?n" using enumerate_index [of "fst p" "sa_cpuIDs s"] set_zip_leftD by (metis prod.collapse)
  qed (use assms in \<open>simp add: P_def shaped_def sample_ok_def\<close>)
  then show ?thesis
    using assms
    by (auto simp: sampleInterrupts_def P_def shaped_def sample_ok_def split: option.splits prod.splits) (metis snd_conv)+
qed

lemma block_fold:
  assumes "length rows \<le> MaxBlockDevices"
    and "BlockQueueDepth out = replicate MaxBlockDevices 0" "BlockLatencyUs out = replicate MaxBlockDevices 0"
  shows "\<exists>q l. snd (fold (block_dev s) (enumerate 0 rows) ([], out)) = out\<lparr>BlockQueueDepth := q, BlockLatencyUs := l\<rparr> \<and>
    length q = MaxBlockDevices \<and> length l = MaxBlockDevices \<and> zero_from (length rows) q \<and> zero_from (length rows) l"
proof (rule fold_enumerate [where P = "\<lambda>st. \<exists>q l. snd st = out\<lparr>BlockQueueDepth := q, BlockLatencyUs := l\<rparr> \<and>
    length q = MaxBlockDevices \<and> length l = MaxBlockDevices \<and> zero_from (length rows) q \<and> zero_from (length rows) l"])
  fix i r and st :: "(string \<times> blockCounters) list \<times> sample"
  assume i: "i < length rows" and "\<exists>q l. snd st = out\<lparr>BlockQueueDepth := q, BlockLatencyUs := l\<rparr> \<and>
    length q = MaxBlockDevices \<and> length l = MaxBlockDevices \<and> zero_from (length rows) q \<and> zero_from (length rows) l"
  then obtain cur q l where st: "st = (cur, out\<lparr>BlockQueueDepth := q, BlockLatencyUs := l\<rparr>)"
    and z: "length q = MaxBlockDevices" "length l = MaxBlockDevices" "zero_from (length rows) q" "zero_from (length rows) l"
    by (metis prod.collapse)
  have "\<exists>l'. snd (block_dev s (i, r) st) = out\<lparr>BlockQueueDepth := q[i := br_inProgress r], BlockLatencyUs := l'\<rparr> \<and>
      (l' = l \<or> (\<exists>v. l' = l[i := v]))"
    by (cases out) (auto simp: block_dev_def st Let_def split: option.splits)
  then obtain l' where l': "snd (block_dev s (i, r) st) = out\<lparr>BlockQueueDepth := q[i := br_inProgress r], BlockLatencyUs := l'\<rparr>"
    "l' = l \<or> (\<exists>v. l' = l[i := v])" by blast
  have "length l' = MaxBlockDevices \<and> zero_from (length rows) l'" using l'(2) z i by (auto intro: zero_from_update)
  then show "\<exists>q l. snd (block_dev s (i, r) st) = out\<lparr>BlockQueueDepth := q, BlockLatencyUs := l\<rparr> \<and>
      length q = MaxBlockDevices \<and> length l = MaxBlockDevices \<and> zero_from (length rows) q \<and> zero_from (length rows) l"
    using l'(1) z(1) zero_from_update [OF i z(3)] by (metis length_list_update)
qed (use assms in \<open>auto intro!: exI [of _ "replicate MaxBlockDevices 0"]\<close>)

lemma sampleBlockDevices_shaped:
  assumes "shaped n out" "BlockQueueDepth out = replicate MaxBlockDevices 0" "BlockLatencyUs out = replicate MaxBlockDevices 0"
  shows "case sampleBlockDevices rd (s, out) of (s', out') \<Rightarrow> sa_cpuIDs s' = sa_cpuIDs s \<and> shaped n out'"
proof (cases "rd (Join [sa_ProcRoot s, ''diskstats''])")
  case (Some content)
  let ?rows = "take MaxBlockDevices (sort_key br_name (List.map_filter block_line (scan_lines content)))"
  obtain q l where q: "snd (fold (block_dev s) (enumerate 0 ?rows) ([], out)) = out\<lparr>BlockQueueDepth := q, BlockLatencyUs := l\<rparr>"
    "length q = MaxBlockDevices" "length l = MaxBlockDevices" "zero_from (length ?rows) q" "zero_from (length ?rows) l"
    using block_fold [of ?rows out s] assms(2,3) by auto
  obtain cur where c: "fold (block_dev s) (enumerate 0 ?rows) ([], out) = (cur, out\<lparr>BlockQueueDepth := q, BlockLatencyUs := l\<rparr>)"
    using q(1) by (metis prod.collapse)
  have "unat (of_nat (length ?rows) :: 16 word) = length ?rows" "length ?rows \<le> MaxBlockDevices"
    using unat_small16 [of "length ?rows"] by (simp_all add: MaxBlockDevices_def)
  then show ?thesis
    using Some c q assms(1) by (simp add: sampleBlockDevices_def Let_def shaped_def sample_ok_def)
qed (use assms in \<open>simp add: sampleBlockDevices_def\<close>)

text \<open>The remaining steps change none of the fields the shape is about.\<close>

lemma plain_steps_shaped:
  assumes "shaped n out"
  shows "fst (sampleMemory info (s, out)) = s" "shaped n (snd (sampleMemory info (s, out)))"
    "fst (sampleLoadAndProcs fl load stat (s, out)) = s" "shaped n (snd (sampleLoadAndProcs fl load stat (s, out)))"
    "fst (samplePSI fl rd (s, out)) = s" "shaped n (snd (samplePSI fl rd (s, out)))"
    "sa_cpuIDs (fst (sampleEDAC rd ls (s, out))) = sa_cpuIDs s" "shaped n (snd (sampleEDAC rd ls (s, out)))"
  using assms
  by (auto simp: sampleMemory_def sampleLoadAndProcs_def samplePSI_def sampleEDAC_def Let_def shaped_def sample_ok_def
      split: option.splits prod.splits)

lemma untouched_arrays:
  "case sampleCPU fl stat (s, out) of (_, out') \<Rightarrow> SensorTempMilliC out' = SensorTempMilliC out \<and>
     BlockQueueDepth out' = BlockQueueDepth out \<and> BlockLatencyUs out' = BlockLatencyUs out"
  "case sampleSensors rd ls (s, out) of (_, out') \<Rightarrow> BlockQueueDepth out' = BlockQueueDepth out \<and> BlockLatencyUs out' = BlockLatencyUs out"
  "case sampleInterrupts rd (s, out) of (_, out') \<Rightarrow> BlockQueueDepth out' = BlockQueueDepth out \<and> BlockLatencyUs out' = BlockLatencyUs out"
  "case sampleMemory info (s, out) of (_, out') \<Rightarrow> BlockQueueDepth out' = BlockQueueDepth out \<and> BlockLatencyUs out' = BlockLatencyUs out"
  "case sampleLoadAndProcs fl load stat (s, out) of (_, out') \<Rightarrow> BlockQueueDepth out' = BlockQueueDepth out \<and> BlockLatencyUs out' = BlockLatencyUs out"
  "case samplePSI fl rd (s, out) of (_, out') \<Rightarrow> BlockQueueDepth out' = BlockQueueDepth out \<and> BlockLatencyUs out' = BlockLatencyUs out"
  by (simp_all add: sampleCPU_def sampleSensors_def sampleInterrupts_def sampleMemory_def sampleLoadAndProcs_def samplePSI_def
      Let_def split: option.splits prod.splits)

lemma freq_untouched:
  "case sampleCPUFreqAndThrottle rd (s, out) of (_, out') \<Rightarrow> SensorTempMilliC out' = SensorTempMilliC out \<and>
     BlockQueueDepth out' = BlockQueueDepth out \<and> BlockLatencyUs out' = BlockLatencyUs out"
proof -
  have "SensorTempMilliC (snd (fold (freq_throttle rd s) ps st)) = SensorTempMilliC (snd st) \<and>
      BlockQueueDepth (snd (fold (freq_throttle rd s) ps st)) = BlockQueueDepth (snd st) \<and>
      BlockLatencyUs (snd (fold (freq_throttle rd s) ps st)) = BlockLatencyUs (snd st)" for ps st
  proof (induction ps arbitrary: st)
    case (Cons p ps)
    have "SensorTempMilliC (snd (freq_throttle rd s p st)) = SensorTempMilliC (snd st) \<and>
      BlockQueueDepth (snd (freq_throttle rd s p st)) = BlockQueueDepth (snd st) \<and>
      BlockLatencyUs (snd (freq_throttle rd s p st)) = BlockLatencyUs (snd st)"
      by (simp add: freq_throttle_def Let_def split: prod.splits option.splits)
    with Cons show ?case by simp
  qed simp
  from this [of "enumerate 0 (sa_cpuIDs s)" "([], out)"] show ?thesis
    by (auto simp: sampleCPUFreqAndThrottle_def split: prod.splits)
qed

lemma Sample_shaped:
  assumes "length (sa_cpuIDs s) \<le> MaxCPUs"
  shows "case Sample fl src now s of (out, s') \<Rightarrow> shaped (length (sa_cpuIDs s')) out"
proof -
  let ?rd = "so_rd src" and ?ls = "so_ls src"
  obtain s1 o1 where 1: "sampleCPU fl (so_stat1 src) (s, zero_sample\<lparr>TimestampUnixMilli := of_int (unix_milli now)\<rparr>) = (s1, o1)" by fastforce
  obtain s2 o2 where 2: "sampleCPUFreqAndThrottle ?rd (s1, o1) = (s2, o2)" by fastforce
  obtain s3 o3 where 3: "sampleSensors ?rd ?ls (s2, o2) = (s3, o3)" by fastforce
  obtain s4 o4 where 4: "sampleMemory (so_meminfo src) (s3, o3) = (s4, o4)" by fastforce
  obtain s5 o5 where 5: "sampleLoadAndProcs fl (so_loadavg src) (so_stat2 src) (s4, o4) = (s5, o5)" by fastforce
  obtain s6 o6 where 6: "sampleInterrupts ?rd (s5, o5) = (s6, o6)" by fastforce
  obtain s7 o7 where 7: "samplePSI fl ?rd (s6, o6) = (s7, o7)" by fastforce
  obtain s8 o8 where 8: "sampleBlockDevices ?rd (s7, o7) = (s8, o8)" by fastforce
  obtain s9 o9 where 9: "sampleEDAC ?rd ?ls (s8, o8) = (s9, o9)" by fastforce
  let ?n = "length (sa_cpuIDs s1)"
  note un = untouched_arrays(1) [of "zero_sample\<lparr>TimestampUnixMilli := of_int (unix_milli now)\<rparr>" fl "so_stat1 src" s, unfolded 1]
    freq_untouched [of o1 ?rd s1, unfolded 2]
    untouched_arrays(2) [of o2 ?rd ?ls s2, unfolded 3] untouched_arrays(4) [of o3 "so_meminfo src" s3, unfolded 4]
    untouched_arrays(5) [of o4 fl "so_loadavg src" "so_stat2 src" s4, unfolded 5]
    untouched_arrays(3) [of o5 ?rd s5, unfolded 6] untouched_arrays(6) [of o6 fl ?rd s6, unfolded 7]
  have z: "SensorTempMilliC o2 = replicate MaxSensors 0" "BlockQueueDepth o7 = replicate MaxBlockDevices 0"
      "BlockLatencyUs o7 = replicate MaxBlockDevices 0"
    using un by (simp_all add: zero_sample_def)
  have a1: "shaped ?n o1" using sampleCPU_shaped [OF assms, of fl "so_stat1 src" "of_int (unix_milli now)"] 1 by simp
  have a2: "sa_cpuIDs s2 = sa_cpuIDs s1" "shaped ?n o2" using sampleCPUFreqAndThrottle_shaped [OF a1, where rd = ?rd] 2 by simp_all
  have a3: "s3 = s2" "shaped ?n o3" using sampleSensors_shaped [OF a2(2) z(1), where rd = ?rd and ls = ?ls and s = s2] 3 by simp_all
  have a4: "s4 = s3" "shaped ?n o4" using plain_steps_shaped(1,2) [OF a3(2), of "so_meminfo src" s3] 4 by simp_all
  have a5: "s5 = s4" "shaped ?n o5"
    using plain_steps_shaped(3,4) [OF a4(2), of fl "so_loadavg src" "so_stat2 src" s4] 5 by simp_all
  have n5: "sa_cpuIDs s5 = sa_cpuIDs s1" using a2 a3 a4 a5 by simp
  have a6: "sa_cpuIDs s6 = sa_cpuIDs s1" "shaped ?n o6"
    using sampleInterrupts_shaped [where s = s5 and out = o5 and rd = ?rd] a5(2) n5 6 by simp_all
  have a7: "s7 = s6" "shaped ?n o7" using plain_steps_shaped(5,6) [OF a6(2), of fl ?rd s6] 7 by simp_all
  have a8: "sa_cpuIDs s8 = sa_cpuIDs s7" "shaped ?n o8"
    using sampleBlockDevices_shaped [OF a7(2) z(2,3), where rd = ?rd and s = s7] 8 by simp_all
  have a9: "sa_cpuIDs s9 = sa_cpuIDs s8" "shaped ?n o9"
    using plain_steps_shaped(7,8) [OF a8(2), of ?rd ?ls s8] 9 by simp_all
  have "Sample fl src now s = (o9, s9\<lparr>sa_prevAt := now\<rparr>)"
    unfolding Sample_def Let_def 1 2 3 4 5 6 7 8 9 by simp
  then show ?thesis using a9 a8 a7 a6 by simp
qed

subsection \<open>Claims\<close>

fun sample_run :: "floats \<Rightarrow> (sources \<times> time) list \<Rightarrow> sampler \<Rightarrow> (sample \<times> nat) list" where
  "sample_run fl [] s = []"
| "sample_run fl ((src, now) # rest) s =
     (case Sample fl src now s of (out, s') \<Rightarrow> (out, length (sa_cpuIDs s')) # sample_run fl rest s')"

text \<open>
  Every sample has the recorder's fixed shape.  Whatever the host's files contain, whichever of them are
  missing and however often it samples, a fresh sampler only produces samples whose arrays have the lengths
  of the record, whose counts are at most these lengths, and which are zero beyond the CPUs, sensors and
  devices found: no index is out of range, and the record always encodes to its fixed size.
\<close>

theorem samples_shaped:
  "list_all (\<lambda>(out, n). shaped n out \<and> length (encodeSample out) = sampleEncodedSize)
     (sample_run fl obs (NewSampler procRoot sysRoot))"
proof -
  have "length (sa_cpuIDs s) \<le> MaxCPUs \<Longrightarrow>
      list_all (\<lambda>(out, n). shaped n out \<and> length (encodeSample out) = sampleEncodedSize) (sample_run fl obs s)" for s
  proof (induction obs arbitrary: s)
    case (Cons ob obs)
    obtain src now where ob: "ob = (src, now)" by fastforce
    obtain out s' where S: "Sample fl src now s = (out, s')" by fastforce
    have sh: "shaped (length (sa_cpuIDs s')) out" using Sample_shaped [OF Cons.prems, of fl src now] S by simp
    then have "sample_ok out" "length (sa_cpuIDs s') \<le> MaxCPUs" by (simp_all add: shaped_def)
    then show ?case using Cons.IH [of s'] S ob sh by simp
  qed simp
  then show ?thesis by (simp add: NewSampler_def)
qed

text \<open>
  The busy ratio, in exact arithmetic.  There is one exactly when the total time grew; it is never
  negative; it is the share of the elapsed time that was neither idle nor waiting for I/O, unless that is
  negative; and it is at most 1, as the record's comment promises, exactly when the idle and I/O wait times
  did not go back.
\<close>

theorem busy_ratio_range:
  "(cpuBusyRatio (\<lambda>x. x) prev cur \<noteq> None \<longleftrightarrow> cpuStatTotal (\<lambda>x. x) prev < cpuStatTotal (\<lambda>x. x) cur) \<and>
   (\<forall>r. cpuBusyRatio (\<lambda>x. x) prev cur = Some r \<longrightarrow>
      r = max 0 (1 - ((cs_Idle cur + cs_Iowait cur) - (cs_Idle prev + cs_Iowait prev)) /
                     (cpuStatTotal (\<lambda>x. x) cur - cpuStatTotal (\<lambda>x. x) prev)) \<and>
      (r \<le> 1 \<longleftrightarrow> cs_Idle prev + cs_Iowait prev \<le> cs_Idle cur + cs_Iowait cur))"
proof -
  let ?T = "cpuStatTotal (\<lambda>x. x) cur - cpuStatTotal (\<lambda>x. x) prev"
  let ?I = "(cs_Idle cur + cs_Iowait cur) - (cs_Idle prev + cs_Iowait prev)"
  have r: "cpuBusyRatio (\<lambda>x. x) prev cur = (if ?T \<le> 0 then None else Some ((if ?T - ?I < 0 then 0 else ?T - ?I) / ?T))"
    by (simp add: cpuBusyRatio_def Let_def)
  show ?thesis
  proof (cases "?T \<le> 0")
    case True
    then show ?thesis unfolding r by simp
  next
    case False
    then have "(if ?T - ?I < 0 then 0 else ?T - ?I) / ?T = max 0 (1 - ?I / ?T)"
      by (simp add: max_def field_simps)
    moreover have "max 0 (1 - ?I / ?T) \<le> 1 \<longleftrightarrow> 0 \<le> ?I"
      using False by (simp add: zero_le_divide_iff)
    ultimately show ?thesis unfolding r using False by auto
  qed
qed

definition sample_cpu :: "rat \<Rightarrow> rat \<Rightarrow> rat \<Rightarrow> cpuStat" where
  "sample_cpu u i w = \<lparr>cs_User = u, cs_Nice = 0, cs_System = 0, cs_Idle = i, cs_Iowait = w, cs_IRQ = 0, cs_SoftIRQ = 0,
     cs_Steal = 0\<rparr>"

theorem busy_ratio_range_witness:
  "cpuBusyRatio (\<lambda>x. x) (sample_cpu 0 0 0) (sample_cpu 1 3 0) = Some (1 / 4) \<and>
   cpuBusyRatio (\<lambda>x. x) (sample_cpu 0 3 2) (sample_cpu 4 4 0) = Some (4 / 3)"
proof -
  have "cpuBusyRatio (\<lambda>x. x) (sample_cpu 0 0 0) (sample_cpu 1 3 0) \<noteq> None"
    "cpuBusyRatio (\<lambda>x. x) (sample_cpu 0 3 2) (sample_cpu 4 4 0) \<noteq> None"
    by (simp_all add: cpuBusyRatio_def cpuStatTotal_def sample_cpu_def)
  then show ?thesis
    using busy_ratio_range [of "sample_cpu 0 0 0" "sample_cpu 1 3 0"] busy_ratio_range [of "sample_cpu 0 3 2" "sample_cpu 4 4 0"]
    by (auto simp: cpuStatTotal_def sample_cpu_def)
qed

text \<open>Deltas of counters never wrap.\<close>

lemma deltaUint64_exact: "unat (deltaUint64 prev cur) = unat cur - unat prev"
  by (auto simp: deltaUint64_def word_less_nat_alt unat_sub_if')

subsection \<open>Throttling\<close>

definition throttle_count :: "(string \<Rightarrow> string option) \<Rightarrow> sampler \<Rightarrow> int \<Rightarrow> nat option" where
  "throttle_count rd s cpu = readUintFile rd (Join [Join [sa_SysRoot s, ''devices'', ''system'', ''cpu'', ''cpu'' @ itoa_int cpu],
     ''thermal_throttle'', ''core_throttle_count''])"

definition throttled :: "(string \<Rightarrow> string option) \<Rightarrow> sampler \<Rightarrow> int \<Rightarrow> bool" where
  "throttled rd s cpu \<longleftrightarrow>
     (\<exists>n prev. throttle_count rd s cpu = Some n \<and> map_of (sa_prevThrottle s) cpu = Some prev \<and> unat prev < n)"

lemma throttle_count_bound: "throttle_count rd s cpu = Some n \<Longrightarrow> unat (of_nat n :: 64 word) = n"
  by (auto simp: throttle_count_def readUintFile_def ParseUint_def unat_of_nat split: option.splits if_splits)

lemma freq_throttle_effect:
  "fst (freq_throttle rd s (i, cpu) st) =
     (case throttle_count rd s cpu of None \<Rightarrow> fst st | Some n \<Rightarrow> AList.update cpu (of_nat n) (fst st))"
  "ThrottledMask (snd (freq_throttle rd s (i, cpu) st)) =
     (if throttled rd s cpu then ThrottledMask (snd st) OR push_bit i 1 else ThrottledMask (snd st))"
  using throttle_count_bound [of rd s cpu]
  by (auto simp: freq_throttle_def Let_def throttle_count_def throttled_def word_less_nat_alt split: prod.splits option.splits)

lemma fold_throttle:
  "i < 64 \<Longrightarrow> k + length ids \<le> 64 \<Longrightarrow>
   bit (ThrottledMask (snd (fold (freq_throttle rd s) (enumerate k ids) st))) i \<longleftrightarrow>
     bit (ThrottledMask (snd st)) i \<or> (k \<le> i \<and> i < k + length ids \<and> throttled rd s (ids ! (i - k)))"
proof (induction ids arbitrary: k st)
  case (Cons cpu ids)
  have b: "bit (ThrottledMask (snd (freq_throttle rd s (k, cpu) st))) i \<longleftrightarrow>
      bit (ThrottledMask (snd st)) i \<or> (i = k \<and> throttled rd s cpu)"
    using Cons.prems(1) by (auto simp: freq_throttle_effect bit_or_iff bit_exp_iff push_bit_eq_mult)
  have "bit (ThrottledMask (snd (fold (freq_throttle rd s) (enumerate k (cpu # ids)) st))) i \<longleftrightarrow>
      (bit (ThrottledMask (snd st)) i \<or> (i = k \<and> throttled rd s cpu)) \<or>
      (Suc k \<le> i \<and> i < Suc k + length ids \<and> throttled rd s (ids ! (i - Suc k)))"
    using Cons.IH [of "Suc k" "freq_throttle rd s (k, cpu) st"] Cons.prems b by simp
  also have "\<dots> \<longleftrightarrow> bit (ThrottledMask (snd st)) i \<or>
      (k \<le> i \<and> i < k + length (cpu # ids) \<and> throttled rd s ((cpu # ids) ! (i - k)))"
    by (cases "i = k") (auto simp: nth_Cons' Suc_diff_Suc not_less_eq_eq)
  finally show ?case .
qed auto

text \<open>
  The throttle mask: bit \<open>i\<close> is set exactly when the throttle counter of the \<open>i\<close>-th listed CPU can be read,
  was read at the previous sample, and has grown since, for the up to 64 CPUs a sample holds.
\<close>

theorem throttle_mask_exact:
  assumes "length (sa_cpuIDs s) \<le> MaxCPUs" "ThrottledMask out = 0" "i < 64"
    and "sampleCPUFreqAndThrottle rd (s, out) = (s', out')"
  shows "bit (ThrottledMask out') i \<longleftrightarrow>
    i < length (sa_cpuIDs s) \<and>
    (\<exists>n prev. throttle_count rd s (sa_cpuIDs s ! i) = Some n \<and>
       map_of (sa_prevThrottle s) (sa_cpuIDs s ! i) = Some prev \<and> unat prev < n)"
proof (cases "sa_cpuIDs s = []")
  case True
  with assms show ?thesis by (simp add: sampleCPUFreqAndThrottle_def)
next
  case False
  then have "out' = snd (fold (freq_throttle rd s) (enumerate 0 (sa_cpuIDs s)) ([], out))"
    using assms(4) by (auto simp: sampleCPUFreqAndThrottle_def split: prod.splits)
  then show ?thesis
    using fold_throttle [OF assms(3), of 0 "sa_cpuIDs s" rd s "([], out)"] assms(1,2)
    by (simp add: throttled_def MaxCPUs_def)
qed

theorem throttle_mask_exact_witness:
  "bit (ThrottledMask (snd (sampleCPUFreqAndThrottle (\<lambda>_. Some ''7'')
     ((NewSampler [] [])\<lparr>sa_cpuIDs := [0, 4], sa_prevThrottle := [(4, 5)]\<rparr>, zero_sample)))) 1"
proof -
  let ?s = "(NewSampler [] [])\<lparr>sa_cpuIDs := [0, 4], sa_prevThrottle := [(4, 5)]\<rparr>"
  obtain s' out' where r: "sampleCPUFreqAndThrottle (\<lambda>_. Some ''7'') (?s, zero_sample) = (s', out')" by fastforce
  have "ParseUint 64 (trim_space ''7'') = Some 7"
    by (simp add: ParseUint_def trim_space_def is_space_def is_digit_def dec_value_def digit_val_def)
  then have "throttle_count (\<lambda>_. Some ''7'') ?s 4 = Some 7" by (simp add: throttle_count_def readUintFile_def)
  note t = this
  have "length (sa_cpuIDs ?s) \<le> MaxCPUs" "ThrottledMask zero_sample = 0" "(1 :: nat) < 64"
    by (simp_all add: MaxCPUs_def zero_sample_def)
  note m = throttle_mask_exact [OF this r]
  have "bit (ThrottledMask out') 1"
    by (rule m [THEN iffD2], intro conjI exI [of _ 7] exI [of _ 5]) (use t in simp_all)
  then show ?thesis by (simp add: r)
qed

end
