(* ===== verification/Runtime.thy ===== *)
theory Runtime
  imports Schema Strconv
begin

text \<open>
  The collector runtime, \<open>internal/collector\<close>: which collectors run on a host (\<open>registry.go\<close>) and the loop
  that schedules one of them with a hard timeout, panic recovery and exponential backoff (\<open>runtime.go\<close>).
  What a collector does is an argument: its name, requirements and the result of \<open>Init\<close>, and for every tick
  how \<open>Collect\<close> ends.  Cancelling the context is a step of its own.
\<close>

subsection \<open>Registry (registry.go)\<close>

text \<open>\<open>strconv.Quote\<close>, as \<open>%q\<close> prints a string; bytes above ASCII are taken to be printable UTF-8.\<close>

definition hex_digit :: "nat \<Rightarrow> char" where
  "hex_digit n = ''0123456789abcdef'' ! n"

definition quote_char :: "char \<Rightarrow> string" where
  "quote_char c =
     (case map_of [(CHR 0x22, [CHR 0x5c, CHR 0x22]), (CHR 0x5c, [CHR 0x5c, CHR 0x5c]), (CHR 0x07, [CHR 0x5c, CHR ''a'']),
        (CHR 0x08, [CHR 0x5c, CHR ''b'']), (CHR 0x0c, [CHR 0x5c, CHR ''f'']), (CHR 0x0a, [CHR 0x5c, CHR ''n'']),
        (CHR 0x0d, [CHR 0x5c, CHR ''r'']), (CHR 0x09, [CHR 0x5c, CHR ''t'']), (CHR 0x0b, [CHR 0x5c, CHR ''v''])] c of
        Some e \<Rightarrow> e
      | None \<Rightarrow>
          if of_char c < (32 :: nat) \<or> of_char c = (127 :: nat)
          then [CHR 0x5c, CHR ''x'', hex_digit (of_char c div 16), hex_digit (of_char c mod 16)]
          else [c])"

definition quote :: "string \<Rightarrow> string" where
  "quote s = [CHR 0x22] @ concat (map quote_char s) @ [CHR 0x22]"

record collectorSpec =
  co_name :: string
  co_requires :: "string list"
  co_init :: "string option"

record registryItem =
  ri_collector :: collectorSpec
  ri_interval :: duration
  ri_timeout :: duration

record registration =
  rg_collector :: collectorSpec
  rg_interval :: duration
  rg_timeout :: duration

record disabledInfo =
  di_name :: string
  di_reason :: string

definition Register :: "collectorSpec \<Rightarrow> duration \<Rightarrow> duration \<Rightarrow> registryItem list \<Rightarrow> registryItem list" where
  "Register c interval timeout items =
     items @ [\<lparr>ri_collector = c, ri_interval = interval, ri_timeout = timeout\<rparr>]"

definition firstMissing :: "string list \<Rightarrow> (string \<Rightarrow> bool) \<Rightarrow> string option" where
  "firstMissing required available = List.find (\<lambda>c. \<not> available c) required"

text \<open>With the names of the collectors whose \<open>Init\<close> was called.\<close>

fun Resolve :: "(string \<Rightarrow> bool) \<Rightarrow> registryItem list \<Rightarrow> registration list \<times> disabledInfo list \<times> string list" where
  "Resolve available [] = ([], [], [])"
| "Resolve available (it # its) =
     (let c = ri_collector it in
      case Resolve available its of (regs, dis, inits) \<Rightarrow>
        (case firstMissing (co_requires c) available of
           Some missing \<Rightarrow>
             (regs, \<lparr>di_name = co_name c, di_reason = ''missing capability '' @ quote missing\<rparr> # dis, inits)
         | None \<Rightarrow>
             (case co_init c of
                Some err \<Rightarrow> (regs, \<lparr>di_name = co_name c, di_reason = ''init failed: '' @ err\<rparr> # dis, co_name c # inits)
              | None \<Rightarrow>
                  (\<lparr>rg_collector = c, rg_interval = ri_interval it, rg_timeout = ri_timeout it\<rparr> # regs, dis,
                   co_name c # inits))))"

definition EmitDisabledEvents :: "string \<Rightarrow> (string \<times> disabledInfo) list \<Rightarrow> time \<Rightarrow> event list" where
  "EmitDisabledEvents hostID disabled now =
     map (\<lambda>(ulid, d).
       \<lparr>ev_id = ulid, ev_ts = now, ev_tsReceived = time_zero, ev_hostID = hostID, ev_source = ''agent'',
        ev_type = ''agent.collector_disabled'', ev_severity = ''info'',
        ev_title = ''collector '' @ quote (di_name d) @ '' disabled: '' @ di_reason d,
        ev_subject = \<lparr>es_kind = [], es_name = [], es_pid = 0\<rparr>,
        ev_attrs = [(''collector'', di_name d), (''reason'', di_reason d)], ev_fingerprint = [],
        ev_logRefs = [], ev_schema = CurrentSchemaVersion\<rparr>) disabled"

subsection \<open>The loop of one collector (runtime.go)\<close>

definition maxBackoffMultiplier :: int where
  "maxBackoffMultiplier = 10"

definition maxConsecutiveTimeouts :: nat where
  "maxConsecutiveTimeouts = 3"

text \<open>
  How a call of \<open>Collect\<close> ends, whichever comes first: it returns, it panics, or the context is done (the
  deadline or a cancelled parent).
\<close>

datatype collect_end = Returns "string option" | Panics string | CtxDone

datatype runtime_error = ExceededTimeout duration | CollectFailed string

datatype lifecycle =
    CollectorError string runtime_error
  | CollectorDisabled string string
  | CollectorRecovered string

record loop =
  lp_errors :: nat
  lp_timeouts :: nat
  lp_period :: duration

datatype loop_state = Running loop | DisabledLoop | StoppedLoop

definition effectiveTimeout :: "(rat \<Rightarrow> rat) \<Rightarrow> duration \<Rightarrow> duration \<Rightarrow> duration" where
  "effectiveTimeout rnd interval configured =
     (let hard = (let x = rnd (rnd (of_int interval) * rnd (8 / 10)) in if 0 \<le> x then \<lfloor>x\<rfloor> else \<lceil>x\<rceil>) in
      if hard < configured then hard else configured)"

definition collectOnce :: "collect_end \<Rightarrow> string option \<times> bool" where
  "collectOnce e =
     (case e of
        Returns err \<Rightarrow> (err, False)
      | Panics p \<Rightarrow> (Some (''panic in collector: '' @ p), False)
      | CtxDone \<Rightarrow> (Some ''context deadline exceeded'', True))"

fun backoff_loop :: "nat \<Rightarrow> int \<Rightarrow> int" where
  "backoff_loop 0 multiplier = multiplier"
| "backoff_loop (Suc n) multiplier =
     (let m = multiplier * 2 in if maxBackoffMultiplier \<le> m then maxBackoffMultiplier else backoff_loop n m)"

definition loop_start :: "registration \<Rightarrow> loop" where
  "loop_start reg = \<lparr>lp_errors = 0, lp_timeouts = 0, lp_period = rg_interval reg\<rparr>"

definition runLoop_tick ::
  "(rat \<Rightarrow> rat) \<Rightarrow> registration \<Rightarrow> collect_end \<Rightarrow> loop \<Rightarrow> lifecycle list \<times> loop_state" where
  "runLoop_tick rnd reg e lp =
     (let interval = rg_interval reg; name = co_name (rg_collector reg);
          timeout = effectiveTimeout rnd interval (rg_timeout reg) in
      case collectOnce e of
        (err, True) \<Rightarrow>
          let lp' = lp\<lparr>lp_timeouts := lp_timeouts lp + 1\<rparr> in
          if maxConsecutiveTimeouts \<le> lp_timeouts lp'
          then ([CollectorError name (ExceededTimeout timeout),
                 CollectorDisabled name ''exceeded timeout 3 times in a row''], DisabledLoop)
          else ([CollectorError name (ExceededTimeout timeout)], Running lp')
      | (Some err, False) \<Rightarrow>
          let n = lp_errors lp + 1 in
          ([CollectorError name (CollectFailed err)],
           Running (lp\<lparr>lp_timeouts := 0, lp_errors := n, lp_period := wrap64 (interval * backoff_loop n 1)\<rparr>))
      | (None, False) \<Rightarrow>
          if 0 < lp_errors lp
          then ([CollectorRecovered name], Running \<lparr>lp_errors = 0, lp_timeouts = 0, lp_period = interval\<rparr>)
          else ([], Running (lp\<lparr>lp_timeouts := 0\<rparr>)))"

text \<open>
  Executions of the loop: the ends of the \<open>Collect\<close> calls so far, what was reported, and where the loop is.
  It may stop when the context is done.
\<close>

inductive runs ::
  "(rat \<Rightarrow> rat) \<Rightarrow> registration \<Rightarrow> collect_end list \<Rightarrow> lifecycle list \<Rightarrow> loop_state \<Rightarrow> bool"
  for rnd :: "rat \<Rightarrow> rat" and reg :: registration where
  start: "runs rnd reg [] [] (Running (loop_start reg))"
| tick: "runs rnd reg es out (Running lp) \<Longrightarrow> runLoop_tick rnd reg e lp = (o1, st) \<Longrightarrow> runs rnd reg (es @ [e]) (out @ o1) st"
| stop: "runs rnd reg es out (Running lp) \<Longrightarrow> runs rnd reg es out StoppedLoop"

inductive_cases runs_running [elim]: "runs rnd reg es out (Running lp)"
inductive_cases runs_disabled: "runs rnd reg es out DisabledLoop"

subsection \<open>What the loop remembers\<close>

definition failed :: "collect_end \<Rightarrow> bool" where
  "failed e \<longleftrightarrow> (\<exists>err. e = Returns (Some err)) \<or> (\<exists>p. e = Panics p)"

definition timeouts_in_a_row :: "collect_end list \<Rightarrow> nat" where
  "timeouts_in_a_row es = length (takeWhile (\<lambda>e. e = CtxDone) (rev es))"

text \<open>The failures since the last success.\<close>

definition failures_pending :: "collect_end list \<Rightarrow> nat" where
  "failures_pending es = length (filter failed (takeWhile (\<lambda>e. e \<noteq> Returns None) (rev es)))"

lemma counts_snoc [simp]:
  "timeouts_in_a_row (es @ [e]) = (if e = CtxDone then timeouts_in_a_row es + 1 else 0)"
  "failures_pending (es @ [e]) =
     (if e = Returns None then 0 else if failed e then failures_pending es + 1 else failures_pending es)"
  by (simp_all add: timeouts_in_a_row_def failures_pending_def)

lemma counts_nil [simp]: "timeouts_in_a_row [] = 0" "failures_pending [] = 0"
  by (simp_all add: timeouts_in_a_row_def failures_pending_def)

lemma backoff_loop_eq: "1 \<le> m \<Longrightarrow> m < 10 \<Longrightarrow> backoff_loop n m = min 10 (m * 2 ^ n)"
proof (induction n arbitrary: m)
  case (Suc n)
  show ?case
  proof (cases "10 \<le> m * 2")
    case True
    have "m * 2 \<le> m * 2 ^ Suc n" using Suc.prems by simp
    with True have "10 \<le> m * 2 ^ Suc n" by linarith
    with True show ?thesis by (simp add: maxBackoffMultiplier_def Let_def min_def)
  next
    case False
    with Suc show ?thesis by (simp add: maxBackoffMultiplier_def Let_def ac_simps)
  qed
qed simp

definition backoff :: "nat \<Rightarrow> int" where
  "backoff n = min 10 (2 ^ n)"

lemma backoff_loop_one: "backoff_loop n 1 = backoff n"
  using backoff_loop_eq [of 1 n] by (simp add: backoff_def)

text \<open>The invariant: the loop's counters and period are functions of the history.\<close>

definition loop_inv :: "registration \<Rightarrow> collect_end list \<Rightarrow> loop_state \<Rightarrow> bool" where
  "loop_inv reg es st \<longleftrightarrow>
     (case st of
        Running lp \<Rightarrow>
          lp_timeouts lp = timeouts_in_a_row es \<and> timeouts_in_a_row es < 3 \<and> lp_errors lp = failures_pending es \<and>
          lp_period lp = (if failures_pending es = 0 then rg_interval reg
                          else wrap64 (rg_interval reg * backoff (failures_pending es)))
      | DisabledLoop \<Rightarrow> timeouts_in_a_row es = 3
      | StoppedLoop \<Rightarrow> timeouts_in_a_row es < 3)"

lemma tick_inv:
  assumes "loop_inv reg es (Running lp)" "runLoop_tick rnd reg e lp = (o1, st)"
  shows "loop_inv reg (es @ [e]) st"
  using assms
  by (cases e; cases "failures_pending es = 0")
    (auto simp: loop_inv_def runLoop_tick_def Let_def collectOnce_def failed_def maxConsecutiveTimeouts_def
      backoff_loop_one split: option.splits if_splits loop_state.splits)

lemma runs_inv: "runs rnd reg es out st \<Longrightarrow> loop_inv reg es st"
proof (induction rule: runs.induct)
  case start
  then show ?case by (simp add: loop_inv_def loop_start_def)
next
  case (tick es out lp e o1 st)
  then show ?case using tick_inv by blast
next
  case (stop es out lp)
  then show ?case by (simp add: loop_inv_def)
qed

subsection \<open>When a collector is disabled\<close>

definition three_timeouts :: "collect_end list \<Rightarrow> bool" where
  "three_timeouts es \<longleftrightarrow> (\<exists>us vs. es = us @ [CtxDone, CtxDone, CtxDone] @ vs)"

lemma ends_in_three: "3 \<le> timeouts_in_a_row es \<longleftrightarrow> (\<exists>us. es = us @ [CtxDone, CtxDone, CtxDone])"
proof
  assume a: "3 \<le> timeouts_in_a_row es"
  have "takeWhile (\<lambda>e. e = CtxDone) (rev es) = replicate (timeouts_in_a_row es) CtxDone"
    unfolding timeouts_in_a_row_def by (intro replicate_eqI) (auto dest: set_takeWhileD)
  then have "rev es = replicate (timeouts_in_a_row es) CtxDone @ dropWhile (\<lambda>e. e = CtxDone) (rev es)"
    by (metis takeWhile_dropWhile_id)
  moreover have "take 3 (replicate (timeouts_in_a_row es) CtxDone @ xs) = [CtxDone, CtxDone, CtxDone]" for xs
    using a by (simp add: numeral_eq_Suc)
  ultimately have "take 3 (rev es) = [CtxDone, CtxDone, CtxDone]" by metis
  then have "rev es = [CtxDone, CtxDone, CtxDone] @ drop 3 (rev es)" by (metis append_take_drop_id)
  then have "es = rev (drop 3 (rev es)) @ [CtxDone, CtxDone, CtxDone]" by (metis rev_append rev_rev_ident rev.simps append.simps append_assoc)
  then show "\<exists>us. es = us @ [CtxDone, CtxDone, CtxDone]" by blast
qed (auto simp: timeouts_in_a_row_def)

lemma three_timeouts_snoc: "three_timeouts (es @ [e]) \<longleftrightarrow> three_timeouts es \<or> 3 \<le> timeouts_in_a_row (es @ [e])"
proof
  assume "three_timeouts (es @ [e])"
  then obtain us vs where u: "es @ [e] = us @ [CtxDone, CtxDone, CtxDone] @ vs" by (auto simp: three_timeouts_def)
  show "three_timeouts es \<or> 3 \<le> timeouts_in_a_row (es @ [e])"
  proof (cases vs rule: rev_cases)
    case Nil
    with u show ?thesis using ends_in_three [of "es @ [e]"] by auto
  next
    case (snoc ws w)
    with u have "es = us @ [CtxDone, CtxDone, CtxDone] @ ws" by simp
    then show ?thesis by (auto simp: three_timeouts_def)
  qed
next
  assume "three_timeouts es \<or> 3 \<le> timeouts_in_a_row (es @ [e])"
  then show "three_timeouts (es @ [e])"
  proof
    assume "three_timeouts es"
    then show ?thesis unfolding three_timeouts_def by (metis append_assoc)
  next
    assume "3 \<le> timeouts_in_a_row (es @ [e])"
    then show ?thesis unfolding ends_in_three three_timeouts_def by (metis append_Nil2)
  qed
qed

lemma three_timeouts_nil [simp]: "\<not> three_timeouts []"
  by (simp add: three_timeouts_def)

abbreviation is_error :: "lifecycle \<Rightarrow> bool" where
  "is_error ev \<equiv> (\<exists>n e. ev = CollectorError n e)"

abbreviation is_disabled :: "lifecycle \<Rightarrow> bool" where
  "is_disabled ev \<equiv> (\<exists>n r. ev = CollectorDisabled n r)"

definition report_inv :: "collect_end list \<Rightarrow> lifecycle list \<Rightarrow> loop_state \<Rightarrow> bool" where
  "report_inv es out st \<longleftrightarrow>
     (three_timeouts es \<longleftrightarrow> st = DisabledLoop) \<and>
     length (filter is_disabled out) = (if st = DisabledLoop then 1 else 0) \<and>
     length (filter is_error out) = length (filter (\<lambda>e. e \<noteq> Returns None) es)"

lemma tick_reports:
  assumes "runLoop_tick rnd reg e lp = (o1, st)"
  shows "length (filter is_disabled o1) = (if st = DisabledLoop then 1 else 0) \<and> st \<noteq> StoppedLoop \<and>
    length (filter is_error o1) = (if e = Returns None then 0 else 1)"
  using assms
  by (cases e) (auto simp: runLoop_tick_def Let_def collectOnce_def split: option.splits if_splits)

lemma runs_reports: "runs rnd reg es out st \<Longrightarrow> report_inv es out st"
proof (induction rule: runs.induct)
  case (tick es out lp e o1 st)
  have i: "loop_inv reg es (Running lp)" "loop_inv reg (es @ [e]) st"
    using runs_inv tick.hyps tick_inv by blast+
  have "3 \<le> timeouts_in_a_row (es @ [e]) \<longleftrightarrow> st = DisabledLoop"
    using i tick_reports [OF tick.hyps(2)] by (cases st) (auto simp: loop_inv_def)
  then show ?case
    using tick.IH tick_reports [OF tick.hyps(2)] by (auto simp: report_inv_def three_timeouts_snoc)
qed (auto simp: report_inv_def)

lemma runs_total: "\<not> three_timeouts es \<Longrightarrow> \<exists>out lp. runs rnd reg es out (Running lp)"
proof (induction es rule: rev_induct)
  case Nil
  then show ?case using runs.start by blast
next
  case (snoc e es)
  then obtain out lp where r: "runs rnd reg es out (Running lp)" by (auto simp: three_timeouts_snoc)
  obtain o1 st where t: "runLoop_tick rnd reg e lp = (o1, st)" by fastforce
  from runs.tick [OF r t] have r': "runs rnd reg (es @ [e]) (out @ o1) st" .
  with runs_reports snoc.prems tick_reports [OF t] show ?case by (cases st) (auto simp: report_inv_def)
qed

subsection \<open>Claims\<close>


definition sample_reg :: registration where
  "sample_reg = \<lparr>rg_collector = \<lparr>co_name = ''cpu'', co_requires = [], co_init = None\<rparr>, rg_interval = 10 * second,
     rg_timeout = 5 * second\<rparr>"


definition runnable :: "(string \<Rightarrow> bool) \<Rightarrow> registryItem \<Rightarrow> bool" where
  "runnable available it \<longleftrightarrow> list_all available (co_requires (ri_collector it)) \<and> co_init (ri_collector it) = None"

lemma firstMissing_None: "firstMissing req available = None \<longleftrightarrow> list_all available req"
  by (auto simp: firstMissing_def find_None_iff_all list_all_iff)

lemma emit_valid:
  assumes "hostID \<noteq> []" "\<not> is_zero_time now" "list_all (\<lambda>u. u \<noteq> []) ulids"
  shows "list_all (\<lambda>e. Event_Validate e = None) (EmitDisabledEvents hostID (zip ulids dis) now)"
  unfolding EmitDisabledEvents_def list_all_iff set_map
proof (intro ballI, elim imageE)
  fix e p
  assume e: "e = (case p of (ulid, d) \<Rightarrow>
       \<lparr>ev_id = ulid, ev_ts = now, ev_tsReceived = time_zero, ev_hostID = hostID, ev_source = ''agent'',
        ev_type = ''agent.collector_disabled'', ev_severity = ''info'',
        ev_title = ''collector '' @ quote (di_name d) @ '' disabled: '' @ di_reason d,
        ev_subject = \<lparr>es_kind = [], es_name = [], es_pid = 0\<rparr>,
        ev_attrs = [(''collector'', di_name d), (''reason'', di_reason d)], ev_fingerprint = [],
        ev_logRefs = [], ev_schema = CurrentSchemaVersion\<rparr>)" and p: "p \<in> set (zip ulids dis)"
  obtain u d where ud: "p = (u, d)" by fastforce
  have "u \<noteq> []" using p ud set_zip_leftD [of u d ulids dis] assms(3) by (auto simp: list_all_iff)
  then show "Event_Validate e = None"
    using assms e ud by (simp add: Event_Validate_def Severity_valid_def CurrentSchemaVersion_def)
qed

text \<open>
  \<open>Resolve\<close> partitions the collectors.  Those whose requirements are all available and whose \<open>Init\<close> succeeds
  are registered, in order and with their parameters; all the others, in order, are reported as disabled with
  a reason; \<open>Init\<close> is called only where nothing is missing; and the events for the disabled ones are valid.
\<close>

theorem resolve_partition:
  assumes "Resolve available items = (regs, dis, inits)"
  shows "regs = map (\<lambda>it. \<lparr>rg_collector = ri_collector it, rg_interval = ri_interval it, rg_timeout = ri_timeout it\<rparr>)
      (filter (runnable available) items) \<and>
    map di_name dis = map (\<lambda>it. co_name (ri_collector it)) (filter (\<lambda>it. \<not> runnable available it) items) \<and>
    inits = map (\<lambda>it. co_name (ri_collector it)) (filter (\<lambda>it. list_all available (co_requires (ri_collector it))) items) \<and>
    (hostID \<noteq> [] \<and> \<not> is_zero_time now \<and> list_all (\<lambda>u. u \<noteq> []) ulids \<longrightarrow>
       list_all (\<lambda>e. Event_Validate e = None) (EmitDisabledEvents hostID (zip ulids dis) now))"
proof -
  have p: "fst (Resolve available items) =
      map (\<lambda>it. \<lparr>rg_collector = ri_collector it, rg_interval = ri_interval it, rg_timeout = ri_timeout it\<rparr>)
        (filter (runnable available) items) \<and>
    map di_name (fst (snd (Resolve available items))) =
      map (\<lambda>it. co_name (ri_collector it)) (filter (\<lambda>it. \<not> runnable available it) items) \<and>
    snd (snd (Resolve available items)) =
      map (\<lambda>it. co_name (ri_collector it)) (filter (\<lambda>it. list_all available (co_requires (ri_collector it))) items)"
  proof (induction items)
    case (Cons it items)
    then show ?case
      using firstMissing_None [of "co_requires (ri_collector it)" available]
      by (cases "firstMissing (co_requires (ri_collector it)) available"; cases "co_init (ri_collector it)")
        (auto simp: Let_def runnable_def split: prod.splits)
  qed simp
  moreover have "list_all (\<lambda>e. Event_Validate e = None) (EmitDisabledEvents hostID (zip ulids dis) now)"
    if "hostID \<noteq> []" "\<not> is_zero_time now" "list_all (\<lambda>u. u \<noteq> []) ulids"
    using that emit_valid by blast
  ultimately show ?thesis using assms by auto
qed

theorem resolve_partition_witness:
  "map di_name (fst (snd (Resolve (\<lambda>c. c = ''docker'')
      [\<lparr>ri_collector = \<lparr>co_name = ''docker'', co_requires = [''docker''], co_init = None\<rparr>, ri_interval = 1, ri_timeout = 1\<rparr>,
       \<lparr>ri_collector = \<lparr>co_name = ''ups'', co_requires = [''ups''], co_init = None\<rparr>, ri_interval = 1, ri_timeout = 1\<rparr>]))) =
    [''ups'']"
    (is "map di_name (fst (snd (Resolve ?av ?items))) = _")
proof -
  have "Resolve ?av ?items =
      (fst (Resolve ?av ?items), fst (snd (Resolve ?av ?items)), snd (snd (Resolve ?av ?items)))"
    by (simp only: prod.collapse)
  note resolve_partition [OF this, THEN conjunct2, THEN conjunct1]
  also have "map (\<lambda>it. co_name (ri_collector it)) (filter (\<lambda>it. \<not> runnable ?av it) ?items) = [''ups'']"
    by (simp add: runnable_def)
  finally show ?thesis .
qed

end
