(* ===== verification/Notify.thy ===== *)
theory Notify
  imports Gotime
begin

text \<open>
  Notifications, \<open>internal/notify\<close>: the message (\<open>notify.go\<close>), the router with its filters and rate limit
  (\<open>router.go\<close>) and the notifiers (\<open>ntfy.go\<close>, \<open>webhook.go\<close>, \<open>telegram.go\<close>, \<open>smtp.go\<close>, \<open>log.go\<close>).  Times are in UTC.
  Arguments: how \<open>%v\<close> prints a float (\<open>fv\<close>), JSON encoding and decoding, the HTTP exchange, the mail server
  and, for every call, whether the rate limiter allows it.  Labels are association lists in the order the map
  is iterated.
\<close>

subsection \<open>Messages (notify.go)\<close>

record notification =
  no_ruleID :: string
  no_labels :: labels
  no_severity :: string
  no_state :: string
  no_value :: gofloat
  no_at :: time
  no_deepLink :: string

definition upper_char :: "char \<Rightarrow> char" where
  "upper_char c = (if CHR ''a'' \<le> c \<and> c \<le> CHR ''z'' then char_of (of_char c - 32 :: nat) else c)"

definition Title :: "notification \<Rightarrow> string" where
  "Title n =
     (let st = (if no_state n = [] then ''firing'' else no_state n) in
      ''['' @ map upper_char st @ ''] '' @ no_ruleID n)"

definition Body :: "(gofloat \<Rightarrow> string) \<Rightarrow> notification \<Rightarrow> string" where
  "Body fv n =
     Title n @ [nl] @ ''severity: '' @ no_severity n @ [nl] @ ''value: '' @ fv (no_value n) @ [nl] @
     ''at: '' @ FormatRFC3339 (no_at n) @ concat (map (\<lambda>(k, v). [nl] @ k @ '': '' @ v) (no_labels n)) @
     (if no_deepLink n = [] then [] else [nl, nl] @ no_deepLink n)"

text \<open>
  The link into the timeline; \<open>withQuery\<close> is \<open>net/url\<close>: the URL parsed, with the given values set in its query, printed.
\<close>

definition DeepLink :: "(string \<Rightarrow> labels \<Rightarrow> string option) \<Rightarrow> string \<Rightarrow> labels \<Rightarrow> time \<Rightarrow> string" where
  "DeepLink withQuery baseURL ls t =
     (let hostID = (case map_of ls ''host_id'' of None \<Rightarrow> [] | Some h \<Rightarrow> h) in
      if baseURL = [] \<or> hostID = [] then []
      else (case withQuery baseURL [(''host_id'', hostID), (''at'', FormatRFC3339 t)] of None \<Rightarrow> [] | Some u \<Rightarrow> u))"

subsection \<open>Routes (router.go)\<close>

record route =
  rt_name :: string
  rt_severities :: "string list"
  rt_labels :: labels

definition matches :: "route \<Rightarrow> notification \<Rightarrow> bool" where
  "matches r n \<longleftrightarrow>
     (rt_severities r \<noteq> [] \<longrightarrow> no_severity n \<in> set (rt_severities r)) \<and>
     list_all (\<lambda>(k, v). lget (no_labels n) k = v) (rt_labels r)"

datatype dispatch_error = RateLimited string | SendFailed string string

text \<open>
  \<open>Dispatch\<close> with the routes and whether there is a limiter.  \<open>allow\<close> holds the limiter's next answers (none
  left: it refuses), \<open>send i\<close> is the result of the notifier of the \<open>i\<close>-th route.  The result has the routes that were
  tried, by position, the errors, and the answers that are left.
\<close>

fun dispatch_loop ::
  "(nat \<Rightarrow> string option) \<Rightarrow> bool \<Rightarrow> notification \<Rightarrow> nat \<Rightarrow> route list \<Rightarrow> bool list \<Rightarrow> nat list \<times> dispatch_error list \<times> bool list" where
  "dispatch_loop send limited n i [] allow = ([], [], allow)"
| "dispatch_loop send limited n i (r # rs) allow =
     (if \<not> matches r n then dispatch_loop send limited n (Suc i) rs allow
      else
        let ok = (\<not> limited \<or> (allow \<noteq> [] \<and> hd allow));
            allow' = (if limited then tl allow else allow) in
        case dispatch_loop send limited n (Suc i) rs allow' of (sent, errs, rest) \<Rightarrow>
          if \<not> ok then (sent, RateLimited (rt_name r) # errs, rest)
          else
            (case send i of
               None \<Rightarrow> (i # sent, errs, rest)
             | Some e \<Rightarrow> (i # sent, SendFailed (rt_name r) e # errs, rest)))"

definition Dispatch ::
  "(nat \<Rightarrow> string option) \<Rightarrow> bool \<Rightarrow> route list \<Rightarrow> notification \<Rightarrow> bool list \<Rightarrow> nat list \<times> dispatch_error list \<times> bool list" where
  "Dispatch send limited routes n allow = dispatch_loop send limited n 0 routes allow"

text \<open>\<open>NewRouter\<close>: there is a limiter unless both parameters are zero (or negative).\<close>

definition NewRouter_limited :: "rat \<Rightarrow> int \<Rightarrow> bool" where
  "NewRouter_limited rps burst \<longleftrightarrow> 0 < rps \<or> 0 < burst"

subsection \<open>Notifiers\<close>

record http_request =
  hr_url :: string
  hr_headers :: "(string \<times> string) list"
  hr_body :: string

record http_response =
  hs_status :: int
  hs_statusText :: string
  hs_body :: string

datatype notify_error =
    BadRequest
  | SendError string
  | StatusError string
  | MarshalPayload
  | APIError string
  | NoRecipients
  | MailError string string

text \<open>\<open>valid_url\<close> says whether \<open>http.NewRequestWithContext\<close> accepts the URL; \<open>post\<close> is the HTTP exchange.\<close>

definition ntfyPriority :: "string \<Rightarrow> string" where
  "ntfyPriority severity =
     (if severity = ''critical'' then ''urgent''
      else if severity = ''error'' then ''high''
      else if severity = ''warn'' then ''default''
      else if severity \<in> {''notice'', ''info''} then ''low''
      else ''min'')"

definition ok_status :: "int \<Rightarrow> bool" where
  "ok_status c \<longleftrightarrow> 200 \<le> c \<and> c < 300"

definition ntfy_Notify ::
  "(string \<Rightarrow> bool) \<Rightarrow> (http_request \<Rightarrow> string + http_response) \<Rightarrow> (gofloat \<Rightarrow> string) \<Rightarrow> string \<Rightarrow> notification \<Rightarrow> notify_error option" where
  "ntfy_Notify valid_url post fv topicURL n =
     (if \<not> valid_url topicURL then Some BadRequest
      else
        (case post \<lparr>hr_url = topicURL,
             hr_headers = [(''Title'', Title n), (''Priority'', ntfyPriority (no_severity n))] @
               (if no_deepLink n = [] then [] else [(''Click'', no_deepLink n)]),
             hr_body = Body fv n\<rparr> of
           Inl e \<Rightarrow> Some (SendError e)
         | Inr resp \<Rightarrow> if ok_status (hs_status resp) then None else Some (StatusError (hs_statusText resp))))"

record webhookPayload =
  wp_ruleID :: string
  wp_labels :: labels
  wp_severity :: string
  wp_state :: string
  wp_value :: gofloat
  wp_at :: string
  wp_deepLink :: string

definition webhook_payload :: "notification \<Rightarrow> webhookPayload" where
  "webhook_payload n = \<lparr>wp_ruleID = no_ruleID n, wp_labels = no_labels n, wp_severity = no_severity n,
     wp_state = no_state n, wp_value = no_value n, wp_at = FormatMillis (no_at n), wp_deepLink = no_deepLink n\<rparr>"

definition webhook_Notify ::
  "(string \<Rightarrow> bool) \<Rightarrow> (http_request \<Rightarrow> string + http_response) \<Rightarrow> (webhookPayload \<Rightarrow> string option) \<Rightarrow> string \<Rightarrow> notification \<Rightarrow> notify_error option" where
  "webhook_Notify valid_url post to_json url n =
     (case to_json (webhook_payload n) of
        None \<Rightarrow> Some MarshalPayload
      | Some body \<Rightarrow>
          if \<not> valid_url url then Some BadRequest
          else
            (case post \<lparr>hr_url = url, hr_headers = [(''Content-Type'', ''application/json'')], hr_body = body\<rparr> of
               Inl e \<Rightarrow> Some (SendError e)
             | Inr resp \<Rightarrow> if ok_status (hs_status resp) then None else Some (StatusError (hs_statusText resp))))"

definition defaultTelegramAPIBaseURL :: string where
  "defaultTelegramAPIBaseURL = ''https://api.telegram.org''"

text \<open>\<open>decode\<close> reads the fields \<open>ok\<close> and \<open>description\<close> of the answer; a decoding error leaves them zero.\<close>

definition telegram_Notify ::
  "(string \<Rightarrow> bool) \<Rightarrow> (http_request \<Rightarrow> string + http_response) \<Rightarrow> (string \<times> string \<Rightarrow> string option) \<Rightarrow>
   (string \<Rightarrow> (bool \<times> string) option) \<Rightarrow> (gofloat \<Rightarrow> string) \<Rightarrow> string \<Rightarrow> string \<Rightarrow> string \<Rightarrow> notification \<Rightarrow> notify_error option" where
  "telegram_Notify valid_url post to_json decode fv apiBaseURL botToken chatID n =
     (let base = (if apiBaseURL = [] then defaultTelegramAPIBaseURL else apiBaseURL) in
      case to_json (chatID, Body fv n) of
        None \<Rightarrow> Some MarshalPayload
      | Some body \<Rightarrow>
          let url = base @ ''/bot'' @ botToken @ ''/sendMessage'' in
          if \<not> valid_url url then Some BadRequest
          else
            (case post \<lparr>hr_url = url, hr_headers = [(''Content-Type'', ''application/json'')], hr_body = body\<rparr> of
               Inl e \<Rightarrow> Some (SendError e)
             | Inr resp \<Rightarrow>
                 (case (case decode (hs_body resp) of None \<Rightarrow> (False, []) | Some r \<Rightarrow> r) of
                    (ok, description) \<Rightarrow>
                      if \<not> ok_status (hs_status resp) \<or> \<not> ok then
                        (if description \<noteq> [] then Some (APIError description) else Some (StatusError (hs_statusText resp)))
                      else None)))"

definition crlf :: string where
  "crlf = [CHR 0x0d, CHR 0x0a]"

fun join_comma :: "string list \<Rightarrow> string" where
  "join_comma [] = []"
| "join_comma [s] = s"
| "join_comma (s # t # ts) = s @ '', '' @ join_comma (t # ts)"

definition buildEmailMessage :: "string \<Rightarrow> string list \<Rightarrow> string \<Rightarrow> string \<Rightarrow> string" where
  "buildEmailMessage from to subject body =
     ''From: '' @ from @ crlf @ ''To: '' @ join_comma to @ crlf @ ''Subject: '' @ subject @ crlf @
     ''MIME-Version: 1.0'' @ crlf @ ''Content-Type: text/plain; charset='' @ [CHR 0x22] @ ''utf-8'' @ [CHR 0x22] @ crlf @
     crlf @ body"

record smtpNotifier =
  sm_host :: string
  sm_port :: int
  sm_from :: string
  sm_to :: "string list"

definition smtp_Notify ::
  "(string \<Rightarrow> string \<Rightarrow> string list \<Rightarrow> string \<Rightarrow> string option) \<Rightarrow> (gofloat \<Rightarrow> string) \<Rightarrow> smtpNotifier \<Rightarrow> notification \<Rightarrow> notify_error option" where
  "smtp_Notify sendMail fv s n =
     (if sm_to s = [] then Some NoRecipients
      else
        let addr = sm_host s @ '':'' @ itoa_int (sm_port s) in
        (case sendMail addr (sm_from s) (sm_to s) (buildEmailMessage (sm_from s) (sm_to s) (Title n) (Body fv n)) of
           None \<Rightarrow> None
         | Some e \<Rightarrow> Some (MailError addr e)))"

text \<open>\<open>LogNotifier\<close>: what it writes; it never fails.\<close>

definition log_Notify :: "(gofloat \<Rightarrow> string) \<Rightarrow> string \<Rightarrow> notification \<Rightarrow> string \<times> notify_error option" where
  "log_Notify fv written n = (written @ Body fv n @ [nl], None)"

subsection \<open>Dispatching\<close>

text \<open>The matching routes with their positions, the limiter's answers to them, and the error of one of them.\<close>

definition candidates :: "nat \<Rightarrow> route list \<Rightarrow> notification \<Rightarrow> (nat \<times> route) list" where
  "candidates i routes n = filter (\<lambda>(_, r). matches r n) (enumerate i routes)"

fun answers :: "bool \<Rightarrow> bool list \<Rightarrow> nat \<Rightarrow> bool list" where
  "answers limited allow 0 = []"
| "answers limited allow (Suc k) =
     (\<not> limited \<or> (allow \<noteq> [] \<and> hd allow)) # answers limited (if limited then tl allow else allow) k"

definition route_error :: "(nat \<Rightarrow> string option) \<Rightarrow> (nat \<times> route) \<times> bool \<Rightarrow> dispatch_error option" where
  "route_error send p =
     (case p of ((i, r), ok) \<Rightarrow>
       if \<not> ok then Some (RateLimited (rt_name r)) else map_option (SendFailed (rt_name r)) (send i))"

lemma dispatch_loop_eq:
  "dispatch_loop send limited n i rs allow =
     (let cs = candidates i rs n; tried = zip cs (answers limited allow (length cs)) in
      (map (fst \<circ> fst) (filter snd tried), List.map_filter (route_error send) tried,
       if limited then drop (length cs) allow else allow))"
proof (induction rs arbitrary: i allow)
  case (Cons r rs)
  show ?case
  proof (cases "matches r n")
    case False
    then have "candidates i (r # rs) n = candidates (Suc i) rs n" by (simp add: candidates_def)
    with False Cons show ?thesis by simp
  next
    case True
    then have c: "candidates i (r # rs) n = (i, r) # candidates (Suc i) rs n" by (simp add: candidates_def)
    have d: "drop (Suc k) allow = drop k (tl allow)" for k by (cases allow) simp_all
    show ?thesis
      using True Cons [of "Suc i"] d
      by (auto simp: c Let_def route_error_def List.map_filter_simps split: option.splits)
  qed
qed (simp add: candidates_def List.map_filter_simps)

subsection \<open>Claims\<close>


definition sample_note :: notification where
  "sample_note = \<lparr>no_ruleID = ''disk'', no_labels = [], no_severity = ''warn'', no_state = [], no_value = Fin 1, no_at = 0, no_deepLink = []\<rparr>"


text \<open>A route that requires a label to be empty also matches a notification without it.\<close>

lemma empty_label_matches:
  "matches \<lparr>rt_name = nm, rt_severities = [], rt_labels = [(k, [])]\<rparr> (n\<lparr>no_labels := []\<rparr>)"
  by (simp add: matches_def lget_def)

end
