(* ===== verification/Log_Rules.thy ===== *)
theory Log_Rules
  imports Schema Gotext Gopath
begin

text \<open>
  Extraction rules, \<open>internal/extraction\<close>: loading and validating rules (\<open>rule.go\<close>), the enrichers (\<open>enrich.go\<close>) and
  the engine that turns a log line into an event (\<open>engine.go\<close>).  Arguments of the model: the YAML decoder, the
  regular expression compiler, the template renderer, SHA-256 as hexadecimal digits, the file system \<open>rd\<close>, and the
  ULID of an event.  Attributes are an association list in the iteration order of the Go map.
\<close>

subsection \<open>Rules (rule.go)\<close>

record emitSpec =
  em_type :: string
  em_severity :: string
  em_title :: string
  em_enrich :: "string list"
  em_fingerprintFields :: "string list"

text \<open>A compiled expression: the submatches of a message, and the names of the groups (the first is empty).\<close>

record regex =
  re_find :: "string \<Rightarrow> string list option"
  re_names :: "string list"

record rule =
  ru_id :: string
  ru_source :: string
  ru_match :: string
  ru_emit :: emitSpec

type_synonym compiled = "rule \<times> regex"

datatype rule_error =
    BadYAML
  | RuleIDRequired
  | MatchRequired string
  | EmitTypeRequired string
  | EmitSeverityRequired string
  | UnknownEnricher string string
  | BadRegex string
  | RulesDir
  | RuleFile string
  | InFile string rule_error

definition builtinEnrichers :: "string list" where
  "builtinEnrichers = [''cpu_from_context'', ''core_from_cpu'']"

definition rule_validate :: "rule \<Rightarrow> rule_error option" where
  "rule_validate r =
     (if ru_id r = [] then Some RuleIDRequired
      else if ru_match r = [] then Some (MatchRequired (ru_id r))
      else if em_type (ru_emit r) = [] then Some (EmitTypeRequired (ru_id r))
      else if em_severity (ru_emit r) = [] then Some (EmitSeverityRequired (ru_id r))
      else
        (case List.find (\<lambda>e. e \<notin> set builtinEnrichers) (em_enrich (ru_emit r)) of
           Some e \<Rightarrow> Some (UnknownEnricher (ru_id r) e)
         | None \<Rightarrow> None))"

definition Parse :: "(string \<Rightarrow> rule option) \<Rightarrow> (string \<Rightarrow> regex option) \<Rightarrow> string \<Rightarrow> rule_error + compiled" where
  "Parse yaml compile data =
     (case yaml data of
        None \<Rightarrow> Inl BadYAML
      | Some r \<Rightarrow>
          (case rule_validate r of
             Some e \<Rightarrow> Inl e
           | None \<Rightarrow>
               (case compile (ru_match r) of None \<Rightarrow> Inl (BadRegex (ru_id r)) | Some re \<Rightarrow> Inr (r, re))))"

fun parse_files ::
  "(string \<Rightarrow> rule option) \<Rightarrow> (string \<Rightarrow> regex option) \<Rightarrow> (string \<Rightarrow> string option) \<Rightarrow> string \<Rightarrow> string list \<Rightarrow> rule_error + compiled list" where
  "parse_files yaml compile rd dir [] = Inr []"
| "parse_files yaml compile rd dir (name # names) =
     (case rd (Join [dir, name]) of
        None \<Rightarrow> Inl (RuleFile name)
      | Some data \<Rightarrow>
          (case Parse yaml compile data of
             Inl e \<Rightarrow> Inl (InFile name e)
           | Inr r \<Rightarrow> (case parse_files yaml compile rd dir names of Inl e \<Rightarrow> Inl e | Inr rs \<Rightarrow> Inr (r # rs))))"

text \<open>\<open>entries\<close>: the directory's entries, with whether they are directories; \<open>None\<close>: it cannot be read.\<close>

definition LoadDir ::
  "(string \<Rightarrow> rule option) \<Rightarrow> (string \<Rightarrow> regex option) \<Rightarrow> (string \<Rightarrow> string option) \<Rightarrow> string \<Rightarrow> (string \<times> bool) list option \<Rightarrow>
   rule_error + compiled list" where
  "LoadDir yaml compile rd dir entries =
     (case entries of
        None \<Rightarrow> Inl RulesDir
      | Some es \<Rightarrow>
          parse_files yaml compile rd dir
            (sort (map fst (filter (\<lambda>(name, isDir). \<not> isDir \<and> (has_suffix name ''.yaml'' \<or> has_suffix name ''.yml'')) es))))"

subsection \<open>Enrichers (enrich.go)\<close>

record enrichers =
  en_ProcRoot :: string
  en_SysRoot :: string

definition DefaultEnrichers :: enrichers where
  "DefaultEnrichers = \<lparr>en_ProcRoot = ''/proc'', en_SysRoot = ''/sys''\<rparr>"

definition cpuFromContext :: "(string \<Rightarrow> string option) \<Rightarrow> enrichers \<Rightarrow> labels \<Rightarrow> labels" where
  "cpuFromContext rd en attrs =
     (let pid = lget attrs ''pid'' in
      if pid = [] then attrs
      else
        (case rd (Join [en_ProcRoot en, pid, ''stat'']) of
           None \<Rightarrow> attrs
         | Some s \<Rightarrow>
             (case cut_last (CHR '')'') s of
                None \<Rightarrow> attrs
              | Some (_, rest) \<Rightarrow>
                  let fields = Fields rest in
                  if length fields \<le> 36 then attrs
                  else if Atoi (fields ! 36) \<noteq> None then AList.update ''cpu'' (fields ! 36) attrs
                  else attrs)))"

definition coreFromCPU :: "(string \<Rightarrow> string option) \<Rightarrow> enrichers \<Rightarrow> labels \<Rightarrow> labels" where
  "coreFromCPU rd en attrs =
     (let cpu = lget attrs ''cpu'' in
      if cpu = [] then attrs
      else
        (case rd (Join [en_SysRoot en, ''devices'', ''system'', ''cpu'', ''cpu'' @ cpu, ''topology'', ''core_id'']) of
           None \<Rightarrow> attrs
         | Some raw \<Rightarrow>
             let coreID = trim_space raw in
             if Atoi coreID \<noteq> None then AList.update ''core_id'' coreID attrs else attrs))"

definition enrich :: "(string \<Rightarrow> string option) \<Rightarrow> enrichers \<Rightarrow> string \<Rightarrow> labels \<Rightarrow> labels" where
  "enrich rd en name attrs =
     (if name = ''cpu_from_context'' then cpuFromContext rd en attrs
      else if name = ''core_from_cpu'' then coreFromCPU rd en attrs
      else attrs)"

subsection \<open>The engine (engine.go)\<close>

text \<open>\<open>namedGroups\<close>; \<open>None\<close> is the panic when there are fewer submatches than group names.\<close>

definition namedGroups :: "regex \<Rightarrow> string list \<Rightarrow> labels option" where
  "namedGroups re match =
     (if length match < length (re_names re) then None
      else
        Some (fold (\<lambda>(i, name) attrs. if i = 0 \<or> name = [] then attrs else AList.update name (match ! i) attrs)
          (enumerate 0 (re_names re)) []))"

definition renderTitle :: "(string \<Rightarrow> labels \<Rightarrow> string option) \<Rightarrow> string \<Rightarrow> labels \<Rightarrow> string option" where
  "renderTitle render tmpl attrs = (if tmpl = [] then Some [] else render tmpl attrs)"

definition fingerprint :: "(string \<Rightarrow> string) \<Rightarrow> rule \<Rightarrow> labels \<Rightarrow> string" where
  "fingerprint sha256hex r attrs =
     (let fields = (if em_fingerprintFields (ru_emit r) = [] then sort (map fst attrs) else em_fingerprintFields (ru_emit r)) in
      ''sha256:'' @ sha256hex (em_type (ru_emit r) @ concat (map (\<lambda>f. [us] @ f @ ''='' @ lget attrs f) fields)))"

definition buildEvent ::
  "(string \<Rightarrow> labels \<Rightarrow> string option) \<Rightarrow> (string \<Rightarrow> string) \<Rightarrow> string \<Rightarrow> rule \<Rightarrow> logLine \<Rightarrow> labels \<Rightarrow> event option" where
  "buildEvent render sha256hex ulid r line attrs =
     (case renderTitle render (em_title (ru_emit r)) attrs of
        None \<Rightarrow> None
      | Some title0 \<Rightarrow>
          let title = (if title0 = [] then em_type (ru_emit r) else title0);
              subject = (case map_of attrs ''comm'' of
                           None \<Rightarrow> \<lparr>es_kind = [], es_name = [], es_pid = 0\<rparr>
                         | Some comm \<Rightarrow>
                             \<lparr>es_kind = ''process'', es_name = comm,
                              es_pid = (case Atoi (lget attrs ''pid'') of None \<Rightarrow> 0 | Some pid \<Rightarrow> pid)\<rparr>) in
          Some \<lparr>ev_id = ulid, ev_ts = ll_ts line, ev_tsReceived = time_zero, ev_hostID = ll_hostID line,
                ev_source = ll_source line, ev_type = em_type (ru_emit r), ev_severity = em_severity (ru_emit r),
                ev_title = title, ev_subject = subject, ev_attrs = attrs, ev_fingerprint = fingerprint sha256hex r attrs,
                ev_logRefs = [], ev_schema = CurrentSchemaVersion\<rparr>)"

datatype process_result = NoMatch | Extracted event | RuleFailed string | GroupsPanic

record engine_env =
  ee_rd :: "string \<Rightarrow> string option"
  ee_render :: "string \<Rightarrow> labels \<Rightarrow> string option"
  ee_sha :: "string \<Rightarrow> string"
  ee_enrichers :: enrichers

fun Process :: "engine_env \<Rightarrow> string \<Rightarrow> compiled list \<Rightarrow> logLine \<Rightarrow> process_result" where
  "Process env ulid [] line = NoMatch"
| "Process env ulid ((r, re) # rules) line =
     (if ru_source r \<noteq> [] \<and> ru_source r \<noteq> ll_source line then Process env ulid rules line
      else
        (case re_find re (ll_message line) of
           None \<Rightarrow> Process env ulid rules line
         | Some match \<Rightarrow>
             (case namedGroups re match of
                None \<Rightarrow> GroupsPanic
              | Some attrs0 \<Rightarrow>
                  let attrs = fold (enrich (ee_rd env) (ee_enrichers env)) (em_enrich (ru_emit r)) attrs0 in
                  (case buildEvent (ee_render env) (ee_sha env) ulid r line attrs of
                     None \<Rightarrow> RuleFailed (ru_id r)
                   | Some e \<Rightarrow> Extracted e))))"

fun_cases Process_ExtractedE: "Process env ulid rules line = Extracted e"

subsection \<open>First match, and what it yields\<close>

definition applies :: "logLine \<Rightarrow> compiled \<Rightarrow> bool" where
  "applies line c \<longleftrightarrow>
     (case c of (r, re) \<Rightarrow> (ru_source r = [] \<or> ru_source r = ll_source line) \<and> re_find re (ll_message line) \<noteq> None)"

text \<open>The documented behaviour of \<open>regexp\<close>: one submatch per group name.\<close>

definition groups_ok :: "compiled list \<Rightarrow> bool" where
  "groups_ok rules \<longleftrightarrow> (\<forall>(r, re) \<in> set rules. \<forall>m ms. re_find re m = Some ms \<longrightarrow> length ms = length (re_names re))"

definition attrs_of :: "engine_env \<Rightarrow> compiled \<Rightarrow> logLine \<Rightarrow> labels" where
  "attrs_of env c line =
     (case c of (r, re) \<Rightarrow>
       (case re_find re (ll_message line) of
          None \<Rightarrow> []
        | Some match \<Rightarrow>
            (case namedGroups re match of
               None \<Rightarrow> []
             | Some attrs0 \<Rightarrow> fold (enrich (ee_rd env) (ee_enrichers env)) (em_enrich (ru_emit r)) attrs0)))"

lemma Process_first:
  assumes "groups_ok rules"
  shows "Process env ulid rules line =
    (case List.find (applies line) rules of
       None \<Rightarrow> NoMatch
     | Some (r, re) \<Rightarrow>
         (case buildEvent (ee_render env) (ee_sha env) ulid r line (attrs_of env (r, re) line) of
            None \<Rightarrow> RuleFailed (ru_id r)
          | Some e \<Rightarrow> Extracted e))"
  using assms
proof (induction rules)
  case (Cons c rules)
  obtain r re where c: "c = (r, re)" by fastforce
  have g: "groups_ok rules" using Cons.prems by (simp add: groups_ok_def)
  show ?case
  proof (cases "applies line c")
    case False
    then show ?thesis using Cons.IH [OF g] c by (auto simp: applies_def split: option.splits)
  next
    case True
    then obtain ms where ms: "re_find re (ll_message line) = Some ms" "ru_source r = [] \<or> ru_source r = ll_source line"
      using c by (auto simp: applies_def)
    have "length ms = length (re_names re)" using Cons.prems c ms(1) by (auto simp: groups_ok_def)
    then have n: "namedGroups re ms \<noteq> None" by (simp add: namedGroups_def)
    show ?thesis using True ms n c by (auto simp: attrs_of_def Let_def)
  qed
qed simp

lemma cut_first_match:
  "List.find P (pre @ x # post) = Some x" if "P x" "\<not> list_ex P pre"
  using that by (induction pre) auto

lemma fingerprint_cong:
  assumes "em_fingerprintFields (ru_emit r) \<noteq> []"
    and "\<And>f. f \<in> set (em_fingerprintFields (ru_emit r)) \<Longrightarrow> lget attrs f = lget attrs' f"
  shows "fingerprint h r attrs = fingerprint h r attrs'"
proof -
  have "map (\<lambda>f. [us] @ f @ ''='' @ lget attrs f) (em_fingerprintFields (ru_emit r)) =
      map (\<lambda>f. [us] @ f @ ''='' @ lget attrs' f) (em_fingerprintFields (ru_emit r))"
    using assms(2) by simp
  then show ?thesis using assms(1) unfolding fingerprint_def Let_def if_not_P [OF assms(1)] by metis
qed

lemma fingerprint_perm:
  assumes "is_map attrs" "mset attrs = mset attrs'"
  shows "fingerprint h r attrs = fingerprint h r attrs'"
proof -
  have "mset (map fst attrs) = mset (map fst attrs')" using assms(2) by simp
  then have "sort (map fst attrs') = sort (map fst attrs)" by (metis properties_for_sort sorted_sort mset_sort)
  moreover have "lget attrs' = lget attrs" using map_of_perm [OF assms] by (simp add: lget_def fun_eq_iff)
  ultimately show ?thesis by (simp add: fingerprint_def)
qed

lemma buildEvent_fields:
  assumes "buildEvent render h ulid r line attrs = Some e"
  shows "ev_id e = ulid" "ev_hostID e = ll_hostID line" "ev_source e = ll_source line" "ev_ts e = ll_ts line"
    "ev_type e = em_type (ru_emit r)" "ev_severity e = em_severity (ru_emit r)" "ev_attrs e = attrs"
    "ev_fingerprint e = fingerprint h r attrs" "ev_schema e = CurrentSchemaVersion"
    "em_type (ru_emit r) \<noteq> [] \<Longrightarrow> ev_title e \<noteq> []"
  using assms by (auto simp: buildEvent_def Let_def split: option.splits if_splits)

lemma buildEvent_valid:
  assumes "buildEvent render h ulid r line attrs = Some e"
    and "LogLine_Validate line = None \<and> ulid \<noteq> [] \<and> Severity_valid (em_severity (ru_emit r)) \<and> CHR ''.'' \<in> set (em_type (ru_emit r))"
  shows "Event_Validate e = None"
proof -
  have "em_type (ru_emit r) \<noteq> []" using assms(2) by auto
  moreover have "ll_hostID line \<noteq> []" "ll_source line \<noteq> []" "\<not> is_zero_time (ll_ts line)"
    using assms(2) by (auto simp: LogLine_Validate_def split: if_splits)
  ultimately show ?thesis
    using assms(2) by (simp add: Event_Validate_def buildEvent_fields [OF assms(1)] CurrentSchemaVersion_def)
qed

subsection \<open>Claims\<close>


definition sample_rule :: rule where
  "sample_rule = \<lparr>ru_id = ''segv'', ru_source = ''kernel'', ru_match = ''x'',
     ru_emit = \<lparr>em_type = ''hw.segfault'', em_severity = ''error'', em_title = [], em_enrich = [], em_fingerprintFields = [''comm'']\<rparr>\<rparr>"

definition sample_regex :: regex where
  "sample_regex = \<lparr>re_find = (\<lambda>m. if has_prefix m ''segv '' then Some [m, drop 5 m] else None), re_names = [[], ''comm'']\<rparr>"

definition sample_env :: engine_env where
  "sample_env = \<lparr>ee_rd = (\<lambda>_. None), ee_render = (\<lambda>t _. Some t), ee_sha = (\<lambda>s. s), ee_enrichers = DefaultEnrichers\<rparr>"

definition kernel_line :: logLine where
  "kernel_line = \<lparr>ll_ts = 1, ll_hostID = ''h'', ll_source = ''kernel'', ll_stream = [], ll_unitOrContainer = [], ll_level = [],
     ll_pid = 0, ll_message = ''segv nginx''\<rparr>"


text \<open>
  Recurrences share a fingerprint (ADR-0006): two events of a rule that names its fingerprint fields have the
  same fingerprint whenever these fields agree, whatever else differs; and without named fields the fingerprint
  does not depend on the order in which the attributes are iterated.
\<close>

theorem fingerprint_recurrence:
  assumes "buildEvent render h u r line attrs = Some e" "buildEvent render h u' r line' attrs' = Some e'"
  shows "(em_fingerprintFields (ru_emit r) \<noteq> [] \<and>
      (\<forall>f \<in> set (em_fingerprintFields (ru_emit r)). lget attrs f = lget attrs' f) \<longrightarrow>
      ev_fingerprint e = ev_fingerprint e') \<and>
    (is_map attrs \<and> mset attrs = mset attrs' \<longrightarrow> ev_fingerprint e = ev_fingerprint e')"
proof -
  note fp = buildEvent_fields(8) [OF assms(1)] buildEvent_fields(8) [OF assms(2)]
  show ?thesis unfolding fp using fingerprint_cong [of r attrs attrs' h] fingerprint_perm [of attrs attrs' h r] by auto
qed

theorem fingerprint_recurrence_witness:
  "\<exists>e e'. buildEvent (\<lambda>t _. Some t) (\<lambda>s. s) ''a'' sample_rule kernel_line [(''comm'', ''x''), (''pid'', ''1'')] = Some e \<and>
     buildEvent (\<lambda>t _. Some t) (\<lambda>s. s) ''b'' sample_rule kernel_line [(''pid'', ''2''), (''comm'', ''x'')] = Some e' \<and>
     ev_fingerprint e = ev_fingerprint e'"
proof -
  obtain e e' where e: "buildEvent (\<lambda>t _. Some t) (\<lambda>s. s) ''a'' sample_rule kernel_line [(''comm'', ''x''), (''pid'', ''1'')] = Some e"
    "buildEvent (\<lambda>t _. Some t) (\<lambda>s. s) ''b'' sample_rule kernel_line [(''pid'', ''2''), (''comm'', ''x'')] = Some e'"
    by (simp add: buildEvent_def renderTitle_def sample_rule_def)
  from fingerprint_recurrence [OF e] e show ?thesis by (auto simp: sample_rule_def lget_def)
qed

end
