(* ===== verification/Metricstore.thy ===== *)
theory Metricstore
  imports Schema "HOL-Library.Product_Lexorder"
begin

text \<open>
  Metric storage, \<open>internal/metricstore\<close>: the wrapper around the embedded time series database (\<open>metricstore.go\<close>)
  and downsampling (\<open>downsample.go\<close>).  The database is an argument: \<open>db_append\<close> and \<open>db_select\<close>.  Floating point
  values have IEEE 754's special values; \<open>rnd\<close> rounds an exact result (\<open>Fin\<close>: exact arithmetic).
\<close>

subsection \<open>Arithmetic on float64\<close>

fun f_add :: "(rat \<Rightarrow> gofloat) \<Rightarrow> gofloat \<Rightarrow> gofloat \<Rightarrow> gofloat" where
  "f_add rnd NaN y = NaN"
| "f_add rnd x NaN = NaN"
| "f_add rnd PosInf NegInf = NaN"
| "f_add rnd NegInf PosInf = NaN"
| "f_add rnd PosInf y = PosInf"
| "f_add rnd x PosInf = PosInf"
| "f_add rnd NegInf y = NegInf"
| "f_add rnd x NegInf = NegInf"
| "f_add rnd (Fin a) (Fin b) = rnd (a + b)"

text \<open>Division by a positive count.\<close>

fun f_div_count :: "(rat \<Rightarrow> gofloat) \<Rightarrow> gofloat \<Rightarrow> nat \<Rightarrow> gofloat" where
  "f_div_count rnd (Fin a) n = rnd (a / of_nat n)"
| "f_div_count rnd x n = x"

subsection \<open>The store (metricstore.go)\<close>

datatype resolution = ResolutionRaw | Resolution1m | Resolution5m

definition BucketWidth :: "resolution \<Rightarrow> duration option" where
  "BucketWidth r = (case r of ResolutionRaw \<Rightarrow> None | Resolution1m \<Rightarrow> Some minute | Resolution5m \<Rightarrow> Some (5 * minute))"

definition DefaultRetention :: "resolution \<Rightarrow> duration" where
  "DefaultRetention r =
     (case r of ResolutionRaw \<Rightarrow> 7 * 24 * hour | Resolution1m \<Rightarrow> 90 * 24 * hour | Resolution5m \<Rightarrow> 2 * 365 * 24 * hour)"

record 'db tsdb =
  db_append :: "labels \<Rightarrow> int \<Rightarrow> gofloat \<Rightarrow> 'db \<Rightarrow> string + 'db"
  db_select :: "int \<Rightarrow> int \<Rightarrow> string \<Rightarrow> 'db \<Rightarrow> string + (labels \<times> (int \<times> gofloat) list) list"

record msample =
  ms_labels :: labels
  ms_timestamp :: time
  ms_value :: gofloat

datatype store_error = InvalidMetric schema_error | AppendError string | QueryError string | NoBucketWidth

definition toLabels :: "metric \<Rightarrow> labels" where
  "toLabels m =
     sort_key fst (fold (\<lambda>(k, v) l. AList.update k v l)
       ([(''__name__'', me_name m), (''host_id'', me_hostID m)] @ me_labels m) [])"

definition metric_Append :: "'db tsdb \<Rightarrow> metric \<Rightarrow> 'db \<Rightarrow> store_error option \<times> 'db" where
  "metric_Append T m db =
     (case Metric_Validate m of
        Some e \<Rightarrow> (Some (InvalidMetric e), db)
      | None \<Rightarrow>
          (case db_append T (toLabels m) (unix_milli (me_timestamp m)) (me_value m) db of
             Inl e \<Rightarrow> (Some (AppendError e), db)
           | Inr db' \<Rightarrow> (None, db')))"

definition Query :: "'db tsdb \<Rightarrow> string \<Rightarrow> time \<Rightarrow> time \<Rightarrow> 'db \<Rightarrow> store_error + msample list" where
  "Query T name from to db =
     (case db_select T (unix_milli from) (unix_milli to) name db of
        Inl e \<Rightarrow> Inl (QueryError e)
      | Inr ss \<Rightarrow>
          Inr (concat (map (\<lambda>(lbls, pts).
            map (\<lambda>(t, v). \<lparr>ms_labels = lbls, ms_timestamp = from_unix_milli t, ms_value = v\<rparr>) pts) ss)))"

subsection \<open>Downsampling (downsample.go)\<close>

text \<open>\<open>Time.Truncate\<close> rounds down to a multiple of the width since the zero time.\<close>

definition time_Truncate :: "time \<Rightarrow> duration \<Rightarrow> time" where
  "time_Truncate t d = t - (t - time_zero) mod d"

definition seriesLabelKey :: "labels \<Rightarrow> string" where
  "seriesLabelKey lbls = concat (map (\<lambda>k. k @ ''='' @ lget lbls k @ '';'') (sort (map fst lbls)))"

type_synonym bucketKey = "string \<times> int"

definition bucket_of :: "duration \<Rightarrow> msample \<Rightarrow> bucketKey" where
  "bucket_of width s = (seriesLabelKey (ms_labels s), unix_milli (time_Truncate (ms_timestamp s) width))"

record buckets =
  bu_sums :: "(bucketKey \<times> gofloat) list"
  bu_counts :: "(bucketKey \<times> nat) list"
  bu_labels :: "(string \<times> labels) list"

definition add_sample :: "(rat \<Rightarrow> gofloat) \<Rightarrow> duration \<Rightarrow> msample \<Rightarrow> buckets \<Rightarrow> buckets" where
  "add_sample rnd width s b =
     (let bk = bucket_of width s;
          sum0 = (case map_of (bu_sums b) bk of None \<Rightarrow> Fin 0 | Some x \<Rightarrow> x);
          n0 = (case map_of (bu_counts b) bk of None \<Rightarrow> 0 | Some n \<Rightarrow> n) in
      \<lparr>bu_sums = AList.update bk (f_add rnd sum0 (ms_value s)) (bu_sums b),
       bu_counts = AList.update bk (n0 + 1) (bu_counts b),
       bu_labels = AList.update (fst bk) (ms_labels s) (bu_labels b)\<rparr>)"

definition fill_buckets :: "(rat \<Rightarrow> gofloat) \<Rightarrow> duration \<Rightarrow> msample list \<Rightarrow> buckets" where
  "fill_buckets rnd width samples = fold (add_sample rnd width) samples \<lparr>bu_sums = [], bu_counts = [], bu_labels = []\<rparr>"

definition bucket_metric :: "(rat \<Rightarrow> gofloat) \<Rightarrow> string \<Rightarrow> buckets \<Rightarrow> bucketKey \<Rightarrow> metric" where
  "bucket_metric rnd name b bk =
     (let lbls = (case map_of (bu_labels b) (fst bk) of None \<Rightarrow> [] | Some l \<Rightarrow> l) in
      \<lparr>me_name = name, me_hostID = lget lbls ''host_id'',
       me_labels = filter (\<lambda>(k, _). k \<noteq> ''host_id'' \<and> k \<noteq> ''__name__'') lbls,
       me_value = f_div_count rnd (the (map_of (bu_sums b) bk)) (the (map_of (bu_counts b) bk)),
       me_timestamp = from_unix_milli (snd bk)\<rparr>)"

fun append_all :: "'db tsdb \<Rightarrow> metric list \<Rightarrow> nat \<Rightarrow> 'db \<Rightarrow> nat \<times> store_error option \<times> 'db" where
  "append_all T [] written db = (written, None, db)"
| "append_all T (m # ms) written db =
     (case metric_Append T m db of
        (Some e, db') \<Rightarrow> (written, Some e, db')
      | (None, db') \<Rightarrow> append_all T ms (written + 1) db')"

definition Downsample ::
  "(rat \<Rightarrow> gofloat) \<Rightarrow> 'a tsdb \<Rightarrow> 'db tsdb \<Rightarrow> resolution \<Rightarrow> string \<Rightarrow> time \<Rightarrow> time \<Rightarrow> 'a \<Rightarrow> 'db \<Rightarrow> nat \<times> store_error option \<times> 'db" where
  "Downsample rnd S T res name from to src dst =
     (case BucketWidth res of
        None \<Rightarrow> (0, Some NoBucketWidth, dst)
      | Some width \<Rightarrow>
          (case Query S name from to src of
             Inl e \<Rightarrow> (0, Some e, dst)
           | Inr samples \<Rightarrow>
               if samples = [] then (0, None, dst)
               else
                 let b = fill_buckets rnd width samples in
                 append_all T (map (bucket_metric rnd name b) (sort (map fst (bu_sums b)))) 0 dst))"

subsection \<open>What the buckets hold\<close>

definition in_bucket :: "duration \<Rightarrow> msample list \<Rightarrow> bucketKey \<Rightarrow> msample list" where
  "in_bucket width samples bk = filter (\<lambda>s. bucket_of width s = bk) samples"

lemma fill_snoc: "fill_buckets rnd w (ss @ [s]) = add_sample rnd w s (fill_buckets rnd w ss)"
  by (simp add: fill_buckets_def)

lemma in_bucket_snoc: "in_bucket w (ss @ [s]) bk = in_bucket w ss bk @ (if bucket_of w s = bk then [s] else [])"
  by (simp add: in_bucket_def)

lemma fill_counts:
  "map_of (bu_counts (fill_buckets rnd w ss)) bk =
     (if in_bucket w ss bk = [] then None else Some (length (in_bucket w ss bk)))"
proof (induction ss rule: rev_induct)
  case (snoc s ss)
  then show ?case by (auto simp: fill_snoc add_sample_def Let_def in_bucket_snoc update_conv' split: option.splits if_splits)
qed (simp add: fill_buckets_def in_bucket_def)

lemma fill_sums:
  "map_of (bu_sums (fill_buckets rnd w ss)) bk =
     (if in_bucket w ss bk = [] then None
      else Some (fold (\<lambda>s acc. f_add rnd acc (ms_value s)) (in_bucket w ss bk) (Fin 0)))"
proof (induction ss rule: rev_induct)
  case (snoc s ss)
  then show ?case by (auto simp: fill_snoc add_sample_def Let_def in_bucket_snoc update_conv' split: option.splits if_splits)
qed (simp add: fill_buckets_def in_bucket_def)

lemma fill_distinct: "distinct (map fst (bu_sums (fill_buckets rnd w ss)))"
proof (induction ss rule: rev_induct)
  case (snoc s ss)
  then show ?case by (simp add: fill_snoc add_sample_def Let_def distinct_update)
qed (simp add: fill_buckets_def)

lemma fill_keys: "set (map fst (bu_sums (fill_buckets rnd w ss))) = bucket_of w ` set ss"
proof -
  have "bk \<in> set (map fst (bu_sums (fill_buckets rnd w ss))) \<longleftrightarrow> in_bucket w ss bk \<noteq> []" for bk
    using map_of_eq_None_iff [of "bu_sums (fill_buckets rnd w ss)" bk] fill_sums [of rnd w ss bk] by auto
  moreover have "in_bucket w ss bk \<noteq> [] \<longleftrightarrow> bk \<in> bucket_of w ` set ss" for bk
    by (auto simp: in_bucket_def filter_empty_conv)
  ultimately show ?thesis by blast
qed

lemma fold_sum_exact:
  "list_all (\<lambda>s. \<exists>q. ms_value s = Fin q) ss \<Longrightarrow>
   fold (\<lambda>s acc. f_add Fin acc (ms_value s)) ss (Fin a) = Fin (a + (\<Sum>s\<leftarrow>ss. case ms_value s of Fin q \<Rightarrow> q | _ \<Rightarrow> 0))"
  by (induction ss arbitrary: a) auto

definition value_of :: "msample \<Rightarrow> rat" where
  "value_of s = (case ms_value s of Fin q \<Rightarrow> q | _ \<Rightarrow> 0)"

definition finite_value :: "msample \<Rightarrow> bool" where
  "finite_value s \<longleftrightarrow> (case ms_value s of Fin q \<Rightarrow> True | _ \<Rightarrow> False)"

definition mean :: "msample list \<Rightarrow> rat" where
  "mean ss = (\<Sum>s\<leftarrow>ss. value_of s) / of_nat (length ss)"

lemma finite_value_iff: "finite_value s \<longleftrightarrow> (\<exists>q. ms_value s = Fin q)"
  by (cases "ms_value s") (simp_all add: finite_value_def)

lemma bucket_value:
  assumes "list_all finite_value ss" "in_bucket w ss bk \<noteq> []"
  shows "me_value (bucket_metric Fin name (fill_buckets Fin w ss) bk) = Fin (mean (in_bucket w ss bk))"
proof -
  have "list_all (\<lambda>s. \<exists>q. ms_value s = Fin q) (in_bucket w ss bk)"
    using assms(1) finite_value_iff by (auto simp: list_all_iff in_bucket_def)
  from fold_sum_exact [OF this, of 0] assms(2) show ?thesis
    by (simp add: bucket_metric_def Let_def fill_sums fill_counts mean_def value_of_def)
qed

lemma Truncate_window: "0 < d \<Longrightarrow> time_Truncate t d \<le> t \<and> t < time_Truncate t d + d"
  by (simp add: time_Truncate_def pos_mod_bound)

lemma append_all_count:
  "append_all T ms k db = (n, e, db') \<Longrightarrow> k \<le> n \<and> n \<le> k + length ms \<and> (e = None \<longleftrightarrow> n = k + length ms)"
proof (induction ms arbitrary: k db)
  case (Cons m ms)
  show ?case
  proof (cases "metric_Append T m db")
    case (Pair r db1)
    then show ?thesis using Cons.prems Cons.IH [of "k + 1" db1] by (cases r) auto
  qed
qed simp

subsection \<open>Claims\<close>


definition list_db :: "(labels \<times> int \<times> gofloat) list tsdb" where
  "list_db = \<lparr>db_append = (\<lambda>l t v db. Inr (db @ [(l, t, v)])),
     db_select = (\<lambda>_ _ name db. Inr (map (\<lambda>(l, t, v). (l, [(t, v)])) db))\<rparr>"

definition sample_points :: "(labels \<times> int \<times> gofloat) list" where
  "sample_points = [([(''host_id'', ''h'')], 60000, Fin 1), ([(''host_id'', ''h'')], 61000, Fin 3)]"


end
