(* ===== verification/Dirlist.thy ===== *)
theory Dirlist
  imports Wal_Inv Gopath Strconv
begin

text \<open>
  Directories of a disk whose files are known by their full path: what \<open>os.ReadDir\<close> lists.  A directory that does
  not exist is one with no files, which the callers here treat alike.
\<close>

text \<open>The names of the files directly in a directory, as \<open>os.ReadDir\<close> lists them.\<close>

definition name_in :: "string \<Rightarrow> string \<Rightarrow> string option" where
  "name_in dir p =
     (let pre = Clean dir @ ''/'' in
      if has_prefix p pre \<and> CHR ''/'' \<notin> set (drop (length pre) p) then Some (drop (length pre) p) else None)"

definition dir_names :: "string \<Rightarrow> disk \<Rightarrow> string list" where
  "dir_names dir d = sort (List.map_filter (name_in dir) (map fst (dk_files d)))"

lemma name_in_rooted:
  assumes "bs \<noteq> []" "list_all plain_elem bs"
  shows "name_in (rooted_dir bs) p = Some f \<longleftrightarrow> p = rooted_dir bs @ CHR ''/'' # f \<and> CHR ''/'' \<notin> set f"
  by (auto simp: name_in_def Let_def Clean_rooted [OF assms] has_prefix_iff)

lemma dir_names_iff:
  assumes "bs \<noteq> []" "list_all plain_elem bs"
  shows "f \<in> set (dir_names (rooted_dir bs) d) \<longleftrightarrow> content d (rooted_dir bs @ CHR ''/'' # f) \<noteq> None \<and> CHR ''/'' \<notin> set f"
proof -
  have "f \<in> set (List.map_filter g xs) \<longleftrightarrow> (\<exists>x \<in> set xs. g x = Some f)" for g :: "string \<Rightarrow> string option" and xs
    by (force simp: List.map_filter_def image_iff)
  then show ?thesis unfolding content_dom by (auto simp: dir_names_def name_in_rooted [OF assms] image_iff)
qed

end
