(* ===== verification/Kernel_Msgs.thy ===== *)
theory Kernel_Msgs
  imports Dirlist
begin

text \<open>
  What is left of a machine that crashed: kernel messages received over the network (\<open>internal/netconsole\<close>) and crash
  dumps kept in firmware memory (\<open>internal/pstore\<close>).  The two fixed regular expressions of netconsole are matchers
  written out; each has at most one match.  The pstore directory is a directory of the \<open>disk\<close>.
\<close>

subsection \<open>Kernel messages over UDP (netconsole.go)\<close>

definition is_trailer :: "char \<Rightarrow> bool" where
  "is_trailer c \<longleftrightarrow> c = nl \<or> c = CHR 0x00"

definition trim_trailer :: "string \<Rightarrow> string" where
  "trim_trailer s = rev (dropWhile is_trailer (rev s))"

text \<open>\<open>(\d+)\<close> followed by the character \<open>sep\<close>.\<close>

definition digits_then :: "char \<Rightarrow> string \<Rightarrow> (string \<times> string) option" where
  "digits_then sep s =
     (let ds = takeWhile is_digit s; rest = dropWhile is_digit s in
      if ds \<noteq> [] \<and> rest \<noteq> [] \<and> hd rest = sep then Some (ds, tl rest) else None)"

text \<open>The first and the last group of \<open>^(\d+),(\d+),(\d+),([^;]*);(.*)$\<close>; a dot does not match a newline.\<close>

definition extendedFormat :: "string \<Rightarrow> (string \<times> string) option" where
  "extendedFormat s =
     (case digits_then (CHR '','') s of
        None \<Rightarrow> None
      | Some (pri, s1) \<Rightarrow>
          (case digits_then (CHR '','') s1 of
             None \<Rightarrow> None
           | Some (_, s2) \<Rightarrow>
               (case digits_then (CHR '','') s2 of
                  None \<Rightarrow> None
                | Some (_, s3) \<Rightarrow>
                    let rest = dropWhile (\<lambda>c. c \<noteq> CHR '';'') s3 in
                    if rest = [] \<or> nl \<in> set rest then None else Some (pri, tl rest))))"

text \<open>The groups of \<open>^<(\d)>(.*)$\<close>.\<close>

fun basicFormat :: "string \<Rightarrow> (string \<times> string) option" where
  "basicFormat (a # d # b # msg) =
     (if a = CHR ''<'' \<and> is_digit d \<and> b = CHR ''>'' \<and> nl \<notin> set msg then Some ([d], msg) else None)"
| "basicFormat _ = None"

definition syslogLevels :: "(int \<times> string) list" where
  "syslogLevels = [(0, ''emerg''), (1, ''alert''), (2, ''critical''), (3, ''error''),
     (4, ''warning''), (5, ''notice''), (6, ''info''), (7, ''debug'')]"

definition syslogLevel :: "int \<Rightarrow> string" where
  "syslogLevel n = (case map_of syslogLevels n of None \<Rightarrow> [] | Some l \<Rightarrow> l)"

definition parse_extended :: "string \<Rightarrow> (string \<times> string) option" where
  "parse_extended s =
     (case extendedFormat s of
        None \<Rightarrow> None
      | Some (pri, m) \<Rightarrow>
          (case Atoi pri of
             None \<Rightarrow> None
           | Some n \<Rightarrow> if trim_space m = [] then None else Some (trim_space m, syslogLevel (n mod 8))))"

definition parse_basic :: "string \<Rightarrow> (string \<times> string) option" where
  "parse_basic s =
     (case basicFormat s of
        None \<Rightarrow> None
      | Some (lvl, m) \<Rightarrow>
          (case Atoi lvl of
             None \<Rightarrow> None
           | Some n \<Rightarrow> if trim_space m = [] then None else Some (trim_space m, syslogLevel n)))"

definition parseNetconsoleMessage :: "string \<Rightarrow> string \<times> string" where
  "parseNetconsoleMessage packet =
     (let s = trim_trailer packet in
      if s = [] then ([], [])
      else
        (case parse_extended s of
           Some r \<Rightarrow> r
         | None \<Rightarrow> (case parse_basic s of Some r \<Rightarrow> r | None \<Rightarrow> (s, []))))"

text \<open>The address is its text, \<open>addr.IP.String()\<close>; a missing resolver is \<open>None\<close>.\<close>

definition decode :: "(string \<Rightarrow> string) option \<Rightarrow> string \<Rightarrow> string \<Rightarrow> time \<Rightarrow> logLine option" where
  "decode resolver packet addr now =
     (case parseNetconsoleMessage packet of (msg, level) \<Rightarrow>
        if msg = [] then None
        else
          let h0 = (case resolver of None \<Rightarrow> [] | Some r \<Rightarrow> r addr);
              hostID = (if h0 = [] then addr else h0) in
          Some \<lparr>ll_ts = now, ll_hostID = hostID, ll_source = ''kernel_remote'', ll_stream = [],
            ll_unitOrContainer = [], ll_level = level, ll_pid = 0, ll_message = msg\<rparr>)"

datatype serve_error = ContextDone | ReadingPacket string

text \<open>
  \<open>Serve\<close> over the packets that arrive before the read fails; \<open>stop\<close> is the failure, \<open>None\<close> when the context is done.
  The error of the receiver is ignored.
\<close>

fun Serve ::
  "('s \<Rightarrow> logLine \<Rightarrow> 's) \<Rightarrow> (string \<Rightarrow> string) option \<Rightarrow> (string \<times> string \<times> time) list \<Rightarrow> string option \<Rightarrow> 's \<Rightarrow> serve_error \<times> 's" where
  "Serve recv resolver [] stop s = (case stop of None \<Rightarrow> ContextDone | Some e \<Rightarrow> ReadingPacket e, s)"
| "Serve recv resolver ((packet, addr, now) # ps) stop s =
     (case decode resolver packet addr now of
        None \<Rightarrow> Serve recv resolver ps stop s
      | Some line \<Rightarrow> Serve recv resolver ps stop (recv s line))"

subsection \<open>Crash dumps (pstore.go)\<close>

definition MaxExcerptBytes :: nat where
  "MaxExcerptBytes = 4000"

record dumpEntry =
  de_name :: string
  de_path :: string
  de_content :: string

definition isDmesgEntry :: "string \<Rightarrow> bool" where
  "isDmesgEntry name \<longleftrightarrow> has_prefix name ''dmesg-''"

fun list_entries :: "string \<Rightarrow> string list \<Rightarrow> disk \<Rightarrow> dumpEntry list \<times> disk" where
  "list_entries dir [] d = ([], d)"
| "list_entries dir (n # ns) d =
     (case read_file (Join [dir, n]) d of
        (Inl _, d1) \<Rightarrow> list_entries dir ns d1
      | (Inr c, d1) \<Rightarrow>
          (case list_entries dir ns d1 of
             (es, d2) \<Rightarrow> (\<lparr>de_name = n, de_path = Join [dir, n], de_content = c\<rparr> # es, d2)))"

definition pstore_List :: "string \<Rightarrow> disk \<Rightarrow> (io_error + dumpEntry list) \<times> disk" where
  "pstore_List dir d =
     (case next_call d of
        (Some _, d1) \<Rightarrow> (Inl EIO, d1)
      | (None, d1) \<Rightarrow> apfst Inr (list_entries dir (sort (filter isDmesgEntry (dir_names dir d1))) d1))"

definition ToEvent :: "string \<Rightarrow> string \<Rightarrow> dumpEntry \<Rightarrow> time \<Rightarrow> event" where
  "ToEvent ulid hostID e now =
     (let truncated = MaxExcerptBytes < length (de_content e);
          excerpt = (if truncated then take MaxExcerptBytes (de_content e) else de_content e);
          attrs = [(''pstore_file'', de_name e), (''size_bytes'', itoa (length (de_content e))), (''excerpt'', excerpt)]
                  @ (if truncated then [(''excerpt_truncated'', ''true'')] else []) in
      \<lparr>ev_id = ulid, ev_ts = now, ev_tsReceived = time_zero, ev_hostID = hostID, ev_source = ''pstore'',
       ev_type = ''kernel.crash_dump'', ev_severity = ''critical'',
       ev_title = ''kernel crash dump recovered from pstore ('' @ de_name e @ '')'',
       ev_subject = \<lparr>es_kind = ''kernel'', es_name = ''pstore'', es_pid = 0\<rparr>, ev_attrs = attrs,
       ev_fingerprint = [], ev_logRefs = [], ev_schema = CurrentSchemaVersion\<rparr>)"

text \<open>\<open>ulids i\<close> is the identifier drawn for the \<open>i\<close>-th event.\<close>

fun consume_loop ::
  "(nat \<Rightarrow> string) \<Rightarrow> string \<Rightarrow> time \<Rightarrow> nat \<Rightarrow> dumpEntry list \<Rightarrow> disk \<Rightarrow> event list \<times> io_error list \<times> disk" where
  "consume_loop ulids hostID now i [] d = ([], [], d)"
| "consume_loop ulids hostID now i (e # es) d =
     (case remove_file (de_path e) d of (r, d1) \<Rightarrow>
        (case consume_loop ulids hostID now (Suc i) es d1 of (evs, errs, d2) \<Rightarrow>
           (ToEvent (ulids i) hostID e now # evs, (case r of None \<Rightarrow> errs | Some x \<Rightarrow> x # errs), d2)))"

definition Consume ::
  "(nat \<Rightarrow> string) \<Rightarrow> string \<Rightarrow> string \<Rightarrow> time \<Rightarrow> disk \<Rightarrow> event list \<times> io_error list \<times> disk" where
  "Consume ulids dir hostID now d =
     (case pstore_List dir d of
        (Inl e, d1) \<Rightarrow> ([], [e], d1)
      | (Inr es, d1) \<Rightarrow> consume_loop ulids hostID now 0 es d1)"

subsection \<open>The packet formats\<close>

text \<open>The extended format as the kernel documents it.\<close>

definition extended_packet :: "nat \<Rightarrow> nat \<Rightarrow> nat \<Rightarrow> string \<Rightarrow> string \<Rightarrow> string" where
  "extended_packet pri seq ts flags msg =
     itoa pri @ CHR '','' # itoa seq @ CHR '','' # itoa ts @ CHR '','' # flags @ CHR '';'' # msg"

lemma digits_then_itoa: "\<not> is_digit sep \<Longrightarrow> digits_then sep (itoa n @ sep # s) = Some (itoa n, s)"
  using itoa_digits [of n] by (simp add: digits_then_def list_all_iff takeWhile_append2 dropWhile_append2)

lemma extendedFormat_printed:
  assumes "CHR '';'' \<notin> set flags" "nl \<notin> set msg"
  shows "extendedFormat (extended_packet pri seq ts flags msg) = Some (itoa pri, msg)"
proof -
  have "dropWhile (\<lambda>c. c \<noteq> CHR '';'') (flags @ CHR '';'' # msg) = CHR '';'' # msg"
    using assms(1) by (subst dropWhile_append2) auto
  moreover have "\<not> is_digit (CHR '','')" by (simp add: is_digit_def)
  ultimately show ?thesis using assms(2) by (simp add: extended_packet_def extendedFormat_def digits_then_itoa nl_def)
qed

lemma trim_trailer_append:
  assumes "s \<noteq> []" "\<not> is_trailer (last s)" "list_all is_trailer t"
  shows "trim_trailer (s @ t) = s"
proof -
  have "dropWhile is_trailer (rev t @ rev s) = rev s"
    using assms by (subst dropWhile_append2) (auto simp: list_all_iff hd_rev dropWhile_eq_self_iff)
  then show ?thesis by (simp add: trim_trailer_def)
qed

lemma trim_trailer_empty: "trim_trailer s = [] \<longleftrightarrow> list_all is_trailer s"
  by (auto simp: trim_trailer_def list_all_iff)

lemma parse_extended_some: "parse_extended s = Some (m, l) \<Longrightarrow> m \<noteq> []"
  by (auto simp: parse_extended_def split: option.splits if_splits)

lemma parse_basic_some: "parse_basic s = Some (m, l) \<Longrightarrow> m \<noteq> []"
  by (auto simp: parse_basic_def split: option.splits if_splits)

lemma parse_empty: "fst (parseNetconsoleMessage packet) = [] \<longleftrightarrow> list_all is_trailer packet"
  using parse_extended_some parse_basic_some
  by (auto simp: parseNetconsoleMessage_def Let_def trim_trailer_empty split: option.splits; force)

lemma syslogLevel_cases: "0 \<le> n \<Longrightarrow> n < 8 \<Longrightarrow> map_of syslogLevels n = Some (syslogLevel n)"
proof -
  assume "0 \<le> n" "n < 8"
  then have "n = 0 \<or> n = 1 \<or> n = 2 \<or> n = 3 \<or> n = 4 \<or> n = 5 \<or> n = 6 \<or> n = 7" by arith
  then show ?thesis by (auto simp: syslogLevel_def syslogLevels_def)
qed

lemma Serve_lines:
  "Serve recv resolver ps stop s =
     (case stop of None \<Rightarrow> ContextDone | Some e \<Rightarrow> ReadingPacket e,
      foldl recv s (List.map_filter (\<lambda>(packet, addr, now). decode resolver packet addr now) ps))"
  by (induction recv resolver ps stop s rule: Serve.induct) (auto simp: List.map_filter_simps split: option.splits)

text \<open>
  Kernel messages survive the network: a packet in the extended format the kernel prints, with any sequence number,
  time stamp, flags and trailing newlines or NULs, is decoded into a log line with the message, without surrounding
  white space, and the level that the priority encodes; a packet is dropped only if it is nothing but newlines and
  NULs; and the receiver is handed exactly the decoded packets in the order of arrival, whatever comes between.
\<close>

theorem netconsole_decodes:
  assumes "pri < 2 ^ 63" "CHR '';'' \<notin> set flags" "nl \<notin> set msg" "trim_space msg \<noteq> []" "last msg \<noteq> CHR 0x00"
    and "list_all is_trailer tail"
  shows "(\<exists>line. decode resolver (extended_packet pri seq ts flags msg @ tail) addr now = Some line \<and> ll_message line = trim_space msg \<and>
        map_of syslogLevels (int pri mod 8) = Some (ll_level line) \<and> ll_ts line = now \<and>
        ll_hostID line = (case resolver of None \<Rightarrow> addr | Some r \<Rightarrow> if r addr = [] then addr else r addr)) \<and>
    (\<forall>p. decode resolver p addr now = None \<longleftrightarrow> list_all is_trailer p) \<and>
    (\<forall>ps. snd (Serve (\<lambda>ls l. ls @ [l]) resolver ps stop []) =
       List.map_filter (\<lambda>(packet, addr, now). decode resolver packet addr now) ps)"
proof -
  let ?s = "extended_packet pri seq ts flags msg"
  have m: "msg \<noteq> []" using assms(4) by (auto simp: trim_space_def)
  then have "\<not> is_trailer (last ?s)" using assms(3,5) by (auto simp: is_trailer_def extended_packet_def dest: last_in_set)
  with trim_trailer_append [of ?s tail] assms(6) have tr: "trim_trailer (?s @ tail) = ?s"
    by (simp add: extended_packet_def)
  have at: "Atoi (itoa pri) = Some (int pri)" using Atoi_itoa_int [of "int pri"] assms(1) by (simp add: itoa_int_def)
  have "parse_extended ?s = Some (trim_space msg, syslogLevel (int pri mod 8))"
    using assms(4) by (simp add: parse_extended_def extendedFormat_printed [OF assms(2,3)] at)
  then have "parseNetconsoleMessage (?s @ tail) = (trim_space msg, syslogLevel (int pri mod 8))"
    by (simp add: parseNetconsoleMessage_def tr, simp add: extended_packet_def)
  then have "\<exists>line. decode resolver (extended_packet pri seq ts flags msg @ tail) addr now = Some line \<and> ll_message line = trim_space msg \<and>
      map_of syslogLevels (int pri mod 8) = Some (ll_level line) \<and> ll_ts line = now \<and>
      ll_hostID line = (case resolver of None \<Rightarrow> addr | Some r \<Rightarrow> if r addr = [] then addr else r addr)"
    using assms(4) by (simp add: decode_def Let_def syslogLevel_cases split: option.split)
  moreover have "decode resolver p addr now = None \<longleftrightarrow> list_all is_trailer p" for p
    using parse_empty [of p] by (auto simp: decode_def Let_def split: prod.splits)
  moreover have "foldl (\<lambda>ls l. ls @ [l]) acc ls = acc @ ls" for acc ls :: "logLine list"
    by (induction ls arbitrary: acc) simp_all
  ultimately show ?thesis by (simp add: Serve_lines)
qed

theorem netconsole_decodes_witness:
  "\<exists>line. decode None (extended_packet 11 7 42 ''-'' ''Oops'' @ [nl]) ''10.0.0.7'' 5 = Some line \<and> ll_message line = trim_space ''Oops''"
  using netconsole_decodes [of 11 "''-''" "''Oops''" "[nl]"]
  by (simp add: trim_space_def is_space_def nl_def is_trailer_def) blast

subsection \<open>No dump is lost\<close>

lemma list_entriesD:
  "list_entries dir ns d = (es, d') \<Longrightarrow>
   dk_files d' = dk_files d \<and> subseq (map de_name es) ns \<and>
   list_all (\<lambda>e. de_path e = Join [dir, de_name e] \<and> content d (de_path e) = Some (de_content e)) es"
proof (induction ns arbitrary: d es d')
  case (Cons n ns)
  obtain r d1 where r: "read_file (Join [dir, n]) d = (r, d1)" by fastforce
  obtain es1 d2 where l: "list_entries dir ns d1 = (es1, d2)" by fastforce
  note rd = read_fileD [OF r]
  have IH: "dk_files d2 = dk_files d" "subseq (map de_name es1) ns"
    "list_all (\<lambda>e. de_path e = Join [dir, de_name e] \<and> content d (de_path e) = Some (de_content e)) es1"
    using Cons.IH [OF l] rd(1) content_cong [OF rd(1)] by simp_all
  then show ?case using Cons.prems r l rd(2) by (cases r) auto
qed simp

lemma list_entries_quiet:
  "dk_faults d = [] \<Longrightarrow> list_all (\<lambda>n. content d (Join [dir, n]) \<noteq> None) ns \<Longrightarrow>
   \<exists>es. list_entries dir ns d = (es, d) \<and> map de_name es = ns"
  by (induction ns) (auto simp: read_file_quiet)

lemma consume_loopD:
  "consume_loop ulids hostID now i es d = (evs, errs, d') \<Longrightarrow>
   evs = map (\<lambda>(j, e). ToEvent (ulids j) hostID e now) (zip [i..<i + length es] es) \<and>
   (\<forall>p. content d' p = content d p \<or> content d' p = None \<and> p \<in> de_path ` set es)"
proof (induction es arbitrary: i d evs errs d')
  case (Cons e es)
  obtain r d1 where r: "remove_file (de_path e) d = (r, d1)" by fastforce
  obtain evs1 errs1 d2 where l: "consume_loop ulids hostID now (Suc i) es d1 = (evs1, errs1, d2)" by (metis prod_cases3)
  have "content d1 = content d \<or> content d1 = (content d)(de_path e := None)"
    using remove_fileD [OF r] content_cong [of d1 d] content_cong [of d1 "del_file (de_path e) d"] by (cases r) auto
  then have "content d' p = content d p \<or> content d' p = None \<and> p \<in> de_path ` set (e # es)" for p
    using conjunct2 [OF Cons.IH [OF l], THEN spec, of p] Cons.prems r l by (cases "p = de_path e") auto
  then show ?case using Cons.IH [OF l] Cons.prems r l by (simp add: upt_conv_Cons del: upt_Suc)
qed simp

lemma consume_loop_quiet:
  "dk_faults d = [] \<Longrightarrow> distinct (map de_path es) \<Longrightarrow> list_all (\<lambda>e. content d (de_path e) \<noteq> None) es \<Longrightarrow>
   \<exists>evs d'. consume_loop ulids hostID now i es d = (evs, [], d') \<and> dk_faults d' = [] \<and>
     list_all (\<lambda>e. content d' (de_path e) = None) es \<and> (\<forall>p. content d p = None \<longrightarrow> content d' p = None)"
proof (induction es arbitrary: i d)
  case (Cons e es)
  let ?d = "del_file (de_path e) d"
  have r: "remove_file (de_path e) d = (None, ?d)" using Cons.prems by (simp add: remove_file_quiet)
  have q: "dk_faults ?d = []" using Cons.prems(1) by (simp add: del_file_def)
  have "list_all (\<lambda>x. content ?d (de_path x) \<noteq> None) es"
    using Cons.prems(2,3) by (auto simp: list_all_iff) (metis image_eqI)
  with Cons.IH [OF q, of "Suc i"] Cons.prems(2) obtain evs d' where
    "consume_loop ulids hostID now (Suc i) es ?d = (evs, [], d')" "dk_faults d' = []"
    "list_all (\<lambda>e. content d' (de_path e) = None) es" "\<forall>p. content ?d p = None \<longrightarrow> content d' p = None"
    by auto
  then show ?case using r by auto
qed simp

lemma subseq_distinct: "subseq xs ys \<Longrightarrow> distinct ys \<Longrightarrow> distinct xs"
proof (induction rule: list_emb.induct)
  case (list_emb_Cons2 x y xs ys)
  have "set xs \<subseteq> set ys" using list_emb_set [OF list_emb_Cons2.hyps(2)] by blast
  then show ?case using list_emb_Cons2.hyps(1) list_emb_Cons2.IH list_emb_Cons2.prems by auto
qed simp_all

lemma dump_names:
  assumes "bs \<noteq> []" "list_all plain_elem bs"
  shows "n \<in> set (sort (filter isDmesgEntry (dir_names (rooted_dir bs) d))) \<longleftrightarrow>
      isDmesgEntry n \<and> CHR ''/'' \<notin> set n \<and> content d (rooted_dir bs @ CHR ''/'' # n) \<noteq> None"
  using dir_names_iff [OF assms, of n d] by auto

lemma dump_path:
  assumes "bs \<noteq> []" "list_all plain_elem bs" "isDmesgEntry n" "CHR ''/'' \<notin> set n"
  shows "Join [rooted_dir bs, n] = rooted_dir bs @ CHR ''/'' # n"
proof -
  have "plain_elem n" using assms(3,4) by (auto simp: plain_elem_def isDmesgEntry_def has_prefix_iff)
  then show ?thesis using Join_rooted(1) [OF assms(1,2), of "[n]"] assms(1) by (simp add: rooted_dir_def join_slash_snoc)
qed

lemma dir_names_distinct:
  assumes "bs \<noteq> []" "list_all plain_elem bs" "dir_ok d"
  shows "distinct (dir_names (rooted_dir bs) d)"
proof -
  have "distinct (List.map_filter (name_in (rooted_dir bs)) xs)" if "distinct xs" for xs
    using that
  proof (induction xs)
    case (Cons x xs)
    have "y \<noteq> z" if "name_in (rooted_dir bs) x = Some y" "w \<in> set xs" "name_in (rooted_dir bs) w = Some z" for w y z
      using that Cons.prems by (auto simp: name_in_rooted [OF assms(1,2)])
    then show ?case using Cons by (auto simp: List.map_filter_simps map_filter_def split: option.splits)
  qed (simp add: List.map_filter_simps)
  then show ?thesis using assms(3) by (simp add: dir_names_def dir_ok_def)
qed

abbreviation (input) dump_file :: "event \<Rightarrow> string" where
  "dump_file ev \<equiv> lget (ev_attrs ev) ''pstore_file''"

lemma dump_file_ToEvent [simp]: "dump_file (ToEvent u h e now) = de_name e"
  by (simp add: ToEvent_def Let_def lget_def)

lemma Consume_entries:
  assumes "Consume ulids dir hostID now d = (evs, errs, d')"
  obtains es where "evs = map (\<lambda>(j, e). ToEvent (ulids j) hostID e now) (zip [0..<length es] es)"
    "subseq (map de_name es) (sort (filter isDmesgEntry (dir_names dir d)))"
    "\<And>e. e \<in> set es \<Longrightarrow> de_path e = Join [dir, de_name e] \<and> content d (de_path e) = Some (de_content e)"
    "\<And>p. content d' p = content d p \<or> content d' p = None \<and> p \<in> de_path ` set es"
proof -
  obtain f d1 where n: "next_call d = (f, d1)" by fastforce
  note c1 = content_cong [OF next_callD [OF n]]
  show ?thesis
  proof (cases f)
    case (Some k)
    then show ?thesis using assms n c1 by (intro that [of "[]"]) (auto simp: Consume_def pstore_List_def)
  next
    case None
    obtain es d2 where l: "list_entries dir (sort (filter isDmesgEntry (dir_names dir d1))) d1 = (es, d2)" by fastforce
    have nm: "dir_names dir d1 = dir_names dir d" using next_callD [OF n] by (simp add: dir_names_def)
    have cl: "consume_loop ulids hostID now 0 es d2 = (evs, errs, d')"
      using assms n None l by (simp add: Consume_def pstore_List_def)
    have "content d2 = content d" using content_cong [of d2 d1] c1 list_entriesD [OF l] by simp
    then show ?thesis using list_entriesD [OF l] consume_loopD [OF cl] c1 nm
      by (intro that [of es]) (auto simp: list_all_iff)
  qed
qed

lemma map_dump_file: "map dump_file (map (\<lambda>(j, e). ToEvent (ulids j) hostID e now) (zip [0..<length es] es)) = map de_name es"
  by (rule nth_equalityI) simp_all

lemma Consume_quiet:
  assumes bs: "bs \<noteq> []" "list_all plain_elem bs" and ok: "dir_ok d" and q: "dk_faults d = []"
    and run: "Consume ulids (rooted_dir bs) hostID now d = (evs, errs, d')"
  shows "errs = [] \<and> map dump_file evs = filter isDmesgEntry (dir_names (rooted_dir bs) d) \<and>
    filter isDmesgEntry (dir_names (rooted_dir bs) d') = []"
proof -
  let ?ns = "sort (filter isDmesgEntry (dir_names (rooted_dir bs) d))"
  have srt: "?ns = filter isDmesgEntry (dir_names (rooted_dir bs) d)" by (simp add: dir_names_def sorted_sort_id sorted_wrt_filter)
  have p: "Join [rooted_dir bs, n] = rooted_dir bs @ CHR ''/'' # n" if "n \<in> set ?ns" for n
    using that dump_names [OF bs] dump_path [OF bs] by blast
  have "list_all (\<lambda>n. content d (Join [rooted_dir bs, n]) \<noteq> None) ?ns"
    using p dump_names [OF bs] by (simp add: list_all_iff)
  from list_entries_quiet [OF q this] obtain es where l: "list_entries (rooted_dir bs) ?ns d = (es, d)" "map de_name es = ?ns" by blast
  note le = list_entriesD [OF l(1)]
  have pth: "map de_path es = map (\<lambda>n. rooted_dir bs @ CHR ''/'' # n) ?ns"
  proof -
    have "de_path e = rooted_dir bs @ CHR ''/'' # de_name e" if "e \<in> set es" for e
    proof -
      have "de_name e \<in> set ?ns" using that l(2) [symmetric] by simp
      from p [OF this] show ?thesis using that le by (simp add: list_all_iff)
    qed
    then show ?thesis unfolding l(2) [symmetric] by simp
  qed
  have dst: "distinct (map de_path es)" unfolding pth using dir_names_distinct [OF bs ok] by (simp add: distinct_map inj_on_def)
  have "list_all (\<lambda>e. content d (de_path e) \<noteq> None) es" using le by (auto simp: list_all_iff)
  from consume_loop_quiet [OF q dst this] obtain evs1 d1 where cl: "consume_loop ulids hostID now 0 es d = (evs1, [], d1)"
    "list_all (\<lambda>e. content d1 (de_path e) = None) es" "\<forall>p. content d p = None \<longrightarrow> content d1 p = None" by blast
  have r: "evs1 = evs" "errs = []" "d1 = d'" using run q l cl(1) by (simp_all add: Consume_def pstore_List_def)
  have "content d' (rooted_dir bs @ CHR ''/'' # n) = None" if "isDmesgEntry n" "CHR ''/'' \<notin> set n" for n
  proof (cases "n \<in> set ?ns")
    case True
    then have "rooted_dir bs @ CHR ''/'' # n \<in> de_path ` set es"
      using arg_cong [OF pth, of set] by (simp add: image_iff)
    then show ?thesis using cl(2) r(3) by (auto simp: list_all_iff)
  next
    case False
    then show ?thesis using cl(3) r(3) that dump_names [OF bs, of n d] by blast
  qed
  then have "filter isDmesgEntry (dir_names (rooted_dir bs) d') = []"
    using dir_names_iff [OF bs] by (auto simp: filter_empty_conv)
  moreover have "map dump_file evs = ?ns"
    using consume_loopD [OF cl(1)] map_dump_file l(2) r(1) by (metis add_0)
  ultimately show ?thesis using r(2) srt by simp
qed

text \<open>
  C37 No crash dump is lost, and none is reported twice in a run, whatever calls fail: after \<open>Consume\<close> every dump that was in the pstore
  directory is still there unchanged or has been reported as an event with its content; nothing but reported dumps
  is removed; and when no call fails every dump is reported, in the order of names, and the region is freed.
\<close>

theorem pstore_no_dump_lost:
  assumes bs: "bs \<noteq> []" "list_all plain_elem bs" and ok: "dir_ok d"
    and run: "Consume ulids (rooted_dir bs) hostID now d = (evs, errs, d')"
  shows "(\<forall>n c. isDmesgEntry n \<longrightarrow> CHR ''/'' \<notin> set n \<longrightarrow> content d (rooted_dir bs @ CHR ''/'' # n) = Some c \<longrightarrow>
       content d' (rooted_dir bs @ CHR ''/'' # n) = Some c \<or>
       (\<exists>i < length evs. evs ! i = ToEvent (ulids i) hostID \<lparr>de_name = n, de_path = rooted_dir bs @ CHR ''/'' # n, de_content = c\<rparr> now)) \<and>
    (\<forall>p. content d' p \<noteq> content d p \<longrightarrow> content d' p = None \<and>
       (\<exists>n. isDmesgEntry n \<and> p = rooted_dir bs @ CHR ''/'' # n \<and> n \<in> set (map dump_file evs))) \<and>
    distinct (map dump_file evs) \<and>
    (dk_faults d = [] \<longrightarrow> errs = [] \<and>
       map dump_file evs = filter isDmesgEntry (dir_names (rooted_dir bs) d) \<and>
       filter isDmesgEntry (dir_names (rooted_dir bs) d') = [])"
proof -
  obtain es where es: "evs = map (\<lambda>(j, e). ToEvent (ulids j) hostID e now) (zip [0..<length es] es)"
    "subseq (map de_name es) (sort (filter isDmesgEntry (dir_names (rooted_dir bs) d)))"
    "\<And>e. e \<in> set es \<Longrightarrow> de_path e = Join [rooted_dir bs, de_name e] \<and> content d (de_path e) = Some (de_content e)"
    "\<And>p. content d' p = content d p \<or> content d' p = None \<and> p \<in> de_path ` set es"
    using Consume_entries [OF run] by blast
  have sub: "set (map de_name es) \<subseteq> set (sort (filter isDmesgEntry (dir_names (rooted_dir bs) d)))"
    using list_emb_set [OF es(2)] by blast
  have nm: "isDmesgEntry (de_name e) \<and> CHR ''/'' \<notin> set (de_name e)" if "e \<in> set es" for e
    using that sub dump_names [OF bs] by auto
  have p: "de_path e = rooted_dir bs @ CHR ''/'' # de_name e" if "e \<in> set es" for e
    using es(3) [OF that] nm [OF that] dump_path [OF bs] by simp
  have fs: "map dump_file evs = map de_name es" unfolding es(1) by (rule map_dump_file)
  have "\<exists>i < length evs. evs ! i = ToEvent (ulids i) hostID \<lparr>de_name = n, de_path = rooted_dir bs @ CHR ''/'' # n, de_content = c\<rparr> now"
    if c: "content d (rooted_dir bs @ CHR ''/'' # n) = Some c" "content d' (rooted_dir bs @ CHR ''/'' # n) \<noteq> Some c" for n c
  proof -
    obtain e where e: "e \<in> set es" "de_path e = rooted_dir bs @ CHR ''/'' # n" using es(4) [of "rooted_dir bs @ CHR ''/'' # n"] c by auto
    then obtain i where i: "i < length es" "es ! i = e" by (meson in_set_conv_nth)
    have "e = \<lparr>de_name = n, de_path = rooted_dir bs @ CHR ''/'' # n, de_content = c\<rparr>"
      using es(3) [OF e(1)] p [OF e(1)] e(2) c(1) by (cases e) simp
    then show ?thesis using i by (intro exI [of _ i]) (simp add: es(1))
  qed
  moreover have "content d' q = None \<and> (\<exists>n. isDmesgEntry n \<and> q = rooted_dir bs @ CHR ''/'' # n \<and> n \<in> set (map dump_file evs))"
    if "content d' q \<noteq> content d q" for q
    using es(4) [of q] that nm p unfolding fs by auto
  moreover have "distinct (map dump_file evs)"
    unfolding fs using subseq_distinct [OF es(2)] dir_names_distinct [OF bs ok] by simp
  ultimately show ?thesis using Consume_quiet [OF bs ok _ run] by blast
qed

text \<open>A directory with one dump and one console record.\<close>

definition dump_disk :: disk where
  "dump_disk = \<lparr>dk_files = [(''/pstore/dmesg-efi-1'', ''BUG''), (''/pstore/console-1'', ''x'')], dk_temps = [], dk_faults = []\<rparr>"

theorem pstore_no_dump_lost_witness:
  "map dump_file (fst (Consume itoa (rooted_dir [''pstore'']) ''h'' 0 dump_disk)) = [''dmesg-efi-1'']"
proof -
  obtain evs errs d' where r: "Consume itoa (rooted_dir [''pstore'']) ''h'' 0 dump_disk = (evs, errs, d')"
    by (metis prod_cases3)
  have d: "dir_ok dump_disk" "dk_faults dump_disk = []" by (simp_all add: dir_ok_def dump_disk_def)
  have n: "filter isDmesgEntry (dir_names (rooted_dir [''pstore'']) dump_disk) = [''dmesg-efi-1'']" by code_simp
  have b: "[''pstore''] \<noteq> []" "list_all plain_elem [''pstore'']" by (simp_all add: plain_elem_def)
  show ?thesis using pstore_no_dump_lost [OF b d(1) r] d(2) n r by simp
qed

end
