(* ===== verification/Runstats.thy ===== *)
theory Runstats
  imports Gotext Gopath
begin

text \<open>
  Statistics of backup tools from their captured output, \<open>internal/runstats\<close>: the choice of the extractor, the generic
  one, and those of rclone, rsync and snapraid.  The fixed regular expressions are matchers written out; each can match
  in one way only.  The JSON decoder of rclone's log lines is a parameter.
\<close>

subsection \<open>Canonical keys and values (schema/job.go)\<close>

datatype stat_value = StatInt int | StatInt64 int | StatFloat gofloat | StatOther

type_synonym jobStats = "(string \<times> stat_value) list"

definition StatFilesTransferred :: string where "StatFilesTransferred = ''files_transferred''"
definition StatBytesTransferred :: string where "StatBytesTransferred = ''bytes_transferred''"
definition StatFilesDeleted :: string where "StatFilesDeleted = ''files_deleted''"
definition StatFilesChecked :: string where "StatFilesChecked = ''files_checked''"
definition StatErrors :: string where "StatErrors = ''errors''"

lemmas stat_keys = StatFilesTransferred_def StatBytesTransferred_def StatFilesDeleted_def StatFilesChecked_def StatErrors_def

subsection \<open>The generic extractor (generic.go)\<close>

definition countLines :: "string \<Rightarrow> int" where
  "countLines b =
     (let t = rev (dropWhile (\<lambda>c. c = nl) (rev b)) in
      if t = [] then 0 else int (length (filter (\<lambda>c. c = nl) t)) + 1)"

definition generic_Extract :: "string \<Rightarrow> string \<Rightarrow> int \<Rightarrow> jobStats \<times> string list" where
  "generic_Extract stdout stderr exitCode =
     ([(''stdout_lines'', StatInt (countLines stdout)), (''stderr_lines'', StatInt (countLines stderr))] @
      (if exitCode \<noteq> 0 then [(StatErrors, StatInt 1)] else []), [])"

subsection \<open>rclone (rclone.go)\<close>

record rcloneStats =
  rs_bytes :: int
  rs_checks :: int
  rs_deletes :: int
  rs_errors :: int
  rs_transfers :: int

definition ellipsis :: string where
  "ellipsis = [CHR 0xe2, CHR 0x80, CHR 0xa6]"

definition truncate_text :: "string \<Rightarrow> nat \<Rightarrow> string" where
  "truncate_text s n = (if length s \<le> n then s else trim_space (take n s) @ ellipsis)"

text \<open>\<open>parse\<close> decodes one line: \<open>None\<close> is an error, \<open>Some None\<close> a line without statistics.\<close>

fun rclone_lines ::
  "(string \<Rightarrow> rcloneStats option option) \<Rightarrow> string list \<Rightarrow> rcloneStats option \<times> string list \<Rightarrow> rcloneStats option \<times> string list" where
  "rclone_lines parse [] acc = acc"
| "rclone_lines parse (l # ls) (found, errs) =
     (let line = trim_space l in
      if line = [] \<or> hd line \<noteq> CHR ''{'' then rclone_lines parse ls (found, errs)
      else
        (case parse line of
           None \<Rightarrow> rclone_lines parse ls (found, errs @ [''rclone: malformed json-log line: '' @ truncate_text line 120])
         | Some None \<Rightarrow> rclone_lines parse ls (found, errs)
         | Some (Some s) \<Rightarrow> rclone_lines parse ls (Some s, errs)))"

definition rclone_Extract ::
  "(string \<Rightarrow> rcloneStats option option) \<Rightarrow> string \<Rightarrow> string \<Rightarrow> int \<Rightarrow> jobStats \<times> string list" where
  "rclone_Extract parse stdout stderr exitCode =
     (case rclone_lines parse (split_on nl stdout @ split_on nl stderr) (None, []) of
        (None, errs) \<Rightarrow> ([], errs @ [''rclone: no stats found in output; was --use-json-log --stats <interval> passed?''])
      | (Some s, errs) \<Rightarrow>
          ([(StatFilesTransferred, StatInt64 (rs_transfers s)), (StatBytesTransferred, StatInt64 (rs_bytes s)),
            (StatFilesDeleted, StatInt64 (rs_deletes s)), (StatFilesChecked, StatInt64 (rs_checks s)),
            (StatErrors, StatInt64 (rs_errors s))], errs))"

subsection \<open>rsync (rsync.go)\<close>

text \<open>The class \<open>\s\<close> of Go's regular expressions, which has no vertical tab.\<close>

definition re_space :: "char \<Rightarrow> bool" where
  "re_space c \<longleftrightarrow> c \<in> {CHR 0x09, CHR 0x0a, CHR 0x0c, CHR 0x0d, CHR '' ''}"

definition digit_or_comma :: "char \<Rightarrow> bool" where
  "digit_or_comma c \<longleftrightarrow> is_digit c \<or> c = CHR '',''"

text \<open>The group of \<open>^<label>:\s*([\d,]+)\<close>.\<close>

definition stat_group :: "string \<Rightarrow> string \<Rightarrow> string option" where
  "stat_group label line =
     (case cut_prefix line (label @ '':'') of
        None \<Rightarrow> None
      | Some rest \<Rightarrow>
          let g = takeWhile digit_or_comma (dropWhile re_space rest) in
          if g = [] then None else Some g)"

definition statLines :: "(string \<times> string) list" where
  "statLines =
     [(''Number of regular files transferred'', StatFilesTransferred),
      (''Number of files transferred'', StatFilesTransferred),
      (''Total transferred file size'', StatBytesTransferred),
      (''Number of deleted files'', StatFilesDeleted),
      (''Number of files'', StatFilesChecked)]"

definition rsync_stat :: "string \<Rightarrow> string \<times> string \<Rightarrow> jobStats \<Rightarrow> jobStats" where
  "rsync_stat line sl stats =
     (case sl of (label, key) \<Rightarrow>
        if map_of stats key \<noteq> None then stats
        else
          (case stat_group label line of
             None \<Rightarrow> stats
           | Some g \<Rightarrow>
               (case Atoi (filter (\<lambda>c. c \<noteq> CHR '','') g) of
                  None \<Rightarrow> stats
                | Some n \<Rightarrow> stats @ [(key, StatInt64 n)])))"

definition rsync_line :: "string \<Rightarrow> jobStats \<Rightarrow> jobStats" where
  "rsync_line line stats = fold (rsync_stat (trim_space line)) statLines stats"

text \<open>\<open>^rsync(?:\[\d+\])?(?: error)?: \<close>.\<close>

definition skip_pid :: "string \<Rightarrow> string" where
  "skip_pid s =
     (case cut_prefix s ''['' of
        None \<Rightarrow> s
      | Some r \<Rightarrow>
          let ds = takeWhile is_digit r; rest = dropWhile is_digit r in
          if ds \<noteq> [] \<and> has_prefix rest '']'' then tl rest else s)"

definition rsyncErrorPrefix :: "string \<Rightarrow> bool" where
  "rsyncErrorPrefix line =
     (case cut_prefix line ''rsync'' of
        None \<Rightarrow> False
      | Some r \<Rightarrow>
          let r1 = skip_pid r; r2 = (case cut_prefix r1 '' error'' of None \<Rightarrow> r1 | Some x \<Rightarrow> x) in
          has_prefix r2 '': '')"

definition rsync_Extract :: "string \<Rightarrow> string \<Rightarrow> int \<Rightarrow> jobStats \<times> string list" where
  "rsync_Extract stdout stderr exitCode =
     (let stats = fold rsync_line (scan_lines stdout) [];
          errCount = int (length (filter rsyncErrorPrefix (scan_lines stderr))) in
      (stats @ [(StatErrors, StatInt64 errCount)],
       if stats = [] then [''rsync: no --stats summary found in output''] else []))"

subsection \<open>snapraid (snapraid.go)\<close>

definition is_letter :: "char \<Rightarrow> bool" where
  "is_letter c \<longleftrightarrow> (CHR ''A'' \<le> c \<and> c \<le> CHR ''Z'') \<or> (CHR ''a'' \<le> c \<and> c \<le> CHR ''z'')"

definition label_char :: "char \<Rightarrow> bool" where
  "label_char c \<longleftrightarrow> is_letter c \<or> is_digit c \<or> c \<in> set '' _/-''"

text \<open>The groups of \<open>^\s*(\d+)\s+([A-Za-z][A-Za-z0-9 _/\-]*)$\<close>.\<close>

definition summaryLine :: "string \<Rightarrow> (string \<times> string) option" where
  "summaryLine line =
     (let s = dropWhile re_space line; ds = takeWhile is_digit s; r = dropWhile is_digit s; label = dropWhile re_space r in
      if ds \<noteq> [] \<and> r \<noteq> [] \<and> re_space (hd r) \<and> label \<noteq> [] \<and> is_letter (hd label) \<and> list_all label_char label
      then Some (ds, label) else None)"

definition changed_labels :: "string list" where
  "changed_labels = [''added'', ''updated'', ''copied'', ''restored'']"

definition checked_labels :: "string list" where
  "checked_labels = [''equal'', ''added'', ''removed'', ''updated'', ''moved'', ''copied'', ''restored'']"

record snapraidCounts =
  sn_transferred :: int
  sn_checked :: int
  sn_deleted :: int
  sn_errors :: int
  sn_found :: bool

definition snapraid_line :: "string \<Rightarrow> snapraidCounts \<Rightarrow> snapraidCounts" where
  "snapraid_line line c =
     (case summaryLine line of
        None \<Rightarrow> c
      | Some (ds, l) \<Rightarrow>
          (case Atoi ds of
             None \<Rightarrow> c
           | Some n \<Rightarrow>
               let label = ToLower (trim_space l); c1 = c\<lparr>sn_found := True\<rparr> in
               if label = ''removed''
               then c1\<lparr>sn_deleted := wrap64 (sn_deleted c + n), sn_checked := wrap64 (sn_checked c + n)\<rparr>
               else if label \<in> set checked_labels
               then (if label \<in> set changed_labels
                     then c1\<lparr>sn_checked := wrap64 (sn_checked c + n), sn_transferred := wrap64 (sn_transferred c + n)\<rparr>
                     else c1\<lparr>sn_checked := wrap64 (sn_checked c + n)\<rparr>)
               else if contains label ''error''
               then c1\<lparr>sn_errors := wrap64 (sn_errors c + n)\<rparr>
               else c1))"

definition snapraid_Extract :: "string \<Rightarrow> string \<Rightarrow> int \<Rightarrow> jobStats \<times> string list" where
  "snapraid_Extract stdout stderr exitCode =
     (let c = fold snapraid_line (scan_lines stdout @ scan_lines stderr)
                \<lparr>sn_transferred = 0, sn_checked = 0, sn_deleted = 0, sn_errors = 0, sn_found = False\<rparr> in
      ([(StatFilesTransferred, StatInt64 (sn_transferred c)), (StatFilesDeleted, StatInt64 (sn_deleted c)),
        (StatFilesChecked, StatInt64 (sn_checked c)), (StatErrors, StatInt64 (sn_errors c))],
       if sn_found c then [] else [''snapraid: no summary lines found in output'']))"

subsection \<open>The choice of an extractor (runstats.go)\<close>

datatype extractor = Rclone | Rsync | Snapraid | Generic

definition Detect :: "string \<Rightarrow> string list \<Rightarrow> bool" where
  "Detect tool argv \<longleftrightarrow> argv \<noteq> [] \<and> Base (hd argv) = tool"

definition For :: "string list \<Rightarrow> extractor" where
  "For argv =
     (if Detect ''rclone'' argv then Rclone
      else if Detect ''rsync'' argv then Rsync
      else if Detect ''snapraid'' argv then Snapraid
      else Generic)"

fun Extract ::
  "(string \<Rightarrow> rcloneStats option option) \<Rightarrow> extractor \<Rightarrow> string \<Rightarrow> string \<Rightarrow> int \<Rightarrow> jobStats \<times> string list" where
  "Extract parse Rclone = rclone_Extract parse"
| "Extract parse Rsync = rsync_Extract"
| "Extract parse Snapraid = snapraid_Extract"
| "Extract parse Generic = generic_Extract"

subsection \<open>What the counts are\<close>

text \<open>The number and the label of a summary line of snapraid.\<close>

definition summary_of :: "string \<Rightarrow> (string \<times> int) option" where
  "summary_of line =
     (case summaryLine line of
        None \<Rightarrow> None
      | Some (ds, l) \<Rightarrow> map_option (\<lambda>n. (ToLower (trim_space l), n)) (Atoi ds))"

definition summed :: "(string \<Rightarrow> bool) \<Rightarrow> (string \<times> int) list \<Rightarrow> int" where
  "summed P xs = sum_list (map snd (filter (P \<circ> fst) xs))"

lemma summed_simps [simp]:
  "summed P [] = 0" "summed P (x # xs) = (if P (fst x) then snd x else 0) + summed P xs"
  by (simp_all add: summed_def)

lemma wrap64_add_left [simp]: "wrap64 (wrap64 a + b) = wrap64 (a + b)"
proof -
  have "wrap64 a + b + 2 ^ 63 = (a + 2 ^ 63) mod 2 ^ 64 + b" by (simp add: wrap64_def)
  then have "(wrap64 a + b + 2 ^ 63) mod 2 ^ 64 = (a + 2 ^ 63 + b) mod 2 ^ 64" by (simp only: mod_add_left_eq)
  then show ?thesis unfolding wrap64_def [of "wrap64 a + b"] wrap64_def [of "a + b"] by (simp only: ac_simps)
qed

lemma removed_labels: "''removed'' \<in> set checked_labels" "''removed'' \<notin> set changed_labels"
  by (simp_all add: checked_labels_def changed_labels_def)

lemma changed_checked: "l \<in> set changed_labels \<Longrightarrow> l \<in> set checked_labels"
  by (auto simp: checked_labels_def changed_labels_def)

definition error_label :: "string \<Rightarrow> bool" where
  "error_label l \<longleftrightarrow> l \<notin> set checked_labels \<and> contains l ''error''"

lemma snapraid_line_counts:
  "snapraid_line line c =
     (case summary_of line of
        None \<Rightarrow> c
      | Some (l, n) \<Rightarrow>
          c\<lparr>sn_found := True,
            sn_transferred := (if l \<in> set changed_labels then wrap64 (sn_transferred c + n) else sn_transferred c),
            sn_checked := (if l \<in> set checked_labels then wrap64 (sn_checked c + n) else sn_checked c),
            sn_deleted := (if l = ''removed'' then wrap64 (sn_deleted c + n) else sn_deleted c),
            sn_errors := (if error_label l then wrap64 (sn_errors c + n) else sn_errors c)\<rparr>)"
proof (cases "summary_of line")
  case None
  then show ?thesis by (auto simp: snapraid_line_def summary_of_def split: option.splits prod.splits)
next
  case (Some ln)
  then obtain ds l0 n where s: "summaryLine line = Some (ds, l0)" "Atoi ds = Some n" "ln = (ToLower (trim_space l0), n)"
    by (auto simp: summary_of_def split: option.splits)
  define l where "l = ToLower (trim_space l0)"
  show ?thesis
    unfolding Some s(3) snapraid_line_def s(1,2) option.case prod.case l_def [symmetric] Let_def
    using removed_labels changed_checked [of l]
    by (cases c; cases "l = ''removed''"; cases "l \<in> set checked_labels"; cases "l \<in> set changed_labels") (simp_all add: error_label_def)
qed

lemma snapraid_counts:
  assumes "sn_transferred c = wrap64 a" "sn_checked c = wrap64 b" "sn_deleted c = wrap64 e" "sn_errors c = wrap64 f"
  shows "let r = fold snapraid_line lines c; xs = List.map_filter summary_of lines in
    sn_transferred r = wrap64 (a + summed (\<lambda>l. l \<in> set changed_labels) xs) \<and>
    sn_checked r = wrap64 (b + summed (\<lambda>l. l \<in> set checked_labels) xs) \<and>
    sn_deleted r = wrap64 (e + summed (\<lambda>l. l = ''removed'') xs) \<and>
    sn_errors r = wrap64 (f + summed error_label xs) \<and> sn_found r = (sn_found c \<or> xs \<noteq> [])"
  using assms unfolding Let_def
proof (induction lines arbitrary: c a b e f)
  case (Cons line lines)
  show ?case
  proof (cases "summary_of line")
    case None
    then show ?thesis using Cons by (simp add: snapraid_line_counts List.map_filter_simps)
  next
    case (Some ln)
    obtain l n where ln: "ln = (l, n)" by fastforce
    have "sn_transferred (snapraid_line line c) = wrap64 (a + (if l \<in> set changed_labels then n else 0))"
      "sn_checked (snapraid_line line c) = wrap64 (b + (if l \<in> set checked_labels then n else 0))"
      "sn_deleted (snapraid_line line c) = wrap64 (e + (if l = ''removed'' then n else 0))"
      "sn_errors (snapraid_line line c) = wrap64 (f + (if error_label l then n else 0))"
      "sn_found (snapraid_line line c)"
      using Cons.prems Some ln by (simp_all add: snapraid_line_counts)
    from Cons.IH [OF this(1-4)] this(5) show ?thesis
      using Some ln by (simp add: List.map_filter_simps algebra_simps)
  qed
qed (simp add: List.map_filter_simps)

text \<open>
  The statistics of a snapraid run are the totals of its summary lines, on both streams: transferred files are
  those added, updated, copied or restored, checked files those of all seven file labels, deleted files those removed, and errors those of
  every other label that mentions errors, each as a 64-bit sum; an extraction error is reported exactly when there is
  no summary line.
\<close>

theorem snapraid_totals:
  "let xs = List.map_filter summary_of (scan_lines stdout @ scan_lines stderr);
       (stats, errs) = Extract parse (For (tool # args)) stdout stderr exitCode in
   Base tool = ''snapraid'' \<longrightarrow>
     map_of stats StatFilesTransferred = Some (StatInt64 (wrap64 (summed (\<lambda>l. l \<in> set changed_labels) xs))) \<and>
     map_of stats StatFilesChecked = Some (StatInt64 (wrap64 (summed (\<lambda>l. l \<in> set checked_labels) xs))) \<and>
     map_of stats StatFilesDeleted = Some (StatInt64 (wrap64 (summed (\<lambda>l. l = ''removed'') xs))) \<and>
     map_of stats StatErrors = Some (StatInt64 (wrap64 (summed error_label xs))) \<and>
     (errs = [] \<longleftrightarrow> xs \<noteq> [])"
proof -
  let ?c = "\<lparr>sn_transferred = 0, sn_checked = 0, sn_deleted = 0, sn_errors = 0, sn_found = False\<rparr>"
  have z: "wrap64 0 = 0" by (simp add: wrap64_def)
  show ?thesis
    using snapraid_counts [of ?c 0 0 0 0 "scan_lines stdout @ scan_lines stderr"]
    by (simp add: z For_def Detect_def snapraid_Extract_def Let_def stat_keys)
qed

text \<open>The output of a run with twelve new files and three errors.\<close>

definition sync_output :: string where
  "sync_output = ''12 added'' @ [nl] @ ''3 file errors'' @ [nl]"

lemma sync_lines: "scan_lines sync_output = [''12 added'', ''3 file errors'']" "scan_lines [] = []"
  by (simp_all add: scan_lines_def sync_output_def nl_def trim_cr_def Let_def)

lemma sync_summary: "summary_of ''12 added'' = Some (''added'', 12)" "summary_of ''3 file errors'' = Some (''file errors'', 3)"
  "error_label ''file errors''" "\<not> error_label ''added''" "Base ''/usr/bin/snapraid'' = ''snapraid''"
  by code_simp+

theorem snapraid_totals_witness:
  "map_of (fst (Extract (\<lambda>_. None) (For [''/usr/bin/snapraid'', ''sync'']) sync_output [] 0)) StatErrors = Some (StatInt64 3)"
proof -
  have "wrap64 3 = 3" by (simp add: wrap64_def)
  then show ?thesis
    using snapraid_totals [where tool = "''/usr/bin/snapraid''" and args = "[''sync'']" and parse = "\<lambda>_. None" and exitCode = 0
        and stdout = sync_output and stderr = "[]"]
    by (simp only: sync_lines sync_summary List.map_filter_simps append.simps append_Nil2 Let_def option.case prod.case summed_simps
        split_beta fst_conv snd_conv simp_thms if_True if_False add_0 add_0_right)
qed

end
