(* ===== verification/Mailbox.thy ===== *)
theory Mailbox
  imports Prelude
begin

text \<open>
  The interface of a store that keeps the latest value under a key: the spool of helper results and the inventory
  tables are such stores, and what their readers rely on follows from the laws here.
\<close>

text \<open>
  Posting under a key either succeeds, and then the key reads as what was posted and no other key changes, or it
  fails and nothing changes.  \<open>seen\<close> is how a posted value reads back.
\<close>

locale mailbox =
  fixes post :: "'k \<Rightarrow> 'v \<Rightarrow> 's \<Rightarrow> bool \<times> 's"
    and look :: "'s \<Rightarrow> 'k \<Rightarrow> 'w option"
    and seen :: "'s \<Rightarrow> 'v \<Rightarrow> 'w"
    and legal :: "'s \<Rightarrow> 'k \<Rightarrow> 'v \<Rightarrow> bool"
    and good :: "'s \<Rightarrow> bool"
  assumes post_done: "good s \<Longrightarrow> legal s k v \<Longrightarrow> post k v s = (True, s') \<Longrightarrow> look s' = (look s)(k \<mapsto> seen s v)"
    and post_failed: "good s \<Longrightarrow> legal s k v \<Longrightarrow> post k v s = (False, s') \<Longrightarrow> look s' = look s"
    and post_good: "good s \<Longrightarrow> legal s k v \<Longrightarrow> post k v s = (r, s') \<Longrightarrow> good s' \<and> seen s' = seen s \<and> legal s' = legal s"

fun post_all :: "('k \<Rightarrow> 'v \<Rightarrow> 's \<Rightarrow> bool \<times> 's) \<Rightarrow> ('k \<times> 'v) list \<Rightarrow> 's \<Rightarrow> bool list \<times> 's" where
  "post_all post [] s = ([], s)"
| "post_all post ((k, v) # kvs) s =
     (case post k v s of (r, s1) \<Rightarrow> (case post_all post kvs s1 of (rs, s2) \<Rightarrow> (r # rs, s2)))"

context mailbox
begin

lemma post_all_reads:
  "good s \<Longrightarrow> list_all (\<lambda>(k, v). legal s k v) kvs \<Longrightarrow> post_all post kvs s = (rs, s') \<Longrightarrow>
   look s' = fold (\<lambda>((k, v), r) m. if r then m(k \<mapsto> seen s v) else m) (zip kvs rs) (look s) \<and> good s' \<and>
   length rs = length kvs"
proof (induction kvs arbitrary: s rs)
  case (Cons kv kvs)
  obtain k v where kv: "kv = (k, v)" by fastforce
  obtain r s1 where p: "post k v s = (r, s1)" by fastforce
  obtain rs1 where rs: "rs = r # rs1" "post_all post kvs s1 = (rs1, s')"
    using Cons.prems(3) kv p by (auto split: prod.splits)
  have g: "good s1" "seen s1 = seen s" "legal s1 = legal s"
    using post_good [OF Cons.prems(1) _ p] Cons.prems(2) kv by auto
  have l: "look s1 = (if r then (look s)(k \<mapsto> seen s v) else look s)"
    using post_done [OF Cons.prems(1)] post_failed [OF Cons.prems(1)] Cons.prems(2) kv p by (cases r) auto
  have "list_all (\<lambda>(k, v). legal s1 k v) kvs" using Cons.prems(2) g(3) by simp
  from Cons.IH [OF g(1) this rs(2), unfolded g(2) l] show ?case by (simp add: kv rs(1))
qed auto

end

end
