(* ===== verification/Spool.thy ===== *)
theory Spool
  imports Dirlist Mailbox
begin

text \<open>
  The exchange directory between helpers and the agent, \<open>internal/spool\<close>, the checks of \<open>bita doctor\<close>
  (\<open>internal/doctor\<close>) and the hand-over of jobs (\<open>internal/jobwriter\<close>).  Files are those of a \<open>disk\<close>, by their full
  path, with its script of failing calls; JSON is the parameter \<open>spoolCodec\<close>; the user database, the agent's
  socket and clock readings are arguments.
\<close>

subsection \<open>Entries (spool.go)\<close>

record spoolEntry =
  se_collector :: string
  se_ts :: time
  se_schema :: int
  se_data :: string
  se_errors :: "string list"

record spoolCodec =
  sp_marshal :: "spoolEntry \<Rightarrow> string option"
  sp_unmarshal :: "string \<Rightarrow> spoolEntry option"

definition Age :: "spoolEntry \<Rightarrow> time \<Rightarrow> duration" where
  "Age e now = time_sub now (se_ts e)"

definition Stale :: "spoolEntry \<Rightarrow> time \<Rightarrow> duration \<Rightarrow> bool" where
  "Stale e now interval \<longleftrightarrow> 0 < interval \<and> wrap64 (3 * interval) < Age e now"

datatype spool_error = MarshalData | MarshalEntry | SpoolIO

text \<open>
  \<open>WriteAtomic\<close>; \<open>payload\<close> is the marshalled data, \<open>None\<close> when that fails.  The calls are \<open>MkdirAll\<close>, \<open>CreateTemp\<close>,
  \<open>Write\<close>, \<open>Sync\<close>, \<open>Close\<close> and \<open>Rename\<close>; when one of the last fails the temporary file is removed.  \<open>CreateTemp\<close>
  refuses a pattern with a separator.
\<close>

definition spool_WriteAtomic ::
  "spoolCodec \<Rightarrow> time \<Rightarrow> string \<Rightarrow> string \<Rightarrow> int \<Rightarrow> string option \<Rightarrow> string list \<Rightarrow> disk \<Rightarrow> spool_error option \<times> disk" where
  "spool_WriteAtomic C now dir collector schema payload errs d =
     (case payload of
        None \<Rightarrow> (Some MarshalData, d)
      | Some p \<Rightarrow>
          (case sp_marshal C \<lparr>se_collector = collector, se_ts = now, se_schema = schema, se_data = p, se_errors = errs\<rparr> of
             None \<Rightarrow> (Some MarshalEntry, d)
           | Some encoded \<Rightarrow>
               if CHR ''/'' \<in> set collector then (Some SpoolIO, snd (next_call d))
               else (case calls 6 d of
                  (False, d1) \<Rightarrow> (Some SpoolIO, d1)
                | (True, d1) \<Rightarrow> (None, put_file (Join [dir, collector @ ''.json'']) encoded d1))))"

fun read_entries ::
  "spoolCodec \<Rightarrow> string \<Rightarrow> string list \<Rightarrow> disk \<Rightarrow> (string \<times> spoolEntry) list \<Rightarrow> (string \<times> spoolEntry) list \<times> disk" where
  "read_entries C dir [] d acc = (acc, d)"
| "read_entries C dir (f # fs) d acc =
     (if \<not> has_suffix f ''.json'' then read_entries C dir fs d acc
      else
        (case read_file (Join [dir, f]) d of
           (Inl _, d1) \<Rightarrow> read_entries C dir fs d1 acc
         | (Inr raw, d1) \<Rightarrow>
             (case sp_unmarshal C raw of
                None \<Rightarrow> read_entries C dir fs d1 acc
              | Some e \<Rightarrow> read_entries C dir fs d1 (AList.update (se_collector e) e acc))))"

definition spool_ReadDir :: "spoolCodec \<Rightarrow> string \<Rightarrow> disk \<Rightarrow> (spool_error + (string \<times> spoolEntry) list) \<times> disk" where
  "spool_ReadDir C dir d =
     (case next_call d of
        (Some _, d1) \<Rightarrow> (Inl SpoolIO, d1)
      | (None, d1) \<Rightarrow> (case read_entries C dir (dir_names dir d1) d1 [] of (es, d2) \<Rightarrow> (Inr es, d2)))"

subsection \<open>Jobs (jobwriter.go)\<close>

text \<open>\<open>socket\<close> says whether dialling, marshalling, setting the deadline and writing all succeed.\<close>

definition job_Write ::
  "spoolCodec \<Rightarrow> bool \<Rightarrow> time \<Rightarrow> string \<Rightarrow> string \<Rightarrow> int \<Rightarrow> string option \<Rightarrow> disk \<Rightarrow> (bool \<times> spool_error option) \<times> disk" where
  "job_Write C socket now spoolDir jobID schema payload d =
     (if socket then ((True, None), d)
      else
        (case spool_WriteAtomic C now spoolDir jobID schema payload [] d of
           (None, d') \<Rightarrow> ((False, None), d')
         | (Some e, d') \<Rightarrow> ((False, Some e), d')))"

subsection \<open>Doctor (doctor.go, spool_checks.go)\<close>

record doctorConfig =
  dc_systemUser :: string
  dc_requiredGroup :: string
  dc_spoolDir :: string
  dc_spoolOwnerUser :: string
  dc_spoolOwnerGroup :: string
  dc_spoolMode :: nat
  dc_timerUnitPaths :: "string list"
  dc_helperIntervals :: "(string \<times> duration) list"

definition DefaultConfig :: doctorConfig where
  "DefaultConfig = \<lparr>dc_systemUser = ''bitacora'', dc_requiredGroup = ''systemd-journal'',
     dc_spoolDir = ''/var/lib/bitacora/spool'', dc_spoolOwnerUser = ''root'', dc_spoolOwnerGroup = ''bitacora'',
     dc_spoolMode = 488,
     dc_timerUnitPaths = [''/etc/systemd/system/bitacora-smart.timer'', ''/usr/lib/systemd/system/bitacora-smart.timer''],
     dc_helperIntervals = [(''smart'', 15 * minute)]\<rparr>"

text \<open>What a check found; the texts of the details are left out.\<close>

datatype finding =
    FoundOK
  | UserMissing
  | GroupMissing
  | GroupsUnlisted
  | NotMember
  | StatFailed
  | NotDirectory
  | WrongMode nat
  | NoOwnerInfo
  | OwnerMissing
  | OwnerGroupMissing
  | WrongOwner
  | NoTimer
  | SpoolUnreadable
  | Unfresh "string list" "string list"

text \<open>The user database: \<open>uid\<close> of a user, \<open>gid\<close> of a group, and the groups of a user, \<open>None\<close> on failure.\<close>

record userdb =
  ud_user :: "string \<Rightarrow> string option"
  ud_group :: "string \<Rightarrow> string option"
  ud_groups :: "string \<Rightarrow> string list option"

record file_info =
  fi_isDir :: bool
  fi_mode :: nat
  fi_owner :: "(nat \<times> nat) option"

definition checkSystemUser :: "userdb \<Rightarrow> doctorConfig \<Rightarrow> finding" where
  "checkSystemUser u cfg =
     (case ud_user u (dc_systemUser cfg) of
        None \<Rightarrow> UserMissing
      | Some _ \<Rightarrow>
          (case ud_group u (dc_requiredGroup cfg) of
             None \<Rightarrow> GroupMissing
           | Some gid \<Rightarrow>
               (case ud_groups u (dc_systemUser cfg) of
                  None \<Rightarrow> GroupsUnlisted
                | Some gids \<Rightarrow> if gid \<in> set gids then FoundOK else NotMember)))"

definition checkTimerPresence :: "(string \<Rightarrow> file_info option) \<Rightarrow> doctorConfig \<Rightarrow> finding" where
  "checkTimerPresence stat cfg =
     (if list_ex (\<lambda>p. case stat p of None \<Rightarrow> False | Some i \<Rightarrow> \<not> fi_isDir i) (dc_timerUnitPaths cfg)
      then FoundOK else NoTimer)"

definition checkSpoolPermissions :: "(string \<Rightarrow> file_info option) \<Rightarrow> userdb \<Rightarrow> doctorConfig \<Rightarrow> finding" where
  "checkSpoolPermissions stat u cfg =
     (case stat (dc_spoolDir cfg) of
        None \<Rightarrow> StatFailed
      | Some info \<Rightarrow>
          if \<not> fi_isDir info then NotDirectory
          else if fi_mode info \<noteq> dc_spoolMode cfg then WrongMode (fi_mode info)
          else
            (case fi_owner info of
               None \<Rightarrow> NoOwnerInfo
             | Some (uid, gid) \<Rightarrow>
                 (case ud_user u (dc_spoolOwnerUser cfg) of
                    None \<Rightarrow> OwnerMissing
                  | Some wantUid \<Rightarrow>
                      (case ud_group u (dc_spoolOwnerGroup cfg) of
                         None \<Rightarrow> OwnerGroupMissing
                       | Some wantGid \<Rightarrow>
                           if itoa uid \<noteq> wantUid \<or> itoa gid \<noteq> wantGid then WrongOwner else FoundOK))))"

definition checkSpoolFreshness :: "spoolCodec \<Rightarrow> time \<Rightarrow> doctorConfig \<Rightarrow> disk \<Rightarrow> finding \<times> disk" where
  "checkSpoolFreshness C now cfg d =
     (case spool_ReadDir C (dc_spoolDir cfg) d of
        (Inl _, d') \<Rightarrow> (SpoolUnreadable, d')
      | (Inr entries, d') \<Rightarrow>
          if dc_helperIntervals cfg = [] then (FoundOK, d')
          else
            let missing = map fst (filter (\<lambda>(c, _). map_of entries c = None) (dc_helperIntervals cfg));
                stale = map fst (filter (\<lambda>(c, i). case map_of entries c of None \<Rightarrow> False | Some e \<Rightarrow> Stale e now i)
                          (dc_helperIntervals cfg)) in
            (if stale = [] \<and> missing = [] then FoundOK else Unfresh stale missing, d'))"

definition doctor_Run ::
  "spoolCodec \<Rightarrow> (string \<Rightarrow> file_info option) \<Rightarrow> userdb \<Rightarrow> time \<Rightarrow> doctorConfig \<Rightarrow> disk \<Rightarrow> finding list \<times> disk" where
  "doctor_Run C stat u now cfg d =
     (case checkSpoolFreshness C now cfg d of
        (fresh, d') \<Rightarrow> ([checkSystemUser u cfg, checkSpoolPermissions stat u cfg, checkTimerPresence stat cfg, fresh], d'))"

subsection \<open>The spool is a mailbox\<close>

type_synonym spool = "spoolCodec \<times> string list \<times> disk"

definition entry_path :: "string list \<Rightarrow> string \<Rightarrow> string" where
  "entry_path bs c = rooted_dir (bs @ [c @ ''.json''])"

definition spool_post :: "string \<Rightarrow> spoolEntry \<Rightarrow> spool \<Rightarrow> bool \<times> spool" where
  "spool_post c e s =
     (case s of (C, bs, d) \<Rightarrow>
       (case spool_WriteAtomic C (se_ts e) (rooted_dir bs) c (se_schema e) (Some (se_data e)) (se_errors e) d of
          (r, d') \<Rightarrow> (r = None, (C, bs, d'))))"

definition spool_look :: "spool \<Rightarrow> string \<Rightarrow> spoolEntry option" where
  "spool_look s c =
     (case s of (C, bs, d) \<Rightarrow>
       (case content d (entry_path bs c) of None \<Rightarrow> None | Some raw \<Rightarrow> sp_unmarshal C raw))"

text \<open>JSON gives an entry back except that it indents the data; \<open>ind\<close> is the indented form.\<close>

definition spool_codec_ok :: "spoolCodec \<Rightarrow> (string \<Rightarrow> string) \<Rightarrow> (spoolEntry \<Rightarrow> bool) \<Rightarrow> bool" where
  "spool_codec_ok C ind ok \<longleftrightarrow>
     (\<forall>e. ok e \<longrightarrow> (\<exists>raw. sp_marshal C e = Some raw \<and> sp_unmarshal C raw = Some (e\<lparr>se_data := ind (se_data e)\<rparr>)))"

definition collector_name :: "string \<Rightarrow> bool" where
  "collector_name c \<longleftrightarrow> CHR ''/'' \<notin> set c"

definition spool_legal :: "(spoolEntry \<Rightarrow> bool) \<Rightarrow> string \<Rightarrow> spoolEntry \<Rightarrow> bool" where
  "spool_legal ok c e \<longleftrightarrow> ok e \<and> se_collector e = c \<and> collector_name c"

text \<open>A well-formed spool: no name twice, and every entry is in the file of its collector.\<close>

definition spool_good :: "(string \<Rightarrow> string) \<Rightarrow> (spoolEntry \<Rightarrow> bool) \<Rightarrow> spool \<Rightarrow> bool" where
  "spool_good ind ok s \<longleftrightarrow>
     (case s of (C, bs, d) \<Rightarrow>
       spool_codec_ok C ind ok \<and> bs \<noteq> [] \<and> list_all plain_elem bs \<and> dir_ok d \<and>
       (\<forall>c e. collector_name c \<longrightarrow> spool_look s c = Some e \<longrightarrow> se_collector e = c))"

lemma json_plain: "collector_name c \<Longrightarrow> plain_elem (c @ ''.json'')"
  by (auto simp: plain_elem_def collector_name_def dest: arg_cong [of _ _ length])

lemma entry_path_join:
  assumes "bs \<noteq> []" "list_all plain_elem bs" "collector_name c"
  shows "Join [rooted_dir bs, c @ ''.json''] = entry_path bs c"
  using Join_rooted(1) [OF assms(1,2), of "[c @ ''.json'']"] json_plain [OF assms(3)] by (simp add: entry_path_def)

lemma entry_path_inj: "bs \<noteq> [] \<Longrightarrow> entry_path bs c = entry_path bs c' \<longleftrightarrow> c = c'"
  by (simp add: entry_path_def rooted_dir_def join_slash_snoc)

lemma WriteAtomic_cases:
  assumes "spool_WriteAtomic C now dir c schema (Some p) errs d = (r, d')" "dir_ok d" "collector_name c"
  shows "dir_ok d' \<and>
    (r \<noteq> None \<and> content d' = content d \<or>
     (\<exists>raw. r = None \<and> content d' = (content d)(Join [dir, c @ ''.json''] \<mapsto> raw) \<and>
        sp_marshal C \<lparr>se_collector = c, se_ts = now, se_schema = schema, se_data = p, se_errors = errs\<rparr> = Some raw))"
proof -
  obtain b d1 where c: "calls 6 d = (b, d1)" by fastforce
  have "content d1 = content d" "dir_ok d1"
    using content_cong [OF callsD [OF c]] dir_ok_cong [OF callsD [OF c]] assms(2) by simp_all
  then show ?thesis
    using assms c by (auto simp: spool_WriteAtomic_def collector_name_def split: option.splits bool.splits)
qed

interpretation spool: mailbox spool_post spool_look "\<lambda>_ e. e\<lparr>se_data := ind (se_data e)\<rparr>" "\<lambda>_. spool_legal ok" "spool_good ind ok"
  for ind ok
proof
  fix s s' :: spool and c e r
  assume g: "spool_good ind ok s" and l: "spool_legal ok c e"
  obtain C bs d where s: "s = (C, bs, d)" by (metis prod_cases3)
  have b: "spool_codec_ok C ind ok" "bs \<noteq> []" "list_all plain_elem bs" "dir_ok d" using g s by (auto simp: spool_good_def)
  have cn: "collector_name c" using l by (simp add: spool_legal_def)
  have full: "\<lparr>se_collector = c, se_ts = se_ts e, se_schema = se_schema e, se_data = se_data e, se_errors = se_errors e\<rparr> = e"
    using l by (cases e) (simp add: spool_legal_def)
  have key: "snd (spool_post c e s) = (C, bs, snd (snd (snd (spool_post c e s))))"
    by (simp add: spool_post_def s split: prod.splits)
  have eff: "dir_ok d' \<and> (\<not> q \<and> content d' = content d \<or>
      (\<exists>raw. q \<and> content d' = (content d)(entry_path bs c \<mapsto> raw) \<and> sp_unmarshal C raw = Some (e\<lparr>se_data := ind (se_data e)\<rparr>)))"
    if "spool_post c e s = (q, (C, bs, d'))" for q d'
  proof -
    obtain t d2 where w: "spool_WriteAtomic C (se_ts e) (rooted_dir bs) c (se_schema e) (Some (se_data e)) (se_errors e) d = (t, d2)"
      by fastforce
    then have "q = (t = None)" "d' = d2" using that by (simp_all add: spool_post_def s)
    moreover obtain raw where "sp_marshal C e = Some raw" "sp_unmarshal C raw = Some (e\<lparr>se_data := ind (se_data e)\<rparr>)"
      using b(1) l by (auto simp: spool_codec_ok_def spool_legal_def)
    ultimately show ?thesis
      using WriteAtomic_cases [OF w b(4) cn] unfolding full entry_path_join [OF b(2,3) cn] by auto
  qed
  have look: "spool_look (C, bs, d') = (spool_look s)(c \<mapsto> e\<lparr>se_data := ind (se_data e)\<rparr>)"
    if "content d' = (content d)(entry_path bs c \<mapsto> raw)" "sp_unmarshal C raw = Some (e\<lparr>se_data := ind (se_data e)\<rparr>)" for d' raw
    using that entry_path_inj [OF b(2)] by (auto simp: spool_look_def s fun_eq_iff)
  have same: "spool_look (C, bs, d') = spool_look s" if "content d' = content d" for d'
    using that by (simp add: spool_look_def s fun_eq_iff)
  have shape: "\<exists>d'. s' = (C, bs, d')" if "spool_post c e s = (q, s')" for q
    using that by (auto simp: spool_post_def s split: prod.splits)
  show d: "spool_look s' = (spool_look s)(c \<mapsto> e\<lparr>se_data := ind (se_data e)\<rparr>)" if p: "spool_post c e s = (True, s')"
    using eff look shape [OF p] p by blast
  show f: "spool_look s' = spool_look s" if p: "spool_post c e s = (False, s')"
    using eff same shape [OF p] p by blast
  show "spool_good ind ok s' \<and> (\<lambda>e. e\<lparr>se_data := ind (se_data e)\<rparr>) = (\<lambda>e. e\<lparr>se_data := ind (se_data e)\<rparr>) \<and> spool_legal ok = spool_legal ok"
    if p: "spool_post c e s = (r, s')"
  proof -
    obtain d' where s': "s' = (C, bs, d')" using shape [OF p] by blast
    have "dir_ok d'" using eff p s' by blast
    moreover have "spool_look s' = (if r then (spool_look s)(c \<mapsto> e\<lparr>se_data := ind (se_data e)\<rparr>) else spool_look s)"
      using d f p by (cases r) auto
    moreover have "se_collector (e\<lparr>se_data := ind (se_data e)\<rparr>) = c" using l by (simp add: spool_legal_def)
    ultimately show ?thesis using g b s' by (auto simp: spool_good_def s split: if_splits)
  qed
qed

subsection \<open>Reading the directory\<close>

lemma suffix_json: "has_suffix f ''.json'' \<longleftrightarrow> (\<exists>c. f = c @ ''.json'')"
proof
  assume "has_suffix f ''.json''"
  then show "\<exists>c. f = c @ ''.json''" unfolding has_suffix_def by (metis append_take_drop_id)
qed auto

lemma read_entries_lookup:
  assumes q: "dk_faults d = []" and b: "bs \<noteq> []" "list_all plain_elem bs"
    and inv: "\<And>c e. collector_name c \<Longrightarrow> spool_look (C, bs, d) c = Some e \<Longrightarrow> se_collector e = c"
  shows "(\<And>f. f \<in> set fs \<Longrightarrow> CHR ''/'' \<notin> set f \<and> content d (rooted_dir bs @ CHR ''/'' # f) \<noteq> None) \<Longrightarrow>
    (\<And>c. collector_name c \<Longrightarrow> map_of acc c \<noteq> None \<Longrightarrow> map_of acc c = spool_look (C, bs, d) c) \<Longrightarrow>
    \<exists>es. read_entries C (rooted_dir bs) fs d acc = (es, d) \<and>
      (\<forall>c. collector_name c \<longrightarrow>
         map_of es c = (if c @ ''.json'' \<in> set fs \<or> map_of acc c \<noteq> None then spool_look (C, bs, d) c else None))"
proof (induction fs arbitrary: acc)
  case (Cons f fs)
  show ?case
  proof (cases "has_suffix f ''.json''")
    case False
    then have "c @ ''.json'' \<noteq> f" for c by auto
    then show ?thesis using Cons.IH [of acc] Cons.prems False by auto
  next
    case True
    then obtain c0 where f: "f = c0 @ ''.json''" by (auto simp: suffix_json)
    have cn: "collector_name c0" using Cons.prems(1) [of f] f by (simp add: collector_name_def)
    have ep: "entry_path bs c0 = rooted_dir bs @ CHR ''/'' # f"
      using b(1) by (simp add: entry_path_def rooted_dir_def join_slash_snoc f)
    obtain raw where raw: "content d (entry_path bs c0) = Some raw" using Cons.prems(1) [of f] ep by auto
    have rd: "read_file (Join [rooted_dir bs, f]) d = (Inr raw, d)"
      unfolding f entry_path_join [OF b cn] by (rule read_file_quiet [OF q raw])
    have lk: "spool_look (C, bs, d) c0 = sp_unmarshal C raw" by (simp add: spool_look_def raw)
    have uq: "c @ ''.json'' = f \<longleftrightarrow> c = c0" for c by (simp add: f)
    show ?thesis
    proof (cases "sp_unmarshal C raw")
      case None
      have "map_of acc c0 = None" using Cons.prems(2) [OF cn] lk None by fastforce
      then show ?thesis using Cons.IH [of acc] Cons.prems True rd None lk uq by auto
    next
      case (Some e)
      have "se_collector e = c0" using inv [OF cn] lk Some by simp
      then have step: "read_entries C (rooted_dir bs) (f # fs) d acc = read_entries C (rooted_dir bs) fs d (AList.update c0 e acc)"
        using True rd Some by simp
      have up: "map_of (AList.update c0 e acc) c = (if c = c0 then Some e else map_of acc c)" for c by (simp add: update_conv')
      have "\<And>c. collector_name c \<Longrightarrow> map_of (AList.update c0 e acc) c \<noteq> None \<Longrightarrow>
          map_of (AList.update c0 e acc) c = spool_look (C, bs, d) c"
        unfolding up using Cons.prems(2) lk Some by (metis (full_types))
      from Cons.IH [OF _ this, rotated] Cons.prems(1) obtain es
        where "read_entries C (rooted_dir bs) fs d (AList.update c0 e acc) = (es, d)"
          "\<forall>c. collector_name c \<longrightarrow> map_of es c =
             (if c @ ''.json'' \<in> set fs \<or> map_of (AList.update c0 e acc) c \<noteq> None then spool_look (C, bs, d) c else None)"
        by auto
      then show ?thesis unfolding step by (simp add: up uq)
    qed
  qed
qed auto

lemma ReadDir_looks:
  assumes "spool_good ind ok (C, bs, d)" "dk_faults d = []"
  shows "\<exists>es. spool_ReadDir C (rooted_dir bs) d = (Inr es, d) \<and>
    (\<forall>c. collector_name c \<longrightarrow> map_of es c = spool_look (C, bs, d) c)"
proof -
  have b: "bs \<noteq> []" "list_all plain_elem bs"
    and inv: "\<And>c e. collector_name c \<Longrightarrow> spool_look (C, bs, d) c = Some e \<Longrightarrow> se_collector e = c"
    using assms(1) by (auto simp: spool_good_def)
  obtain es where es: "read_entries C (rooted_dir bs) (dir_names (rooted_dir bs) d) d [] = (es, d)"
    "\<forall>c. collector_name c \<longrightarrow> map_of es c = (if c @ ''.json'' \<in> set (dir_names (rooted_dir bs) d) then spool_look (C, bs, d) c else None)"
    using read_entries_lookup [OF assms(2) b inv, where fs = "dir_names (rooted_dir bs) d" and acc = "[]" and C = C] dir_names_iff [OF b] by auto
  have "spool_look (C, bs, d) c = None" if "c @ ''.json'' \<notin> set (dir_names (rooted_dir bs) d)" "collector_name c" for c
    using that dir_names_iff [OF b, of "c @ ''.json''" d] b(1)
    by (auto simp: spool_look_def entry_path_def rooted_dir_def join_slash_snoc collector_name_def)
  then show ?thesis using es assms(2) by (auto simp: spool_ReadDir_def)
qed

lemma spool_post_all_shape: "\<exists>rs d'. post_all spool_post kvs (C, bs, d) = (rs, (C, bs, d'))"
proof (induction kvs arbitrary: d)
  case (Cons kv kvs)
  obtain c e where kv: "kv = (c, e)" by fastforce
  obtain r d1 where "spool_post c e (C, bs, d) = (r, (C, bs, d1))" by (cases "spool_WriteAtomic C (se_ts e) (rooted_dir bs) c (se_schema e) (Some (se_data e)) (se_errors e) d") (auto simp: spool_post_def)
  then show ?case using Cons.IH [of d1] kv by auto
qed simp

text \<open>
  C34 The spool shows, for every helper, what it last wrote successfully, whatever calls failed in between: after any
  sequence of writes of entries into a well-formed spool, with the file system's calls failing or not, \<open>ReadDir\<close>
  returns for every name the entry of the last write under that name that reported success, its data indented, and
  the earlier entry where there is none; a write that reports an error leaves the entry before it readable.
\<close>

theorem spool_last_write:
  assumes "spool_good ind ok (C, bs, d)" "list_all (\<lambda>(c, e). spool_legal ok c e) kvs"
    and "snd (snd (snd (post_all spool_post kvs (C, bs, d)))) = d'" "dk_faults d' = []"
  shows "\<exists>es. spool_ReadDir C (rooted_dir bs) d' = (Inr es, d') \<and>
    (\<forall>c. collector_name c \<longrightarrow>
       map_of es c =
       fold (\<lambda>((k, e), written) m. if written then m(k \<mapsto> e\<lparr>se_data := ind (se_data e)\<rparr>) else m)
         (zip kvs (fst (post_all spool_post kvs (C, bs, d)))) (spool_look (C, bs, d)) c)"
proof -
  obtain rs where r: "post_all spool_post kvs (C, bs, d) = (rs, (C, bs, d'))"
    using spool_post_all_shape [of kvs C bs d] assms(3) by force
  from spool.post_all_reads [OF assms(1,2) this] show ?thesis
    using ReadDir_looks [OF _ assms(4)] r by fastforce
qed

text \<open>
  \<open>bita doctor\<close> calls the spool fresh exactly when every configured helper has an entry and none of those entries is
  stale; a helper that stopped running is reported.
\<close>

theorem doctor_freshness:
  assumes "spool_good ind ok (C, bs, d)" "dk_faults d = []" "dc_spoolDir cfg = rooted_dir bs"
    and "list_all (collector_name \<circ> fst) (dc_helperIntervals cfg)"
  shows "checkSpoolFreshness C now cfg d = (FoundOK, d) \<longleftrightarrow>
      list_all (\<lambda>(c, i). case spool_look (C, bs, d) c of None \<Rightarrow> False | Some e \<Rightarrow> \<not> Stale e now i) (dc_helperIntervals cfg)"
proof -
  obtain es where es: "spool_ReadDir C (rooted_dir bs) d = (Inr es, d)"
    and lk: "\<And>c. collector_name c \<Longrightarrow> map_of es c = spool_look (C, bs, d) c"
    using ReadDir_looks [OF assms(1,2)] by blast
  have cn: "map_of es c = spool_look (C, bs, d) c" if "(c, i) \<in> set (dc_helperIntervals cfg)" for c i
    using that assms(4) lk by (auto simp: list_all_iff)
  have "checkSpoolFreshness C now cfg d = (FoundOK, d) \<longleftrightarrow>
      (\<forall>c i. (c, i) \<in> set (dc_helperIntervals cfg) \<longrightarrow> map_of es c \<noteq> None \<and> (\<forall>e. map_of es c = Some e \<longrightarrow> \<not> Stale e now i))"
    by (cases "dc_helperIntervals cfg = []") (auto simp: checkSpoolFreshness_def assms(3) es Let_def filter_empty_conv split: option.splits)
  also have "\<dots> \<longleftrightarrow>
      (\<forall>c i. (c, i) \<in> set (dc_helperIntervals cfg) \<longrightarrow> (case spool_look (C, bs, d) c of None \<Rightarrow> False | Some e \<Rightarrow> \<not> Stale e now i))"
    by (simp add: cn split: option.split) (metis option.exhaust option.distinct(1))
  finally show ?thesis by (auto simp: list_all_iff)
qed

text \<open>A codec for two entries, to show what the claims say on a concrete spool.\<close>

definition demo_entry :: "string \<Rightarrow> spoolEntry" where
  "demo_entry v = \<lparr>se_collector = ''smart'', se_ts = 0, se_schema = 1, se_data = v, se_errors = []\<rparr>"

definition demo_codec :: spoolCodec where
  "demo_codec = \<lparr>sp_marshal = (\<lambda>e. Some (se_data e)), sp_unmarshal = (\<lambda>raw. Some (demo_entry raw))\<rparr>"

definition demo_ok :: "spoolEntry \<Rightarrow> bool" where
  "demo_ok e \<longleftrightarrow> e = demo_entry (se_data e)"

definition demo_spool :: "nat option list \<Rightarrow> disk" where
  "demo_spool fs = \<lparr>dk_files = [], dk_temps = [], dk_faults = fs\<rparr>"

lemma demo_good: "spool_good (\<lambda>v. v) demo_ok (demo_codec, [''spool''], demo_spool fs)"
  by (auto simp: spool_good_def spool_codec_ok_def demo_codec_def demo_ok_def demo_spool_def dir_ok_def plain_elem_def
      spool_look_def content_def)

lemma demo_legal: "spool_legal demo_ok ''smart'' (demo_entry v)"
  by (simp add: spool_legal_def demo_ok_def demo_entry_def collector_name_def)

definition demo_posts :: "(string \<times> spoolEntry) list" where
  "demo_posts = [(''smart'', demo_entry ''a''), (''smart'', demo_entry ''b'')]"

definition demo_faults :: "nat option list" where
  "demo_faults = [None, None, None, None, None, None, Some 0]"

lemma demo_run:
  "fst (post_all spool_post demo_posts (demo_codec, [''spool''], demo_spool demo_faults)) = [True, False]"
  "snd (snd (snd (post_all spool_post demo_posts (demo_codec, [''spool''], demo_spool demo_faults)))) =
     \<lparr>dk_files = [(''/spool/smart.json'', ''a'')], dk_temps = [], dk_faults = []\<rparr>"
  by code_simp+

theorem spool_last_write_witness:
  "\<exists>es d'. spool_ReadDir demo_codec (rooted_dir [''spool'']) d' = (Inr es, d') \<and> map_of es ''smart'' = Some (demo_entry ''a'')"
proof -
  have l: "list_all (\<lambda>(c, e). spool_legal demo_ok c e) demo_posts" by (simp add: demo_posts_def demo_legal)
  have s: "collector_name ''smart''" by (simp add: collector_name_def)
  have f: "fold (\<lambda>((k, e), written) m. if written then m(k \<mapsto> e\<lparr>se_data := se_data e\<rparr>) else m) (zip demo_posts [True, False]) m ''smart''
      = Some (demo_entry ''a'')" for m
    by (simp add: demo_posts_def)
  from spool_last_write [OF demo_good l demo_run(2)] show ?thesis unfolding demo_run(1) using s f by fastforce
qed

theorem doctor_freshness_witness:
  "checkSpoolFreshness demo_codec 0 (DefaultConfig\<lparr>dc_spoolDir := rooted_dir [''spool'']\<rparr>) (demo_spool []) \<noteq> (FoundOK, demo_spool [])"
  using doctor_freshness [OF demo_good [of "[]"], of "DefaultConfig\<lparr>dc_spoolDir := rooted_dir [''spool'']\<rparr>" 0]
  by (simp add: DefaultConfig_def demo_spool_def collector_name_def spool_look_def content_def)

end
