(* ===== verification/Jobrun.thy ===== *)
theory Jobrun
  imports Runstats Spool Gotime
begin

text \<open>
  \<open>bitacora-run\<close>: the wrapped command (\<open>internal/execwrap\<close>), the job record made of how it ended (\<open>job.go\<close>,
  \<open>trigger.go\<close>) and the program around them (\<open>main.go\<close>).  What the operating system did to the child is an argument:
  whether it started, which branch of the \<open>select\<close> was taken, what \<open>Wait\<close> returned in the end, and the captured output.
\<close>

subsection \<open>Running the command (execwrap.go)\<close>

record run_result =
  rr_startedAt :: time
  rr_finishedAt :: time
  rr_exitCode :: int
  rr_signal :: string
  rr_signalNum :: int
  rr_timedOut :: bool
  rr_stdout :: string
  rr_stderr :: string

text \<open>
  What \<open>cmd.Wait\<close> returns: nothing, an \<open>ExitError\<close> of an exit code or of a signal (whose \<open>ExitCode\<close> is -1), or
  another error.
\<close>

datatype wait_result = WaitOk | WaitExit int | WaitSignal int string | WaitFailed

definition applyExitState :: "wait_result \<Rightarrow> run_result \<Rightarrow> run_result" where
  "applyExitState w r =
     (case w of
        WaitOk \<Rightarrow> r\<lparr>rr_exitCode := 0\<rparr>
      | WaitFailed \<Rightarrow> r\<lparr>rr_exitCode := - 1\<rparr>
      | WaitExit c \<Rightarrow> r\<lparr>rr_exitCode := c\<rparr>
      | WaitSignal n name \<Rightarrow> r\<lparr>rr_exitCode := - 1, rr_signal := name, rr_signalNum := n\<rparr>)"

datatype select_end = WaitReturned | TimeoutFired | ContextCancelled

datatype sent_signal = SIGTERM | SIGKILL

definition defaultGracePeriod :: duration where
  "defaultGracePeriod = 5 * second"

text \<open>The signals sent to a child that ends \<open>after\<close> the first one, \<open>None\<close> when it does not end by itself.\<close>

definition terminateGracefully :: "duration \<Rightarrow> duration option \<Rightarrow> sent_signal list" where
  "terminateGracefully grace0 after =
     (let grace = (if grace0 \<le> 0 then defaultGracePeriod else grace0) in
      case after of
        Some t \<Rightarrow> if t < grace then [SIGTERM] else [SIGTERM, SIGKILL]
      | None \<Rightarrow> [SIGTERM, SIGKILL])"

record child =
  ch_startErr :: "string option"
  ch_startedAt :: time
  ch_finishedAt :: time
  ch_end :: select_end
  ch_wait :: wait_result
  ch_stdout :: string
  ch_stderr :: string

datatype exec_error = EmptyArgv | StartFailed string string

text \<open>Without a timeout its channel is nil and never ready.\<close>

definition exec_Run :: "string list \<Rightarrow> duration \<Rightarrow> child \<Rightarrow> exec_error + run_result" where
  "exec_Run argv timeout ch =
     (if argv = [] then Inl EmptyArgv
      else
        (case ch_startErr ch of
           Some e \<Rightarrow> Inl (StartFailed (hd argv) e)
         | None \<Rightarrow>
             Inr (applyExitState (ch_wait ch)
               \<lparr>rr_startedAt = ch_startedAt ch, rr_finishedAt = ch_finishedAt ch, rr_exitCode = 0, rr_signal = [],
                rr_signalNum = 0, rr_timedOut = (0 < timeout \<and> ch_end ch = TimeoutFired),
                rr_stdout = ch_stdout ch, rr_stderr = ch_stderr ch\<rparr>)))"

subsection \<open>The job record (job.go, trigger.go)\<close>

text \<open>\<open>trunc\<close> is Go's conversion of a \<open>float64\<close> to an \<open>int64\<close>.\<close>

definition statErrCount :: "(gofloat \<Rightarrow> int) \<Rightarrow> jobStats \<Rightarrow> int" where
  "statErrCount trunc stats =
     (case map_of stats StatErrors of
        Some (StatInt64 n) \<Rightarrow> n
      | Some (StatInt n) \<Rightarrow> n
      | Some (StatFloat x) \<Rightarrow> trunc x
      | _ \<Rightarrow> 0)"

definition statusFor :: "(gofloat \<Rightarrow> int) \<Rightarrow> run_result \<Rightarrow> jobStats \<Rightarrow> string" where
  "statusFor trunc r stats =
     (if rr_timedOut r then ''timeout''
      else if rr_signal r \<noteq> [] then ''killed''
      else if rr_exitCode r \<noteq> 0 then ''failed''
      else if 0 < statErrCount trunc stats then ''warning''
      else ''success'')"

definition exitCodeFor :: "run_result \<Rightarrow> int" where
  "exitCodeFor r = (if 0 < rr_signalNum r then 128 + rr_signalNum r else rr_exitCode r)"

text \<open>The layout \<open>20060102T150405.000000000Z07:00\<close> of a time in UTC.\<close>

definition FormatCompact :: "time \<Rightarrow> string" where
  "FormatCompact t =
     (case civil t of (y, m, d) \<Rightarrow>
       let s = t div second mod 86400; two = (\<lambda>n. pad_zeros 2 (itoa (nat n))) in
       (if y < 0 then CHR ''-'' # pad_zeros 4 (itoa (nat (- y))) else pad_zeros 4 (itoa (nat y))) @
       two m @ two d @ ''T'' @ two (s div 3600) @ two (s div 60 mod 60) @ two (s mod 60) @ ''.'' @
       pad_zeros 9 (itoa (nat (t mod second))) @ ''Z'')"

definition newULID :: "string option \<Rightarrow> time \<Rightarrow> string" where
  "newULID drawn t = (case drawn of Some i \<Rightarrow> i | None \<Rightarrow> FormatCompact t)"

record run_env =
  re_rclone :: "string \<Rightarrow> rcloneStats option option"
  re_trunc :: "gofloat \<Rightarrow> int"
  re_rnd :: "rat \<Rightarrow> rat"
  re_encode :: "stat_value job \<Rightarrow> string option"
  re_jobULID :: "string option"
  re_invocationID :: string
  re_journalStream :: string
  re_parentComm :: "string option"
  re_hostReadErr :: bool
  re_hostULID :: "string option"
  re_hostSaved :: bool
  re_socket :: bool
  re_now :: time

definition buildJob ::
  "run_env \<Rightarrow> string \<Rightarrow> string \<Rightarrow> string list \<Rightarrow> string \<Rightarrow> run_result \<Rightarrow> stat_value job \<times> string list" where
  "buildJob env jobName hostID argv trigger r =
     (case Extract (re_rclone env) (For argv) (rr_stdout r) (rr_stderr r) (rr_exitCode r) of (stats, extractErrs) \<Rightarrow>
       (\<lparr>jb_id = newULID (re_jobULID env) (rr_startedAt r), jb_jobName = jobName, jb_hostID = hostID,
         jb_startedAt = rr_startedAt r, jb_finishedAt = rr_finishedAt r,
         jb_durationSecond = duration_Seconds (re_rnd env) (time_sub (rr_finishedAt r) (rr_startedAt r)),
         jb_status = statusFor (re_trunc env) r stats, jb_exitCode = rr_exitCode r, jb_signal = rr_signal r,
         jb_stats = stats, jb_peerHostID = [], jb_trigger = trigger, jb_nextExpected = time_zero, jb_logRefs = [],
         jb_schema = CurrentSchemaVersion\<rparr>, extractErrs))"

definition isCronParent :: "string option \<Rightarrow> bool" where
  "isCronParent comm = (case comm of None \<Rightarrow> False | Some c \<Rightarrow> contains (ToLower (trim_space c)) ''cron'')"

definition detectTrigger :: "run_env \<Rightarrow> string" where
  "detectTrigger env =
     (if re_invocationID env \<noteq> [] \<or> re_journalStream env \<noteq> [] then ''systemd''
      else if isCronParent (re_parentComm env) then ''cron''
      else ''manual'')"

subsection \<open>The program (main.go)\<close>

record run_flags =
  rf_job :: string
  rf_argv :: "string list"
  rf_timeout :: duration
  rf_spoolDir :: string
  rf_peerHostID :: string

text \<open>The job that was built and how handing it over ended: by the socket or not, and the error if both ways failed.\<close>

type_synonym handover = "stat_value job \<times> bool \<times> spool_error option"

definition instrument ::
  "spoolCodec \<Rightarrow> run_env \<Rightarrow> run_flags \<Rightarrow> run_result \<Rightarrow> string option \<Rightarrow> disk \<Rightarrow> handover \<times> string option \<times> disk" where
  "instrument C env fl r hostfile d =
     (case LoadOrCreateHostID (re_hostReadErr env) (re_hostULID env) (re_hostSaved env) hostfile of (loaded, hostfile') \<Rightarrow>
       let hostID = (case loaded of Inl _ \<Rightarrow> [] | Inr i \<Rightarrow> i);
           job = (fst (buildJob env (rf_job fl) hostID (rf_argv fl) (detectTrigger env) r))\<lparr>jb_peerHostID := rf_peerHostID fl\<rparr> in
       case job_Write C (re_socket env \<and> re_encode env job \<noteq> None) (re_now env) (rf_spoolDir fl) (jb_id job) (jb_schema job)
              (re_encode env job) d of
         ((usedSocket, err), d') \<Rightarrow> ((job, usedSocket, err), hostfile', d'))"

text \<open>\<open>flags\<close> is \<open>None\<close> when parsing them fails.\<close>

definition run ::
  "spoolCodec \<Rightarrow> run_env \<Rightarrow> run_flags option \<Rightarrow> child \<Rightarrow> string option \<Rightarrow> disk \<Rightarrow> int \<times> handover option \<times> string option \<times> disk" where
  "run C env flags ch hostfile d =
     (case flags of
        None \<Rightarrow> (2, None, hostfile, d)
      | Some fl \<Rightarrow>
          if rf_job fl = [] \<or> rf_argv fl = [] then (2, None, hostfile, d)
          else
            (case exec_Run (rf_argv fl) (rf_timeout fl) ch of
               Inl _ \<Rightarrow> (1, None, hostfile, d)
             | Inr r \<Rightarrow>
                 (case instrument C env fl r hostfile d of
                    (h, hostfile', d') \<Rightarrow> (exitCodeFor r, Some h, hostfile', d'))))"

subsection \<open>The wrapper is transparent and records every run\<close>

text \<open>The exit status of the child as a shell reports it, and the outcome that the job record must state.\<close>

fun child_status :: "wait_result \<Rightarrow> int" where
  "child_status WaitOk = 0"
| "child_status (WaitExit c) = c"
| "child_status (WaitSignal n name) = 128 + n"
| "child_status WaitFailed = - 1"

fun well_ended :: "wait_result \<Rightarrow> bool" where
  "well_ended (WaitExit c) = (c \<noteq> 0)"
| "well_ended (WaitSignal n name) = (0 < n \<and> name \<noteq> [])"
| "well_ended _ = True"

definition job_outcome :: "run_flags \<Rightarrow> child \<Rightarrow> int \<Rightarrow> string" where
  "job_outcome fl ch reported =
     (if 0 < rf_timeout fl \<and> ch_end ch = TimeoutFired then ''timeout''
      else
        case ch_wait ch of
          WaitSignal n name \<Rightarrow> ''killed''
        | WaitOk \<Rightarrow> if 0 < reported then ''warning'' else ''success''
        | _ \<Rightarrow> ''failed'')"

lemma exec_Run_started:
  assumes "argv \<noteq> []" "ch_startErr ch = None" "well_ended (ch_wait ch)"
  obtains r where "exec_Run argv timeout ch = Inr r" "exitCodeFor r = child_status (ch_wait ch)"
    "rr_startedAt r = ch_startedAt ch" "rr_timedOut r \<longleftrightarrow> 0 < timeout \<and> ch_end ch = TimeoutFired"
    "rr_signal r \<noteq> [] \<longleftrightarrow> (\<exists>n name. ch_wait ch = WaitSignal n name)"
    "rr_exitCode r \<noteq> 0 \<longleftrightarrow> ch_wait ch \<noteq> WaitOk"
  using assms by (cases "ch_wait ch") (auto simp: exec_Run_def applyExitState_def exitCodeFor_def)

lemma statusFor_outcome:
  assumes "rr_timedOut r \<longleftrightarrow> 0 < rf_timeout fl \<and> ch_end ch = TimeoutFired"
    "rr_signal r \<noteq> [] \<longleftrightarrow> (\<exists>n name. ch_wait ch = WaitSignal n name)" "rr_exitCode r \<noteq> 0 \<longleftrightarrow> ch_wait ch \<noteq> WaitOk"
  shows "statusFor trunc r stats = job_outcome fl ch (statErrCount trunc stats)"
  using assms by (cases "ch_wait ch") (auto simp: statusFor_def job_outcome_def)

lemma outcome_valid: "JobStatus_valid (job_outcome fl ch n)"
  by (simp add: job_outcome_def JobStatus_valid_def split: wait_result.split)

lemma FormatCompact_nonempty: "FormatCompact t \<noteq> []"
  by (simp add: FormatCompact_def Let_def split: prod.splits)

lemma LoadOrCreateHostID_nonempty:
  "LoadOrCreateHostID readErr ulid saved hostfile = (Inr i, hostfile') \<Longrightarrow> ulid \<noteq> Some [] \<Longrightarrow> i \<noteq> []"
  by (auto simp: LoadOrCreateHostID_def read_hostid_def persistHostID_def Let_def split: option.splits if_splits)

lemma buildJob_fields [simp]:
  fixes env :: run_env and name host trigger :: string and argv :: "string list" and r :: run_result
  defines "job \<equiv> fst (buildJob env name host argv trigger r)"
  shows "jb_id job = newULID (re_jobULID env) (rr_startedAt r)" "jb_jobName job = name" "jb_hostID job = host"
    "jb_startedAt job = rr_startedAt r" "jb_status job = statusFor (re_trunc env) r (jb_stats job)"
    "jb_schema job = CurrentSchemaVersion"
    "jb_stats job = fst (Extract (re_rclone env) (For argv) (rr_stdout r) (rr_stderr r) (rr_exitCode r))"
  by (simp_all add: job_def buildJob_def split_beta)

lemma instrument_job:
  obtains job h d' where "instrument C env fl r hostfile d = (h, snd (LoadOrCreateHostID (re_hostReadErr env) (re_hostULID env) (re_hostSaved env) hostfile), d')"
    "fst h = job" "jb_id job = newULID (re_jobULID env) (rr_startedAt r)" "jb_jobName job = rf_job fl"
    "jb_hostID job = (case fst (LoadOrCreateHostID (re_hostReadErr env) (re_hostULID env) (re_hostSaved env) hostfile) of Inl _ \<Rightarrow> [] | Inr i \<Rightarrow> i)"
    "jb_startedAt job = rr_startedAt r" "jb_status job = statusFor (re_trunc env) r (jb_stats job)" "jb_schema job = CurrentSchemaVersion"
    "jb_stats job = fst (Extract (re_rclone env) (For (rf_argv fl)) (rr_stdout r) (rr_stderr r) (rr_exitCode r))"
    "job_Write C (re_socket env \<and> re_encode env job \<noteq> None) (re_now env) (rf_spoolDir fl) (jb_id job) (jb_schema job) (re_encode env job) d = (snd h, d')"
proof -
  let ?L = "LoadOrCreateHostID (re_hostReadErr env) (re_hostULID env) (re_hostSaved env) hostfile"
  let ?h = "case fst ?L of Inl _ \<Rightarrow> [] | Inr i \<Rightarrow> i"
  let ?job = "(fst (buildJob env (rf_job fl) ?h (rf_argv fl) (detectTrigger env) r))\<lparr>jb_peerHostID := rf_peerHostID fl\<rparr>"
  obtain how d' where w: "job_Write C (re_socket env \<and> re_encode env ?job \<noteq> None) (re_now env) (rf_spoolDir fl) (jb_id ?job) (jb_schema ?job)
      (re_encode env ?job) d = (how, d')" by fastforce
  show thesis
    by (rule that [of "(?job, how)" d' ?job]) (simp_all add: instrument_def w [simplified] Let_def split_beta)
qed

text \<open>
  C35 \<open>bitacora-run\<close> changes nothing about the command and always records it: for a command that could be started, whatever
  the host-id file, the socket, the spool and the disk do, the wrapper exits with the status of the command (128
  plus the signal number when it was killed), and it builds a job that states how the command ended and that is
  valid whenever the host identity could be read or created.  A command that cannot be started gives 1, wrong
  usage 2.
\<close>

theorem run_transparent:
  assumes "rf_job fl \<noteq> []" "rf_argv fl \<noteq> []" "ch_startErr ch = None" "well_ended (ch_wait ch)"
    and "re_jobULID env \<noteq> Some []" "re_hostULID env \<noteq> Some []" "\<not> is_zero_time (ch_startedAt ch)"
  shows "\<exists>job how hostfile' d'.
      run C env (Some fl) ch hostfile d = (child_status (ch_wait ch), Some (job, how), hostfile', d') \<and>
      jb_status job = job_outcome fl ch (statErrCount (re_trunc env) (jb_stats job)) \<and>
      (jb_hostID job \<noteq> [] \<longleftrightarrow> (\<exists>i. fst (LoadOrCreateHostID (re_hostReadErr env) (re_hostULID env) (re_hostSaved env) hostfile) = Inr i)) \<and>
      (Job_Validate job = None \<longleftrightarrow> jb_hostID job \<noteq> [])"
proof -
  obtain r where r: "exec_Run (rf_argv fl) (rf_timeout fl) ch = Inr r" "exitCodeFor r = child_status (ch_wait ch)"
    "rr_startedAt r = ch_startedAt ch" "rr_timedOut r \<longleftrightarrow> 0 < rf_timeout fl \<and> ch_end ch = TimeoutFired"
    "rr_signal r \<noteq> [] \<longleftrightarrow> (\<exists>n name. ch_wait ch = WaitSignal n name)" "rr_exitCode r \<noteq> 0 \<longleftrightarrow> ch_wait ch \<noteq> WaitOk"
    using exec_Run_started [OF assms(2-4)] by metis
  let ?L = "LoadOrCreateHostID (re_hostReadErr env) (re_hostULID env) (re_hostSaved env) hostfile"
  obtain job h d' where j: "instrument C env fl r hostfile d = (h, snd ?L, d')" "fst h = job"
    "jb_id job = newULID (re_jobULID env) (rr_startedAt r)" "jb_jobName job = rf_job fl"
    "jb_hostID job = (case fst ?L of Inl _ \<Rightarrow> [] | Inr i \<Rightarrow> i)" "jb_startedAt job = rr_startedAt r"
    "jb_status job = statusFor (re_trunc env) r (jb_stats job)" "jb_schema job = CurrentSchemaVersion"
    by (rule instrument_job [of C env fl r hostfile d])
  have st: "jb_status job = job_outcome fl ch (statErrCount (re_trunc env) (jb_stats job))"
    using statusFor_outcome [OF r(4-6)] j(7) by simp
  have h: "jb_hostID job \<noteq> [] \<longleftrightarrow> (\<exists>i. fst ?L = Inr i)"
    using j(5) LoadOrCreateHostID_nonempty [of "re_hostReadErr env" "re_hostULID env" "re_hostSaved env" hostfile _ "snd ?L"] assms(6)
    by (cases ?L; cases "fst ?L") auto
  have "Job_Validate job = None \<longleftrightarrow> jb_hostID job \<noteq> []"
  proof -
    have "JobStatus_valid (jb_status job)" unfolding st by (rule outcome_valid)
    moreover have "jb_id job \<noteq> []"
      using assms(5) FormatCompact_nonempty by (cases "re_jobULID env") (simp_all add: j(3) newULID_def)
    ultimately show ?thesis
      using assms(1,7) by (simp add: Job_Validate_def j(4,6,8) r(3) CurrentSchemaVersion_def)
  qed
  moreover have "run C env (Some fl) ch hostfile d = (child_status (ch_wait ch), Some (job, snd h), snd ?L, d')"
    using assms(1,2) r(1,2) j(1,2) by (cases h) (simp add: run_def)
  ultimately show ?thesis
    using st h by (intro exI [of _ job] exI [of _ "snd h"] exI [of _ "snd ?L"] exI [of _ d'] conjI)
qed

text \<open>
  C36 A job outlives an unreachable agent: when the agent's socket does not take the job and the disk works, the job
  of the run is in the spool under its identifier, with the encoded job as its data, where the agent's next
  reading of the directory finds it, and every other entry reads as before.
\<close>

theorem job_survives_agent_outage:
  assumes "rf_job fl \<noteq> []" "rf_argv fl \<noteq> []" "ch_startErr ch = None" "well_ended (ch_wait ch)" "\<not> re_socket env"
    and sp: "spool_good ind ok (C, bs, d)" "dk_faults d = []" "rf_spoolDir fl = rooted_dir bs"
    and id: "collector_name (newULID (re_jobULID env) (ch_startedAt ch))"
    and enc: "\<And>job. jb_id job = newULID (re_jobULID env) (ch_startedAt ch) \<Longrightarrow> jb_schema job = CurrentSchemaVersion \<Longrightarrow> \<exists>p. re_encode env job = Some p \<and>
       ok \<lparr>se_collector = jb_id job, se_ts = re_now env, se_schema = jb_schema job, se_data = p, se_errors = []\<rparr>"
  shows "\<exists>job p hostfile' d' es.
      run C env (Some fl) ch hostfile d = (child_status (ch_wait ch), Some (job, False, None), hostfile', d') \<and>
      jb_id job = newULID (re_jobULID env) (ch_startedAt ch) \<and> re_encode env job = Some p \<and>
      spool_ReadDir C (rooted_dir bs) d' = (Inr es, d') \<and>
      map_of es (jb_id job) = Some \<lparr>se_collector = jb_id job, se_ts = re_now env, se_schema = jb_schema job, se_data = ind p, se_errors = []\<rparr> \<and>
      (\<forall>c. collector_name c \<longrightarrow> c \<noteq> jb_id job \<longrightarrow> map_of es c = spool_look (C, bs, d) c)"
proof -
  obtain r where r: "exec_Run (rf_argv fl) (rf_timeout fl) ch = Inr r" "exitCodeFor r = child_status (ch_wait ch)"
    "rr_startedAt r = ch_startedAt ch"
    using exec_Run_started [OF assms(2-4)] by metis
  let ?L = "LoadOrCreateHostID (re_hostReadErr env) (re_hostULID env) (re_hostSaved env) hostfile"
  obtain job h d' where j: "instrument C env fl r hostfile d = (h, snd ?L, d')" "fst h = job"
    "jb_id job = newULID (re_jobULID env) (rr_startedAt r)" "jb_schema job = CurrentSchemaVersion"
    "job_Write C (re_socket env \<and> re_encode env job \<noteq> None) (re_now env) (rf_spoolDir fl) (jb_id job) (jb_schema job) (re_encode env job) d = (snd h, d')"
    by (rule instrument_job [of C env fl r hostfile d])
  obtain p where p: "re_encode env job = Some p"
    "ok \<lparr>se_collector = jb_id job, se_ts = re_now env, se_schema = jb_schema job, se_data = p, se_errors = []\<rparr>" (is "ok ?e")
    using enc [of job] j(3,4) r(3) by auto
  have cn: "collector_name (jb_id job)" using id j(3) r(3) by simp
  have legal: "spool_legal ok (jb_id job) ?e" using p(2) cn by (simp add: spool_legal_def)
  obtain raw where raw: "sp_marshal C ?e = Some raw"
    using sp(1) p(2) by (auto simp: spool_good_def spool_codec_ok_def)
  have w: "spool_WriteAtomic C (re_now env) (rooted_dir bs) (jb_id job) (jb_schema job) (Some p) [] d =
      (None, put_file (Join [rooted_dir bs, jb_id job @ ''.json'']) raw d)"
    using cn sp(2) raw by (simp add: spool_WriteAtomic_def collector_name_def)
  have post: "spool_post (jb_id job) ?e (C, bs, d) = (True, (C, bs, d'))" and h: "snd h = (False, None)"
    using w j(5) assms(5) p(1) sp(3) by (auto simp: spool_post_def job_Write_def)
  have q: "dk_faults d' = []" using w j(5) assms(5) p(1) sp(2,3) by (auto simp: job_Write_def)
  note look = spool.post_done [OF sp(1) legal post] and good = spool.post_good [OF sp(1) legal post, THEN conjunct1]
  obtain es where es: "spool_ReadDir C (rooted_dir bs) d' = (Inr es, d')" "\<forall>c. collector_name c \<longrightarrow> map_of es c = spool_look (C, bs, d') c"
    using ReadDir_looks [OF good q] by blast
  have "run C env (Some fl) ch hostfile d = (child_status (ch_wait ch), Some (job, False, None), snd ?L, d')"
    using assms(1,2) r(1,2) j(1,2) h by (cases h) (simp add: run_def)
  then show ?thesis using es p(1) cn look j(3) r(3) by auto
qed

text \<open>A command killed by signal 9 on a machine whose agent is down.\<close>

definition demo_env :: run_env where
  "demo_env = \<lparr>re_rclone = (\<lambda>_. None), re_trunc = (\<lambda>_. 0), re_rnd = (\<lambda>x. x), re_encode = (\<lambda>job. Some (jb_status job)),
     re_jobULID = Some ''smart'', re_invocationID = [], re_journalStream = [], re_parentComm = Some ''crond'',
     re_hostReadErr = False, re_hostULID = Some ''01H'', re_hostSaved = True, re_socket = False, re_now = 0\<rparr>"

definition demo_flags :: run_flags where
  "demo_flags = \<lparr>rf_job = ''backup'', rf_argv = [''rsync''], rf_timeout = 0, rf_spoolDir = rooted_dir [''spool''], rf_peerHostID = []\<rparr>"

definition demo_child :: child where
  "demo_child = \<lparr>ch_startErr = None, ch_startedAt = 0, ch_finishedAt = 1, ch_end = WaitReturned, ch_wait = WaitSignal 9 ''killed'',
     ch_stdout = [], ch_stderr = []\<rparr>"

lemmas demo_run_defs = demo_env_def demo_flags_def demo_child_def

theorem run_transparent_witness:
  "fst (run demo_codec demo_env (Some demo_flags) demo_child None (demo_spool [Some 0])) = 137"
  using run_transparent [of demo_flags demo_child demo_env demo_codec None "demo_spool [Some 0]"]
  by (auto simp: demo_run_defs is_zero_time_def time_zero_def)

theorem job_survives_agent_outage_witness:
  "\<exists>es d'. spool_ReadDir demo_codec (rooted_dir [''spool'']) d' = (Inr es, d') \<and> map_of es ''smart'' \<noteq> None"
proof -
  have e: "\<exists>p. re_encode demo_env job = Some p \<and>
       demo_ok \<lparr>se_collector = jb_id job, se_ts = re_now demo_env, se_schema = jb_schema job, se_data = p, se_errors = []\<rparr>"
    if "jb_id job = newULID (re_jobULID demo_env) (ch_startedAt demo_child)" "jb_schema job = CurrentSchemaVersion" for job
    using that by (simp add: demo_run_defs demo_ok_def demo_entry_def newULID_def CurrentSchemaVersion_def)
  have n: "newULID (re_jobULID demo_env) (ch_startedAt demo_child) = ''smart''" by (simp add: demo_run_defs newULID_def)
  have c: "collector_name ''smart''" by (simp add: collector_name_def)
  have h: "rf_job demo_flags \<noteq> []" "rf_argv demo_flags \<noteq> []" "ch_startErr demo_child = None" "well_ended (ch_wait demo_child)"
    "\<not> re_socket demo_env" "dk_faults (demo_spool []) = []" "rf_spoolDir demo_flags = rooted_dir [''spool'']"
    by (simp_all add: demo_run_defs demo_spool_def)
  show ?thesis
    using job_survives_agent_outage [OF h(1-5) demo_good h(6,7) c [folded n] e, of None] n by auto
qed

end
