(* ===== verification/Storage.thy ===== *)
theory Storage
  imports Schema Gotime Gopath Mailbox
begin

text \<open>
  The relational store of the hub, \<open>internal/storage\<close>: events and inventories in SQLite, one database file per month
  for events (\<open>sqlite.go\<close>, \<open>inventory.go\<close>), and in PostgreSQL (\<open>postgres.go\<close>).  A table is the list of its rows in the
  order of insertion, and an SQL statement is the list function that the SQL standard gives it; rows with equal sort
  keys keep their order.  JSON is the parameter \<open>eventJSON\<close> (with the form \<open>js_norm\<close> that
  PostgreSQL gives a text it keeps as JSONB), full-text matching the parameter \<open>match\<close>.  Every call to
  a database takes the next entry of a script of failures, \<open>True\<close> for a call that fails.
\<close>

subsection \<open>Rows\<close>

record event_row =
  er_id :: string
  er_ts :: int
  er_tsReceived :: "int option"
  er_hostID :: string
  er_source :: string
  er_type :: string
  er_severity :: string
  er_title :: string
  er_subject :: string
  er_attrs :: string
  er_fingerprint :: string
  er_logRefs :: string
  er_schema :: int

record eventJSON =
  js_subject :: "eventSubject \<Rightarrow> string option"
  js_attrs :: "labels \<Rightarrow> string option"
  js_logRefs :: "logRef list \<Rightarrow> string option"
  js_items :: "inventoryItem list \<Rightarrow> string option"
  un_subject :: "string \<Rightarrow> eventSubject option"
  un_attrs :: "string \<Rightarrow> labels option"
  un_logRefs :: "string \<Rightarrow> logRef list option"
  un_items :: "string \<Rightarrow> inventoryItem list option"
  js_norm :: "string \<Rightarrow> string"

datatype storage_error =
    InvalidEvent schema_error | InvalidInventory schema_error
  | MarshalingSubject | MarshalingAttrs | MarshalingLogRefs | MarshalingItems
  | DBFailed | StorageClosed | CtxErr | BadQuery | UnmarshalingItems

text \<open>The values bound to the \<open>INSERT\<close>, in the order of its columns.\<close>

definition event_values :: "eventJSON \<Rightarrow> event \<Rightarrow> storage_error + event_row" where
  "event_values J e =
     (case js_subject J (ev_subject e) of
        None \<Rightarrow> Inl MarshalingSubject
      | Some subject \<Rightarrow>
          (case js_attrs J (ev_attrs e) of
             None \<Rightarrow> Inl MarshalingAttrs
           | Some attrs \<Rightarrow>
               (case js_logRefs J (ev_logRefs e) of
                  None \<Rightarrow> Inl MarshalingLogRefs
                | Some logRefs \<Rightarrow>
                    Inr \<lparr>er_id = ev_id e, er_ts = unix_milli (ev_ts e),
                      er_tsReceived = (if is_zero_time (ev_tsReceived e) then None else Some (unix_milli (ev_tsReceived e))),
                      er_hostID = ev_hostID e, er_source = ev_source e, er_type = ev_type e, er_severity = ev_severity e,
                      er_title = ev_title e, er_subject = subject, er_attrs = attrs, er_fingerprint = ev_fingerprint e,
                      er_logRefs = logRefs, er_schema = ev_schema e\<rparr>)))"

text \<open>\<open>INSERT ... ON CONFLICT(id) DO NOTHING\<close>, and whether a row was inserted.\<close>

definition insert_row :: "event_row \<Rightarrow> event_row list \<Rightarrow> bool \<times> event_row list" where
  "insert_row r rows = (if er_id r \<in> set (map er_id rows) then (False, rows) else (True, rows @ [r]))"

text \<open>
  One row of \<open>scanEvents\<close>.  The statements select \<open>fingerprint, log_refs_json\<close> in this order, and \<open>Scan\<close> binds the two
  columns to \<open>logRefsJSON, e.Fingerprint\<close>.  A value that does not parse leaves the zero value.
\<close>

definition zero_subject :: eventSubject where
  "zero_subject = \<lparr>es_kind = [], es_name = [], es_pid = 0\<rparr>"

definition scan_event :: "eventJSON \<Rightarrow> event_row \<Rightarrow> event" where
  "scan_event J r =
     (let logRefsJSON = er_fingerprint r; fingerprint = er_logRefs r in
      \<lparr>ev_id = er_id r, ev_ts = from_unix_milli (er_ts r),
       ev_tsReceived = (case er_tsReceived r of None \<Rightarrow> time_zero | Some ms \<Rightarrow> from_unix_milli ms),
       ev_hostID = er_hostID r, ev_source = er_source r, ev_type = er_type r, ev_severity = er_severity r,
       ev_title = er_title r,
       ev_subject = (if er_subject r = [] then zero_subject else case un_subject J (er_subject r) of None \<Rightarrow> zero_subject | Some s \<Rightarrow> s),
       ev_attrs = (if er_attrs r = [] then [] else case un_attrs J (er_attrs r) of None \<Rightarrow> [] | Some a \<Rightarrow> a),
       ev_fingerprint = fingerprint,
       ev_logRefs = (if logRefsJSON = [] then [] else case un_logRefs J logRefsJSON of None \<Rightarrow> [] | Some l \<Rightarrow> l),
       ev_schema = er_schema r\<rparr>)"

definition scanEvents :: "eventJSON \<Rightarrow> event_row list \<Rightarrow> event list" where
  "scanEvents J rows = map (scan_event J) rows"

text \<open>\<open>WHERE ts BETWEEN from AND to AND (host = '' OR host_id = host) ORDER BY ts ASC\<close>.\<close>

definition select_range :: "int \<Rightarrow> int \<Rightarrow> string \<Rightarrow> event_row list \<Rightarrow> event_row list" where
  "select_range from to host rows =
     sort_key er_ts (filter (\<lambda>r. from \<le> er_ts r \<and> er_ts r \<le> to \<and> (host = [] \<or> er_hostID r = host)) rows)"

text \<open>\<open>ORDER BY ts DESC LIMIT n\<close>; a negative limit is none.\<close>

definition newest_first :: "int \<Rightarrow> event_row list \<Rightarrow> event_row list" where
  "newest_first limit rows =
     (let sorted_rows = sort_key (\<lambda>r. - er_ts r) rows in if limit < 0 then sorted_rows else take (nat limit) sorted_rows)"

subsection \<open>Inventories (inventory.go)\<close>

type_synonym inv_table = "((string \<times> string) \<times> (int \<times> int \<times> string)) list"

definition scanInventory :: "eventJSON \<Rightarrow> string \<times> string \<Rightarrow> (int \<times> int \<times> string) option \<Rightarrow> storage_error + inventory option" where
  "scanInventory J k row =
     (case row of
        None \<Rightarrow> Inr None
      | Some (reportedAt, schema, itemsJSON) \<Rightarrow>
          (case un_items J itemsJSON of
             None \<Rightarrow> Inl UnmarshalingItems
           | Some items \<Rightarrow>
               Inr (Some \<lparr>in_hostID = fst k, in_kind = snd k, in_reportedAt = from_unix_milli reportedAt,
                 in_schema = schema, in_items = items\<rparr>)))"

definition upsert_row :: "inventory \<Rightarrow> string \<Rightarrow> inv_table \<Rightarrow> inv_table" where
  "upsert_row iv itemsJSON t =
     AList.update (in_hostID iv, in_kind iv) (unix_milli (in_reportedAt iv), in_schema iv, itemsJSON) t"

subsection \<open>PostgreSQL (postgres.go)\<close>

record pgStore =
  pg_events :: "event_row list"
  pg_inventories :: inv_table
  pg_faults :: "bool list"

definition pg_call :: "pgStore \<Rightarrow> bool \<times> pgStore" where
  "pg_call s = (case pg_faults s of [] \<Rightarrow> (False, s) | f # fs \<Rightarrow> (f, s\<lparr>pg_faults := fs\<rparr>))"

definition jsonb_row :: "eventJSON \<Rightarrow> event_row \<Rightarrow> event_row" where
  "jsonb_row J r =
     r\<lparr>er_subject := js_norm J (er_subject r), er_attrs := js_norm J (er_attrs r), er_logRefs := js_norm J (er_logRefs r)\<rparr>"

definition pg_InsertEvent :: "eventJSON \<Rightarrow> event \<Rightarrow> pgStore \<Rightarrow> storage_error option \<times> pgStore" where
  "pg_InsertEvent J e s =
     (case Event_Validate e of
        Some v \<Rightarrow> (Some (InvalidEvent v), s)
      | None \<Rightarrow>
          (case event_values J e of
             Inl err \<Rightarrow> (Some err, s)
           | Inr r \<Rightarrow>
               (case pg_call s of
                  (True, s1) \<Rightarrow> (Some DBFailed, s1)
                | (False, s1) \<Rightarrow> (None, s1\<lparr>pg_events := snd (insert_row (jsonb_row J r) (pg_events s1))\<rparr>))))"

definition pg_ListEvents :: "eventJSON \<Rightarrow> time \<Rightarrow> time \<Rightarrow> string \<Rightarrow> pgStore \<Rightarrow> (storage_error + event list) \<times> pgStore" where
  "pg_ListEvents J from to host s =
     (case pg_call s of
        (True, s1) \<Rightarrow> (Inl DBFailed, s1)
      | (False, s1) \<Rightarrow> (Inr (scanEvents J (select_range (unix_milli from) (unix_milli to) host (pg_events s1))), s1))"

text \<open>\<open>match query\<close> is the full-text condition on a title.\<close>

definition pg_SearchEventTitles ::
  "eventJSON \<Rightarrow> (string \<Rightarrow> string \<Rightarrow> bool) \<Rightarrow> string \<Rightarrow> int \<Rightarrow> pgStore \<Rightarrow> (storage_error + event list) \<times> pgStore" where
  "pg_SearchEventTitles J match query limit s =
     (case pg_call s of
        (True, s1) \<Rightarrow> (Inl DBFailed, s1)
      | (False, s1) \<Rightarrow>
          if limit < 0 then (Inl DBFailed, s1)
          else (Inr (scanEvents J (newest_first limit (filter (\<lambda>r. match query (er_title r)) (pg_events s1)))), s1))"

definition pg_UpsertInventory :: "eventJSON \<Rightarrow> inventory \<Rightarrow> pgStore \<Rightarrow> storage_error option \<times> pgStore" where
  "pg_UpsertInventory J iv s =
     (case Inventory_Validate iv of
        Some v \<Rightarrow> (Some (InvalidInventory v), s)
      | None \<Rightarrow>
          (case js_items J (in_items iv) of
             None \<Rightarrow> (Some MarshalingItems, s)
           | Some itemsJSON \<Rightarrow>
               (case pg_call s of
                  (True, s1) \<Rightarrow> (Some DBFailed, s1)
                | (False, s1) \<Rightarrow> (None, s1\<lparr>pg_inventories := upsert_row iv (js_norm J itemsJSON) (pg_inventories s1)\<rparr>))))"

definition pg_GetInventory :: "eventJSON \<Rightarrow> string \<Rightarrow> string \<Rightarrow> pgStore \<Rightarrow> (storage_error + inventory option) \<times> pgStore" where
  "pg_GetInventory J host kind s =
     (case pg_call s of
        (True, s1) \<Rightarrow> (Inl DBFailed, s1)
      | (False, s1) \<Rightarrow> (scanInventory J (host, kind) (map_of (pg_inventories s1) (host, kind)), s1))"

subsection \<open>SQLite (sqlite.go)\<close>

record monthTables =
  mt_events :: "event_row list"
  mt_fts :: "(string \<times> string) list"

text \<open>
  \<open>sq_files\<close> are the month files, \<open>sq_open\<close> the months whose database is open (and cached), \<open>sq_inv\<close> the table in
  \<open>inventory.db\<close>.
\<close>

record sqliteStore =
  sq_files :: "(string \<times> monthTables) list"
  sq_open :: "string list"
  sq_inv :: inv_table
  sq_invOpen :: bool
  sq_closed :: bool
  sq_faults :: "bool list"

definition sq_call :: "sqliteStore \<Rightarrow> bool \<times> sqliteStore" where
  "sq_call s = (case sq_faults s of [] \<Rightarrow> (False, s) | f # fs \<Rightarrow> (f, s\<lparr>sq_faults := fs\<rparr>))"

definition month_tables :: "sqliteStore \<Rightarrow> string \<Rightarrow> monthTables" where
  "month_tables s m = (case map_of (sq_files s) m of None \<Rightarrow> \<lparr>mt_events = [], mt_fts = []\<rparr> | Some t \<Rightarrow> t)"

definition put_tables :: "string \<Rightarrow> monthTables \<Rightarrow> sqliteStore \<Rightarrow> sqliteStore" where
  "put_tables m t s = s\<lparr>sq_files := AList.update m t (sq_files s)\<rparr>"

definition monthKey :: "time \<Rightarrow> string" where
  "monthKey t =
     (case civil t of (y, m, d) \<Rightarrow>
       (if y < 0 then CHR ''-'' # pad_zeros 4 (itoa (nat (- y))) else pad_zeros 4 (itoa (nat y))) @
       ''-'' @ pad_zeros 2 (itoa (nat m)))"

text \<open>Opening, the pragmas and the migrations are one call; they create the file.\<close>

definition monthDB :: "string \<Rightarrow> sqliteStore \<Rightarrow> bool \<times> sqliteStore" where
  "monthDB m s =
     (if m \<in> set (sq_open s) then (True, s)
      else
        (case sq_call s of
           (True, s1) \<Rightarrow> (False, s1)
         | (False, s1) \<Rightarrow> (True, put_tables m (month_tables s1 m) (s1\<lparr>sq_open := sq_open s1 @ [m]\<rparr>))))"

text \<open>
  What the context of a write does: nothing, be done before the writer takes the request, or be done while the
  caller waits for the answer, in which case the write is carried out all the same.
\<close>

datatype ctx_fate = CtxFine | CtxDoneBefore | CtxDoneWaiting

definition enqueueWrite ::
  "ctx_fate \<Rightarrow> (sqliteStore \<Rightarrow> storage_error option \<times> sqliteStore) \<Rightarrow> sqliteStore \<Rightarrow> storage_error option \<times> sqliteStore" where
  "enqueueWrite ctx f s =
     (if ctx = CtxDoneBefore then (Some CtxErr, s)
      else if sq_closed s then (Some StorageClosed, s)
      else (case f s of (r, s') \<Rightarrow> (if ctx = CtxDoneWaiting then Some CtxErr else r, s')))"

definition insertEvent :: "eventJSON \<Rightarrow> string \<Rightarrow> event \<Rightarrow> sqliteStore \<Rightarrow> storage_error option \<times> sqliteStore" where
  "insertEvent J m e s =
     (case event_values J e of
        Inl err \<Rightarrow> (Some err, s)
      | Inr r \<Rightarrow>
          (case sq_call s of
             (True, s1) \<Rightarrow> (Some DBFailed, s1)
           | (False, s1) \<Rightarrow>
               let t = month_tables s1 m in
               (case insert_row r (mt_events t) of
                  (False, _) \<Rightarrow> (None, s1)
                | (True, rows) \<Rightarrow>
                    let s2 = put_tables m (t\<lparr>mt_events := rows\<rparr>) s1 in
                    (case sq_call s2 of
                       (True, s3) \<Rightarrow> (Some DBFailed, s3)
                     | (False, s3) \<Rightarrow>
                         (None, put_tables m (t\<lparr>mt_events := rows, mt_fts := mt_fts t @ [(ev_id e, ev_title e)]\<rparr>) s3)))))"

definition sq_InsertEvent :: "eventJSON \<Rightarrow> ctx_fate \<Rightarrow> event \<Rightarrow> sqliteStore \<Rightarrow> storage_error option \<times> sqliteStore" where
  "sq_InsertEvent J ctx e s =
     (case Event_Validate e of
        Some v \<Rightarrow> (Some (InvalidEvent v), s)
      | None \<Rightarrow>
          let m = monthKey (ev_ts e) in
          enqueueWrite ctx
            (\<lambda>s. case monthDB m s of
                   (False, s1) \<Rightarrow> (Some DBFailed, s1)
                 | (True, s1) \<Rightarrow> insertEvent J m e s1) s)"

text \<open>
  \<open>AddDate(0, 1, 0)\<close> normalises as \<open>time.Date\<close> does: the day of the month that the next month does not have runs over
  into the month after it, so the result is later by the days of the current month.
\<close>

definition leap :: "int \<Rightarrow> bool" where
  "leap y \<longleftrightarrow> y mod 4 = 0 \<and> (y mod 100 \<noteq> 0 \<or> y mod 400 = 0)"

definition days_in_month :: "int \<Rightarrow> int \<Rightarrow> int" where
  "days_in_month y m = (if m = 2 then if leap y then 29 else 28 else if m \<in> {4, 6, 9, 11} then 30 else 31)"

definition add_month :: "time \<Rightarrow> time" where
  "add_month t = (case civil t of (y, m, d) \<Rightarrow> t + days_in_month y m * (86400 * second))"

lemma add_month_later: "t + 28 * (86400 * second) \<le> add_month t"
  by (simp add: add_month_def days_in_month_def second_def split: prod.split)

function month_steps :: "time \<Rightarrow> time \<Rightarrow> string list \<Rightarrow> string list" where
  "month_steps cur to months =
     (if cur \<le> to
      then month_steps (add_month cur) to (if monthKey cur \<in> set months then months else months @ [monthKey cur])
      else months)"
  by pat_completeness auto

termination
proof (relation "measure (\<lambda>(cur, to, months). nat (to - cur + 1))")
  fix cur to :: time and months :: "string list"
  assume "cur \<le> to"
  moreover have "cur < add_month cur" using add_month_later [of cur] by (simp add: second_def)
  ultimately show "((add_month cur, to, if monthKey cur \<in> set months then months else months @ [monthKey cur]), cur, to, months)
      \<in> measure (\<lambda>(cur, to, months). nat (to - cur + 1))" by simp
qed simp

declare month_steps.simps [simp del]

definition monthsBetween :: "time \<Rightarrow> time \<Rightarrow> string list" where
  "monthsBetween from to =
     (if to < from then []
      else
        let months = month_steps from to [] in
        if monthKey to \<in> set months then months else months @ [monthKey to])"

fun open_months :: "string list \<Rightarrow> sqliteStore \<Rightarrow> bool \<times> sqliteStore" where
  "open_months [] s = (True, s)"
| "open_months (m # ms) s = (case monthDB m s of (False, s1) \<Rightarrow> (False, s1) | (True, s1) \<Rightarrow> open_months ms s1)"

text \<open>
  \<open>cap\<close> is the number of databases a connection can attach (SQLite's own default is 10).  Opening the connection and the
  query are one call each, every \<open>ATTACH\<close> one more.
\<close>

fun attach_months :: "nat \<Rightarrow> string list \<Rightarrow> sqliteStore \<Rightarrow> bool \<times> sqliteStore" where
  "attach_months cap [] s = (True, s)"
| "attach_months cap (m # ms) s =
     (case sq_call s of
        (True, s1) \<Rightarrow> (False, s1)
      | (False, s1) \<Rightarrow> if cap = 0 then (False, s1) else attach_months (cap - 1) ms s1)"

definition sq_ListEvents ::
  "eventJSON \<Rightarrow> nat \<Rightarrow> time \<Rightarrow> time \<Rightarrow> string \<Rightarrow> sqliteStore \<Rightarrow> (storage_error + event list) \<times> sqliteStore" where
  "sq_ListEvents J cap from to host s =
     (let months = monthsBetween from to in
      if months = [] then (Inr [], s)
      else
        (case open_months months s of
           (False, s1) \<Rightarrow> (Inl DBFailed, s1)
         | (True, s1) \<Rightarrow>
             (case sq_call s1 of
                (True, s2) \<Rightarrow> (Inl DBFailed, s2)
              | (False, s2) \<Rightarrow>
                  (case attach_months cap months s2 of
                     (False, s3) \<Rightarrow> (Inl DBFailed, s3)
                   | (True, s3) \<Rightarrow>
                       (case sq_call s3 of
                          (True, s4) \<Rightarrow> (Inl DBFailed, s4)
                        | (False, s4) \<Rightarrow>
                            (Inr (scanEvents J (select_range (unix_milli from) (unix_milli to) host
                               (concat (map (\<lambda>m. mt_events (month_tables s4 m)) months)))), s4))))))"

text \<open>The rows of one month that a full-text query finds; \<open>match query\<close> is \<open>None\<close> when the query does not parse.\<close>

definition search_rows :: "(string \<Rightarrow> bool) \<Rightarrow> int \<Rightarrow> monthTables \<Rightarrow> event_row list" where
  "search_rows p limit t =
     newest_first limit
       (concat (map (\<lambda>(i, title). if p title then filter (\<lambda>r. er_id r = i) (mt_events t) else []) (mt_fts t)))"

fun search_months ::
  "eventJSON \<Rightarrow> (string \<Rightarrow> bool) option \<Rightarrow> int \<Rightarrow> string list \<Rightarrow> sqliteStore \<Rightarrow> (storage_error + event list) \<times> sqliteStore" where
  "search_months J p limit [] s = (Inr [], s)"
| "search_months J p limit (m # ms) s =
     (case monthDB m s of
        (False, s1) \<Rightarrow> (Inl DBFailed, s1)
      | (True, s1) \<Rightarrow>
          (case sq_call s1 of
             (True, s2) \<Rightarrow> (Inl DBFailed, s2)
           | (False, s2) \<Rightarrow>
               (case p of
                  None \<Rightarrow> (Inl BadQuery, s2)
                | Some q \<Rightarrow>
                    (case search_months J p limit ms s2 of
                       (Inl e, s3) \<Rightarrow> (Inl e, s3)
                     | (Inr found, s3) \<Rightarrow> (Inr (scanEvents J (search_rows q limit (month_tables s2 m)) @ found), s3)))))"

text \<open>The months are those open, in the order \<open>ms\<close> in which the map of databases is iterated.\<close>

definition sq_SearchEventTitles ::
  "eventJSON \<Rightarrow> (string \<Rightarrow> (string \<Rightarrow> bool) option) \<Rightarrow> string \<Rightarrow> int \<Rightarrow> string list \<Rightarrow> sqliteStore \<Rightarrow> (storage_error + event list) \<times> sqliteStore" where
  "sq_SearchEventTitles J match query limit ms s = search_months J (match query) limit ms s"

definition inventoryDB :: "sqliteStore \<Rightarrow> bool \<times> sqliteStore" where
  "inventoryDB s =
     (if sq_invOpen s then (True, s)
      else (case sq_call s of (True, s1) \<Rightarrow> (False, s1) | (False, s1) \<Rightarrow> (True, s1\<lparr>sq_invOpen := True\<rparr>)))"

definition sq_UpsertInventory :: "eventJSON \<Rightarrow> ctx_fate \<Rightarrow> inventory \<Rightarrow> sqliteStore \<Rightarrow> storage_error option \<times> sqliteStore" where
  "sq_UpsertInventory J ctx iv s =
     (case Inventory_Validate iv of
        Some v \<Rightarrow> (Some (InvalidInventory v), s)
      | None \<Rightarrow>
          (case js_items J (in_items iv) of
             None \<Rightarrow> (Some MarshalingItems, s)
           | Some itemsJSON \<Rightarrow>
               enqueueWrite ctx
                 (\<lambda>s. case inventoryDB s of
                        (False, s1) \<Rightarrow> (Some DBFailed, s1)
                      | (True, s1) \<Rightarrow>
                          (case sq_call s1 of
                             (True, s2) \<Rightarrow> (Some DBFailed, s2)
                           | (False, s2) \<Rightarrow> (None, s2\<lparr>sq_inv := upsert_row iv itemsJSON (sq_inv s2)\<rparr>))) s))"

definition sq_GetInventory :: "eventJSON \<Rightarrow> string \<Rightarrow> string \<Rightarrow> sqliteStore \<Rightarrow> (storage_error + inventory option) \<times> sqliteStore" where
  "sq_GetInventory J host kind s =
     (case inventoryDB s of
        (False, s1) \<Rightarrow> (Inl DBFailed, s1)
      | (True, s1) \<Rightarrow>
          (case sq_call s1 of
             (True, s2) \<Rightarrow> (Inl DBFailed, s2)
           | (False, s2) \<Rightarrow> (scanInventory J (host, kind) (map_of (sq_inv s2) (host, kind)), s2)))"

text \<open>\<open>Close\<close>; a second one panics, since the channel is closed twice.\<close>

definition sq_Close :: "sqliteStore \<Rightarrow> sqliteStore option" where
  "sq_Close s = (if sq_closed s then None else Some (s\<lparr>sq_closed := True\<rparr>))"

subsection \<open>Inventory tables are mailboxes\<close>

definition items_ok :: "eventJSON \<Rightarrow> bool" where
  "items_ok J \<longleftrightarrow> (\<forall>xs t. js_items J xs = Some t \<longrightarrow> un_items J t = Some xs \<and> un_items J (js_norm J t) = Some xs)"

definition inv_look :: "eventJSON \<Rightarrow> inv_table \<Rightarrow> string \<times> string \<Rightarrow> (storage_error + inventory option) option" where
  "inv_look J t k = (case map_of t k of None \<Rightarrow> None | Some row \<Rightarrow> Some (scanInventory J k (Some row)))"

definition stored_inventory :: "inventory \<Rightarrow> storage_error + inventory option" where
  "stored_inventory iv = Inr (Some (iv\<lparr>in_reportedAt := from_unix_milli (unix_milli (in_reportedAt iv))\<rparr>))"

definition inv_key :: "inventory \<Rightarrow> string \<times> string" where
  "inv_key iv = (in_hostID iv, in_kind iv)"

lemma inv_look_upsert:
  "un_items J t = Some (in_items iv) \<Longrightarrow>
   inv_look J (upsert_row iv t tbl) = (inv_look J tbl)(inv_key iv \<mapsto> stored_inventory iv)"
  by (cases iv) (auto simp: fun_eq_iff inv_look_def upsert_row_def inv_key_def stored_inventory_def scanInventory_def update_conv')

lemma pg_call_tables [simp]: "pg_call s = (r, s1) \<Longrightarrow> pg_inventories s1 = pg_inventories s \<and> pg_events s1 = pg_events s"
  by (auto simp: pg_call_def split: list.splits)

lemma sq_call_tables:
  "sq_call s = (r, s1) \<Longrightarrow>
   sq_inv s1 = sq_inv s \<and> sq_files s1 = sq_files s \<and> sq_closed s1 = sq_closed s \<and> sq_open s1 = sq_open s \<and> sq_invOpen s1 = sq_invOpen s"
  by (auto simp: sq_call_def split: list.splits)

lemma sq_call_quiet [simp]: "sq_faults s = [] \<Longrightarrow> sq_call s = (False, s)"
  by (simp add: sq_call_def)

lemma pg_call_quiet [simp]: "pg_faults s = [] \<Longrightarrow> pg_call s = (False, s)"
  by (simp add: pg_call_def)

lemma inventoryDB_table:
  "inventoryDB s = (r, s1) \<Longrightarrow> sq_inv s1 = sq_inv s \<and> sq_files s1 = sq_files s \<and> sq_closed s1 = sq_closed s"
  by (auto simp: inventoryDB_def split: if_splits prod.splits bool.splits dest: sq_call_tables)

definition pg_post :: "string \<times> string \<Rightarrow> inventory \<Rightarrow> eventJSON \<times> pgStore \<Rightarrow> bool \<times> eventJSON \<times> pgStore" where
  "pg_post k iv s = (case pg_UpsertInventory (fst s) iv (snd s) of (r, s') \<Rightarrow> (r = None, (fst s, s')))"

definition sq_post :: "string \<times> string \<Rightarrow> inventory \<Rightarrow> eventJSON \<times> sqliteStore \<Rightarrow> bool \<times> eventJSON \<times> sqliteStore" where
  "sq_post k iv s = (case sq_UpsertInventory (fst s) CtxFine iv (snd s) of (r, s') \<Rightarrow> (r = None, (fst s, s')))"

lemma pg_Upsert_cases:
  assumes "pg_UpsertInventory J iv s = (r, s')"
  shows "r \<noteq> None \<and> pg_inventories s' = pg_inventories s \<or>
    (\<exists>t. r = None \<and> js_items J (in_items iv) = Some t \<and> pg_inventories s' = upsert_row iv (js_norm J t) (pg_inventories s))"
  using assms by (auto simp: pg_UpsertInventory_def split: option.splits prod.splits bool.splits)

lemma sq_Upsert_cases:
  assumes "sq_UpsertInventory J CtxFine iv s = (r, s')"
  shows "r \<noteq> None \<and> sq_inv s' = sq_inv s \<or>
    (\<exists>t. r = None \<and> js_items J (in_items iv) = Some t \<and> sq_inv s' = upsert_row iv t (sq_inv s))"
proof (cases "js_items J (in_items iv)")
  case None
  then show ?thesis using assms by (auto simp: sq_UpsertInventory_def split: option.splits)
next
  case (Some t)
  obtain b s1 where i: "inventoryDB s = (b, s1)" by fastforce
  obtain c s2 where c: "sq_call s1 = (c, s2)" by fastforce
  show ?thesis
    using assms Some i c inventoryDB_table [OF i] sq_call_tables [OF c]
    by (cases b; cases c) (auto simp: sq_UpsertInventory_def enqueueWrite_def split: option.splits if_splits)
qed

interpretation pg_inventory: mailbox pg_post "\<lambda>(J, s). inv_look J (pg_inventories s)" "\<lambda>_. stored_inventory"
  "\<lambda>_ k iv. k = inv_key iv" "\<lambda>(J, s). items_ok J"
proof
  fix st st' :: "eventJSON \<times> pgStore" and k iv r
  obtain J s where st: "st = (J, s)" by fastforce
  assume g: "case st of (J, s) \<Rightarrow> items_ok J" and k: "k = inv_key iv"
  obtain q s1 where u: "pg_UpsertInventory J iv s = (q, s1)" by fastforce
  note c = pg_Upsert_cases [OF u]
  show "(case st' of (J, s) \<Rightarrow> inv_look J (pg_inventories s)) =
      (case st of (J, s) \<Rightarrow> inv_look J (pg_inventories s))(k \<mapsto> stored_inventory iv)" if "pg_post k iv st = (True, st')"
    using that c g u inv_look_upsert k by (auto simp: pg_post_def st items_ok_def)
  show "(case st' of (J, s) \<Rightarrow> inv_look J (pg_inventories s)) = (case st of (J, s) \<Rightarrow> inv_look J (pg_inventories s))"
    if "pg_post k iv st = (False, st')"
    using that c u by (auto simp: pg_post_def st)
  show "(case st' of (J, s) \<Rightarrow> items_ok J) \<and> stored_inventory = stored_inventory \<and> (\<lambda>k iv. k = inv_key iv) = (\<lambda>k iv. k = inv_key iv)"
    if "pg_post k iv st = (r, st')"
    using that g u by (auto simp: pg_post_def st)
qed

interpretation sq_inventory: mailbox sq_post "\<lambda>(J, s). inv_look J (sq_inv s)" "\<lambda>_. stored_inventory"
  "\<lambda>_ k iv. k = inv_key iv" "\<lambda>(J, s). items_ok J"
proof
  fix st st' :: "eventJSON \<times> sqliteStore" and k iv r
  obtain J s where st: "st = (J, s)" by fastforce
  assume g: "case st of (J, s) \<Rightarrow> items_ok J" and k: "k = inv_key iv"
  obtain q s1 where u: "sq_UpsertInventory J CtxFine iv s = (q, s1)" by fastforce
  note c = sq_Upsert_cases [OF u]
  show "(case st' of (J, s) \<Rightarrow> inv_look J (sq_inv s)) =
      (case st of (J, s) \<Rightarrow> inv_look J (sq_inv s))(k \<mapsto> stored_inventory iv)" if "sq_post k iv st = (True, st')"
    using that c g u inv_look_upsert k by (auto simp: sq_post_def st items_ok_def)
  show "(case st' of (J, s) \<Rightarrow> inv_look J (sq_inv s)) = (case st of (J, s) \<Rightarrow> inv_look J (sq_inv s))"
    if "sq_post k iv st = (False, st')"
    using that c u by (auto simp: sq_post_def st)
  show "(case st' of (J, s) \<Rightarrow> items_ok J) \<and> stored_inventory = stored_inventory \<and> (\<lambda>k iv. k = inv_key iv) = (\<lambda>k iv. k = inv_key iv)"
    if "sq_post k iv st = (r, st')"
    using that g u by (auto simp: sq_post_def st)
qed

lemma Get_look: "fst (sq_GetInventory J host kind s) =
    (case inv_look J (sq_inv s) (host, kind) of None \<Rightarrow> Inr None | Some x \<Rightarrow> x)" if "sq_faults s = []"
  using that by (simp add: sq_GetInventory_def inventoryDB_def inv_look_def scanInventory_def split: option.split)

lemma sq_post_shape: "\<exists>rs s'. post_all sq_post kvs (J, s) = (rs, (J, s'))"
proof (induction kvs arbitrary: s)
  case (Cons kv kvs)
  obtain k iv where kv: "kv = (k, iv)" by fastforce
  obtain r s1 where "sq_post k iv (J, s) = (r, (J, s1))"
    by (cases "sq_UpsertInventory J CtxFine iv s") (simp add: sq_post_def)
  then show ?case using Cons.IH [of s1] kv by auto
qed simp


text \<open>A codec for inventories without items.\<close>

definition empty_JSON :: eventJSON where
  "empty_JSON = \<lparr>js_subject = (\<lambda>_. Some ''{}''), js_attrs = (\<lambda>_. Some ''{}''), js_logRefs = (\<lambda>l. if l = [] then Some ''null'' else None),
     js_items = (\<lambda>xs. if xs = [] then Some ''[]'' else None), un_subject = (\<lambda>_. Some zero_subject), un_attrs = (\<lambda>_. Some []),
     un_logRefs = (\<lambda>_. None), un_items = (\<lambda>t. Some []), js_norm = (\<lambda>t. t)\<rparr>"

definition demo_inventory :: "time \<Rightarrow> inventory" where
  "demo_inventory t = \<lparr>in_hostID = ''h'', in_kind = ''share'', in_reportedAt = t, in_schema = 1, in_items = []\<rparr>"

definition empty_sqlite :: "bool list \<Rightarrow> sqliteStore" where
  "empty_sqlite fs = \<lparr>sq_files = [], sq_open = [], sq_inv = [], sq_invOpen = False, sq_closed = False, sq_faults = fs\<rparr>"


end
