(* ===== verification/Storage_Events.thy ===== *)
theory Storage_Events
  imports Storage
begin

text \<open>
  What the SQLite store makes of events: every identifier at most once per month file, what a listing returns, the
  months a range touches, and how an event reads back.
\<close>

subsection \<open>Months\<close>

lemma ms_day: "from_unix_milli (unix_milli t) div (86400 * second) = t div (86400 * second)"
proof -
  have "from_unix_milli (unix_milli t) div (86400 * second) = t div 1000000 * 1000000 div (1000000 * 86400000)"
    by (simp add: from_unix_milli_def unix_milli_def second_def)
  also have "\<dots> = t div 1000000 div 86400000" by (simp only: zdiv_zmult2_eq [of 86400000])
  also have "\<dots> = t div (86400 * second)" by (simp add: zdiv_zmult2_eq [symmetric] second_def)
  finally show ?thesis .
qed

lemma monthKey_ms [simp]: "monthKey (from_unix_milli (unix_milli t)) = monthKey t"
proof -
  have "civil (from_unix_milli (unix_milli t)) = civil t" unfolding civil_def ms_day ..
  then show ?thesis by (simp only: monthKey_def)
qed

lemma month_steps_distinct: "distinct months \<Longrightarrow> distinct (month_steps cur to months)"
  by (induction cur to months rule: month_steps.induct) (subst month_steps.simps, auto)

lemma monthsBetween_distinct: "distinct (monthsBetween from to)"
  by (simp add: monthsBetween_def Let_def month_steps_distinct)

lemma monthsBetween_to: "from \<le> to \<Longrightarrow> monthKey to \<in> set (monthsBetween from to)"
  by (simp add: monthsBetween_def Let_def)

lemma month_steps_keeps: "set months \<subseteq> set (month_steps cur to months)"
proof (induction cur to months rule: month_steps.induct)
  case (1 cur to months)
  then show ?case by (subst month_steps.simps) (auto split: if_splits)
qed

lemma monthsBetween_from:
  assumes "from \<le> to"
  shows "monthKey from \<in> set (monthsBetween from to)"
proof -
  have "monthKey from \<in> set (month_steps from to [])"
    using assms month_steps_keeps [of "[monthKey from]" "add_month from" to] by (subst month_steps.simps) simp
  then show ?thesis using assms by (simp add: monthsBetween_def Let_def)
qed

lemma monthsBetween_self: "monthsBetween t t = [monthKey t]"
proof -
  have "\<not> add_month t \<le> t" using add_month_later [of t] by (simp add: second_def)
  then have "month_steps t t [] = [monthKey t]" by (simp add: month_steps.simps [of t t "[]"] month_steps.simps [of "add_month t"])
  then show ?thesis by (simp add: monthsBetween_def)
qed

subsection \<open>The month files\<close>

definition rows_in :: "sqliteStore \<Rightarrow> string \<Rightarrow> event_row list" where
  "rows_in s m = mt_events (month_tables s m)"

definition months_ok :: "sqliteStore \<Rightarrow> bool" where
  "months_ok s \<longleftrightarrow>
     (\<forall>m. distinct (map er_id (rows_in s m)) \<and> (\<forall>r \<in> set (rows_in s m). monthKey (from_unix_milli (er_ts r)) = m))"

lemma row_month: "months_ok s \<Longrightarrow> r \<in> set (rows_in s m) \<Longrightarrow> monthKey (from_unix_milli (er_ts r)) = m"
  by (simp add: months_ok_def)

lemma month_tables_put [simp]: "month_tables (put_tables m t s) = (month_tables s)(m := t)"
  by (rule ext) (simp add: month_tables_def put_tables_def update_conv')

lemma month_tables_cong: "sq_files s' = sq_files s \<Longrightarrow> month_tables s' = month_tables s"
  by (rule ext) (simp add: month_tables_def)

lemma month_tables_open [simp]: "month_tables (s\<lparr>sq_open := ms\<rparr>) = month_tables s"
  by (rule month_tables_cong) simp

lemma monthDB_tables:
  assumes "monthDB m s = (r, s1)"
  shows "month_tables s1 = month_tables s"
proof -
  obtain c s2 where c: "sq_call s = (c, s2)" by fastforce
  have "month_tables s2 = month_tables s" using sq_call_tables [OF c] by (intro month_tables_cong) simp
  then show ?thesis using assms c by (cases c) (auto simp: monthDB_def fun_eq_iff split: if_splits)
qed

lemma monthDB_quiet: "sq_faults s = [] \<Longrightarrow> \<exists>s1. monthDB m s = (True, s1) \<and> sq_faults s1 = [] \<and> sq_closed s1 = sq_closed s"
  by (auto simp: monthDB_def put_tables_def)

text \<open>An insert appends the row of a new identifier to the month of the event, or changes no row.\<close>

lemma insertEvent_rows:
  assumes "insertEvent J m e s = (r, s')"
  shows "(\<exists>row. event_values J e = Inr row \<and> ev_id e \<notin> er_id ` set (rows_in s m) \<and> rows_in s' = (rows_in s)(m := rows_in s m @ [row])) \<or>
    (rows_in s' = rows_in s \<and> (r = None \<longrightarrow> ev_id e \<in> er_id ` set (rows_in s m)))"
proof (cases "event_values J e")
  case (Inl x)
  then show ?thesis using assms by (auto simp: insertEvent_def)
next
  case (Inr row)
  have i: "er_id row = ev_id e" using Inr by (auto simp: event_values_def split: option.splits)
  obtain c1 s1 where c1: "sq_call s = (c1, s1)" by fastforce
  have t1: "month_tables s1 = month_tables s" using sq_call_tables [OF c1] by (intro month_tables_cong) simp
  let ?t = "(month_tables s1 m)\<lparr>mt_events := rows_in s1 m @ [row]\<rparr>"
  obtain c2 s3 where c2: "sq_call (put_tables m ?t s1) = (c2, s3)" by fastforce
  have t3: "month_tables s3 = (month_tables s1)(m := ?t)"
    using sq_call_tables [OF c2] month_tables_cong [of s3 "put_tables m ?t s1"] by simp
  show ?thesis
    using assms Inr c1 c2 t1 t3 i
    by (cases c1; cases c2)
      (auto simp: insertEvent_def insert_row_def rows_in_def Let_def fun_eq_iff split: if_splits)
qed

lemma put_tables_faults [simp]: "sq_faults (put_tables m t s) = sq_faults s"
  by (simp add: put_tables_def)

lemma insertEvent_quiet:
  assumes "sq_faults s = []" "event_values J e = Inr row" "ev_id e \<notin> er_id ` set (rows_in s m)"
  shows "\<exists>s'. insertEvent J m e s = (None, s') \<and> sq_faults s' = [] \<and> rows_in s' m = rows_in s m @ [row]"
proof -
  have "er_id row = ev_id e" using assms(2) by (auto simp: event_values_def split: option.splits)
  then show ?thesis using assms by (simp add: insertEvent_def insert_row_def Let_def rows_in_def)
qed

lemma InsertEvent_rows:
  assumes "sq_InsertEvent J ctx e s = (r, s')"
  shows "(\<exists>row. event_values J e = Inr row \<and> ev_id e \<notin> er_id ` set (rows_in s (monthKey (ev_ts e))) \<and>
       rows_in s' = (rows_in s)(monthKey (ev_ts e) := rows_in s (monthKey (ev_ts e)) @ [row])) \<or>
    (rows_in s' = rows_in s \<and> (r = None \<longrightarrow> ev_id e \<in> er_id ` set (rows_in s (monthKey (ev_ts e)))))"
proof -
  let ?m = "monthKey (ev_ts e)"
  obtain b s1 where d: "monthDB ?m s = (b, s1)" by fastforce
  have t: "rows_in s1 = rows_in s" using monthDB_tables [OF d] by (simp add: rows_in_def fun_eq_iff)
  obtain q s2 where q: "insertEvent J ?m e s1 = (q, s2)" by fastforce
  show ?thesis
    using assms d t q insertEvent_rows [OF q]
    by (cases b; cases ctx) (auto simp: sq_InsertEvent_def enqueueWrite_def Let_def split: option.splits if_splits)
qed

lemma event_values_row:
  "event_values J e = Inr row \<Longrightarrow> er_id row = ev_id e \<and> er_ts row = unix_milli (ev_ts e) \<and> er_hostID row = ev_hostID e"
  by (auto simp: event_values_def split: option.splits)

lemma InsertEvent_months_ok:
  assumes "sq_InsertEvent J ctx e s = (r, s')" "months_ok s"
  shows "months_ok s'"
proof -
  let ?m = "monthKey (ev_ts e)"
  from InsertEvent_rows [OF assms(1)] consider
      row where "event_values J e = Inr row" "ev_id e \<notin> er_id ` set (rows_in s ?m)" "rows_in s' = (rows_in s)(?m := rows_in s ?m @ [row])"
    | "rows_in s' = rows_in s" by blast
  then show ?thesis
  proof cases
    case 1
    then have r: "er_id row = ev_id e" "monthKey (from_unix_milli (er_ts row)) = ?m" using event_values_row [OF 1(1)] by simp_all
    show ?thesis unfolding months_ok_def
    proof (intro allI conjI ballI)
      fix m
      show "distinct (map er_id (rows_in s' m))" using assms(2) 1(2,3) r(1) by (simp add: months_ok_def)
      fix x assume "x \<in> set (rows_in s' m)"
      then show "monthKey (from_unix_milli (er_ts x)) = m"
        using row_month [OF assms(2), of x] 1(3) r(2) by (auto split: if_splits)
    qed
  next
    case 2
    then show ?thesis using assms(2) by (simp add: months_ok_def)
  qed
qed

fun insert_all :: "eventJSON \<Rightarrow> (ctx_fate \<times> event) list \<Rightarrow> sqliteStore \<Rightarrow> storage_error option list \<times> sqliteStore" where
  "insert_all J [] s = ([], s)"
| "insert_all J ((ctx, e) # es) s =
     (case sq_InsertEvent J ctx e s of (r, s1) \<Rightarrow> (case insert_all J es s1 of (rs, s2) \<Rightarrow> (r # rs, s2)))"

lemma insert_all_rows:
  "insert_all J es s = (rs, s') \<Longrightarrow> months_ok s \<Longrightarrow>
   months_ok s' \<and> length rs = length es \<and> (\<forall>m. \<exists>new. rows_in s' m = rows_in s m @ new \<and>
     (\<forall>r \<in> set new. \<exists>(ctx, e) \<in> set es. event_values J e = Inr r \<and> monthKey (ev_ts e) = m)) \<and>
   (\<forall>i < length es. rs ! i = None \<longrightarrow> ev_id (snd (es ! i)) \<in> er_id ` set (rows_in s' (monthKey (ev_ts (snd (es ! i))))))"
proof (induction es arbitrary: s rs)
  case (Cons x es)
  obtain ctx e where x: "x = (ctx, e)" by fastforce
  obtain r s1 where i: "sq_InsertEvent J ctx e s = (r, s1)" by fastforce
  obtain rs1 where l: "rs = r # rs1" "insert_all J es s1 = (rs1, s')" using Cons.prems(1) x i by (auto split: prod.splits)
  note ok1 = InsertEvent_months_ok [OF i Cons.prems(2)]
  note IH = Cons.IH [OF l(2) ok1]
  let ?m = "monthKey (ev_ts e)"
  have step: "\<exists>new. rows_in s1 m = rows_in s m @ new \<and> (\<forall>r \<in> set new. event_values J e = Inr r \<and> ?m = m)" for m
    using InsertEvent_rows [OF i] by (cases "m = ?m") auto
  have grow: "\<exists>new. rows_in s' m = rows_in s m @ new \<and>
      (\<forall>r \<in> set new. \<exists>(ctx, e) \<in> set (x # es). event_values J e = Inr r \<and> monthKey (ev_ts e) = m)" for m
  proof -
    obtain n1 where n1: "rows_in s1 m = rows_in s m @ n1" "\<forall>r \<in> set n1. event_values J e = Inr r \<and> ?m = m" using step by blast
    obtain n2 where n2: "rows_in s' m = rows_in s1 m @ n2"
      "\<forall>r \<in> set n2. \<exists>(ctx, e) \<in> set es. event_values J e = Inr r \<and> monthKey (ev_ts e) = m" using IH by blast
    have "\<exists>(ctx, e) \<in> set (x # es). event_values J e = Inr r \<and> monthKey (ev_ts e) = m" if "r \<in> set (n1 @ n2)" for r
      using that n1(2) n2(2) x by auto
    then show ?thesis using n1(1) n2(1) by (intro exI [of _ "n1 @ n2"]) simp
  qed
  have mono: "set (rows_in s1 m) \<subseteq> set (rows_in s' m)" for m
  proof -
    obtain n where "rows_in s' m = rows_in s1 m @ n" using IH by blast
    then show ?thesis by auto
  qed
  have head: "r = None \<longrightarrow> ev_id e \<in> er_id ` set (rows_in s1 ?m)"
    using InsertEvent_rows [OF i] event_values_row by auto
  have "rs ! j = None \<longrightarrow> ev_id (snd ((x # es) ! j)) \<in> er_id ` set (rows_in s' (monthKey (ev_ts (snd ((x # es) ! j)))))"
    if "j < length (x # es)" for j
  proof (cases j)
    case 0
    then show ?thesis using head mono [of ?m] l(1) x by auto
  next
    case (Suc k)
    then show ?thesis using IH that l(1) by simp
  qed
  then show ?case using IH l(1) grow by simp
qed simp

text \<open>
  Retried events are stored once: over any sequence of inserts into the SQLite store, whatever calls fail and
  whenever contexts end, every month file holds an identifier at most once and only events of its month, rows are
  only added and each is that of an inserted event, and every event whose insert reported success is there.
\<close>

theorem sqlite_insert_once:
  assumes "months_ok s" "insert_all J es s = (rs, s')"
  shows "months_ok s' \<and> (\<forall>m. \<exists>new. rows_in s' m = rows_in s m @ new \<and>
       (\<forall>r \<in> set new. \<exists>(ctx, e) \<in> set es. event_values J e = Inr r \<and> monthKey (ev_ts e) = m)) \<and>
    (\<forall>i < length es. rs ! i = None \<longrightarrow> ev_id (snd (es ! i)) \<in> er_id ` set (rows_in s' (monthKey (ev_ts (snd (es ! i))))))"
  using insert_all_rows [OF assms(2,1)] by blast

subsection \<open>Listing\<close>

lemma open_months_quiet:
  "sq_faults s = [] \<Longrightarrow> \<exists>s1. open_months ms s = (True, s1) \<and> sq_faults s1 = [] \<and> month_tables s1 = month_tables s"
proof (induction ms arbitrary: s)
  case (Cons m ms)
  obtain s1 where s1: "monthDB m s = (True, s1)" "sq_faults s1 = []" using monthDB_quiet [OF Cons.prems] by blast
  then show ?case using Cons.IH [OF s1(2)] monthDB_tables [OF s1(1)] by auto
qed simp

lemma attach_months_quiet: "sq_faults s = [] \<Longrightarrow> attach_months cap ms s = (length ms \<le> cap, s)"
  by (induction ms arbitrary: cap) auto

lemma ListEvents_quiet:
  assumes "sq_faults s = []" "from \<le> to" "length (monthsBetween from to) \<le> cap"
  shows "\<exists>s'. sq_ListEvents J cap from to host s =
      (Inr (scanEvents J (select_range (unix_milli from) (unix_milli to) host (concat (map (rows_in s) (monthsBetween from to))))), s') \<and>
    month_tables s' = month_tables s \<and> sq_faults s' = []"
proof -
  obtain s1 where s1: "open_months (monthsBetween from to) s = (True, s1)" "sq_faults s1 = []" "month_tables s1 = month_tables s"
    using open_months_quiet [OF assms(1)] by blast
  have "monthsBetween from to \<noteq> []" using monthsBetween_to [OF assms(2)] by auto
  moreover have "(\<lambda>m. mt_events (month_tables s m)) = rows_in s" by (simp add: rows_in_def fun_eq_iff)
  ultimately show ?thesis using s1 assms(3) attach_months_quiet [OF s1(2)] by (simp add: sq_ListEvents_def)
qed

lemma concat_rows_distinct:
  assumes "months_ok s" "distinct ms"
  shows "distinct (concat (map (rows_in s) ms))"
  using assms(2)
proof (induction ms)
  case (Cons m ms)
  have "distinct (rows_in s m)" using assms(1) by (metis months_ok_def distinct_map)
  moreover have "set (rows_in s m) \<inter> set (rows_in s m') = {}" if "m' \<in> set ms" for m'
    using that Cons.prems assms(1) unfolding months_ok_def by (metis disjoint_iff distinct.simps(2))
  ultimately show ?case using Cons by auto
qed simp

text \<open>
  \<open>ListEvents\<close> of the SQLite store returns, each once and in the order of time, exactly the stored events of the host
  (or of all hosts) in the range whose month is among those that \<open>monthsBetween\<close> enumerates, which always include the
  months of both ends.
\<close>

theorem sqlite_list_exact:
  assumes "months_ok s" "sq_faults s = []" "from \<le> to" "length (monthsBetween from to) \<le> cap"
  shows "\<exists>rows s'. sq_ListEvents J cap from to host s = (Inr (map (scan_event J) rows), s') \<and>
    distinct rows \<and> sorted (map er_ts rows) \<and>
    set rows = {r. r \<in> set (rows_in s (monthKey (from_unix_milli (er_ts r)))) \<and>
       monthKey (from_unix_milli (er_ts r)) \<in> set (monthsBetween from to) \<and>
       unix_milli from \<le> er_ts r \<and> er_ts r \<le> unix_milli to \<and> (host = [] \<or> er_hostID r = host)} \<and>
    monthKey from \<in> set (monthsBetween from to) \<and> monthKey to \<in> set (monthsBetween from to)"
proof -
  let ?ms = "monthsBetween from to"
  let ?rows = "select_range (unix_milli from) (unix_milli to) host (concat (map (rows_in s) ?ms))"
  obtain s' where "sq_ListEvents J cap from to host s = (Inr (scanEvents J ?rows), s')"
    using ListEvents_quiet [OF assms(2-4)] by blast
  moreover have "distinct ?rows" using concat_rows_distinct [OF assms(1) monthsBetween_distinct] by (simp add: select_range_def)
  moreover have "sorted (map er_ts ?rows)" by (simp add: select_range_def)
  moreover have "set ?rows = {r. r \<in> set (rows_in s (monthKey (from_unix_milli (er_ts r)))) \<and>
       monthKey (from_unix_milli (er_ts r)) \<in> set ?ms \<and>
       unix_milli from \<le> er_ts r \<and> er_ts r \<le> unix_milli to \<and> (host = [] \<or> er_hostID r = host)}"
    using row_month [OF assms(1)] by (auto simp: select_range_def)
  ultimately show ?thesis using monthsBetween_from [OF assms(3)] monthsBetween_to [OF assms(3)] unfolding scanEvents_def by blast
qed

subsection \<open>The months a range skips\<close>

definition jan31 :: time where "jan31 = 1738281600 * second"
definition feb10 :: time where "feb10 = 1739145600 * second"
definition mar15 :: time where "mar15 = 1741996800 * second"

definition february_event :: event where
  "february_event = \<lparr>ev_id = ''e1'', ev_ts = feb10, ev_tsReceived = time_zero, ev_hostID = ''h'', ev_source = ''kernel'',
     ev_type = ''kernel.oops'', ev_severity = ''critical'', ev_title = ''oops'', ev_subject = zero_subject, ev_attrs = [],
     ev_fingerprint = ''sha256:1'', ev_logRefs = [], ev_schema = 1\<rparr>"

lemma gap_months: "monthsBetween jan31 mar15 = [''2025-01'', ''2025-03'']" "monthKey feb10 = ''2025-02''"
proof -
  have "month_steps jan31 mar15 [] = [''2025-01'', ''2025-03'']"
  proof -
    have k: "monthKey jan31 = ''2025-01''" "monthKey (add_month jan31) = ''2025-03''" "add_month (add_month jan31) = mar15 + 19 * (86400 * second)"
      "add_month jan31 \<le> mar15" "jan31 \<le> mar15"
      by code_simp+
    have "\<not> add_month (add_month jan31) \<le> mar15" unfolding k(3) by (simp add: second_def)
    then have "month_steps (add_month (add_month jan31)) mar15 ms = ms" for ms by (subst month_steps.simps) simp
    then show ?thesis using k(1,2,4,5) by (simp add: month_steps.simps [of jan31] month_steps.simps [of "add_month jan31"])
  qed
  moreover have "monthKey mar15 = ''2025-03''" "\<not> mar15 < jan31" by code_simp+
  ultimately show "monthsBetween jan31 mar15 = [''2025-01'', ''2025-03'']" by (simp add: monthsBetween_def)
  show "monthKey feb10 = ''2025-02''" by code_simp
qed

text \<open>
  A range that starts on January 31 skips February: stepping by calendar months from the 31st runs over into March,
  so an event of February 10 that was stored without error is not in the listing from January 31 to March 15,
  though it lies in the range.
\<close>

theorem february_gap:
  "fst (sq_InsertEvent empty_JSON CtxFine february_event (empty_sqlite [])) = None \<and> jan31 < feb10 \<and> feb10 < mar15 \<and>
   fst (sq_ListEvents empty_JSON 10 jan31 mar15 ''h'' (snd (sq_InsertEvent empty_JSON CtxFine february_event (empty_sqlite [])))) = Inr []"
proof -
  let ?r = "sq_InsertEvent empty_JSON CtxFine february_event (empty_sqlite [])"
  have ins: "fst ?r = None" "sq_faults (snd ?r) = []" "rows_in (snd ?r) ''2025-01'' = []" "rows_in (snd ?r) ''2025-03'' = []"
    by code_simp+
  have o: "jan31 < feb10" "feb10 < mar15" "jan31 \<le> mar15" by code_simp+
  have "length (monthsBetween jan31 mar15) \<le> 10" unfolding gap_months by simp
  from ListEvents_quiet [OF ins(2) o(3) this, of empty_JSON "''h''"]
  have "fst (sq_ListEvents empty_JSON 10 jan31 mar15 ''h'' (snd ?r)) = Inr []"
    unfolding gap_months using ins(3,4) by (auto simp: select_range_def scanEvents_def)
  then show ?thesis using ins(1) o by simp
qed

subsection \<open>How an event reads back\<close>

text \<open>JSON gives the subject, the attributes and the log references of an event back.\<close>

definition json_ok :: "eventJSON \<Rightarrow> event \<Rightarrow> bool" where
  "json_ok J e \<longleftrightarrow>
     (\<exists>t. js_subject J (ev_subject e) = Some t \<and> t \<noteq> [] \<and> un_subject J t = Some (ev_subject e)) \<and>
     (\<exists>t. js_attrs J (ev_attrs e) = Some t \<and> t \<noteq> [] \<and> un_attrs J t = Some (ev_attrs e)) \<and>
     (\<exists>t. js_logRefs J (ev_logRefs e) = Some t)"

definition ms_time :: "time \<Rightarrow> time" where
  "ms_time t = (if is_zero_time t then t else from_unix_milli (unix_milli t))"

lemma scan_values:
  assumes "json_ok J e"
  obtains row t where "event_values J e = Inr row" "js_logRefs J (ev_logRefs e) = Some t"
    "scan_event J row = e\<lparr>ev_ts := from_unix_milli (unix_milli (ev_ts e)), ev_tsReceived := ms_time (ev_tsReceived e),
       ev_fingerprint := t,
       ev_logRefs := (if ev_fingerprint e = [] then [] else case un_logRefs J (ev_fingerprint e) of None \<Rightarrow> [] | Some l \<Rightarrow> l)\<rparr>"
proof -
  obtain a where a: "js_subject J (ev_subject e) = Some a" "a \<noteq> []" "un_subject J a = Some (ev_subject e)" using assms by (metis json_ok_def)
  obtain b where b: "js_attrs J (ev_attrs e) = Some b" "b \<noteq> []" "un_attrs J b = Some (ev_attrs e)" using assms by (metis json_ok_def)
  obtain t where t: "js_logRefs J (ev_logRefs e) = Some t" using assms by (metis json_ok_def)
  let ?row = "\<lparr>er_id = ev_id e, er_ts = unix_milli (ev_ts e),
     er_tsReceived = (if is_zero_time (ev_tsReceived e) then None else Some (unix_milli (ev_tsReceived e))),
     er_hostID = ev_hostID e, er_source = ev_source e, er_type = ev_type e, er_severity = ev_severity e, er_title = ev_title e,
     er_subject = a, er_attrs = b, er_fingerprint = ev_fingerprint e, er_logRefs = t, er_schema = ev_schema e\<rparr>"
  show thesis
    by (rule that [of ?row, OF _ t]) (simp_all add: event_values_def a b t scan_event_def Let_def ms_time_def is_zero_time_def)
qed

text \<open>
  C38 How an event reads back: an accepted event with a new identifier is in the listing at its time with every field
  except two, its times cut to the millisecond.  The fingerprint reads back as the JSON text of the log references, and
  the log references as whatever the fingerprint parses to: the columns are scanned into each other's variables.
\<close>

theorem event_reads_back:
  assumes "json_ok J e" "Event_Validate e = None" "sq_faults s = []" "\<not> sq_closed s" "1 \<le> cap"
    and "ev_id e \<notin> er_id ` set (rows_in s (monthKey (ev_ts e)))"
  shows "\<exists>s' t evs s''. sq_InsertEvent J CtxFine e s = (None, s') \<and>
    sq_ListEvents J cap (ev_ts e) (ev_ts e) (ev_hostID e) s' = (Inr evs, s'') \<and>
    js_logRefs J (ev_logRefs e) = Some t \<and>
    e\<lparr>ev_ts := from_unix_milli (unix_milli (ev_ts e)), ev_tsReceived := ms_time (ev_tsReceived e), ev_fingerprint := t,
      ev_logRefs := (if ev_fingerprint e = [] then [] else case un_logRefs J (ev_fingerprint e) of None \<Rightarrow> [] | Some l \<Rightarrow> l)\<rparr> \<in> set evs"
proof -
  let ?m = "monthKey (ev_ts e)"
  obtain row t where v: "event_values J e = Inr row" "js_logRefs J (ev_logRefs e) = Some t"
    "scan_event J row = e\<lparr>ev_ts := from_unix_milli (unix_milli (ev_ts e)), ev_tsReceived := ms_time (ev_tsReceived e), ev_fingerprint := t,
       ev_logRefs := (if ev_fingerprint e = [] then [] else case un_logRefs J (ev_fingerprint e) of None \<Rightarrow> [] | Some l \<Rightarrow> l)\<rparr>"
    using scan_values [OF assms(1)] by metis
  note row = event_values_row [OF v(1)]
  obtain s1 where s1: "monthDB ?m s = (True, s1)" "sq_faults s1 = []" using monthDB_quiet [OF assms(3)] by blast
  have t1: "rows_in s1 = rows_in s" using monthDB_tables [OF s1(1)] by (simp add: rows_in_def fun_eq_iff)
  obtain s' where i: "insertEvent J ?m e s1 = (None, s')" "sq_faults s' = []" "rows_in s' ?m = rows_in s ?m @ [row]"
    using v(1) s1(2) row assms(6) t1
    insertEvent_quiet [OF s1(2) v(1), of ?m] by auto
  have ins: "sq_InsertEvent J CtxFine e s = (None, s')"
    using assms(2,4) s1(1) i(1) by (simp add: sq_InsertEvent_def enqueueWrite_def Let_def)
  obtain s'' where l: "sq_ListEvents J cap (ev_ts e) (ev_ts e) (ev_hostID e) s' =
      (Inr (scanEvents J (select_range (unix_milli (ev_ts e)) (unix_milli (ev_ts e)) (ev_hostID e) (rows_in s' ?m))), s'')"
    using ListEvents_quiet [OF i(2), of "ev_ts e" "ev_ts e" cap J "ev_hostID e"] assms(5) by (auto simp: monthsBetween_self)
  have "row \<in> set (select_range (unix_milli (ev_ts e)) (unix_milli (ev_ts e)) (ev_hostID e) (rows_in s' ?m))"
    using row i(3) by (simp add: select_range_def)
  then have "scan_event J row \<in> set (scanEvents J (select_range (unix_milli (ev_ts e)) (unix_milli (ev_ts e)) (ev_hostID e) (rows_in s' ?m)))"
    unfolding scanEvents_def by simp
  then show ?thesis using ins l v(2,3) by auto
qed

lemma empty_months_ok: "months_ok (empty_sqlite fs)"
  by (simp add: months_ok_def rows_in_def month_tables_def empty_sqlite_def)

theorem sqlite_insert_once_witness:
  "\<exists>s'. insert_all empty_JSON [(CtxFine, february_event), (CtxDoneWaiting, february_event)] (empty_sqlite []) = ([None, Some CtxErr], s') \<and> months_ok s'"
proof -
  have "fst (insert_all empty_JSON [(CtxFine, february_event), (CtxDoneWaiting, february_event)] (empty_sqlite [])) = [None, Some CtxErr]"
    by code_simp
  then obtain s' where r: "insert_all empty_JSON [(CtxFine, february_event), (CtxDoneWaiting, february_event)] (empty_sqlite []) = ([None, Some CtxErr], s')"
    by (metis prod.collapse)
  show ?thesis using sqlite_insert_once [OF empty_months_ok r] r by blast
qed

theorem sqlite_list_exact_witness:
  "\<exists>rows s'. sq_ListEvents empty_JSON 10 jan31 mar15 [] (empty_sqlite []) = (Inr (map (scan_event empty_JSON) rows), s') \<and> distinct rows"
proof -
  have "sq_faults (empty_sqlite []) = []" by (simp add: empty_sqlite_def)
  moreover have "jan31 \<le> mar15" by code_simp
  moreover have "length (monthsBetween jan31 mar15) \<le> 10" unfolding gap_months by simp
  ultimately show ?thesis using sqlite_list_exact [OF empty_months_ok] by blast
qed

theorem event_reads_back_witness:
  "\<exists>s' evs s''. sq_InsertEvent empty_JSON CtxFine february_event (empty_sqlite []) = (None, s') \<and>
     sq_ListEvents empty_JSON 10 feb10 feb10 ''h'' s' = (Inr evs, s'') \<and> (\<exists>e \<in> set evs. ev_id e = ''e1'' \<and> ev_fingerprint e = ''null'')"
proof -
  have "json_ok empty_JSON february_event" by (simp add: json_ok_def empty_JSON_def february_event_def)
  moreover have "Event_Validate february_event = None" by code_simp
  moreover have "sq_faults (empty_sqlite []) = []" "\<not> sq_closed (empty_sqlite [])" "1 \<le> (10::nat)"
    "ev_id february_event \<notin> er_id ` set (rows_in (empty_sqlite []) (monthKey (ev_ts february_event)))"
    by (simp_all add: empty_sqlite_def rows_in_def month_tables_def)
  ultimately obtain s' t evs s'' where "sq_InsertEvent empty_JSON CtxFine february_event (empty_sqlite []) = (None, s')"
    "sq_ListEvents empty_JSON 10 (ev_ts february_event) (ev_ts february_event) (ev_hostID february_event) s' = (Inr evs, s'')"
    "js_logRefs empty_JSON (ev_logRefs february_event) = Some t"
    "\<exists>e \<in> set evs. ev_id e = ev_id february_event \<and> ev_fingerprint e = t"
    using event_reads_back [of empty_JSON february_event "empty_sqlite []" 10] by fastforce
  then show ?thesis by (auto simp: february_event_def empty_JSON_def)
qed

end
