(* ===== verification/Hubapi.thy ===== *)
theory Hubapi
  imports Token Metricstore Storage
begin

text \<open>
  The read side of the hub, \<open>internal/hubapi\<close>: device tokens and their pairing by a QR code (\<open>devicetoken.go\<close>), the
  summary and inventory routes and their guard (\<open>summary.go\<close>), and the enrolment of hosts (\<open>hosts.go\<close>) in the token
  table of \<open>internal/transport/sqlitetokenstore\<close>.  Random bytes, identifiers, clock readings, the queries behind the
  routes and the JSON decoders are arguments, collected in \<open>api_env\<close> for one request.
\<close>

subsection \<open>Device tokens (devicetoken.go)\<close>

definition pairingTTL :: duration where
  "pairingTTL = 5 * minute"

record pairing =
  pr_token :: string
  pr_expiresAt :: time
  pr_claimed :: bool

record deviceStore =
  ds_hashes :: "string list"
  ds_pairings :: "(string \<times> pairing) list"

definition NewDeviceTokenStore :: deviceStore where
  "NewDeviceTokenStore = \<lparr>ds_hashes = [], ds_pairings = []\<rparr>"

fun verify_any :: "idkey \<Rightarrow> (nat \<Rightarrow> bool) \<Rightarrow> nat \<Rightarrow> string \<Rightarrow> string list \<Rightarrow> unit + bool" where
  "verify_any IDKey ctxDone i token [] = Inr False"
| "verify_any IDKey ctxDone i token (h # hs) =
     (if ctxDone i then Inl ()
      else
        (case VerifyToken IDKey token h of
           Inl _ \<Rightarrow> verify_any IDKey ctxDone (Suc i) token hs
         | Inr ok \<Rightarrow> if ok then Inr True else verify_any IDKey ctxDone (Suc i) token hs))"

definition dev_Lookup :: "idkey \<Rightarrow> (nat \<Rightarrow> bool) \<Rightarrow> string \<Rightarrow> deviceStore \<Rightarrow> unit + bool" where
  "dev_Lookup IDKey ctxDone token s = verify_any IDKey ctxDone 0 token (ds_hashes s)"

definition HasAnyToken :: "deviceStore \<Rightarrow> bool" where
  "HasAnyToken s \<longleftrightarrow> ds_hashes s \<noteq> []"

definition dev_addToken :: "idkey \<Rightarrow> string option \<Rightarrow> string \<Rightarrow> deviceStore \<Rightarrow> deviceStore option" where
  "dev_addToken IDKey salt token s = map_option (\<lambda>h. s\<lparr>ds_hashes := ds_hashes s @ [h]\<rparr>) (HashToken IDKey salt token)"

definition gcLocked :: "time \<Rightarrow> deviceStore \<Rightarrow> deviceStore" where
  "gcLocked now s = s\<lparr>ds_pairings := filter (\<lambda>(_, p). \<not> (pr_claimed p \<or> pr_expiresAt p < now)) (ds_pairings s)\<rparr>"

text \<open>\<open>hex.EncodeToString\<close> and \<open>base64.RawURLEncoding\<close>.\<close>

definition hex_char :: "nat \<Rightarrow> char" where
  "hex_char n = ''0123456789abcdef'' ! n"

definition hex_encode :: "string \<Rightarrow> string" where
  "hex_encode bs = concat (map (\<lambda>c. [hex_char (byte c div 16), hex_char (byte c mod 16)]) bs)"

definition b64url_encode :: "string \<Rightarrow> string" where
  "b64url_encode bs = map (\<lambda>c. if c = CHR ''+'' then CHR ''-'' else if c = CHR ''/'' then CHR ''_'' else c) (b64_encode bs)"

text \<open>What \<open>Start\<close> draws: the bytes of the code and of the token, the salt of its hash, and two readings of the clock.\<close>

record pair_draw =
  pd_code :: "string option"
  pd_token :: "string option"
  pd_salt :: "string option"
  pd_now :: time
  pd_gcNow :: time

definition dev_Start :: "idkey \<Rightarrow> pair_draw \<Rightarrow> deviceStore \<Rightarrow> (string \<times> string \<times> time) option \<times> deviceStore" where
  "dev_Start IDKey w s =
     (case pd_code w of
        None \<Rightarrow> (None, s)
      | Some codeBytes \<Rightarrow>
          (case pd_token w of
             None \<Rightarrow> (None, s)
           | Some tokenBytes \<Rightarrow>
               let code = hex_encode codeBytes; token = b64url_encode tokenBytes in
               (case dev_addToken IDKey (pd_salt w) token s of
                  None \<Rightarrow> (None, s)
                | Some s1 \<Rightarrow>
                    let expiresAt = pd_now w + pairingTTL; s2 = gcLocked (pd_gcNow w) s1 in
                    (Some (code, token, expiresAt),
                     s2\<lparr>ds_pairings := AList.update code \<lparr>pr_token = token, pr_expiresAt = expiresAt, pr_claimed = False\<rparr> (ds_pairings s2)\<rparr>))))"

definition dev_Claim :: "string \<Rightarrow> time \<Rightarrow> time \<Rightarrow> deviceStore \<Rightarrow> string option \<times> deviceStore" where
  "dev_Claim code gcNow now s0 =
     (let s = gcLocked gcNow s0 in
      case map_of (ds_pairings s) code of
        None \<Rightarrow> (None, s)
      | Some p \<Rightarrow>
          if pr_claimed p \<or> pr_expiresAt p < now then (None, s)
          else (Some (pr_token p), s\<lparr>ds_pairings := AList.update code (p\<lparr>pr_claimed := True\<rparr>) (ds_pairings s)\<rparr>))"

subsection \<open>The token table (sqlitetokenstore)\<close>

definition sql_AddToken :: "bool \<Rightarrow> idkey \<Rightarrow> string option \<Rightarrow> string \<Rightarrow> string \<Rightarrow> token_store \<Rightarrow> token_store option" where
  "sql_AddToken stored IDKey salt hostID plaintext rows =
     (case HashToken IDKey salt plaintext of
        None \<Rightarrow> None
      | Some h \<Rightarrow> if stored then Some (rows @ [\<lparr>tr_hostID = hostID, tr_hash = h\<rparr>]) else None)"

text \<open>\<open>readable i\<close>: the row \<open>i\<close> can be read; the query itself and the end of the rows are \<open>queryOk\<close> and \<open>endOk\<close>.\<close>

fun sql_Lookup_rows ::
  "idkey \<Rightarrow> (nat \<Rightarrow> bool) \<Rightarrow> (nat \<Rightarrow> bool) \<Rightarrow> bool \<Rightarrow> nat \<Rightarrow> string \<Rightarrow> token_store \<Rightarrow> unit + string option" where
  "sql_Lookup_rows IDKey ctxDone readable endOk i token [] = (if endOk then Inr None else Inl ())"
| "sql_Lookup_rows IDKey ctxDone readable endOk i token (r # rs) =
     (if ctxDone i \<or> \<not> readable i then Inl ()
      else
        (case VerifyToken IDKey token (tr_hash r) of
           Inl _ \<Rightarrow> sql_Lookup_rows IDKey ctxDone readable endOk (Suc i) token rs
         | Inr ok \<Rightarrow>
             if ok then Inr (Some (tr_hostID r)) else sql_Lookup_rows IDKey ctxDone readable endOk (Suc i) token rs))"

definition sql_Lookup ::
  "idkey \<Rightarrow> bool \<Rightarrow> (nat \<Rightarrow> bool) \<Rightarrow> (nat \<Rightarrow> bool) \<Rightarrow> bool \<Rightarrow> string \<Rightarrow> token_store \<Rightarrow> unit + string option" where
  "sql_Lookup IDKey queryOk ctxDone readable endOk token rows =
     (if \<not> queryOk then Inl () else sql_Lookup_rows IDKey ctxDone readable endOk 0 token rows)"

subsection \<open>Requests, replies and the guard (summary.go)\<close>

definition DefaultWindow :: duration where
  "DefaultWindow = 15 * minute"

record api_request =
  aq_path :: string
  aq_method :: string
  aq_auth :: string
  aq_hostID :: string
  aq_window :: string
  aq_kind :: string
  aq_body :: string

record seriesPoint =
  sp_ts :: time
  sp_value :: gofloat

record summary =
  su_hostID :: string
  su_generatedAt :: time
  su_windowSecs :: gofloat
  su_cpu :: "seriesPoint list"
  su_memory :: "seriesPoint list"
  su_memoryTotal :: "seriesPoint list"
  su_memoryAvailable :: "seriesPoint list"
  su_memoryUsed :: "seriesPoint list"
  su_swapTotal :: "seriesPoint list"
  su_swapFree :: "seriesPoint list"
  su_events :: "event list"

datatype api_body =
    PlainError string
  | JSONError string
  | PairReply string time
  | TokenReply string
  | HostReply string string
  | SummaryReply summary
  | InventoryReply inventory
  | WebPage string

type_synonym reply = "nat \<times> api_body"

datatype decoded = DecodeEOF | DecodeError | Decoded string

text \<open>
  \<open>en_query name from to matchers\<close> is the metric query, \<open>en_inventories\<close> is \<open>None\<close> when there is no inventory store.
\<close>

record api_env =
  en_idkey :: idkey
  en_ctxDone :: "nat \<Rightarrow> bool"
  en_draw :: pair_draw
  en_gcNow :: time
  en_now :: time
  en_decodeCode :: "string \<Rightarrow> string option"
  en_decodeHost :: "string \<Rightarrow> decoded"
  en_hostULID :: string
  en_tokenBytes :: "string option"
  en_salt :: "string option"
  en_stored :: bool
  en_rnd :: "rat \<Rightarrow> rat"
  en_rndf :: "rat \<Rightarrow> gofloat"
  en_query :: "string \<Rightarrow> time \<Rightarrow> time \<Rightarrow> (string \<times> string) list \<Rightarrow> store_error + msample list"
  en_events :: "time \<Rightarrow> time \<Rightarrow> string \<Rightarrow> storage_error + event list"
  en_inventories :: "(string \<Rightarrow> string \<Rightarrow> storage_error + inventory option) option"

record api_state =
  as_devices :: "deviceStore option"
  as_hosts :: "token_store option"

definition api_bearerToken :: "api_request \<Rightarrow> string option" where
  "api_bearerToken r =
     (if \<not> has_prefix (aq_auth r) ''Bearer '' then None
      else let token = trim_prefix (aq_auth r) ''Bearer '' in if token = [] then None else Some token)"

definition requireDeviceToken :: "(api_env \<Rightarrow> api_request \<Rightarrow> reply) \<Rightarrow> api_env \<Rightarrow> api_request \<Rightarrow> api_state \<Rightarrow> reply" where
  "requireDeviceToken handler env r s =
     (case as_devices s of
        None \<Rightarrow> handler env r
      | Some ds \<Rightarrow>
          (case api_bearerToken r of
             None \<Rightarrow> (401, JSONError ''missing bearer token'')
           | Some token \<Rightarrow>
               (case dev_Lookup (en_idkey env) (en_ctxDone env) token ds of
                  Inr True \<Rightarrow> handler env r
                | _ \<Rightarrow> (401, JSONError ''invalid device token''))))"

definition handleDevicePair :: "api_env \<Rightarrow> api_request \<Rightarrow> api_state \<Rightarrow> reply \<times> api_state" where
  "handleDevicePair env r s =
     (if aq_method r \<noteq> ''POST'' then ((405, PlainError ''method not allowed''), s)
      else
        (case as_devices s of
           None \<Rightarrow> ((503, JSONError ''device pairing is not configured''), s)
         | Some ds \<Rightarrow>
             let start = (case dev_Start (en_idkey env) (en_draw env) ds of
                   (None, ds') \<Rightarrow> ((500, JSONError ''starting pairing''), s\<lparr>as_devices := Some ds'\<rparr>)
                 | (Some (code, _, expiresAt), ds') \<Rightarrow> ((200, PairReply code expiresAt), s\<lparr>as_devices := Some ds'\<rparr>)) in
             if HasAnyToken ds
             then
               (case api_bearerToken r of
                  None \<Rightarrow> ((401, JSONError ''missing bearer token''), s)
                | Some token \<Rightarrow>
                    (case dev_Lookup (en_idkey env) (en_ctxDone env) token ds of
                       Inl _ \<Rightarrow> ((500, JSONError ''checking device token''), s)
                     | Inr False \<Rightarrow> ((401, JSONError ''invalid device token''), s)
                     | Inr True \<Rightarrow> start))
             else start))"

definition handleDeviceClaim :: "api_env \<Rightarrow> api_request \<Rightarrow> api_state \<Rightarrow> reply \<times> api_state" where
  "handleDeviceClaim env r s =
     (if aq_method r \<noteq> ''POST'' then ((405, PlainError ''method not allowed''), s)
      else
        (case as_devices s of
           None \<Rightarrow> ((503, JSONError ''device pairing is not configured''), s)
         | Some ds \<Rightarrow>
             (case en_decodeCode env (aq_body r) of
                None \<Rightarrow> ((400, JSONError ''malformed request body''), s)
              | Some code \<Rightarrow>
                  (case dev_Claim code (en_gcNow env) (en_now env) ds of
                     (None, ds') \<Rightarrow> ((404, JSONError ''pairing code not found, expired, or already claimed''), s\<lparr>as_devices := Some ds'\<rparr>)
                   | (Some token, ds') \<Rightarrow> ((200, TokenReply token), s\<lparr>as_devices := Some ds'\<rparr>)))))"

subsection \<open>The summary and the inventory (summary.go)\<close>

definition toSeries :: "msample list \<Rightarrow> seriesPoint list" where
  "toSeries samples = map (\<lambda>m. \<lparr>sp_ts = ms_timestamp m, sp_value = ms_value m\<rparr>) samples"

fun f_neg :: "gofloat \<Rightarrow> gofloat" where
  "f_neg NaN = NaN"
| "f_neg PosInf = NegInf"
| "f_neg NegInf = PosInf"
| "f_neg (Fin a) = Fin (- a)"

definition memoryUsedSeries :: "(rat \<Rightarrow> gofloat) \<Rightarrow> msample list \<Rightarrow> msample list \<Rightarrow> seriesPoint list" where
  "memoryUsedSeries rnd tot available =
     (if tot = [] \<or> available = [] then []
      else
        let totalByTS = fold (\<lambda>m. AList.update (ms_timestamp m) (ms_value m)) tot [];
            latestTotal = ms_value (last tot) in
        map (\<lambda>m.
          let totalValue = (case map_of totalByTS (ms_timestamp m) of None \<Rightarrow> latestTotal | Some v \<Rightarrow> v);
              used = f_add rnd totalValue (f_neg (ms_value m)) in
          \<lparr>sp_ts = ms_timestamp m, sp_value = (if f_less used (Fin 0) then Fin 0 else used)\<rparr>) available)"

definition summary_queries :: "(string \<times> bool \<times> string) list" where
  "summary_queries =
     [(''bitacora_cpu_usage_ratio'', True, ''querying cpu metrics''),
      (''bitacora_memory_used_ratio'', False, ''querying memory metrics''),
      (''bitacora_memory_total_bytes'', False, ''querying memory total metrics''),
      (''bitacora_memory_available_bytes'', False, ''querying memory available metrics''),
      (''bitacora_memory_swap_total_bytes'', False, ''querying memory swap total metrics''),
      (''bitacora_memory_swap_free_bytes'', False, ''querying memory swap free metrics'')]"

text \<open>The queries in order; the first that fails ends the request with its message.\<close>

fun run_queries ::
  "api_env \<Rightarrow> string \<Rightarrow> time \<Rightarrow> time \<Rightarrow> (string \<times> bool \<times> string) list \<Rightarrow> string + msample list list" where
  "run_queries env host from now [] = Inr []"
| "run_queries env host from now ((name, totalCPU, msg) # qs) =
     (case en_query env name from now ((''host_id'', host) # (if totalCPU then [(''cpu'', ''total'')] else [])) of
        Inl _ \<Rightarrow> Inl msg
      | Inr samples \<Rightarrow>
          (case run_queries env host from now qs of Inl m \<Rightarrow> Inl m | Inr rest \<Rightarrow> Inr (samples # rest)))"

definition handleSummary :: "api_env \<Rightarrow> api_request \<Rightarrow> reply" where
  "handleSummary env r =
     (if aq_method r \<noteq> ''GET'' then (405, PlainError ''method not allowed'')
      else if aq_hostID r = [] then (400, PlainError ''host_id is required'')
      else
        (case (if aq_window r = [] then Some DefaultWindow else ParseDuration (en_rnd env) (aq_window r)) of
           None \<Rightarrow> (400, PlainError ''invalid window'')
         | Some window \<Rightarrow>
             let now = en_now env; from = now - window in
             (case run_queries env (aq_hostID r) from now summary_queries of
                Inl msg \<Rightarrow> (500, PlainError msg)
              | Inr qs \<Rightarrow>
                  (case en_events env from now (aq_hostID r) of
                     Inl _ \<Rightarrow> (500, PlainError ''querying events'')
                   | Inr events \<Rightarrow>
                       (200, SummaryReply
                         \<lparr>su_hostID = aq_hostID r, su_generatedAt = now, su_windowSecs = duration_Seconds (en_rnd env) window,
                          su_cpu = toSeries (qs ! 0), su_memory = toSeries (qs ! 1), su_memoryTotal = toSeries (qs ! 2),
                          su_memoryAvailable = toSeries (qs ! 3), su_memoryUsed = memoryUsedSeries (en_rndf env) (qs ! 2) (qs ! 3),
                          su_swapTotal = toSeries (qs ! 4), su_swapFree = toSeries (qs ! 5), su_events = events\<rparr>)))))"

definition handleInventory :: "api_env \<Rightarrow> api_request \<Rightarrow> reply" where
  "handleInventory env r =
     (if aq_method r \<noteq> ''GET'' then (405, PlainError ''method not allowed'')
      else
        (case en_inventories env of
           None \<Rightarrow> (404, PlainError ''inventory not available'')
         | Some get \<Rightarrow>
             if aq_hostID r = [] then (400, PlainError ''host_id is required'')
             else if aq_kind r = [] then (400, PlainError ''kind is required'')
             else
               (case get (aq_hostID r) (aq_kind r) of
                  Inl _ \<Rightarrow> (500, PlainError ''querying inventory'')
                | Inr None \<Rightarrow> (404, PlainError ''no inventory reported for this host/kind'')
                | Inr (Some iv) \<Rightarrow> (200, InventoryReply iv))))"

subsection \<open>Enrolling hosts (hosts.go)\<close>

definition hostIDMaxLen :: nat where
  "hostIDMaxLen = 64"

definition host_char :: "char \<Rightarrow> bool" where
  "host_char c \<longleftrightarrow>
     (CHR ''a'' \<le> c \<and> c \<le> CHR ''z'') \<or> (CHR ''A'' \<le> c \<and> c \<le> CHR ''Z'') \<or> is_digit c \<or> c \<in> set ''-_.''"

definition validateHostID :: "string \<Rightarrow> string option" where
  "validateHostID i =
     (if hostIDMaxLen < length i then Some ''host_id is longer than 64 characters''
      else if list_all host_char i then None
      else Some (''host_id may only contain letters, digits, '-', '_' and '.'' @ [CHR 0x27]))"

definition handleCreateHost :: "api_env \<Rightarrow> api_request \<Rightarrow> api_state \<Rightarrow> reply \<times> api_state" where
  "handleCreateHost env r s =
     (if aq_method r \<noteq> ''POST'' then ((405, PlainError ''method not allowed''), s)
      else
        (case as_devices s of
           None \<Rightarrow> ((503, JSONError ''host enrollment requires device-token auth, which is not configured''), s)
         | Some ds \<Rightarrow>
             (case as_hosts s of
                None \<Rightarrow> ((503, JSONError ''host enrollment is not configured''), s)
              | Some rows \<Rightarrow>
                  (case api_bearerToken r of
                     None \<Rightarrow> ((401, JSONError ''missing bearer token''), s)
                   | Some token \<Rightarrow>
                       (case dev_Lookup (en_idkey env) (en_ctxDone env) token ds of
                          Inl _ \<Rightarrow> ((500, JSONError ''checking device token''), s)
                        | Inr False \<Rightarrow> ((401, JSONError ''invalid device token''), s)
                        | Inr True \<Rightarrow>
                            (case en_decodeHost env (aq_body r) of
                               DecodeError \<Rightarrow> ((400, JSONError ''malformed request body''), s)
                             | d \<Rightarrow>
                                 let given = (case d of Decoded h \<Rightarrow> h | _ \<Rightarrow> []);
                                     hostID = (if given = [] then en_hostULID env else given) in
                                 (case (if given = [] then None else validateHostID given) of
                                    Some msg \<Rightarrow> ((400, JSONError msg), s)
                                  | None \<Rightarrow>
                                      (case en_tokenBytes env of
                                         None \<Rightarrow> ((500, JSONError ''generating ingest token''), s)
                                       | Some bytes \<Rightarrow>
                                           let ingestToken = b64url_encode bytes in
                                           (case sql_AddToken (en_stored env) (en_idkey env) (en_salt env) hostID ingestToken rows of
                                              None \<Rightarrow> ((500, JSONError ''registering ingest token''), s)
                                            | Some rows' \<Rightarrow>
                                                ((201, HostReply hostID ingestToken), s\<lparr>as_hosts := Some rows'\<rparr>))))))))))"

subsection \<open>Routing (summary.go)\<close>

text \<open>The file server of the embedded user interface is an argument: the status and the content it answers with.\<close>

type_synonym web_ui = "(api_request \<Rightarrow> nat \<times> string) option"

definition api_Handler :: "web_ui \<Rightarrow> api_env \<Rightarrow> api_request \<Rightarrow> api_state \<Rightarrow> reply \<times> api_state" where
  "api_Handler webUI env r s =
     (if aq_path r = ''/v1/summary'' then (requireDeviceToken handleSummary env r s, s)
      else if aq_path r = ''/v1/inventory'' then (requireDeviceToken handleInventory env r s, s)
      else if aq_path r = ''/v1/hosts'' then handleCreateHost env r s
      else if aq_path r = ''/v1/devices/pair'' then handleDevicePair env r s
      else if aq_path r = ''/v1/devices/claim'' then handleDeviceClaim env r s
      else
        (case webUI of
           Some ui \<Rightarrow> (map_prod id WebPage (ui r), s)
         | None \<Rightarrow> ((404, PlainError ''404 page not found''), s)))"

text \<open>A sequence of requests, with what each was answered.\<close>

type_synonym exchange = "api_env \<times> api_request \<times> reply"

fun api_run :: "web_ui \<Rightarrow> (api_env \<times> api_request) list \<Rightarrow> api_state \<Rightarrow> exchange list \<times> api_state" where
  "api_run webUI [] s = ([], s)"
| "api_run webUI ((env, r) # q) s =
     (let (rep, s1) = api_Handler webUI env r s; (tr, s2) = api_run webUI q s1 in ((env, r, rep) # tr, s2))"

definition data_reply :: "reply \<Rightarrow> bool" where
  "data_reply rep = (case snd rep of SummaryReply _ \<Rightarrow> True | InventoryReply _ \<Rightarrow> True | HostReply _ _ \<Rightarrow> True | _ \<Rightarrow> False)"

text \<open>The request carries a token that one of the stored hashes verifies.\<close>

definition presents :: "idkey \<Rightarrow> api_request \<Rightarrow> deviceStore \<Rightarrow> bool" where
  "presents K r ds \<longleftrightarrow>
     (case api_bearerToken r of
        None \<Rightarrow> False
      | Some token \<Rightarrow> list_ex (\<lambda>h. VerifyToken K token h = Inr True) (ds_hashes ds))"

definition started :: "string \<Rightarrow> exchange \<Rightarrow> bool" where
  "started code x = (case snd (snd (snd x)) of PairReply c _ \<Rightarrow> c = code | _ \<Rightarrow> False)"

definition claimed :: "string \<Rightarrow> exchange \<Rightarrow> bool" where
  "claimed code x =
     (case x of (env, r, rep) \<Rightarrow>
        (case snd rep of TokenReply _ \<Rightarrow> en_decodeCode env (aq_body r) = Some code | _ \<Rightarrow> False))"

text \<open>The exchange minted the token \<open>token\<close> with the hash \<open>h\<close> and filed it under the code until \<open>e\<close>.\<close>

definition mints :: "idkey \<Rightarrow> string \<Rightarrow> string \<Rightarrow> string \<Rightarrow> time \<Rightarrow> exchange \<Rightarrow> bool" where
  "mints K h code token e x \<longleftrightarrow>
     (case x of (env, r, rep) \<Rightarrow>
        rep = (200, PairReply code e) \<and>
        map_option b64url_encode (pd_token (en_draw env)) = Some token \<and>
        HashToken K (pd_salt (en_draw env)) token = Some h \<and>
        e = pd_now (en_draw env) + pairingTTL)"

section \<open>Who gets what\<close>

lemma verify_any_True:
  "verify_any K done i token hs = Inr True \<Longrightarrow> \<exists>h\<in>set hs. VerifyToken K token h = Inr True"
  by (induction hs arbitrary: i) (auto split: if_splits sum.splits)

lemma dev_Lookup_presents:
  "api_bearerToken r = Some token \<Longrightarrow> dev_Lookup K done token ds = Inr True \<Longrightarrow> presents K r ds"
  using verify_any_True by (fastforce simp: presents_def dev_Lookup_def list_ex_iff)

text \<open>What one request does to the device tokens, by the kind of its answer.\<close>

definition quiet_reply :: "reply \<Rightarrow> bool" where
  "quiet_reply rep = (case snd rep of PairReply _ _ \<Rightarrow> False | TokenReply _ \<Rightarrow> False | _ \<Rightarrow> True)"

lemma quiet_replyI [simp]:
  "quiet_reply (c, PlainError m)" "quiet_reply (c, JSONError m)" "quiet_reply (c, HostReply h t)"
  "quiet_reply (c, SummaryReply su)" "quiet_reply (c, InventoryReply iv)" "quiet_reply (c, WebPage w)"
  "\<not> data_reply (c, PlainError m)" "\<not> data_reply (c, JSONError m)" "data_reply (c, HostReply h t)"
  "data_reply (c, SummaryReply su)" "data_reply (c, InventoryReply iv)" "\<not> data_reply (c, WebPage w)"
  "\<not> data_reply (c, TokenReply t)" "\<not> data_reply (c, PairReply d e)"
  "\<not> quiet_reply (c, TokenReply t)" "\<not> quiet_reply (c, PairReply d e)"
  by (simp_all add: quiet_reply_def data_reply_def)

lemma handleSummary_quiet: "quiet_reply (handleSummary env r)"
  by (auto simp: handleSummary_def Let_def split: option.splits sum.splits)

lemma handleInventory_quiet: "quiet_reply (handleInventory env r)"
  by (auto simp: handleInventory_def split: option.splits sum.splits)

lemma requireDeviceToken_guard:
  assumes "as_devices s = Some ds" "quiet_reply (handler env r)"
  shows "quiet_reply (requireDeviceToken handler env r s) \<and>
    (data_reply (requireDeviceToken handler env r s) \<longrightarrow> presents (en_idkey env) r ds)"
  using assms dev_Lookup_presents
  by (auto simp: requireDeviceToken_def split: option.splits sum.splits bool.splits)

lemma handleCreateHost_guard:
  assumes "handleCreateHost env r s = (rep, s')" "as_devices s = Some ds"
  shows "as_devices s' = Some ds \<and> quiet_reply rep \<and> (data_reply rep \<longrightarrow> presents (en_idkey env) r ds)"
  using assms dev_Lookup_presents
  by (auto simp: handleCreateHost_def Let_def split: option.splits sum.splits bool.splits if_splits decoded.splits)

lemma handleDevicePair_effect:
  assumes "handleDevicePair env r s = (rep, s')" "as_devices s = Some ds"
  shows "(as_devices s' = Some ds \<and> quiet_reply rep \<and> \<not> data_reply rep) \<or>
    (\<exists>code token e ds'. rep = (200, PairReply code e) \<and> as_devices s' = Some ds' \<and>
       dev_Start (en_idkey env) (en_draw env) ds = (Some (code, token, e), ds') \<and>
       (HasAnyToken ds \<longrightarrow> presents (en_idkey env) r ds))"
  using assms dev_Lookup_presents
  by (auto simp: handleDevicePair_def Let_def dev_Start_def split: option.splits sum.splits bool.splits if_splits)

lemma handleDeviceClaim_effect:
  assumes "handleDeviceClaim env r s = (rep, s')" "as_devices s = Some ds"
  shows "(\<exists>ds'. as_devices s' = Some ds' \<and> quiet_reply rep \<and> \<not> data_reply rep \<and> (ds' = ds \<or> ds' = gcLocked (en_gcNow env) ds)) \<or>
    (\<exists>code token ds'. rep = (200, TokenReply token) \<and> as_devices s' = Some ds' \<and>
       en_decodeCode env (aq_body r) = Some code \<and>
       dev_Claim code (en_gcNow env) (en_now env) ds = (Some token, ds'))"
  using assms
  by (auto simp: handleDeviceClaim_def Let_def dev_Claim_def split: option.splits if_splits)

text \<open>The four things a request can do.\<close>

inductive device_step :: "api_env \<Rightarrow> api_request \<Rightarrow> deviceStore \<Rightarrow> reply \<Rightarrow> deviceStore \<Rightarrow> bool" for env r where
  ds_idle: "quiet_reply rep \<Longrightarrow> \<not> data_reply rep \<Longrightarrow> ds' = ds \<or> ds' = gcLocked (en_gcNow env) ds \<Longrightarrow> device_step env r ds rep ds'"
| ds_data: "quiet_reply rep \<Longrightarrow> data_reply rep \<Longrightarrow> presents (en_idkey env) r ds \<Longrightarrow> device_step env r ds rep ds"
| ds_start: "dev_Start (en_idkey env) (en_draw env) ds = (Some (code, token, e), ds') \<Longrightarrow>
    \<not> HasAnyToken ds \<or> presents (en_idkey env) r ds \<Longrightarrow> device_step env r ds (200, PairReply code e) ds'"
| ds_claim: "en_decodeCode env (aq_body r) = Some code \<Longrightarrow>
    dev_Claim code (en_gcNow env) (en_now env) ds = (Some token, ds') \<Longrightarrow> device_step env r ds (200, TokenReply token) ds'"

inductive_cases device_stepE: "device_step env r ds rep ds'"

lemma api_Handler_step:
  assumes h: "api_Handler webUI env r s = (rep, s')" and ds: "as_devices s = Some ds"
  shows "\<exists>ds'. as_devices s' = Some ds' \<and> device_step env r ds rep ds'"
proof -
  have data: "quiet_reply rep \<Longrightarrow> data_reply rep \<longrightarrow> presents (en_idkey env) r ds \<Longrightarrow> as_devices s' = Some ds \<Longrightarrow> ?thesis"
    by (cases "data_reply rep") (auto intro: device_step.intros)
  consider "aq_path r = ''/v1/summary''" | "aq_path r = ''/v1/inventory''" | "aq_path r = ''/v1/hosts''"
    | "aq_path r = ''/v1/devices/pair''" | "aq_path r = ''/v1/devices/claim''"
    | "aq_path r \<notin> {''/v1/summary'', ''/v1/inventory'', ''/v1/hosts'', ''/v1/devices/pair'', ''/v1/devices/claim''}" by auto
  then show ?thesis
  proof cases
    case 1
    with h have "rep = requireDeviceToken handleSummary env r s" "s' = s" by (auto simp: api_Handler_def)
    with requireDeviceToken_guard [OF ds handleSummary_quiet] ds show ?thesis by (intro data) auto
  next
    case 2
    with h have "rep = requireDeviceToken handleInventory env r s" "s' = s" by (auto simp: api_Handler_def)
    with requireDeviceToken_guard [OF ds handleInventory_quiet] ds show ?thesis by (intro data) auto
  next
    case 3
    with h have "handleCreateHost env r s = (rep, s')" by (simp add: api_Handler_def)
    from handleCreateHost_guard [OF this ds] show ?thesis by (intro data) auto
  next
    case 4
    with h have "handleDevicePair env r s = (rep, s')" by (simp add: api_Handler_def)
    from handleDevicePair_effect [OF this ds] show ?thesis by (auto intro: device_step.intros)
  next
    case 5
    with h have "handleDeviceClaim env r s = (rep, s')" by (simp add: api_Handler_def)
    from handleDeviceClaim_effect [OF this ds] show ?thesis by (auto intro: device_step.intros)
  next
    case 6
    with h ds show ?thesis by (intro data) (auto simp: api_Handler_def map_prod_def split: option.splits prod.splits)
  qed
qed

lemma api_run_append:
  "api_run w (p @ q) s =
     (let (tr, s1) = api_run w p s; (tr', s2) = api_run w q s1 in (tr @ tr', s2))"
  by (induction p arbitrary: s) (auto simp: Let_def split: prod.splits)

lemma api_run_snoc:
  assumes "api_run w (p @ [(env, r)]) s = (tr, s')"
  obtains tr1 s1 rep where "api_run w p s = (tr1, s1)" "api_Handler w env r s1 = (rep, s')" "tr = tr1 @ [(env, r, rep)]"
proof -
  obtain tr1 s1 where a: "api_run w p s = (tr1, s1)" by fastforce
  obtain rep s2 where b: "api_Handler w env r s1 = (rep, s2)" by fastforce
  from assms a b that show thesis by (auto simp: api_run_append)
qed

definition pending :: "string \<Rightarrow> deviceStore \<Rightarrow> bool" where
  "pending code ds = (case map_of (ds_pairings ds) code of None \<Rightarrow> False | Some p \<Rightarrow> \<not> pr_claimed p)"

text \<open>
  What holds after every run from an empty store: each stored hash and each pairing on file comes from an exchange of
  the run, and the code of a pairing was claimed fewer times than it was handed out as long as the pairing waits.
\<close>

definition hashes_minted :: "idkey \<Rightarrow> exchange list \<Rightarrow> deviceStore \<Rightarrow> bool" where
  "hashes_minted K tr ds \<longleftrightarrow> (\<forall>h \<in> set (ds_hashes ds). \<exists>code token e. \<exists>x\<in>set tr. mints K h code token e x)"

definition pairings_minted :: "idkey \<Rightarrow> exchange list \<Rightarrow> deviceStore \<Rightarrow> bool" where
  "pairings_minted K tr ds \<longleftrightarrow>
     (\<forall>(code, p) \<in> set (ds_pairings ds). \<exists>h \<in> set (ds_hashes ds). \<exists>x\<in>set tr. mints K h code (pr_token p) (pr_expiresAt p) x)"

definition claims_counted :: "exchange list \<Rightarrow> deviceStore \<Rightarrow> bool" where
  "claims_counted tr ds \<longleftrightarrow>
     distinct (map fst (ds_pairings ds)) \<and>
     (\<forall>code. length (filter (claimed code) tr) + (if pending code ds then 1 else 0) \<le> length (filter (started code) tr))"

definition dev_inv :: "idkey \<Rightarrow> exchange list \<Rightarrow> deviceStore \<Rightarrow> bool" where
  "dev_inv K tr ds \<longleftrightarrow> hashes_minted K tr ds \<and> pairings_minted K tr ds \<and> claims_counted tr ds"

lemma gcLocked_fields [simp]:
  "ds_hashes (gcLocked now ds) = ds_hashes ds"
  "distinct (map fst (ds_pairings ds)) \<Longrightarrow> distinct (map fst (ds_pairings (gcLocked now ds)))"
  "set (ds_pairings (gcLocked now ds)) \<subseteq> set (ds_pairings ds)"
  by (auto simp: gcLocked_def distinct_map_filter)

lemma gcLocked_pending:
  assumes "distinct (map fst (ds_pairings ds))" "pending code (gcLocked now ds)"
  shows "pending code ds"
proof -
  from assms(2) obtain p where p: "map_of (ds_pairings (gcLocked now ds)) code = Some p" "\<not> pr_claimed p"
    by (auto simp: pending_def split: option.splits)
  then have "(code, p) \<in> set (ds_pairings ds)" using gcLocked_fields(3) map_of_SomeD by fastforce
  with assms(1) p(2) show ?thesis by (simp add: pending_def)
qed

lemma dev_Start_result:
  assumes "dev_Start K w ds = (Some (code, token, e), ds')"
  shows "map_option b64url_encode (pd_token w) = Some token \<and> e = pd_now w + pairingTTL \<and>
    (\<exists>h. HashToken K (pd_salt w) token = Some h \<and>
       ds' = \<lparr>ds_hashes = ds_hashes ds @ [h],
         ds_pairings = AList.update code \<lparr>pr_token = token, pr_expiresAt = e, pr_claimed = False\<rparr> (ds_pairings (gcLocked (pd_gcNow w) ds))\<rparr>)"
  using assms by (auto simp: dev_Start_def dev_addToken_def Let_def gcLocked_def split: option.splits)

lemma dev_Claim_result:
  assumes "dev_Claim code gcNow now ds = (Some token, ds')"
  shows "\<exists>p. map_of (ds_pairings (gcLocked gcNow ds)) code = Some p \<and> \<not> pr_claimed p \<and> now \<le> pr_expiresAt p \<and> token = pr_token p \<and>
    ds' = (gcLocked gcNow ds)\<lparr>ds_pairings := AList.update code (p\<lparr>pr_claimed := True\<rparr>) (ds_pairings (gcLocked gcNow ds))\<rparr>"
  using assms by (auto simp: dev_Claim_def Let_def split: option.splits if_splits)

lemma quiet_counts:
  "quiet_reply rep \<Longrightarrow> \<not> started code (env, r, rep) \<and> \<not> claimed code (env, r, rep)"
  by (cases rep; cases "snd rep") (auto simp: started_def claimed_def quiet_reply_def)

lemma set_update_subset: "set (AList.update k v xs) \<subseteq> insert (k, v) (set xs)"
  by (induction xs) auto

lemma minted_more:
  "hashes_minted K tr ds \<Longrightarrow> hashes_minted K (tr @ [x]) ds"
  "pairings_minted K tr ds \<Longrightarrow> pairings_minted K (tr @ [x]) ds"
  unfolding hashes_minted_def pairings_minted_def by (simp, blast, simp, blast)

lemma pairings_minted_update:
  assumes "pairings_minted K tr ds" "set (ds_hashes ds) \<subseteq> set (ds_hashes ds')"
    and "ds_pairings ds' = AList.update code p (ds_pairings ds)"
    and "h \<in> set (ds_hashes ds')" "x \<in> set tr" "mints K h code (pr_token p) (pr_expiresAt p) x"
  shows "pairings_minted K tr ds'"
proof -
  have "\<exists>h \<in> set (ds_hashes ds'). \<exists>x\<in>set tr. mints K h c (pr_token q) (pr_expiresAt q) x" if "(c, q) \<in> set (ds_pairings ds')" for c q
  proof (cases "(c, q) = (code, p)")
    case True
    with assms(4-6) show ?thesis by blast
  next
    case False
    with that assms(3) set_update_subset [of code p "ds_pairings ds"] have "(c, q) \<in> set (ds_pairings ds)" by auto
    with assms(1,2) show ?thesis unfolding pairings_minted_def by blast
  qed
  then show ?thesis unfolding pairings_minted_def by blast
qed

lemma minted_gc:
  "hashes_minted K tr ds \<Longrightarrow> hashes_minted K tr (gcLocked now ds)"
  "pairings_minted K tr ds \<Longrightarrow> pairings_minted K tr (gcLocked now ds)"
  using gcLocked_fields(3) [of now ds] unfolding hashes_minted_def pairings_minted_def by (simp, simp, blast)

lemma counted_gc:
  assumes "claims_counted tr ds"
  shows "claims_counted tr (gcLocked now ds)"
proof -
  have d: "distinct (map fst (ds_pairings ds))" using assms by (simp add: claims_counted_def)
  have "(if pending code (gcLocked now ds) then 1 else 0) \<le> (if pending code ds then 1 else (0::nat))" for code
    using gcLocked_pending [OF d, of code now] by simp
  with assms show ?thesis unfolding claims_counted_def by (metis (no_types, lifting) add_left_mono gcLocked_fields(2) le_trans)
qed

lemma dev_inv_idle:
  assumes "dev_inv K tr ds" "quiet_reply rep" "ds' = ds \<or> ds' = gcLocked now ds"
  shows "dev_inv K (tr @ [(env, r, rep)]) ds'"
proof -
  have counted: "claims_counted tr ds'" using assms(1,3) counted_gc by (auto simp: dev_inv_def)
  have "claims_counted (tr @ [(env, r, rep)]) ds'"
    unfolding claims_counted_def using counted [unfolded claims_counted_def] quiet_counts [OF assms(2)] by simp
  with assms(1,3) show ?thesis using minted_more minted_gc unfolding dev_inv_def by metis
qed

lemma dev_inv_start:
  assumes i: "dev_inv K tr ds" and st: "dev_Start K (en_draw env) ds = (Some (code, token, e), ds')"
  shows "dev_inv K (tr @ [(env, r, 200, PairReply code e)]) ds'"
proof -
  let ?x = "(env, r, 200, PairReply code e) :: exchange" and ?g = "gcLocked (pd_gcNow (en_draw env)) ds"
  let ?p = "\<lparr>pr_token = token, pr_expiresAt = e, pr_claimed = False\<rparr>"
  obtain h where m: "mints K h code token e ?x"
    and ds': "ds' = \<lparr>ds_hashes = ds_hashes ds @ [h], ds_pairings = AList.update code ?p (ds_pairings ?g)\<rparr>"
    using dev_Start_result [OF st] by (auto simp: mints_def)
  have a: "hashes_minted K (tr @ [?x]) ?g" "pairings_minted K (tr @ [?x]) ?g"
    using i minted_more minted_gc by (auto simp: dev_inv_def)
  have "hashes_minted K (tr @ [?x]) ds'"
    using a(1) m unfolding hashes_minted_def ds' by auto
  moreover have "pairings_minted K (tr @ [?x]) ds'"
    by (rule pairings_minted_update [OF a(2), of ds' code ?p h ?x]) (use m in \<open>auto simp: ds'\<close>)
  moreover have "claims_counted (tr @ [?x]) ds'"
  proof -
    have g: "claims_counted tr ?g" using i counted_gc by (simp add: dev_inv_def)
    have pend: "pending c ds' = (c = code \<or> pending c ?g)" for c by (simp add: ds' pending_def update_conv')
    have c: "length (filter (claimed c) (tr @ [?x])) = length (filter (claimed c) tr)"
      "length (filter (started c) (tr @ [?x])) = length (filter (started c) tr) + (if c = code then 1 else 0)" for c
      by (auto simp: started_def claimed_def)
    have b: "length (filter (claimed c) tr) + (if pending c ?g then 1 else 0) \<le> length (filter (started c) tr)" for c
      using g by (simp add: claims_counted_def)
    have "length (filter (claimed c) (tr @ [?x])) + (if pending c ds' then 1 else 0) \<le> length (filter (started c) (tr @ [?x]))" for c
      using b [of c] unfolding c pend by (auto split: if_splits)
    with g show ?thesis unfolding claims_counted_def by (simp add: ds' distinct_update)
  qed
  ultimately show ?thesis by (simp add: dev_inv_def)
qed

lemma dev_inv_claim:
  assumes i: "dev_inv K tr ds" and dc: "en_decodeCode env (aq_body r) = Some code"
    and cl: "dev_Claim code gcNow now ds = (Some token, ds')"
  shows "dev_inv K (tr @ [(env, r, 200, TokenReply token)]) ds'"
proof -
  let ?x = "(env, r, 200, TokenReply token) :: exchange" and ?g = "gcLocked gcNow ds"
  obtain p where p: "map_of (ds_pairings ?g) code = Some p" "\<not> pr_claimed p"
    and ds': "ds' = ?g\<lparr>ds_pairings := AList.update code (p\<lparr>pr_claimed := True\<rparr>) (ds_pairings ?g)\<rparr>"
    using dev_Claim_result [OF cl] by auto
  have a: "hashes_minted K (tr @ [?x]) ?g" "pairings_minted K (tr @ [?x]) ?g"
    using i minted_more minted_gc by (auto simp: dev_inv_def)
  have "hashes_minted K (tr @ [?x]) ds'"
    using a(1) unfolding hashes_minted_def ds' by simp
  moreover have "pairings_minted K (tr @ [?x]) ds'"
  proof -
    obtain h x where "h \<in> set (ds_hashes ?g)" "x \<in> set (tr @ [?x])" "mints K h code (pr_token p) (pr_expiresAt p) x"
      using a(2) map_of_SomeD [OF p(1)] unfolding pairings_minted_def by blast
    then show ?thesis
      by (intro pairings_minted_update [OF a(2), of ds' code "p\<lparr>pr_claimed := True\<rparr>" h x]) (simp_all add: ds')
  qed
  moreover have "claims_counted (tr @ [?x]) ds'"
  proof -
    have g: "claims_counted tr ?g" using i counted_gc by (simp add: dev_inv_def)
    have pend: "pending code ?g" using p by (simp add: pending_def)
    have c: "length (filter (claimed c) (tr @ [?x])) + (if pending c ds' then 1 else 0)
        = length (filter (claimed c) tr) + (if pending c ?g then 1 else 0)" for c
      using pend dc by (simp add: ds' pending_def update_conv' claimed_def)
    have st: "length (filter (started c) (tr @ [?x])) = length (filter (started c) tr)" for c by (simp add: started_def)
    have "length (filter (claimed c) (tr @ [?x])) + (if pending c ds' then 1 else 0) \<le> length (filter (started c) (tr @ [?x]))" for c
      unfolding c st using g by (simp add: claims_counted_def)
    moreover have "distinct (map fst (ds_pairings ds'))" using g by (simp add: ds' distinct_update claims_counted_def)
    ultimately show ?thesis unfolding claims_counted_def by blast
  qed
  ultimately show ?thesis by (simp add: dev_inv_def)
qed

lemma api_run_inv:
  assumes "api_run w q s = (tr, s')" "as_devices s = Some NewDeviceTokenStore" "\<forall>(env, r) \<in> set q. en_idkey env = K"
  shows "\<exists>ds. as_devices s' = Some ds \<and> dev_inv K tr ds"
  using assms
proof (induction q arbitrary: tr s' rule: rev_induct)
  case Nil
  then show ?case
    by (simp add: dev_inv_def hashes_minted_def pairings_minted_def claims_counted_def NewDeviceTokenStore_def pending_def)
next
  case (snoc x q)
  obtain env r where x: "x = (env, r)" by fastforce
  obtain tr1 s1 rep where r: "api_run w q s = (tr1, s1)" "api_Handler w env r s1 = (rep, s')" "tr = tr1 @ [(env, r, rep)]"
    using snoc.prems(1) unfolding x by (rule api_run_snoc)
  obtain ds where ds: "as_devices s1 = Some ds" "dev_inv K tr1 ds" using snoc.IH [OF r(1)] snoc.prems(2,3) by auto
  obtain ds' where ds': "as_devices s' = Some ds'" "device_step env r ds rep ds'" using api_Handler_step [OF r(2) ds(1)] by auto
  have K: "en_idkey env = K" using snoc.prems(3) by (simp add: x)
  from ds'(2) have "dev_inv K tr ds'"
    by (cases rule: device_step.cases)
       (auto simp: r(3) K intro: dev_inv_idle [OF ds(2)] dev_inv_start [OF ds(2)] dev_inv_claim [OF ds(2)])
  with ds'(1) show ?case by simp
qed

text \<open>
  C16 Data only for paired devices: whatever requests were served since the hub started with an empty device store, a
  summary, an inventory or a new host's credentials are sent only in answer to a request whose bearer token has, under
  the salt of an earlier successful pairing, the same Argon2id key as the token minted by that pairing.
\<close>

theorem data_needs_pairing:
  assumes "api_run w q s = (tr, s1)" "as_devices s = Some NewDeviceTokenStore" "\<forall>(env, r) \<in> set q. en_idkey env = K"
    and "api_Handler w env r s1 = (rep, s2)" "en_idkey env = K" "data_reply rep"
    and "\<And>pw sa. length (K pw sa argon2Time argon2Memory argon2Threads argon2KeyLen) = argon2KeyLen"
  shows "\<exists>token sa minted code e env' r'. api_bearerToken r = Some token \<and>
    (env', r', 200, PairReply code e) \<in> set tr \<and>
    pd_salt (en_draw env') = Some sa \<and> map_option b64url_encode (pd_token (en_draw env')) = Some minted \<and>
    K token sa argon2Time argon2Memory argon2Threads argon2KeyLen = K minted sa argon2Time argon2Memory argon2Threads argon2KeyLen"
proof -
  obtain ds where ds: "as_devices s1 = Some ds" "dev_inv K tr ds" using api_run_inv [OF assms(1-3)] by auto
  obtain ds' where "device_step env r ds rep ds'" using api_Handler_step [OF assms(4) ds(1)] by auto
  with assms(5,6) have "presents K r ds" by (auto elim: device_stepE)
  then obtain token h where t: "api_bearerToken r = Some token" "h \<in> set (ds_hashes ds)" "VerifyToken K token h = Inr True"
    by (auto simp: presents_def list_ex_iff split: option.splits)
  then obtain code minted e x where x: "x \<in> set tr" "mints K h code minted e x"
    using ds(2) by (auto simp: dev_inv_def hashes_minted_def)
  then obtain env' r' where e: "(env', r', 200, PairReply code e) \<in> set tr"
    "map_option b64url_encode (pd_token (en_draw env')) = Some minted" "HashToken K (pd_salt (en_draw env')) minted = Some h"
    by (cases x) (auto simp: mints_def)
  then obtain sa where sa: "pd_salt (en_draw env') = Some sa" by (cases "pd_salt (en_draw env')") (auto simp: HashToken_def)
  from e(3) t(3) VerifyToken_HashToken [of K sa minted h token] assms(7) sa
  have "K token sa argon2Time argon2Memory argon2Threads argon2KeyLen = K minted sa argon2Time argon2Memory argon2Threads argon2KeyLen"
    by simp
  with t(1) e(1,2) sa show ?thesis by blast
qed

text \<open>
  C17 A pairing code is good once and for five minutes: since the hub started with an empty device store, every code was
  exchanged for a token at most as often as it was handed out, and each exchange gives the token minted when that
  code was handed out, at most five minutes after the clock reading of that pairing; the token already has its hash in the store.
\<close>

theorem claim_once_in_time:
  assumes "api_run w q s = (tr, s1)" "as_devices s = Some NewDeviceTokenStore" "\<forall>(env, r) \<in> set q. en_idkey env = K"
  shows "length (filter (claimed code) tr) \<le> length (filter (started code) tr) \<and>
    (api_Handler w env r s1 = ((200, TokenReply token), s2) \<longrightarrow>
       (\<exists>code ds h x. en_decodeCode env (aq_body r) = Some code \<and> as_devices s1 = Some ds \<and> h \<in> set (ds_hashes ds) \<and>
          x \<in> set tr \<and> mints K h code token (pd_now (en_draw (fst x)) + 5 * minute) x \<and>
          en_now env \<le> pd_now (en_draw (fst x)) + 5 * minute))"
proof -
  obtain ds where ds: "as_devices s1 = Some ds" "dev_inv K tr ds" using api_run_inv [OF assms] by auto
  then have "length (filter (claimed code) tr) + (if pending code ds then 1 else 0) \<le> length (filter (started code) tr)"
    by (simp add: dev_inv_def claims_counted_def)
  moreover {
    assume "api_Handler w env r s1 = ((200, TokenReply token), s2)"
    then obtain ds' where "device_step env r ds (200, TokenReply token) ds'" using api_Handler_step ds(1) by blast
    then obtain code where code: "en_decodeCode env (aq_body r) = Some code"
      "dev_Claim code (en_gcNow env) (en_now env) ds = (Some token, ds')"
      by (cases rule: device_step.cases) auto
    then obtain p where p: "map_of (ds_pairings (gcLocked (en_gcNow env) ds)) code = Some p"
      "en_now env \<le> pr_expiresAt p" "token = pr_token p" using dev_Claim_result by blast
    then have "(code, p) \<in> set (ds_pairings ds)" using gcLocked_fields(3) map_of_SomeD by fastforce
    then obtain h x where x: "h \<in> set (ds_hashes ds)" "x \<in> set tr" "mints K h code token (pr_expiresAt p) x"
      using ds(2) p(3) unfolding dev_inv_def pairings_minted_def by blast
    then have "pr_expiresAt p = pd_now (en_draw (fst x)) + 5 * minute" by (cases x) (simp add: mints_def pairingTTL_def)
    with code(1) ds(1) x p(2) have "\<exists>code ds h x. en_decodeCode env (aq_body r) = Some code \<and> as_devices s1 = Some ds \<and>
        h \<in> set (ds_hashes ds) \<and> x \<in> set tr \<and> mints K h code token (pd_now (en_draw (fst x)) + 5 * minute) x \<and>
        en_now env \<le> pd_now (en_draw (fst x)) + 5 * minute" by metis }
  ultimately show ?thesis by simp
qed

text \<open>Pairings that were started for a request without a valid device token.\<close>

fun open_pairings :: "web_ui \<Rightarrow> (api_env \<times> api_request) list \<Rightarrow> api_state \<Rightarrow> nat" where
  "open_pairings w [] s = 0"
| "open_pairings w ((env, r) # q) s =
     (let (rep, s1) = api_Handler w env r s in
      (case (snd rep, as_devices s) of
         (PairReply _ _, Some ds) \<Rightarrow> if presents (en_idkey env) r ds then 0 else 1
       | _ \<Rightarrow> 0) + open_pairings w q s1)"

lemma step_hashes:
  assumes "device_step env r ds rep ds'"
  shows "ds_hashes ds' = ds_hashes ds \<or> (\<exists>h. ds_hashes ds' = ds_hashes ds @ [h])"
  using assms
proof (cases rule: device_step.cases)
  case (ds_start code token e)
  from dev_Start_result [OF ds_start(2)] show ?thesis by auto
next
  case (ds_claim code token)
  from dev_Claim_result [OF ds_claim(3)] show ?thesis by auto
qed auto

text \<open>
  The open door closes behind the first pairing: over any sequence of requests at most one pairing succeeds without
  a valid device token, and none once the store holds a hash.
\<close>

theorem one_open_pairing:
  assumes "as_devices s = Some ds"
  shows "open_pairings w q s \<le> (if HasAnyToken ds then 0 else 1)"
  using assms
proof (induction q arbitrary: s ds)
  case (Cons x q)
  obtain env r where x: "x = (env, r)" by fastforce
  obtain rep s1 where h: "api_Handler w env r s = (rep, s1)" by fastforce
  obtain ds1 where d: "as_devices s1 = Some ds1" "device_step env r ds rep ds1" using api_Handler_step [OF h Cons.prems] by auto
  note ih = Cons.IH [OF d(1)]
  from d(2) show ?case
  proof (cases rule: device_step.cases)
    case (ds_start code token e)
    then have "HasAnyToken ds1" using dev_Start_result [OF ds_start(2)] by (auto simp: HasAnyToken_def)
    with ih ds_start h Cons.prems show ?thesis by (auto simp: x)
  qed (use ih step_hashes [OF d(2)] h Cons.prems in \<open>auto simp: x quiet_reply_def HasAnyToken_def split: api_body.splits if_splits\<close>)
qed simp

subsection \<open>Enrolment\<close>

lemma sql_Lookup_rows_plain:
  "sql_Lookup_rows K done (\<lambda>_. True) True i token rows = Lookup_from K done i token rows"
  by (induction rows arbitrary: i) (auto split: sum.splits)

definition host_reply :: "reply \<Rightarrow> bool" where
  "host_reply rep = (case snd rep of HostReply _ _ \<Rightarrow> True | _ \<Rightarrow> False)"

lemma no_host_reply:
  "\<not> host_reply (handleSummary env r)"
  "\<not> host_reply (handleInventory env r)"
  "\<not> host_reply (handler env r) \<Longrightarrow> \<not> host_reply (requireDeviceToken handler env r s)"
  "\<not> host_reply (fst (handleDevicePair env r s))"
  "\<not> host_reply (fst (handleDeviceClaim env r s))"
  by (auto simp: host_reply_def handleSummary_def handleInventory_def requireDeviceToken_def handleDevicePair_def handleDeviceClaim_def Let_def
      split: option.splits sum.splits bool.splits prod.splits)

lemma host_reply_path:
  assumes "api_Handler w env r s = ((code, HostReply h t), s')"
  shows "handleCreateHost env r s = ((code, HostReply h t), s')"
proof -
  have r: "host_reply (fst (api_Handler w env r s))" by (simp add: assms host_reply_def)
  have u: "\<not> host_reply (map_prod id WebPage x)" "\<not> host_reply (c, PlainError m)" for x c m
    by (cases x, simp_all add: host_reply_def)
  from r have "aq_path r = ''/v1/hosts''"
    by (auto simp: api_Handler_def no_host_reply u split: if_splits option.splits)
  with assms show ?thesis by (simp add: api_Handler_def)
qed

lemma handleCreateHost_reply:
  assumes "handleCreateHost env r s = ((code, HostReply h t), s')"
  shows "code = 201 \<and> (\<exists>rows sa k. en_salt env = Some sa \<and> as_hosts s = Some rows \<and> HashToken (en_idkey env) (Some sa) t = Some k \<and>
      as_hosts s' = Some (rows @ [\<lparr>tr_hostID = h, tr_hash = k\<rparr>])) \<and>
    (h = en_hostULID env \<or> validateHostID h = None)"
proof -
  have salt: "HashToken K sa tok = Some k \<Longrightarrow> \<exists>x. sa = Some x \<and> HashToken K (Some x) tok = Some k" for K sa tok k
    by (cases sa) (simp_all add: HashToken_def)
  from assms show ?thesis
    by (auto simp: handleCreateHost_def Let_def sql_AddToken_def intro: salt
        split: if_splits option.splits sum.splits bool.splits decoded.splits)
qed

lemma validateHostID_None:
  "validateHostID i = None \<longleftrightarrow> length i \<le> 64 \<and> (\<forall>c\<in>set i. host_char c)"
  by (auto simp: validateHostID_def hostIDMaxLen_def list_all_iff)

text \<open>
  An enrolled host can write, and only as itself: when the hub answers an enrolment with a host id and a token, the
  token table afterwards resolves exactly the same tokens to the same hosts as before, and of the tokens it knew
  nothing of it resolves to the new host just those with the same Argon2id key as the one handed out.  The id is
  the generated one or made of at most 64 of the permitted characters.
\<close>

theorem enrolment_binds:
  assumes "api_Handler w env r s = ((code, HostReply h t), s')"
    and "\<And>pw sa. length (en_idkey env pw sa argon2Time argon2Memory argon2Threads argon2KeyLen) = argon2KeyLen"
  shows "\<exists>rows rows' sa. as_hosts s = Some rows \<and> as_hosts s' = Some rows' \<and> en_salt env = Some sa \<and>
    (\<forall>token. sql_Lookup (en_idkey env) True (\<lambda>_. False) (\<lambda>_. True) True token rows' =
       (case sql_Lookup (en_idkey env) True (\<lambda>_. False) (\<lambda>_. True) True token rows of
          Inr None \<Rightarrow>
            Inr (if en_idkey env token sa argon2Time argon2Memory argon2Threads argon2KeyLen =
                    en_idkey env t sa argon2Time argon2Memory argon2Threads argon2KeyLen
                 then Some h else None)
        | x \<Rightarrow> x)) \<and>
    (h = en_hostULID env \<or> length h \<le> 64 \<and> (\<forall>c\<in>set h. host_char c))"
proof -
  obtain rows sa k where k: "en_salt env = Some sa" "as_hosts s = Some rows" "HashToken (en_idkey env) (Some sa) t = Some k"
    "as_hosts s' = Some (rows @ [\<lparr>tr_hostID = h, tr_hash = k\<rparr>])"
    and h: "h = en_hostULID env \<or> validateHostID h = None"
    using handleCreateHost_reply [OF host_reply_path [OF assms(1)]] by blast
  show ?thesis
    unfolding k sql_Lookup_def
    by (intro exI conjI, rule refl, rule refl, rule refl)
       (use h in \<open>auto simp: sql_Lookup_rows_plain Lookup_from_append VerifyToken_HashToken [OF k(3) assms(2)] validateHostID_None
          split: sum.splits option.splits\<close>)
qed

lemma memoryUsedSeries_nonneg:
  "p \<in> set (memoryUsedSeries rnd tot available) \<Longrightarrow> \<not> f_less (sp_value p) (Fin 0)"
  by (auto simp: memoryUsedSeries_def Let_def split: if_splits)

section \<open>Witnesses\<close>

text \<open>A hub whose first visitor pairs, claims the code, reads the summary and enrols a host.\<close>

definition demo_key :: idkey where
  "demo_key pw sa t m p n = take n (pw @ replicate n (CHR ''x''))"

definition demo_env :: "time \<Rightarrow> api_env" where
  "demo_env now =
     \<lparr>en_idkey = demo_key, en_ctxDone = (\<lambda>_. False),
      en_draw = \<lparr>pd_code = Some ''code'', pd_token = Some ''abc'', pd_salt = Some ''salt'', pd_now = now, pd_gcNow = now\<rparr>,
      en_gcNow = now, en_now = now, en_decodeCode = Some, en_decodeHost = (\<lambda>b. if b = [] then DecodeEOF else Decoded b),
      en_hostULID = ''01J'', en_tokenBytes = Some ''xyz'', en_salt = Some ''salt'', en_stored = True, en_rnd = id, en_rndf = Fin,
      en_query = (\<lambda>_ _ _ _. Inr []), en_events = (\<lambda>_ _ _. Inr []), en_inventories = None\<rparr>"

definition demo_request :: "string \<Rightarrow> string \<Rightarrow> string \<Rightarrow> string \<Rightarrow> api_request" where
  "demo_request method path auth body =
     \<lparr>aq_path = path, aq_method = method, aq_auth = auth, aq_hostID = ''nas'', aq_window = [], aq_kind = [], aq_body = body\<rparr>"

definition demo_start :: api_state where
  "demo_start = \<lparr>as_devices = Some NewDeviceTokenStore, as_hosts = Some []\<rparr>"

definition demo_pair :: "(api_env \<times> api_request) list" where
  "demo_pair = [(demo_env 0, demo_request ''POST'' ''/v1/devices/pair'' [] [])]"

abbreviation demo_get :: api_request where
  "demo_get \<equiv> demo_request ''GET'' ''/v1/summary'' ''Bearer YWJj'' []"

abbreviation demo_claim :: api_request where
  "demo_claim \<equiv> demo_request ''POST'' ''/v1/devices/claim'' [] (hex_encode ''code'')"

abbreviation demo_enrol :: api_request where
  "demo_enrol \<equiv> demo_request ''POST'' ''/v1/hosts'' ''Bearer YWJj'' ''nas''"

lemma demo_key_length: "length (demo_key pw sa argon2Time argon2Memory argon2Threads argon2KeyLen) = argon2KeyLen"
  by (simp add: demo_key_def)

definition demo_hash :: string where
  "demo_hash = the (HashToken demo_key (Some ''salt'') ''YWJj'')"

definition demo_state :: api_state where
  "demo_state =
     \<lparr>as_devices = Some \<lparr>ds_hashes = [demo_hash],
        ds_pairings = [(hex_encode ''code'', \<lparr>pr_token = ''YWJj'', pr_expiresAt = pairingTTL, pr_claimed = False\<rparr>)]\<rparr>,
      as_hosts = Some []\<rparr>"

lemma demo_hash_some: "HashToken demo_key (Some ''salt'') ''YWJj'' = Some demo_hash"
  by (simp add: demo_hash_def HashToken_def Let_def)

lemma demo_verify: "VerifyToken demo_key ''YWJj'' demo_hash = Inr True"
  using VerifyToken_HashToken [OF demo_hash_some demo_key_length] by simp

lemma demo_b64: "b64url_encode ''abc'' = ''YWJj''" "b64url_encode ''xyz'' = ''eHl6''"
  by code_simp+

lemma demo_paired:
  "api_run None demo_pair demo_start =
     ([(demo_env 0, demo_request ''POST'' ''/v1/devices/pair'' [] [], 200, PairReply (hex_encode ''code'') pairingTTL)], demo_state)"
  by (simp add: demo_pair_def demo_start_def demo_state_def api_Handler_def demo_request_def handleDevicePair_def demo_env_def
      NewDeviceTokenStore_def HasAnyToken_def dev_Start_def dev_addToken_def gcLocked_def demo_b64 demo_hash_some Let_def)

lemma demo_bearer: "api_bearerToken (demo_request m p ''Bearer YWJj'' b) = Some ''YWJj''"
  by (simp add: api_bearerToken_def demo_request_def has_prefix_def trim_prefix_def)

lemma demo_lookup: "dev_Lookup demo_key (\<lambda>_. False) ''YWJj'' \<lparr>ds_hashes = [demo_hash], ds_pairings = ps\<rparr> = Inr True"
  by (simp add: dev_Lookup_def demo_verify)

lemma demo_env_fields [simp]:
  "en_idkey (demo_env n) = demo_key" "en_ctxDone (demo_env n) = (\<lambda>_. False)" "en_now (demo_env n) = n" "en_gcNow (demo_env n) = n"
  "en_decodeCode (demo_env n) = Some" "en_salt (demo_env n) = Some ''salt''" "en_hostULID (demo_env n) = ''01J''"
  by (simp_all add: demo_env_def)

lemma demo_served: "\<exists>rep. api_Handler None (demo_env 1) demo_get demo_state = (rep, demo_state) \<and> data_reply rep"
  by (simp add: api_Handler_def requireDeviceToken_def demo_bearer demo_lookup demo_state_def)
     (simp add: demo_request_def handleSummary_def summary_queries_def demo_env_def Let_def)

lemma demo_claimed:
  "\<exists>s2. api_Handler None (demo_env 1) demo_claim demo_state = ((200, TokenReply ''YWJj''), s2)"
  by (simp add: api_Handler_def demo_request_def handleDeviceClaim_def demo_state_def dev_Claim_def gcLocked_def pairingTTL_def minute_def second_def Let_def)

lemma demo_enrolled:
  "\<exists>s2. api_Handler None (demo_env 1) demo_enrol demo_state = ((201, HostReply ''nas'' ''eHl6''), s2)"
proof -
  have v: "validateHostID ''nas'' = None" by code_simp
  obtain k where k: "HashToken demo_key (Some ''salt'') ''eHl6'' = Some k" by (simp add: HashToken_def Let_def)
  show ?thesis
    by (simp add: api_Handler_def handleCreateHost_def demo_bearer demo_lookup demo_state_def)
       (simp add: demo_request_def demo_env_def sql_AddToken_def demo_b64 v k Let_def)
qed

theorem data_needs_pairing_witness:
  "\<exists>rep token sa minted code e env' r'. api_Handler None (demo_env 1) demo_get demo_state = (rep, demo_state) \<and> data_reply rep \<and>
    api_bearerToken demo_get = Some token \<and>
    (env', r', 200, PairReply code e) \<in> set [(demo_env 0, demo_request ''POST'' ''/v1/devices/pair'' [] [], 200, PairReply (hex_encode ''code'') pairingTTL)] \<and>
    pd_salt (en_draw env') = Some sa \<and> map_option b64url_encode (pd_token (en_draw env')) = Some minted \<and>
    demo_key token sa argon2Time argon2Memory argon2Threads argon2KeyLen = demo_key minted sa argon2Time argon2Memory argon2Threads argon2KeyLen"
proof -
  obtain rep where rep: "api_Handler None (demo_env 1) demo_get demo_state = (rep, demo_state)" "data_reply rep" using demo_served by blast
  have s: "as_devices demo_start = Some NewDeviceTokenStore" "\<forall>(env, r) \<in> set demo_pair. en_idkey env = demo_key"
    by (simp_all add: demo_start_def demo_pair_def)
  from rep data_needs_pairing [OF demo_paired s rep(1) _ rep(2) demo_key_length] show ?thesis by simp
qed

theorem claim_once_in_time_witness:
  "\<exists>s2 h x. api_Handler None (demo_env 1) demo_claim demo_state = ((200, TokenReply ''YWJj''), s2) \<and>
     x \<in> set (fst (api_run None demo_pair demo_start)) \<and>
     mints demo_key h (hex_encode ''code'') ''YWJj'' (pd_now (en_draw (fst x)) + 5 * minute) x \<and> 1 \<le> pd_now (en_draw (fst x)) + 5 * minute"
proof -
  obtain s2 where c: "api_Handler None (demo_env 1) demo_claim demo_state = ((200, TokenReply ''YWJj''), s2)" using demo_claimed by blast
  have s: "as_devices demo_start = Some NewDeviceTokenStore" "\<forall>(env, r) \<in> set demo_pair. en_idkey env = demo_key"
    by (simp_all add: demo_start_def demo_pair_def)
  have b: "aq_body demo_claim = hex_encode ''code''" by (simp add: demo_request_def)
  from claim_once_in_time [OF demo_paired s, of "[]" "demo_env 1" demo_claim "''YWJj''" s2] c show ?thesis
    by (auto simp: demo_paired b)
qed

theorem one_open_pairing_witness:
  "open_pairings None (demo_pair @ demo_pair) demo_start \<le> 1 \<and> \<not> HasAnyToken NewDeviceTokenStore"
  using one_open_pairing [of demo_start NewDeviceTokenStore None "demo_pair @ demo_pair"]
  by (simp add: demo_start_def HasAnyToken_def NewDeviceTokenStore_def)

theorem enrolment_binds_witness:
  "\<exists>s2 rows'. api_Handler None (demo_env 1) demo_enrol demo_state = ((201, HostReply ''nas'' ''eHl6''), s2) \<and> as_hosts s2 = Some rows' \<and>
     sql_Lookup demo_key True (\<lambda>_. False) (\<lambda>_. True) True ''eHl6'' rows' = Inr (Some ''nas'')"
proof -
  obtain s2 where e: "api_Handler None (demo_env 1) demo_enrol demo_state = ((201, HostReply ''nas'' ''eHl6''), s2)" using demo_enrolled by blast
  have "sql_Lookup demo_key True (\<lambda>_. False) (\<lambda>_. True) True t [] = Inr None" for t by (simp add: sql_Lookup_def)
  with e enrolment_binds [OF e] demo_key_length show ?thesis by (auto simp: demo_state_def)
qed

end
