(* ===== verification/Collect.thy ===== *)
theory Collect
  imports Sink Gotext Gopath
begin

text \<open>
  What the collectors of \<open>internal/collector\<close> share: their configuration, the files of the host they read, and what they
  hand to the sink.  A collector is a function from what it reads to the list of its calls of the sink; \<open>sink_items\<close>
  gives the items those calls append to the buffer, and \<open>hub_accepts\<close> says that the stores of the hub take them.
\<close>

subsection \<open>Configuration (collector.go)\<close>

text \<open>A configuration value is a string or something else, which every collector ignores.\<close>

datatype config_value = ConfigString string | ConfigOther

type_synonym config = "(string \<times> config_value) list"

definition configuredPath :: "config \<Rightarrow> string \<Rightarrow> string \<Rightarrow> string" where
  "configuredPath cfg key fallback =
     (case map_of cfg key of Some (ConfigString v) \<Rightarrow> if v \<noteq> [] then v else fallback | _ \<Rightarrow> fallback)"

subsection \<open>The host\<close>

text \<open>\<open>os.Stat\<close> without an error, \<open>os.ReadFile\<close> (or a scanner over the opened file) and the names of \<open>os.ReadDir\<close>.\<close>

record host_files =
  hf_stat :: "string \<Rightarrow> bool"
  hf_read :: "string \<Rightarrow> string option"
  hf_dir :: "string \<Rightarrow> string list option"

text \<open>A scanner stops with an error at a line that does not fit its buffer.\<close>

definition scan_err :: "string \<Rightarrow> bool" where
  "scan_err s \<longleftrightarrow> list_ex (\<lambda>l. 65536 \<le> length l) (split_on nl s)"

text \<open>\<open>strings.Trim\<close> with a set of one character, and \<open>strconv.FormatBool\<close>.\<close>

definition trim_char :: "char \<Rightarrow> string \<Rightarrow> string" where
  "trim_char c s = rev (dropWhile ((=) c) (rev (dropWhile ((=) c) s)))"

definition format_bool :: "bool \<Rightarrow> string" where
  "format_bool b = (if b then ''true'' else ''false'')"

text \<open>\<open>strings.Join\<close> and \<open>strings.SplitN\<close> with a one-character separator.\<close>

fun join_with :: "string \<Rightarrow> string list \<Rightarrow> string" where
  "join_with sep [] = []"
| "join_with sep [x] = x"
| "join_with sep (x # y # ys) = x @ sep @ join_with sep (y # ys)"

fun split_n :: "nat \<Rightarrow> char \<Rightarrow> string \<Rightarrow> string list" where
  "split_n 0 c s = []"
| "split_n (Suc 0) c s = [s]"
| "split_n (Suc (Suc n)) c s = (case cut_first c s of None \<Rightarrow> [s] | Some (a, b) \<Rightarrow> a # split_n (Suc n) c b)"

text \<open>\<open>ParseInt\<close> and \<open>Atoi\<close> with the error ignored: zero for no number, the nearest limit for one out of range.\<close>

definition parse_int_lenient :: "string \<Rightarrow> int" where
  "parse_int_lenient s =
     (case Atoi s of
        Some n \<Rightarrow> n
      | None \<Rightarrow>
          let ds = (if s \<noteq> [] \<and> (hd s = CHR ''-'' \<or> hd s = CHR ''+'') then tl s else s) in
          if ds = [] \<or> \<not> list_all is_digit ds then 0 else if hd s = CHR ''-'' then min_int64 else max_int64)"

subsection \<open>Text in lines\<close>

text \<open>A file of complete lines, and the lines a scanner gives back unchanged.\<close>

definition text_of :: "string list \<Rightarrow> string" where
  "text_of ls = concat (map (\<lambda>l. l @ [nl]) ls)"

definition line_ok :: "string \<Rightarrow> bool" where
  "line_ok l \<longleftrightarrow> nl \<notin> set l \<and> length l < 65536 \<and> (l = [] \<or> last l \<noteq> CHR 0x0d)"

lemma split_text: "list_all (\<lambda>l. nl \<notin> set l) ls \<Longrightarrow> split_on nl (text_of ls) = ls @ [[]]"
  by (induction ls) (auto simp: text_of_def)

lemma scan_text:
  assumes "list_all line_ok ls"
  shows "scan_lines (text_of ls) = ls" "\<not> scan_err (text_of ls)"
proof -
  have "list_all (\<lambda>l. nl \<notin> set l) ls" using assms by (auto simp: line_ok_def list_all_iff)
  note split = split_text [OF this]
  have t: "takeWhile (\<lambda>l. length l < 65536) ls = ls" using assms by (auto simp: line_ok_def list_all_iff takeWhile_eq_all_conv)
  have "map trim_cr ls = ls" using assms by (intro map_idI) (auto simp: line_ok_def list_all_iff trim_cr_def)
  then show "scan_lines (text_of ls) = ls" unfolding scan_lines_def split Let_def by (simp add: t del: takeWhile_eq_all_conv)
  show "\<not> scan_err (text_of ls)"
    using assms by (auto simp: scan_err_def split list_ex_iff line_ok_def list_all_iff)
qed

subsection \<open>Calls of the sink\<close>

datatype emission =
    EGauge string gofloat labels
  | ECounter string gofloat labels
  | EInventory inventory
  | ELogLines string "logLine list"

definition sink_items :: "string \<Rightarrow> time \<Rightarrow> emission \<Rightarrow> item list" where
  "sink_items hostID now e =
     (case e of
        EGauge n v ls \<Rightarrow> [gauge_item now n v ls hostID]
      | ECounter n v ls \<Rightarrow> [gauge_item now n v ls hostID]
      | EInventory iv \<Rightarrow> [inventory_item now hostID iv]
      | ELogLines source lines \<Rightarrow> map (line_item now hostID source) lines)"

text \<open>The validation every store of the hub starts with.\<close>

definition item_ok :: "item \<Rightarrow> bool" where
  "item_ok i \<longleftrightarrow>
     (case it_metric i of Some m \<Rightarrow> Metric_Validate m = None | None \<Rightarrow> True) \<and>
     (case it_inventory i of Some iv \<Rightarrow> Inventory_Validate iv = None | None \<Rightarrow> True) \<and>
     (case it_logLine i of Some l \<Rightarrow> LogLine_Validate l = None | None \<Rightarrow> True)"

definition hub_accepts :: "string \<Rightarrow> time \<Rightarrow> emission \<Rightarrow> bool" where
  "hub_accepts hostID now e \<longleftrightarrow> list_all item_ok (sink_items hostID now e)"

lemma hub_accepts_gauge:
  assumes "is_map ls"
  shows "hub_accepts h now (EGauge n v ls) \<longleftrightarrow>
     Metric_Validate \<lparr>me_name = n, me_hostID = h, me_labels = ls, me_value = v, me_timestamp = now\<rparr> = None"
  using cloneLabels_id [OF assms] by (simp add: hub_accepts_def sink_items_def item_ok_def gauge_item_def blank_item_def)

lemma hub_accepts_inventory:
  assumes "h \<noteq> []" "\<not> is_zero_time now" "in_schema iv = CurrentSchemaVersion" "in_kind iv \<noteq> []"
    and "\<And>x. x \<in> set (in_items iv) \<Longrightarrow> ii_id x \<noteq> []"
  shows "hub_accepts h now (EInventory iv)"
proof -
  have "firstItemWithoutID 0 (in_items iv) = None" using assms(5) by (simp add: firstItemWithoutID_None_iff)
  with assms show ?thesis
    by (auto simp: hub_accepts_def sink_items_def item_ok_def inventory_item_def blank_item_def Let_def Inventory_Validate_def CurrentSchemaVersion_def)
qed

lemma line_item_ok:
  assumes "h \<noteq> []" "\<not> is_zero_time now" "ll_source l \<noteq> []"
  shows "item_ok (line_item now h source l)"
  using assms
  by (cases "ll_hostID l = []"; cases "is_zero_time (ll_ts l)")
     (simp_all add: line_item_def Let_def item_ok_def blank_item_def LogLine_Validate_def)

lemma hub_accepts_lines:
  assumes "h \<noteq> []" "\<not> is_zero_time now" "\<And>l. l \<in> set ls \<Longrightarrow> ll_source l \<noteq> []"
  shows "hub_accepts h now (ELogLines source ls)"
  unfolding hub_accepts_def sink_items_def emission.case list_all_iff using assms by (auto intro: line_item_ok)

end
