(* ===== verification/Capabilities.thy ===== *)
theory Capabilities
  imports Collect Runtime
begin

text \<open>
  The capability manifest, \<open>internal/capabilities\<close>: what a host can do, found by looking at its files (\<open>detect.go\<close>), the
  manifest built from it (\<open>capabilities.go\<close>), and its delivery (\<open>client.go\<close>).  A capability is its name.
\<close>

subsection \<open>Names and the manifest (capabilities.go)\<close>

type_synonym capability = string

abbreviation "InitSystemd \<equiv> ''init.systemd''"
abbreviation "LogsJournald \<equiv> ''logs.journald''"
abbreviation "LogsSyslogfile \<equiv> ''logs.syslogfile''"
abbreviation "PkgApt \<equiv> ''pkg.apt''"
abbreviation "PkgDnf \<equiv> ''pkg.dnf''"
abbreviation "StorageSmart \<equiv> ''storage.smart''"
abbreviation "StorageMdraid \<equiv> ''storage.mdraid''"
abbreviation "StorageSnapraid \<equiv> ''storage.snapraid''"
abbreviation "StorageMergerfs \<equiv> ''storage.mergerfs''"
abbreviation "StorageUnraidArray \<equiv> ''storage.unraid_array''"
abbreviation "HwHwmon \<equiv> ''hw.hwmon''"
abbreviation "HwEdac \<equiv> ''hw.edac''"
abbreviation "HwRasdaemon \<equiv> ''hw.rasdaemon''"
abbreviation "HwPstore \<equiv> ''hw.pstore''"
abbreviation "ContainerDocker \<equiv> ''container.docker''"
abbreviation "ContainerCgroupv2 \<equiv> ''container.cgroupv2''"
abbreviation "NetTailscale \<equiv> ''net.tailscale''"
abbreviation "SecSelinux \<equiv> ''sec.selinux''"
abbreviation "SecApparmor \<equiv> ''sec.apparmor''"
abbreviation "PublicExposed \<equiv> ''public.exposed''"
abbreviation "ShareSMB \<equiv> ''share.smb''"
abbreviation "ShareNFS \<equiv> ''share.nfs''"
abbreviation "VMLibvirt \<equiv> ''vm.libvirt''"
abbreviation "NetWireguard \<equiv> ''net.wireguard''"
abbreviation "PowerUPS \<equiv> ''power.ups''"

definition All_caps :: "capability list" where
  "All_caps =
     [InitSystemd, LogsJournald, LogsSyslogfile, PkgApt, PkgDnf, StorageSmart, StorageMdraid, StorageSnapraid, StorageMergerfs,
      StorageUnraidArray, HwHwmon, HwEdac, HwRasdaemon, HwPstore, ContainerDocker, ContainerCgroupv2, NetTailscale, SecSelinux,
      SecApparmor, PublicExposed, ShareSMB, ShareNFS, VMLibvirt, NetWireguard, PowerUPS]"

record cap_status =
  st_available :: bool
  st_detail :: string
  st_reason :: string

record degraded =
  dg_capability :: string
  dg_impact :: string
  dg_remedy :: string

record osInfo =
  os_family :: string
  os_distro :: string
  os_version :: string
  os_kernel :: string
  os_arch :: string

record manifest =
  mf_hostID :: string
  mf_hostname :: string
  mf_reportedAt :: time
  mf_agentVersion :: string
  mf_os :: osInfo
  mf_capabilities :: "(capability \<times> cap_status) list"
  mf_degraded :: "degraded list"

definition Available :: "manifest \<Rightarrow> (capability \<times> bool) list" where
  "Available m = map (\<lambda>(name, status). (name, st_available status)) (mf_capabilities m)"

subsection \<open>Configuration of the detector (detect.go)\<close>

record detect_config =
  dc_Root :: string
  dc_SystemdDirs :: "string list"
  dc_JournaldDirs :: "string list"
  dc_SyslogFiles :: "string list"
  dc_DpkgStatus :: string
  dc_RPMDBDir :: string
  dc_SmartctlPaths :: "string list"
  dc_MdstatPath :: string
  dc_SnapraidConf :: string
  dc_ProcMounts :: string
  dc_UnraidMdcmd :: string
  dc_HwmonDir :: string
  dc_EdacDir :: string
  dc_RasdaemonPaths :: "string list"
  dc_PstoreDir :: string
  dc_DockerSocket :: string
  dc_CgroupV2Marker :: string
  dc_TailscaleSocket :: string
  dc_SelinuxDir :: string
  dc_SelinuxEnforce :: string
  dc_ApparmorDir :: string
  dc_OSReleasePath :: string
  dc_KernelPath :: string
  dc_SambaConf :: string
  dc_ExportsFile :: string
  dc_LibvirtSocket :: string
  dc_WireguardDir :: string
  dc_WireguardModule :: string
  dc_NUTConf :: string
  dc_ApcupsdConf :: string
  dc_PubliclyExposed :: bool

definition DefaultDetectConfig :: detect_config where
  "DefaultDetectConfig =
     \<lparr>dc_Root = ''/'', dc_SystemdDirs = [''/run/systemd/system''], dc_JournaldDirs = [''/run/systemd/journal'', ''/var/log/journal''],
      dc_SyslogFiles = [''/var/log/syslog'', ''/var/log/messages''], dc_DpkgStatus = ''/var/lib/dpkg/status'',
      dc_RPMDBDir = ''/var/lib/rpm'', dc_SmartctlPaths = [''/usr/sbin/smartctl'', ''/sbin/smartctl'', ''/usr/bin/smartctl''],
      dc_MdstatPath = ''/proc/mdstat'', dc_SnapraidConf = ''/etc/snapraid.conf'', dc_ProcMounts = ''/proc/mounts'',
      dc_UnraidMdcmd = ''/proc/mdcmd'', dc_HwmonDir = ''/sys/class/hwmon'', dc_EdacDir = ''/sys/devices/system/edac'',
      dc_RasdaemonPaths = [''/usr/sbin/rasdaemon'', ''/sbin/rasdaemon''], dc_PstoreDir = ''/sys/fs/pstore'',
      dc_DockerSocket = ''/var/run/docker.sock'', dc_CgroupV2Marker = ''/sys/fs/cgroup/cgroup.controllers'',
      dc_TailscaleSocket = ''/var/run/tailscale/tailscaled.sock'', dc_SelinuxDir = ''/sys/fs/selinux'',
      dc_SelinuxEnforce = ''/sys/fs/selinux/enforce'', dc_ApparmorDir = ''/sys/kernel/security/apparmor'',
      dc_OSReleasePath = ''/etc/os-release'', dc_KernelPath = ''/proc/sys/kernel/osrelease'', dc_SambaConf = ''/etc/samba/smb.conf'',
      dc_ExportsFile = ''/etc/exports'', dc_LibvirtSocket = ''/var/run/libvirt/libvirt-sock-ro'', dc_WireguardDir = ''/etc/wireguard'',
      dc_WireguardModule = ''/sys/module/wireguard'', dc_NUTConf = ''/etc/nut/ups.conf'', dc_ApcupsdConf = ''/etc/apcupsd/apcupsd.conf'',
      dc_PubliclyExposed = False\<rparr>"

text \<open>The Spanish texts carry their accents as UTF-8 bytes: \<open>0xC3 0xA1\<close> is a with an acute accent.\<close>

definition degradedImpact :: "(capability \<times> degraded) list" where
  "degradedImpact =
     (let podra = ''no se podr'' @ [CHR 0xC3, CHR 0xA1]; metricas = ''m'' @ [CHR 0xC3, CHR 0xA9] @ ''tricas'' in
      [(HwPstore, \<lparr>dg_capability = [], dg_impact = podra @ '' diagnosticar un cuelgue duro'', dg_remedy = ''docs/setup/ramoops.md''\<rparr>),
       (StorageSmart, \<lparr>dg_capability = [], dg_impact = podra @ ''n leer '' @ metricas @ '' SMART de los discos'', dg_remedy = []\<rparr>),
       (HwHwmon, \<lparr>dg_capability = [], dg_impact = podra @ ''n leer temperaturas ni sensores del hardware'', dg_remedy = []\<rparr>)])"

subsection \<open>Looking at files (detect.go)\<close>

definition cfg_path :: "detect_config \<Rightarrow> string \<Rightarrow> string" where
  "cfg_path cfg p =
     (if p = [] then [] else if dc_Root cfg = [] \<or> dc_Root cfg = ''/'' then p else Join [dc_Root cfg, p])"

definition cfg_exists :: "host_files \<Rightarrow> detect_config \<Rightarrow> string \<Rightarrow> bool" where
  "cfg_exists H cfg p \<longleftrightarrow> p \<noteq> [] \<and> hf_stat H (cfg_path cfg p)"

fun anyExists :: "host_files \<Rightarrow> detect_config \<Rightarrow> string list \<Rightarrow> string option" where
  "anyExists H cfg [] = None"
| "anyExists H cfg (p # ps) = (if cfg_exists H cfg p then Some p else anyExists H cfg ps)"

definition dirNonEmpty :: "host_files \<Rightarrow> detect_config \<Rightarrow> string \<Rightarrow> bool" where
  "dirNonEmpty H cfg p \<longleftrightarrow> (case hf_dir H (cfg_path cfg p) of None \<Rightarrow> False | Some es \<Rightarrow> es \<noteq> [])"

definition readFile :: "host_files \<Rightarrow> string \<Rightarrow> string option" where
  "readFile H path = (if path = [] then None else hf_read H path)"

definition unquote :: "string \<Rightarrow> string" where
  "unquote s = trim_char (CHR 0x22) s"

definition os_release_line :: "string \<Rightarrow> string \<times> string \<Rightarrow> string \<times> string" where
  "os_release_line line dv =
     (if has_prefix line ''ID='' then (unquote (trim_prefix line ''ID=''), snd dv)
      else if has_prefix line ''VERSION_ID='' then (fst dv, unquote (trim_prefix line ''VERSION_ID=''))
      else dv)"

definition parseOSRelease :: "string \<Rightarrow> string \<times> string" where
  "parseOSRelease s = fold os_release_line (scan_lines s) ([], [])"

definition detectOS :: "host_files \<Rightarrow> string \<Rightarrow> string \<Rightarrow> detect_config \<Rightarrow> osInfo" where
  "detectOS H goos goarch cfg =
     (let kernel = (case readFile H (cfg_path cfg (dc_KernelPath cfg)) of None \<Rightarrow> [] | Some s \<Rightarrow> trim_space s);
          dv = (case readFile H (cfg_path cfg (dc_OSReleasePath cfg)) of None \<Rightarrow> ([], []) | Some s \<Rightarrow> parseOSRelease s) in
      \<lparr>os_family = goos, os_distro = fst dv, os_version = snd dv, os_kernel = kernel, os_arch = goarch\<rparr>)"

definition mdstatDevices :: "host_files \<Rightarrow> detect_config \<Rightarrow> string list option" where
  "mdstatDevices H cfg =
     (case readFile H (cfg_path cfg (dc_MdstatPath cfg)) of
        None \<Rightarrow> None
      | Some s \<Rightarrow>
          let devices = concat (map (\<lambda>line. if has_prefix line ''md'' then take 1 (Fields line) else []) (scan_lines s)) in
          if devices \<noteq> [] then Some devices else None)"

definition hasMountFSType :: "host_files \<Rightarrow> detect_config \<Rightarrow> string \<Rightarrow> bool" where
  "hasMountFSType H cfg fsType \<longleftrightarrow>
     (case readFile H (cfg_path cfg (dc_ProcMounts cfg)) of
        None \<Rightarrow> False
      | Some s \<Rightarrow> list_ex (\<lambda>line. let fields = Fields line in 3 \<le> length fields \<and> fields ! 2 = fsType) (scan_lines s))"

definition hwmonNames :: "host_files \<Rightarrow> detect_config \<Rightarrow> string" where
  "hwmonNames H cfg =
     (case hf_dir H (cfg_path cfg (dc_HwmonDir cfg)) of
        None \<Rightarrow> []
      | Some entries \<Rightarrow>
          join_with '', ''
            (concat (map (\<lambda>e. case readFile H (Join [cfg_path cfg (dc_HwmonDir cfg), e, ''name'']) of
                               None \<Rightarrow> [] | Some s \<Rightarrow> [trim_space s]) entries)))"

definition selinuxMode :: "host_files \<Rightarrow> detect_config \<Rightarrow> string" where
  "selinuxMode H cfg =
     (case readFile H (cfg_path cfg (dc_SelinuxEnforce cfg)) of
        None \<Rightarrow> []
      | Some s \<Rightarrow> if trim_space s = ''1'' then ''enforcing'' else if trim_space s = ''0'' then ''permissive'' else [])"

subsection \<open>The probes (detect.go)\<close>

abbreviation avail :: "string \<Rightarrow> cap_status" where
  "avail detail \<equiv> \<lparr>st_available = True, st_detail = detail, st_reason = []\<rparr>"

abbreviation unavail :: "string \<Rightarrow> cap_status" where
  "unavail reason \<equiv> \<lparr>st_available = False, st_detail = [], st_reason = reason\<rparr>"

definition detectOne :: "host_files \<Rightarrow> detect_config \<Rightarrow> capability \<Rightarrow> cap_status" where
  "detectOne H cfg cap =
     (if cap = InitSystemd then
        (if anyExists H cfg (dc_SystemdDirs cfg) \<noteq> None then avail ''/run/systemd/system present''
         else unavail ''no systemd runtime directory'')
      else if cap = LogsJournald then
        (if anyExists H cfg (dc_JournaldDirs cfg) \<noteq> None then avail ''persistent'' else unavail ''no journal directory found'')
      else if cap = LogsSyslogfile then
        (case anyExists H cfg (dc_SyslogFiles cfg) of Some p \<Rightarrow> avail p | None \<Rightarrow> unavail ''no syslog file found'')
      else if cap = PkgApt then
        (if cfg_exists H cfg (dc_DpkgStatus cfg) then avail [] else unavail ''dpkg status file not found'')
      else if cap = PkgDnf then
        (if cfg_exists H cfg (dc_RPMDBDir cfg) then avail (dc_RPMDBDir cfg) else unavail ''rpm database not found'')
      else if cap = StorageSmart then
        (case anyExists H cfg (dc_SmartctlPaths cfg) of Some p \<Rightarrow> avail p | None \<Rightarrow> unavail ''smartctl not installed'')
      else if cap = StorageMdraid then
        (case mdstatDevices H cfg of Some ds \<Rightarrow> avail (join_with '', '' ds) | None \<Rightarrow> unavail ''no active md arrays'')
      else if cap = StorageSnapraid then
        (if cfg_exists H cfg (dc_SnapraidConf cfg) then avail [] else unavail ''snapraid.conf not found'')
      else if cap = StorageMergerfs then
        (if hasMountFSType H cfg ''fuse.mergerfs'' then avail [] else unavail ''no mergerfs mount found'')
      else if cap = StorageUnraidArray then
        (if cfg_exists H cfg (dc_UnraidMdcmd cfg) then avail [] else unavail ''not running on Unraid'')
      else if cap = HwHwmon then
        (if dirNonEmpty H cfg (dc_HwmonDir cfg) then avail (hwmonNames H cfg) else unavail ''no hwmon devices (likely virtualized)'')
      else if cap = HwEdac then
        (if cfg_exists H cfg (dc_EdacDir cfg) then avail [] else unavail ''no EDAC support'')
      else if cap = HwRasdaemon then
        (if anyExists H cfg (dc_RasdaemonPaths cfg) \<noteq> None then avail [] else unavail ''not installed'')
      else if cap = HwPstore then
        (if dirNonEmpty H cfg (dc_PstoreDir cfg) then avail [] else unavail ''ramoops not configured'')
      else if cap = ContainerDocker then
        (if cfg_exists H cfg (dc_DockerSocket cfg) then avail [] else unavail ''docker socket not found'')
      else if cap = ContainerCgroupv2 then
        (if cfg_exists H cfg (dc_CgroupV2Marker cfg) then avail [] else unavail ''cgroup v2 unified hierarchy not mounted'')
      else if cap = NetTailscale then
        (if cfg_exists H cfg (dc_TailscaleSocket cfg) then avail [] else unavail ''tailscaled not running'')
      else if cap = SecSelinux then
        (if cfg_exists H cfg (dc_SelinuxDir cfg)
         then (let mode = selinuxMode H cfg in if mode \<noteq> [] then avail mode else avail [])
         else unavail ''no SELinux filesystem mounted'')
      else if cap = SecApparmor then
        (if cfg_exists H cfg (dc_ApparmorDir cfg) then avail [] else unavail ''no AppArmor securityfs interface'')
      else if cap = PublicExposed then
        (if dc_PubliclyExposed cfg then avail ''operator-declared'' else unavail ''not operator-declared'')
      else if cap = ShareSMB then
        (if cfg_exists H cfg (dc_SambaConf cfg) then avail [] else unavail ''no smb.conf found'')
      else if cap = ShareNFS then
        (if cfg_exists H cfg (dc_ExportsFile cfg) then avail [] else unavail ''no /etc/exports found'')
      else if cap = VMLibvirt then
        (if cfg_exists H cfg (dc_LibvirtSocket cfg) then avail [] else unavail ''libvirt read-only socket not found'')
      else if cap = NetWireguard then
        (if cfg_exists H cfg (dc_WireguardModule cfg) \<or> dirNonEmpty H cfg (dc_WireguardDir cfg) then avail []
         else unavail ''no WireGuard module or configuration found'')
      else if cap = PowerUPS then
        (case anyExists H cfg [dc_NUTConf cfg, dc_ApcupsdConf cfg] of
           Some p \<Rightarrow> avail p | None \<Rightarrow> unavail ''no UPS monitoring daemon configured'')
      else unavail ''unknown capability'')"

text \<open>\<open>order\<close> is the order in which the runtime iterates over the map of capabilities.\<close>

definition Detect_host ::
  "host_files \<Rightarrow> string \<Rightarrow> string \<Rightarrow> ((capability \<times> cap_status) list \<Rightarrow> (capability \<times> cap_status) list) \<Rightarrow>
   detect_config \<Rightarrow> string \<Rightarrow> string \<Rightarrow> string \<Rightarrow> time \<Rightarrow> manifest" where
  "Detect_host H goos goarch order cfg hostID hostname agentVersion now =
     (let caps = map (\<lambda>c. (c, detectOne H cfg c)) All_caps;
          lost = concat (map (\<lambda>(c, status).
            if st_available status then []
            else (case map_of degradedImpact c of None \<Rightarrow> [] | Some d \<Rightarrow> [d\<lparr>dg_capability := c\<rparr>])) (order caps)) in
      \<lparr>mf_hostID = hostID, mf_hostname = hostname, mf_reportedAt = now, mf_agentVersion = agentVersion,
       mf_os = detectOS H goos goarch cfg, mf_capabilities = caps, mf_degraded = lost\<rparr>)"

subsection \<open>Delivery (client.go)\<close>

record cap_client =
  cl_BaseURL :: string
  cl_Token :: string

record manifest_request =
  mq_url :: string
  mq_headers :: labels
  mq_body :: string

datatype send_error = EncodingManifest | BuildingRequest | SendingManifest | HubRejected nat

text \<open>
  \<open>encode\<close> is the JSON encoding, \<open>valid_url\<close> says that a request can be built for a URL, \<open>exchange\<close> is the HTTP client:
  the status of the answer, or nothing when there is none.
\<close>

definition cap_Send ::
  "(manifest \<Rightarrow> string option) \<Rightarrow> (string \<Rightarrow> bool) \<Rightarrow> (manifest_request \<Rightarrow> nat option) \<Rightarrow> cap_client \<Rightarrow> manifest \<Rightarrow> send_error option" where
  "cap_Send encode valid_url exchange c m =
     (case encode m of
        None \<Rightarrow> Some EncodingManifest
      | Some body \<Rightarrow>
          let url = cl_BaseURL c @ ''/v1/manifest'' in
          if \<not> valid_url url then Some BuildingRequest
          else
            let headers = (''Content-Type'', ''application/json'') #
                  (if cl_Token c \<noteq> [] then [(''Authorization'', ''Bearer '' @ cl_Token c)] else []) in
            (case exchange \<lparr>mq_url = url, mq_headers = headers, mq_body = body\<rparr> of
               None \<Rightarrow> Some SendingManifest
             | Some status \<Rightarrow> if status < 200 \<or> 300 \<le> status then Some (HubRejected status) else None))"

section \<open>The manifest is complete and honest\<close>

definition status_ok :: "cap_status \<Rightarrow> bool" where
  "status_ok s \<longleftrightarrow> (if st_available s then st_reason s = [] else st_reason s \<noteq> [] \<and> st_detail s = [])"

lemma detectOne_ok: "status_ok (detectOne H cfg c)"
proof -
  have a: "status_ok (avail d)" "r \<noteq> [] \<Longrightarrow> status_ok (unavail r)" for d r by (simp_all add: status_ok_def)
  have i: "status_ok x \<Longrightarrow> status_ok y \<Longrightarrow> status_ok (if P then x else y)" for P x y by simp
  have o: "(\<And>x. status_ok (f x)) \<Longrightarrow> status_ok y \<Longrightarrow> status_ok (case z of None \<Rightarrow> y | Some x \<Rightarrow> f x)" for f y and z :: "'a option"
    by (cases z) simp_all
  have o': "(\<And>x. status_ok (f x)) \<Longrightarrow> status_ok y \<Longrightarrow> status_ok (case z of None \<Rightarrow> y | Some x \<Rightarrow> f x)" for f y and z :: "'b option"
    by (cases z) simp_all
  show ?thesis
    unfolding detectOne_def Let_def by (intro i o o' a) simp_all
qed

lemma All_caps_distinct: "distinct All_caps"
  by code_simp

lemma degraded_caps: "map fst degradedImpact = [HwPstore, StorageSmart, HwHwmon]" "set (map fst degradedImpact) \<subseteq> set All_caps"
  by (simp_all add: degradedImpact_def Let_def All_caps_def)

lemma degradedImpact_dom: "map_of degradedImpact c \<noteq> None \<longleftrightarrow> c \<in> {HwPstore, StorageSmart, HwHwmon}"
  unfolding map_of_eq_None_iff by (simp flip: set_map add: degraded_caps)

definition lost_cap :: "capability \<times> cap_status \<Rightarrow> bool" where
  "lost_cap p \<longleftrightarrow> \<not> st_available (snd p) \<and> fst p \<in> {HwPstore, StorageSmart, HwHwmon}"

lemma lost_names:
  "map dg_capability (concat (map (\<lambda>(c, status).
      if st_available status then []
      else (case map_of degradedImpact c of None \<Rightarrow> [] | Some d \<Rightarrow> [d\<lparr>dg_capability := c\<rparr>])) xs)) =
   map fst (filter lost_cap xs)"
proof (induction xs)
  case (Cons x xs)
  obtain c st where x: "x = (c, st)" by fastforce
  show ?case
  proof (cases "map_of degradedImpact c")
    case None
    then have "c \<notin> {HwPstore, StorageSmart, HwHwmon}" using degradedImpact_dom by blast
    then have "\<not> lost_cap x" by (simp add: lost_cap_def x)
    with Cons None show ?thesis by (simp add: x)
  next
    case (Some d)
    then have "c \<in> {HwPstore, StorageSmart, HwHwmon}" using degradedImpact_dom by blast
    then have "lost_cap x \<longleftrightarrow> \<not> st_available st" by (simp add: lost_cap_def x)
    with Cons Some show ?thesis by (simp add: x)
  qed
qed simp

text \<open>
  The manifest covers every capability once, and says why one is missing: the names are those of the documented list,
  each without repetition; an available capability carries no reason, a missing one carries a reason and no detail.
  Whatever order the map is walked in, the list of degradations names exactly the missing ones among hardware crash
  logs, SMART and sensors, each once.
\<close>

theorem manifest_complete:
  assumes "\<And>xs. mset (order xs) = mset xs"
  shows "let m = Detect_host H goos goarch order cfg hostID hostname version now in
    map fst (mf_capabilities m) = All_caps \<and> distinct All_caps \<and>
    (\<forall>c s. (c, s) \<in> set (mf_capabilities m) \<longrightarrow>
       (if st_available s then st_reason s = [] else st_reason s \<noteq> [] \<and> st_detail s = [])) \<and>
    distinct (map dg_capability (mf_degraded m)) \<and>
    set (map dg_capability (mf_degraded m)) = {c \<in> {HwPstore, StorageSmart, HwHwmon}. \<not> st_available (detectOne H cfg c)}"
proof -
  let ?caps = "map (\<lambda>c. (c, detectOne H cfg c)) All_caps"
  let ?m = "Detect_host H goos goarch order cfg hostID hostname version now"
  have caps: "mf_capabilities ?m = ?caps" and names: "map dg_capability (mf_degraded ?m) = map fst (filter lost_cap (order ?caps))"
    by (simp_all add: Detect_host_def Let_def lost_names)
  have fst: "map fst ?caps = All_caps" by (simp add: comp_def)
  have "mset (map fst (order ?caps)) = mset All_caps" unfolding mset_map assms by (metis fst mset_map)
  then have "distinct (map fst (order ?caps))" using All_caps_distinct mset_eq_imp_distinct_iff by blast
  then have d: "distinct (map dg_capability (mf_degraded ?m))" unfolding names by (rule distinct_map_filter)
  have "set (order ?caps) = set ?caps" using assms by (rule mset_eq_setD)
  then have "set (map dg_capability (mf_degraded ?m)) = fst ` {p \<in> set ?caps. lost_cap p}" unfolding names by simp
  also have "\<dots> = {c \<in> set All_caps. lost_cap (c, detectOne H cfg c)}" by (auto simp: image_iff)
  also have "\<dots> = {c \<in> {HwPstore, StorageSmart, HwHwmon}. \<not> st_available (detectOne H cfg c)}"
  proof -
    have sub: "{HwPstore, StorageSmart, HwHwmon} \<subseteq> set All_caps" using degraded_caps by (metis list.set(1,2))
    have "S \<subseteq> set All_caps \<Longrightarrow> {c \<in> set All_caps. \<not> st_available (detectOne H cfg c) \<and> c \<in> S} = {c \<in> S. \<not> st_available (detectOne H cfg c)}" for S
      by blast
    from this [OF sub] show ?thesis unfolding lost_cap_def fst_conv snd_conv .
  qed
  finally have "set (map dg_capability (mf_degraded ?m)) = {c \<in> {HwPstore, StorageSmart, HwHwmon}. \<not> st_available (detectOne H cfg c)}" .
  moreover have "\<forall>c s. (c, s) \<in> set ?caps \<longrightarrow> status_ok s" using detectOne_ok by auto
  ultimately show ?thesis using d All_caps_distinct fst unfolding Let_def caps status_ok_def by blast
qed

text \<open>
  A collector runs exactly when the probes found everything it needs: resolving the registry against a manifest
  registers, in order, the collectors whose \<open>Init\<close> succeeds and whose requirements are documented capabilities that
  the probe found; all others are reported as disabled.
\<close>

theorem collectors_follow_probes:
  assumes "m = Detect_host H goos goarch order cfg hostID hostname version now"
    and "Resolve (\<lambda>c. map_of (Available m) c = Some True) items = (regs, dis, inits)"
  shows "map rg_collector regs = filter (\<lambda>c. co_init c = None \<and>
      (\<forall>cap \<in> set (co_requires c). cap \<in> set All_caps \<and> st_available (detectOne H cfg cap))) (map ri_collector items) \<and>
    length regs + length dis = length items"
proof -
  have "Available m = map (\<lambda>c. (c, st_available (detectOne H cfg c))) All_caps"
    by (simp add: assms(1) Available_def Detect_host_def Let_def)
  then have av: "map_of (Available m) c = Some True \<longleftrightarrow> c \<in> set All_caps \<and> st_available (detectOne H cfg c)" for c
    by (simp add: map_of_map_restrict restrict_map_def)
  note p = resolve_partition [OF assms(2)]
  have r: "regs = map (\<lambda>it. \<lparr>rg_collector = ri_collector it, rg_interval = ri_interval it, rg_timeout = ri_timeout it\<rparr>)
      (filter (runnable (\<lambda>c. map_of (Available m) c = Some True)) items)" using p by blast
  have l: "length dis = length (filter (\<lambda>it. \<not> runnable (\<lambda>c. map_of (Available m) c = Some True) it) items)"
    using p by (metis length_map)
  have "map rg_collector regs = filter (\<lambda>c. co_init c = None \<and>
      (\<forall>cap \<in> set (co_requires c). cap \<in> set All_caps \<and> st_available (detectOne H cfg cap))) (map ri_collector items)"
    unfolding r by (simp add: comp_def filter_map runnable_def [abs_def] av list_all_iff conj_commute)
  moreover have "length regs + length dis = length items" unfolding l by (simp add: r sum_length_filter_compl)
  ultimately show ?thesis by blast
qed

lemma cap_Send_delivered:
  "cap_Send encode valid_url exchange c m = None \<longleftrightarrow>
     (\<exists>body status. encode m = Some body \<and> valid_url (cl_BaseURL c @ ''/v1/manifest'') \<and> 200 \<le> status \<and> status < 300 \<and>
        exchange \<lparr>mq_url = cl_BaseURL c @ ''/v1/manifest'',
          mq_headers = (''Content-Type'', ''application/json'') #
            (if cl_Token c \<noteq> [] then [(''Authorization'', ''Bearer '' @ cl_Token c)] else []), mq_body = body\<rparr> = Some status)"
  by (auto simp: cap_Send_def Let_def split: option.splits)

text \<open>A small virtual machine with Docker.\<close>

definition demo_host :: host_files where
  "demo_host =
     \<lparr>hf_stat = (\<lambda>p. p \<in> set [''/run/systemd/system'', ''/var/run/docker.sock'', ''/usr/sbin/smartctl'']),
      hf_read = (\<lambda>p. if p = ''/etc/os-release'' then Some (''ID='' @ [CHR 0x22] @ ''debian'' @ [CHR 0x22, nl]) else None),
      hf_dir = (\<lambda>_. None)\<rparr>"

definition demo_manifest :: manifest where
  "demo_manifest = Detect_host demo_host ''linux'' ''amd64'' rev DefaultDetectConfig ''h1'' ''vm'' ''1.0'' 1"

theorem manifest_complete_witness:
  "set (map dg_capability (mf_degraded demo_manifest)) = {HwPstore, HwHwmon}"
proof -
  have a: "set (map dg_capability (mf_degraded demo_manifest)) =
      {c \<in> {HwPstore, StorageSmart, HwHwmon}. \<not> st_available (detectOne demo_host DefaultDetectConfig c)}"
    using manifest_complete [of rev demo_host "''linux''" "''amd64''" DefaultDetectConfig "''h1''" "''vm''" "''1.0''" 1]
    by (simp only: mset_rev Let_def demo_manifest_def)
  have b: "st_available (detectOne demo_host DefaultDetectConfig StorageSmart)"
    "\<not> st_available (detectOne demo_host DefaultDetectConfig HwPstore)" "\<not> st_available (detectOne demo_host DefaultDetectConfig HwHwmon)"
    by code_simp+
  show ?thesis unfolding a using b by auto
qed

abbreviation demo_collector :: "string \<Rightarrow> capability \<Rightarrow> collectorSpec" where
  "demo_collector n cap \<equiv> \<lparr>co_name = n, co_requires = [cap], co_init = None\<rparr>"

definition demo_items :: "registryItem list" where
  "demo_items = map (\<lambda>c. \<lparr>ri_collector = c, ri_interval = minute, ri_timeout = second\<rparr>)
     [demo_collector ''docker'' ContainerDocker, demo_collector ''edac'' HwEdac]"

theorem collectors_follow_probes_witness:
  "\<exists>regs dis inits. Resolve (\<lambda>c. map_of (Available demo_manifest) c = Some True) demo_items = (regs, dis, inits) \<and>
     map rg_collector regs = [demo_collector ''docker'' ContainerDocker] \<and> length dis = 1"
proof -
  obtain regs dis inits where r: "Resolve (\<lambda>c. map_of (Available demo_manifest) c = Some True) demo_items = (regs, dis, inits)"
    using prod_cases3 by blast
  have d: "\<not> st_available (detectOne demo_host DefaultDetectConfig HwEdac)"
    "ContainerDocker \<in> set All_caps" "st_available (detectOne demo_host DefaultDetectConfig ContainerDocker)"
    by code_simp+
  have m: "map rg_collector regs = [demo_collector ''docker'' ContainerDocker] \<and> length regs + length dis = 2"
    using collectors_follow_probes [OF demo_manifest_def r] d by (simp add: demo_items_def)
  moreover have "length regs = 1" using m by (metis length_map One_nat_def list.size(3,4) add.right_neutral add_Suc_right)
  ultimately show ?thesis using r by auto
qed

end
