(* ===== verification/Collect_Storage.thy ===== *)
theory Collect_Storage
  imports Collect Spool Gotime "HOL-Library.Word"
begin

text \<open>
  The inventories of shares, their sizes, users and disks: \<open>internal/collector/shares\<close>, \<open>shareusage\<close>, \<open>users\<close> and
  \<open>diskarray\<close>.  Each reads configuration files and tables of the kernel and emits one inventory.
\<close>

subsection \<open>Shares (shares.go)\<close>

record sharesCollector =
  sc_sambaConf :: string
  sc_exportsFile :: string
  sc_hostID :: string

definition shares_Init :: "config \<Rightarrow> string option \<Rightarrow> sharesCollector \<Rightarrow> sharesCollector" where
  "shares_Init cfg host c =
     \<lparr>sc_sambaConf = configuredPath cfg ''samba_conf'' ''/etc/samba/smb.conf'',
      sc_exportsFile = configuredPath cfg ''exports_file'' ''/etc/exports'',
      sc_hostID = (case host of None \<Rightarrow> sc_hostID c | Some h \<Rightarrow> h)\<rparr>"

definition sambaMetaSections :: "string list" where
  "sambaMetaSections = [''global'', ''homes'', ''printers'', ''print$'']"

definition isYes :: "string \<Rightarrow> bool" where
  "isYes v \<longleftrightarrow> ToLower (trim_space v) \<in> set [''yes'', ''true'', ''1'']"

definition visibilityMode :: "string \<Rightarrow> string" where
  "visibilityMode v = (if isYes v then ''public'' else ''private'')"

definition isWritable :: "string \<Rightarrow> string \<Rightarrow> bool" where
  "isWritable key v = (if key = ''read only'' then \<not> isYes v else isYes v)"

record smb_state =
  sm_items :: "inventoryItem list"
  sm_section :: string
  sm_attrs :: labels

definition smb_flush :: "smb_state \<Rightarrow> smb_state" where
  "smb_flush s =
     (if sm_section s = [] \<or> ToLower (sm_section s) \<in> set sambaMetaSections then s
      else s\<lparr>sm_items := sm_items s @
        [\<lparr>ii_id = sm_section s, ii_name = sm_section s, ii_attrs = AList.update ''protocol'' ''smb'' (sm_attrs s)\<rparr>]\<rparr>)"

definition smb_key :: "string \<Rightarrow> string \<Rightarrow> labels \<Rightarrow> labels" where
  "smb_key key v attrs =
     (if key = ''path'' then AList.update ''path'' v attrs
      else if key \<in> set [''public'', ''guest ok''] then AList.update ''mode'' (visibilityMode v) attrs
      else if key \<in> set [''read only'', ''writeable'', ''writable''] then
        (if map_of attrs ''writable'' = None then AList.update ''writable'' (format_bool (isWritable key v)) attrs else attrs)
      else attrs)"

definition smb_line :: "string \<Rightarrow> smb_state \<Rightarrow> smb_state" where
  "smb_line raw s =
     (let line = trim_space raw in
      if line = [] \<or> has_prefix line ''#'' \<or> has_prefix line '';'' then s
      else if has_prefix line ''['' \<and> has_suffix line '']''
      then (smb_flush s)\<lparr>sm_section := trim_space (butlast (tl line)), sm_attrs := []\<rparr>
      else
        (case cut_first (CHR ''='') line of
           None \<Rightarrow> s
         | Some (k, v) \<Rightarrow> s\<lparr>sm_attrs := smb_key (ToLower (trim_space k)) (trim_space v) (sm_attrs s)\<rparr>))"

definition parseSambaConf :: "host_files \<Rightarrow> string \<Rightarrow> inventoryItem list option" where
  "parseSambaConf H path =
     (case hf_read H path of
        None \<Rightarrow> None
      | Some s \<Rightarrow>
          if scan_err s then None
          else Some (sm_items (smb_flush (fold smb_line (scan_lines s) \<lparr>sm_items = [], sm_section = [], sm_attrs = []\<rparr>))))"

definition export_client :: "string \<Rightarrow> string \<times> bool \<Rightarrow> string \<times> bool" where
  "export_client spec mw =
     (let parts = (case cut_first (CHR ''('') spec of None \<Rightarrow> (spec, []) | Some p \<Rightarrow> p) in
      (if fst parts = ''*'' then ''public'' else fst mw, snd mw \<or> contains (snd parts) ''rw''))"

definition export_line :: "string \<Rightarrow> inventoryItem list" where
  "export_line raw =
     (let line = trim_space raw; fs = Fields line in
      if line = [] \<or> has_prefix line ''#'' \<or> length fs < 2 then []
      else
        (case fold export_client (tl fs) (''private'', False) of
           (mode, writable) \<Rightarrow>
             [\<lparr>ii_id = hd fs, ii_name = Base (hd fs),
               ii_attrs = [(''path'', hd fs), (''protocol'', ''nfs''), (''mode'', mode), (''writable'', format_bool writable)]\<rparr>]))"

definition parseExports :: "host_files \<Rightarrow> string \<Rightarrow> inventoryItem list option" where
  "parseExports H path =
     (case hf_read H path of
        None \<Rightarrow> None
      | Some s \<Rightarrow> if scan_err s then None else Some (concat (map export_line (scan_lines s))))"

definition list_of :: "'a list option \<Rightarrow> 'a list" where
  "list_of x = (case x of None \<Rightarrow> [] | Some xs \<Rightarrow> xs)"

definition share_items :: "host_files \<Rightarrow> string \<Rightarrow> string \<Rightarrow> inventoryItem list" where
  "share_items H sambaConf exportsFile = list_of (parseSambaConf H sambaConf) @ list_of (parseExports H exportsFile)"

definition shares_Collect :: "host_files \<Rightarrow> bool \<Rightarrow> time \<Rightarrow> sharesCollector \<Rightarrow> bool \<times> emission list" where
  "shares_Collect H ctxDone now c =
     (if ctxDone then (False, [])
      else (True, [EInventory \<lparr>in_hostID = sc_hostID c, in_kind = ''share'', in_reportedAt = now, in_schema = CurrentSchemaVersion,
              in_items = share_items H (sc_sambaConf c) (sc_exportsFile c)\<rparr>]))"

definition Paths :: "host_files \<Rightarrow> string \<Rightarrow> string \<Rightarrow> (string \<times> string) list" where
  "Paths H sambaConf exportsFile =
     fold (\<lambda>i paths. case map_of (ii_attrs i) ''path'' of None \<Rightarrow> paths | Some p \<Rightarrow> AList.update (ii_id i) p paths)
       (share_items H sambaConf exportsFile) []"

subsection \<open>Sizes of shares (shareusage.go)\<close>

text \<open>
  What \<open>filepath.WalkDir\<close> finds: an entry that is no directory, with its size unless it cannot be examined; or a directory,
  with whether listing it failed and the entries listed.
\<close>

datatype node = Entry "nat option" | Directory bool "node list"

text \<open>
  The calls of the walk function in order: \<open>Some n\<close> adds a size, \<open>None\<close> adds nothing.  A directory is visited before it is
  listed, and once more when listing it fails.
\<close>

fun walk_calls :: "node \<Rightarrow> nat option list" where
  "walk_calls (Entry sz) = [sz]"
| "walk_calls (Directory failed ns) = None # (if failed then [None] else []) @ concat (map walk_calls ns)"

text \<open>The walk function over its calls: \<open>ctxDone n\<close> says that the context is done at call \<open>n\<close>; sizes add up modulo \<open>2^64\<close>.\<close>

fun walk_sum :: "(nat \<Rightarrow> bool) \<Rightarrow> nat \<Rightarrow> nat \<Rightarrow> nat option list \<Rightarrow> nat option" where
  "walk_sum ctxDone checked acc [] = Some acc"
| "walk_sum ctxDone checked acc (c # cs) =
     (let checked' = Suc checked in
      if checked' mod 100 = 0 \<and> ctxDone checked' then None
      else walk_sum ctxDone checked' (case c of None \<Rightarrow> acc | Some sz \<Rightarrow> (acc + sz) mod 2 ^ 64) cs)"

definition dirSize :: "(nat \<Rightarrow> bool) \<Rightarrow> node option \<Rightarrow> nat option" where
  "dirSize ctxDone tree = (case tree of None \<Rightarrow> None | Some t \<Rightarrow> walk_sum ctxDone 0 0 (walk_calls t))"

text \<open>\<open>tree p\<close> is what is at a path, \<open>order\<close> the order in which the map of paths is walked.\<close>

definition shareusage_Collect ::
  "host_files \<Rightarrow> (string \<Rightarrow> node option) \<Rightarrow> (string \<Rightarrow> nat \<Rightarrow> bool) \<Rightarrow> ((string \<times> string) list \<Rightarrow> (string \<times> string) list) \<Rightarrow>
   bool \<Rightarrow> time \<Rightarrow> sharesCollector \<Rightarrow> bool \<times> emission list" where
  "shareusage_Collect H tree done order ctxDone now c =
     (if ctxDone then (False, [])
      else
        let items = concat (map (\<lambda>(i, p).
              case dirSize (done i) (tree p) of
                None \<Rightarrow> []
              | Some n \<Rightarrow> [\<lparr>ii_id = i, ii_name = i, ii_attrs = [(''used_bytes'', itoa n), (''calculated_at'', FormatRFC3339 now)]\<rparr>])
              (order (Paths H (sc_sambaConf c) (sc_exportsFile c)))) in
        (True, [EInventory \<lparr>in_hostID = sc_hostID c, in_kind = ''share_usage'', in_reportedAt = now, in_schema = CurrentSchemaVersion,
           in_items = items\<rparr>]))"

subsection \<open>Users (users.go)\<close>

record usersCollector =
  uc_passwdFile :: string
  uc_loginDefs :: string
  uc_sambaConf :: string
  uc_hostID :: string

definition users_Init :: "config \<Rightarrow> string option \<Rightarrow> usersCollector \<Rightarrow> usersCollector" where
  "users_Init cfg host c =
     \<lparr>uc_passwdFile = configuredPath cfg ''passwd_file'' ''/etc/passwd'', uc_loginDefs = configuredPath cfg ''login_defs'' ''/etc/login.defs'',
      uc_sambaConf = configuredPath cfg ''samba_conf'' ''/etc/samba/smb.conf'', uc_hostID = (case host of None \<Rightarrow> uc_hostID c | Some h \<Rightarrow> h)\<rparr>"

record account =
  ac_name :: string
  ac_uid :: int

definition passwd_line :: "int \<Rightarrow> string \<Rightarrow> account option" where
  "passwd_line minUID line =
     (let fs = split_on (CHR '':'') line in
      if line = [] \<or> has_prefix line ''#'' \<or> length fs < 3 then None
      else
        (case Atoi (fs ! 2) of
           None \<Rightarrow> None
         | Some uid \<Rightarrow> if uid < minUID \<or> uid = 65534 then None else Some \<lparr>ac_name = fs ! 0, ac_uid = uid\<rparr>))"

definition parsePasswd :: "host_files \<Rightarrow> string \<Rightarrow> int \<Rightarrow> account list option" where
  "parsePasswd H path minUID =
     (case hf_read H path of
        None \<Rightarrow> None
      | Some s \<Rightarrow> if scan_err s then None else Some (sort_key ac_name (List.map_filter (passwd_line minUID) (scan_lines s))))"

fun uid_min_lines :: "string list \<Rightarrow> int" where
  "uid_min_lines [] = 1000"
| "uid_min_lines (raw # ls) =
     (let line = trim_space raw; fs = Fields line in
      if \<not> has_prefix line ''UID_MIN'' \<or> length fs \<noteq> 2 then uid_min_lines ls
      else (case Atoi (fs ! 1) of None \<Rightarrow> uid_min_lines ls | Some n \<Rightarrow> n))"

definition uidMin :: "host_files \<Rightarrow> string \<Rightarrow> int" where
  "uidMin H path = (case hf_read H path of None \<Rightarrow> 1000 | Some s \<Rightarrow> uid_min_lines (scan_lines s))"

record sharePerms =
  sp_read :: "string list"
  sp_write :: "string list"

type_synonym perms = "(string \<times> sharePerms) list"

definition perms_of :: "perms \<Rightarrow> string \<Rightarrow> sharePerms" where
  "perms_of ps u = (case map_of ps u of None \<Rightarrow> \<lparr>sp_read = [], sp_write = []\<rparr> | Some p \<Rightarrow> p)"

definition addRead :: "sharePerms \<Rightarrow> string \<Rightarrow> sharePerms" where
  "addRead p share = p\<lparr>sp_read := sp_read p @ [share]\<rparr>"

definition addWrite :: "sharePerms \<Rightarrow> string \<Rightarrow> sharePerms" where
  "addWrite p share = p\<lparr>sp_write := sp_write p @ [share]\<rparr>"

definition perm_line :: "string \<Rightarrow> string \<times> perms \<Rightarrow> string \<times> perms" where
  "perm_line raw st =
     (case st of (section, ps) \<Rightarrow>
       let line = trim_space raw in
       if line = [] \<or> has_prefix line ''#'' \<or> has_prefix line '';'' then st
       else if has_prefix line ''['' \<and> has_suffix line '']'' then (trim_space (butlast (tl line)), ps)
       else if section = [] \<or> section = ''global'' then st
       else
         (case cut_first (CHR ''='') line of
            None \<Rightarrow> st
          | Some (k, v) \<Rightarrow>
              let key = ToLower (trim_space k); us = Fields (trim_space v) in
              (section,
               if key = ''valid users'' then fold (\<lambda>u ps. AList.update u (addRead (perms_of ps u) section) ps) us ps
               else if key = ''write list'' then fold (\<lambda>u ps. AList.update u (addWrite (perms_of ps u) section) ps) us ps
               else ps)))"

text \<open>The caller ignores the error, so a line that is too long cuts the result short.\<close>

definition parseSambaPermissions :: "host_files \<Rightarrow> string \<Rightarrow> perms" where
  "parseSambaPermissions H path = (case hf_read H path of None \<Rightarrow> [] | Some s \<Rightarrow> snd (fold perm_line (scan_lines s) ([], [])))"

definition user_item :: "perms \<Rightarrow> account \<Rightarrow> inventoryItem" where
  "user_item ps a =
     (let p = perms_of ps (ac_name a) in
      \<lparr>ii_id = ac_name a, ii_name = ac_name a,
       ii_attrs = [(''uid'', itoa_int (ac_uid a))] @
         (if sp_write p \<noteq> [] then [(''shares_rw'', join_with '','' (sp_write p))] else []) @
         (if sp_read p \<noteq> [] then [(''shares_ro'', join_with '','' (sp_read p))] else [])\<rparr>)"

definition users_Collect :: "host_files \<Rightarrow> bool \<Rightarrow> time \<Rightarrow> usersCollector \<Rightarrow> bool \<times> emission list" where
  "users_Collect H ctxDone now c =
     (if ctxDone then (False, [])
      else
        let accounts = list_of (parsePasswd H (uc_passwdFile c) (uidMin H (uc_loginDefs c)));
            ps = parseSambaPermissions H (uc_sambaConf c) in
        (True, [EInventory \<lparr>in_hostID = uc_hostID c, in_kind = ''user'', in_reportedAt = now, in_schema = CurrentSchemaVersion,
           in_items = map (user_item ps) accounts\<rparr>]))"

subsection \<open>Disks (diskarray.go)\<close>

record diskCollector =
  di_mountsFile :: string
  di_spoolDir :: string
  di_hostID :: string

definition disk_Init :: "config \<Rightarrow> string option \<Rightarrow> diskCollector \<Rightarrow> diskCollector" where
  "disk_Init cfg host c =
     \<lparr>di_mountsFile = configuredPath cfg ''mounts_file'' ''/proc/mounts'', di_spoolDir = configuredPath cfg ''spool_dir'' ''/var/lib/bitacora/spool'',
      di_hostID = (case host of None \<Rightarrow> di_hostID c | Some h \<Rightarrow> h)\<rparr>"

definition pseudoFSTypes :: "string list" where
  "pseudoFSTypes =
     [''proc'', ''sysfs'', ''devtmpfs'', ''tmpfs'', ''cgroup'', ''cgroup2'', ''overlay'', ''squashfs'', ''devpts'', ''mqueue'', ''debugfs'',
      ''tracefs'', ''securityfs'', ''pstore'', ''bpf'', ''autofs'', ''binfmt_misc'', ''hugetlbfs'', ''configfs'', ''fusectl'', ''nsfs'',
      ''efivarfs'', ''rpc_pipefs'']"

record mountEntry =
  mt_device :: string
  mt_mountpoint :: string
  mt_fsType :: string

definition backslash :: char where
  "backslash = CHR 0x5c"

definition mount_escapes :: "(string \<times> char) list" where
  "mount_escapes = [(''040'', CHR '' ''), (''011'', CHR 0x09), (''012'', nl), (''134'', backslash)]"

text \<open>The replacer goes through the text once; what it has put in is not looked at again.\<close>

fun unescapeMountField :: "string \<Rightarrow> string" where
  "unescapeMountField (c # x # y # z # s) =
     (case (if c = backslash then map_of mount_escapes [x, y, z] else None) of
        Some r \<Rightarrow> r # unescapeMountField s
      | None \<Rightarrow> c # unescapeMountField (x # y # z # s))"
| "unescapeMountField s = s"

definition mount_line :: "string \<Rightarrow> mountEntry option" where
  "mount_line line =
     (let fs = Fields line in
      if length fs < 3 \<or> fs ! 2 \<in> set pseudoFSTypes \<or> \<not> has_prefix (fs ! 0) ''/dev/'' then None
      else Some \<lparr>mt_device = fs ! 0, mt_mountpoint = unescapeMountField (fs ! 1), mt_fsType = fs ! 2\<rparr>)"

definition readRealMounts :: "host_files \<Rightarrow> string \<Rightarrow> mountEntry list option" where
  "readRealMounts H path =
     (case hf_read H path of
        None \<Rightarrow> None
      | Some s \<Rightarrow> if scan_err s then None else Some (List.map_filter mount_line (scan_lines s)))"

record statfs =
  sf_Bsize :: "64 word"
  sf_Blocks :: "64 word"
  sf_Bfree :: "64 word"
  sf_Bavail :: "64 word"

record diskUsage =
  du_total :: "64 word"
  du_used :: "64 word"
  du_available :: "64 word"

definition statfsUsage :: "statfs option \<Rightarrow> diskUsage option" where
  "statfsUsage st =
     (case st of
        None \<Rightarrow> None
      | Some x \<Rightarrow>
          let tot = sf_Blocks x * sf_Bsize x; free = sf_Bfree x * sf_Bsize x; avl = sf_Bavail x * sf_Bsize x in
          if tot < free then None else Some \<lparr>du_total = tot, du_used = tot - free, du_available = avl\<rparr>)"

definition baseDeviceName :: "string \<Rightarrow> string" where
  "baseDeviceName devicePath =
     (let name = trim_prefix devicePath ''/dev/'' in
      if has_prefix name ''nvme'' then
        (case cut_last (CHR ''p'') name of
           Some (base, part) \<Rightarrow> if base \<noteq> [] \<and> Atoi part \<noteq> None then base else name
         | None \<Rightarrow> name)
      else if has_prefix name ''sd'' then
        (let base = rev (dropWhile is_digit (rev name)) in if 2 < length base then base else name)
      else name)"

record smartIdentity =
  si_model :: string
  si_serial :: string

text \<open>\<open>devices\<close> decodes the data of the entry, \<open>ident\<close> the report of one device.\<close>

definition readSMARTIdentities ::
  "(string \<Rightarrow> (string \<times> string) list option) \<Rightarrow> (string \<Rightarrow> smartIdentity option) \<Rightarrow> (spool_error + (string \<times> spoolEntry) list) \<Rightarrow>
   (string \<times> smartIdentity) list" where
  "readSMARTIdentities devices ident entries =
     (case entries of
        Inl _ \<Rightarrow> []
      | Inr es \<Rightarrow>
          (case map_of es ''smart'' of
             None \<Rightarrow> []
           | Some e \<Rightarrow>
               (case devices (se_data e) of
                  None \<Rightarrow> []
                | Some ds \<Rightarrow> List.map_filter (\<lambda>(d, raw). map_option (Pair d) (ident raw)) ds)))"

definition disk_item :: "(string \<Rightarrow> statfs option) \<Rightarrow> (string \<times> smartIdentity) list \<Rightarrow> mountEntry \<Rightarrow> inventoryItem" where
  "disk_item stat smart m =
     \<lparr>ii_id = mt_mountpoint m, ii_name = mt_mountpoint m,
      ii_attrs = [(''device'', mt_device m), (''fstype'', mt_fsType m)] @
        (case statfsUsage (stat (mt_mountpoint m)) of
           None \<Rightarrow> []
         | Some u \<Rightarrow> [(''capacity_bytes'', itoa (unat (du_total u))), (''used_bytes'', itoa (unat (du_used u))),
                      (''available_bytes'', itoa (unat (du_available u)))]) @
        (case map_of smart (baseDeviceName (mt_device m)) of
           None \<Rightarrow> []
         | Some i \<Rightarrow> (if si_model i \<noteq> [] then [(''model'', si_model i)] else []) @
                     (if si_serial i \<noteq> [] then [(''serial'', si_serial i)] else []))\<rparr>"

record disk_env =
  dk_spool :: spoolCodec
  dk_devices :: "string \<Rightarrow> (string \<times> string) list option"
  dk_ident :: "string \<Rightarrow> smartIdentity option"
  dk_statfs :: "string \<Rightarrow> statfs option"

definition disk_Collect :: "disk_env \<Rightarrow> host_files \<Rightarrow> disk \<Rightarrow> bool \<Rightarrow> time \<Rightarrow> diskCollector \<Rightarrow> bool \<times> emission list" where
  "disk_Collect E H d ctxDone now c =
     (if ctxDone then (False, [])
      else
        let mounts = list_of (readRealMounts H (di_mountsFile c));
            smart = readSMARTIdentities (dk_devices E) (dk_ident E) (fst (spool_ReadDir (dk_spool E) (di_spoolDir c) d)) in
        (True, [EInventory \<lparr>in_hostID = di_hostID c, in_kind = ''disk'', in_reportedAt = now, in_schema = CurrentSchemaVersion,
           in_items = map (disk_item (dk_statfs E) smart) mounts\<rparr>]))"

section \<open>Sizes\<close>

fun total_size :: "node \<Rightarrow> nat" where
  "total_size (Entry sz) = (case sz of None \<Rightarrow> 0 | Some n \<Rightarrow> n)"
| "total_size (Directory failed ns) = sum_list (map total_size ns)"

definition call_size :: "nat option \<Rightarrow> nat" where
  "call_size c = (case c of None \<Rightarrow> 0 | Some n \<Rightarrow> n)"

lemma walk_calls_size: "sum_list (map call_size (walk_calls t)) = total_size t"
proof (induction t)
  case (Directory failed ns)
  have "sum_list (map call_size (concat (map walk_calls ns))) = sum_list (map (\<lambda>t. sum_list (map call_size (walk_calls t))) ns)"
    by (induction ns) simp_all
  also have "\<dots> = sum_list (map total_size ns)" using Directory by (simp cong: map_cong)
  finally have "sum_list (map call_size (concat (map walk_calls ns))) = sum_list (map total_size ns)" .
  moreover have "call_size None = 0" by (simp add: call_size_def)
  ultimately show ?case by simp
qed (simp add: call_size_def split: option.splits)

definition stops_at :: "(nat \<Rightarrow> bool) \<Rightarrow> nat \<Rightarrow> nat \<Rightarrow> bool" where
  "stops_at ctxDone a b \<longleftrightarrow> (\<exists>n. a < n \<and> n \<le> b \<and> n mod 100 = 0 \<and> ctxDone n)"

lemma next_step: "Suc a \<le> b \<Longrightarrow> (\<exists>n. a < n \<and> n \<le> b \<and> P n) \<longleftrightarrow> P (Suc a) \<or> (\<exists>n. Suc a < n \<and> n \<le> b \<and> P n)"
  by (metis Suc_lessI Suc_lessD lessI)

lemma walk_sum_eq:
  assumes "acc < 2 ^ 64"
  shows "walk_sum ctxDone checked acc cs =
    (if stops_at ctxDone checked (checked + length cs) then None else Some ((acc + sum_list (map call_size cs)) mod 2 ^ 64))"
  using assms
proof (induction cs arbitrary: checked acc)
  case (Cons c cs)
  let ?acc = "case c of None \<Rightarrow> acc | Some sz \<Rightarrow> (acc + sz) mod 2 ^ 64"
  have a: "?acc < 2 ^ 64" "(?acc + n) mod 2 ^ 64 = (acc + call_size c + n) mod 2 ^ 64" for n
    using Cons.prems by (auto simp: call_size_def mod_simps split: option.splits)
  have s: "stops_at ctxDone checked (checked + length (c # cs)) \<longleftrightarrow>
      Suc checked mod 100 = 0 \<and> ctxDone (Suc checked) \<or> stops_at ctxDone (Suc checked) (Suc checked + length cs)"
    unfolding stops_at_def using next_step [of checked "checked + length (c # cs)" "\<lambda>n. n mod 100 = 0 \<and> ctxDone n"] by simp
  have "walk_sum ctxDone checked acc (c # cs) =
      (if Suc checked mod 100 = 0 \<and> ctxDone (Suc checked) then None else walk_sum ctxDone (Suc checked) ?acc cs)"
    by (simp add: Let_def)
  also have "walk_sum ctxDone (Suc checked) ?acc cs =
      (if stops_at ctxDone (Suc checked) (Suc checked + length cs) then None
       else Some ((acc + call_size c + sum_list (map call_size cs)) mod 2 ^ 64))"
    unfolding Cons.IH [OF a(1)] a(2) ..
  finally show ?case unfolding s by (simp add: add.assoc)
qed (simp add: stops_at_def)


section \<open>Mounts\<close>

lemma unescape_plain: "c \<noteq> backslash \<Longrightarrow> unescapeMountField (c # s) = c # unescapeMountField s"
  by (cases s; cases "tl s"; cases "tl (tl s)") auto

text \<open>What the kernel writes for a mount point: blanks, tabs, newlines and backslashes in octal.\<close>

definition escape_char :: "char \<Rightarrow> string" where
  "escape_char c =
     (if c = CHR '' '' then backslash # ''040'' else if c = CHR 0x09 then backslash # ''011''
      else if c = nl then backslash # ''012'' else if c = backslash then backslash # ''134'' else [c])"

definition escapeMountField :: "string \<Rightarrow> string" where
  "escapeMountField s = concat (map escape_char s)"

lemma unescape_escape: "unescapeMountField (escapeMountField s) = s"
proof (induction s)
  case (Cons c s)
  have "unescapeMountField (escape_char c @ r) = c # unescapeMountField r" for r
    by (auto simp: escape_char_def mount_escapes_def unescape_plain nl_def backslash_def)
  with Cons show ?case by (simp add: escapeMountField_def)
qed (simp add: escapeMountField_def)

lemma escape_no_space:
  assumes "\<forall>c\<in>set s. c \<notin> {CHR 0x0b, CHR 0x0c, CHR 0x0d}" "x \<in> set (escapeMountField s)"
  shows "\<not> is_space x"
proof -
  obtain c where c: "c \<in> set s" "x \<in> set (escape_char c)" using assms(2) by (auto simp: escapeMountField_def)
  show ?thesis
  proof (cases "c \<in> {CHR '' '', CHR 0x09, nl, backslash}")
    case True
    with c(2) show ?thesis by (auto simp: escape_char_def backslash_def nl_def is_space_def)
  next
    case False
    with c assms(1) show ?thesis by (auto simp: escape_char_def is_space_def nl_def)
  qed
qed

text \<open>
  A mount point survives the table of mounts: for every device under \<open>/dev/\<close> and every real file system type, the line the
  kernel writes, with its blanks, tabs, newlines and backslashes in octal, is read back as exactly that device, mount
  point and type, whatever follows on the line; a line of a pseudo file system or of another device is dropped.
\<close>

theorem mount_line_roundtrip:
  assumes "mp \<noteq> []" "\<forall>c\<in>set mp. c \<notin> {CHR 0x0b, CHR 0x0c, CHR 0x0d}"
    and "device \<noteq> []" "list_all (\<lambda>c. \<not> is_space c) device" "fstype \<noteq> []" "list_all (\<lambda>c. \<not> is_space c) fstype"
  shows "mount_line (device @ '' '' @ escapeMountField mp @ '' '' @ fstype @ '' '' @ rest) =
    (if has_prefix device ''/dev/'' \<and> fstype \<notin> set pseudoFSTypes
     then Some \<lparr>mt_device = device, mt_mountpoint = mp, mt_fsType = fstype\<rparr> else None)"
proof -
  obtain c s where mp: "mp = c # s" using assms(1) by (cases mp) auto
  have e: "escapeMountField mp \<noteq> []" by (auto simp: mp escapeMountField_def escape_char_def split: if_splits)
  have "list_all (\<lambda>c. \<not> is_space c) (escapeMountField mp)" using escape_no_space [OF assms(2)] by (simp add: list_all_iff)
  with e assms have "Fields (device @ '' '' @ escapeMountField mp @ '' '' @ fstype @ '' '' @ rest) =
      device # escapeMountField mp # fstype # Fields rest" by (simp add: Fields_cons)
  then show ?thesis by (simp add: mount_line_def Let_def unescape_escape)
qed

lemma digits_tail:
  assumes "list_all is_digit ds" "b = [] \<or> \<not> is_digit (last b)"
  shows "rev (dropWhile is_digit (rev (b @ ds))) = b"
proof -
  have "dropWhile is_digit (rev ds @ rev b) = dropWhile is_digit (rev b)"
    using assms(1) by (intro dropWhile_append2) (simp add: list_all_iff)
  moreover have "dropWhile is_digit (rev b) = rev b" using assms(2) by (cases b rule: rev_cases) auto
  ultimately show ?thesis by simp
qed

lemma nvme_base:
  "has_prefix name ''nvme'' \<Longrightarrow> cut_last (CHR ''p'') name = None \<Longrightarrow> baseDeviceName (''/dev/'' @ name) = name"
  "has_prefix name ''nvme'' \<Longrightarrow> cut_last (CHR ''p'') name = Some (b, part) \<Longrightarrow> b \<noteq> [] \<Longrightarrow> Atoi part \<noteq> None \<Longrightarrow>
     baseDeviceName (''/dev/'' @ name) = b"
  unfolding baseDeviceName_def trim_prefix_append Let_def by (simp_all del: cut_last_None_iff)

lemma itoa_no_p: "CHR ''p'' \<notin> set (itoa n)"
  using itoa_digits [of n] by (auto simp: list_all_iff is_digit_def)

text \<open>
  The serial number goes to the right disk: for SCSI names \<open>sd\<close> with letters the number of the partition is cut off, for NVMe
  names the \<open>p\<close> with the number of the partition is, whole disks keep their names, and so do all other names such
  as those of arrays and of the device mapper.
\<close>

theorem base_device_names:
  "(letters \<noteq> [] \<and> list_all (\<lambda>c. \<not> is_digit c) letters \<and> list_all is_digit part \<longrightarrow>
      baseDeviceName (''/dev/sd'' @ letters @ part) = ''sd'' @ letters) \<and>
   baseDeviceName (''/dev/nvme'' @ itoa c @ ''n'' @ itoa n) = ''nvme'' @ itoa c @ ''n'' @ itoa n \<and>
   (k < 2 ^ 63 \<longrightarrow> baseDeviceName (''/dev/nvme'' @ itoa c @ ''n'' @ itoa n @ ''p'' @ itoa k) = ''nvme'' @ itoa c @ ''n'' @ itoa n) \<and>
   (\<not> has_prefix name ''sd'' \<and> \<not> has_prefix name ''nvme'' \<longrightarrow> baseDeviceName (''/dev/'' @ name) = name)"
proof (intro conjI impI)
  assume a: "letters \<noteq> [] \<and> list_all (\<lambda>c. \<not> is_digit c) letters \<and> list_all is_digit part"
  then have "\<not> is_digit (last (''sd'' @ letters))" by (simp add: list_all_iff)
  then have "rev (dropWhile is_digit (rev ((''sd'' @ letters) @ part))) = ''sd'' @ letters" using a by (intro digits_tail) auto
  moreover have "trim_prefix (''/dev/sd'' @ letters @ part) ''/dev/'' = ''sd'' @ letters @ part" by (simp add: trim_prefix_def has_prefix_def)
  ultimately show "baseDeviceName (''/dev/sd'' @ letters @ part) = ''sd'' @ letters"
    using a by (cases letters) (simp_all add: baseDeviceName_def Let_def has_prefix_def)
next
  have "cut_last (CHR ''p'') (''nvme'' @ itoa c @ ''n'' @ itoa n) = None" unfolding cut_last_None_iff by (simp add: itoa_no_p)
  then show "baseDeviceName (''/dev/nvme'' @ itoa c @ ''n'' @ itoa n) = ''nvme'' @ itoa c @ ''n'' @ itoa n"
    using nvme_base(1) [of "''nvme'' @ itoa c @ ''n'' @ itoa n"] by (simp add: has_prefix_def del: cut_last.simps cut_last_None_iff)
next
  assume k: "k < 2 ^ 63"
  let ?b = "''nvme'' @ itoa c @ ''n'' @ itoa n"
  have "cut_last (CHR ''p'') (?b @ CHR ''p'' # itoa k) = Some (?b, itoa k)" by (rule cut_last_sep) (rule itoa_no_p)
  moreover have "Atoi (itoa k) \<noteq> None" using Atoi_itoa_int [of "int k"] k by (simp add: itoa_int_def)
  ultimately show "baseDeviceName (''/dev/nvme'' @ itoa c @ ''n'' @ itoa n @ ''p'' @ itoa k) = ?b"
    using nvme_base(2) [of "?b @ CHR ''p'' # itoa k" ?b "itoa k"] by (simp add: has_prefix_def del: cut_last.simps cut_last_sep)
next
  assume "\<not> has_prefix name ''sd'' \<and> \<not> has_prefix name ''nvme''"
  then show "baseDeviceName (''/dev/'' @ name) = name" unfolding baseDeviceName_def trim_prefix_append Let_def by simp
qed

section \<open>Inventories reach the store\<close>

lemma unescape_nonempty: "s \<noteq> [] \<Longrightarrow> unescapeMountField s \<noteq> []"
  by (cases s rule: unescapeMountField.cases) (auto split: option.splits)

lemma mount_line_id: "mount_line line = Some m \<Longrightarrow> mt_mountpoint m \<noteq> []"
  using Fields_nonempty [of "Fields line ! 1" line] unescape_nonempty [of "Fields line ! 1"]
  by (auto simp: mount_line_def Let_def split: if_splits)

lemma smb_line_ids:
  "\<forall>x\<in>set (sm_items s). ii_id x \<noteq> [] \<Longrightarrow> \<forall>x\<in>set (sm_items (smb_flush s)). ii_id x \<noteq> []"
  "\<forall>x\<in>set (sm_items s). ii_id x \<noteq> [] \<Longrightarrow> \<forall>x\<in>set (sm_items (smb_line raw s)). ii_id x \<noteq> []"
  by (auto simp: smb_flush_def smb_line_def Let_def split: option.splits)

lemma smb_fold_ids:
  "\<forall>x\<in>set (sm_items s). ii_id x \<noteq> [] \<Longrightarrow> \<forall>x\<in>set (sm_items (fold smb_line ls s)). ii_id x \<noteq> []"
proof (induction ls arbitrary: s)
  case (Cons l ls)
  from Cons.IH [OF smb_line_ids(2) [OF Cons.prems]] show ?case by simp
qed simp

lemma share_items_ids: "x \<in> set (share_items H sc ef) \<Longrightarrow> ii_id x \<noteq> []"
proof -
  have a: "y \<in> set (list_of (parseSambaConf H p)) \<Longrightarrow> ii_id y \<noteq> []" for y p
    using smb_line_ids(1) [OF smb_fold_ids [of "\<lparr>sm_items = [], sm_section = [], sm_attrs = []\<rparr>"]]
    by (auto simp: list_of_def parseSambaConf_def split: option.splits if_splits)
  have "y \<in> set (export_line l) \<Longrightarrow> ii_id y \<noteq> []" for y l
    using Fields_nonempty [of "hd (Fields (trim_space l))" "trim_space l"]
    by (cases "Fields (trim_space l)") (auto simp: export_line_def Let_def split: if_splits prod.splits)
  then have "y \<in> set (list_of (parseExports H p)) \<Longrightarrow> ii_id y \<noteq> []" for y p
    by (auto simp: list_of_def parseExports_def split: option.splits if_splits)
  with a show "x \<in> set (share_items H sc ef) \<Longrightarrow> ii_id x \<noteq> []" by (auto simp: share_items_def)
qed

lemma Paths_ids: "(i, p) \<in> set (Paths H sc ef) \<Longrightarrow> i \<noteq> []"
proof -
  let ?f = "\<lambda>i paths. case map_of (ii_attrs i) ''path'' of None \<Rightarrow> paths | Some p \<Rightarrow> AList.update (ii_id i) p paths"
  have "fst ` set (fold ?f xs acc) \<subseteq> fst ` set acc \<union> ii_id ` set xs" for xs acc
  proof (induction xs arbitrary: acc)
    case (Cons x xs)
    have "fst ` set (?f x acc) \<subseteq> insert (ii_id x) (fst ` set acc)"
      by (simp add: dom_update split: option.splits) blast
    with Cons [of "?f x acc"] show ?case by auto
  qed simp
  from this [of "share_items H sc ef" "[]"] show "(i, p) \<in> set (Paths H sc ef) \<Longrightarrow> i \<noteq> []"
    using share_items_ids unfolding Paths_def by force
qed

text \<open>
  Every inventory of shares, share sizes and disks passes the validation of the hub's store, whatever the configuration
  files and the table of mounts hold.
\<close>

theorem storage_inventories_accepted:
  assumes "h \<noteq> []" "\<not> is_zero_time t" "\<And>xs. set (order xs) \<subseteq> set xs"
  shows "list_all (hub_accepts h t) (snd (shares_Collect H ctxDone t c) @ snd (shareusage_Collect H tree done order ctxDone t c) @
    snd (disk_Collect E H d ctxDone t k))"
proof -
  have "list_all (hub_accepts h t) (snd (shares_Collect H ctxDone t c))"
    using share_items_ids by (auto simp: shares_Collect_def intro!: hub_accepts_inventory [OF assms(1,2)])
  moreover have "list_all (hub_accepts h t) (snd (shareusage_Collect H tree done order ctxDone t c))"
    using Paths_ids assms(3)
    by (auto simp: shareusage_Collect_def Let_def intro!: hub_accepts_inventory [OF assms(1,2)] split: option.splits) fastforce
  moreover have "list_all (hub_accepts h t) (snd (disk_Collect E H d ctxDone t k))"
    using mount_line_id
    by (auto simp: disk_Collect_def Let_def disk_item_def list_of_def readRealMounts_def map_filter_def
        intro!: hub_accepts_inventory [OF assms(1,2)] split: option.splits if_splits)
  ultimately show ?thesis by simp
qed

section \<open>Users\<close>

text \<open>
  A declarative reading of the permissions: the directives of the file, each with the section it stands in, and the
  shares a user gets from all directives with a given key.
\<close>

fun directives :: "string \<Rightarrow> string list \<Rightarrow> (string \<times> string \<times> string list) list" where
  "directives section [] = []"
| "directives section (raw # ls) =
     (let line = trim_space raw in
      if line = [] \<or> has_prefix line ''#'' \<or> has_prefix line '';'' then directives section ls
      else if has_prefix line ''['' \<and> has_suffix line '']'' then directives (trim_space (butlast (tl line))) ls
      else
        (case cut_first (CHR ''='') line of
           None \<Rightarrow> directives section ls
         | Some (k, v) \<Rightarrow>
             (if section = [] \<or> section = ''global'' then [] else [(section, ToLower (trim_space k), Fields (trim_space v))]) @
             directives section ls))"

definition granted :: "string \<Rightarrow> string \<Rightarrow> (string \<times> string \<times> string list) list \<Rightarrow> string list" where
  "granted key u ds = concat (map (\<lambda>(section, k, us). if k = key then replicate (count_list us u) section else []) ds)"

lemma perms_of_update: "perms_of (AList.update u p ps) v = (if v = u then p else perms_of ps v)"
  by (simp add: perms_of_def update_conv')

lemma fold_perms:
  "perms_of (fold (\<lambda>u ps. AList.update u (addRead (perms_of ps u) sect) ps) users ps) v =
     (perms_of ps v)\<lparr>sp_read := sp_read (perms_of ps v) @ replicate (count_list users v) sect\<rparr>"
  "perms_of (fold (\<lambda>u ps. AList.update u (addWrite (perms_of ps u) sect) ps) users ps) v =
     (perms_of ps v)\<lparr>sp_write := sp_write (perms_of ps v) @ replicate (count_list users v) sect\<rparr>"
  by (induction users arbitrary: ps) (simp_all add: perms_of_update addRead_def addWrite_def)

lemma perm_lines:
  "sp_read (perms_of (snd (fold perm_line ls (sect, ps))) u) =
     sp_read (perms_of ps u) @ granted ''valid users'' u (directives sect ls) \<and>
   sp_write (perms_of (snd (fold perm_line ls (sect, ps))) u) =
     sp_write (perms_of ps u) @ granted ''write list'' u (directives sect ls)"
proof (induction ls arbitrary: sect ps)
  case (Cons raw ls)
  let ?l = "trim_space raw"
  have g: "granted k u (d # ds) = granted k u [d] @ granted k u ds" for k d ds by (simp add: granted_def)
  have none: "granted k u [] = []" for k by (simp add: granted_def)
  consider (skip) "?l = [] \<or> has_prefix ?l ''#'' \<or> has_prefix ?l '';''"
    | (head) "\<not> (?l = [] \<or> has_prefix ?l ''#'' \<or> has_prefix ?l '';'')" "has_prefix ?l ''['' \<and> has_suffix ?l '']''"
    | (other) "\<not> (?l = [] \<or> has_prefix ?l ''#'' \<or> has_prefix ?l '';'')" "\<not> (has_prefix ?l ''['' \<and> has_suffix ?l '']'')"
    by blast
  then show ?case
  proof cases
    case skip
    then have "perm_line raw (sect, ps) = (sect, ps)" "directives sect (raw # ls) = directives sect ls"
      by (simp_all only: perm_line_def directives.simps Let_def prod.case if_True)
    then show ?thesis using Cons.IH [of sect ps] by simp
  next
    case head
    then have "perm_line raw (sect, ps) = (trim_space (butlast (tl ?l)), ps)"
      "directives sect (raw # ls) = directives (trim_space (butlast (tl ?l))) ls"
      by (simp_all only: perm_line_def directives.simps Let_def prod.case if_True if_False simp_thms)
    then show ?thesis using Cons.IH [of "trim_space (butlast (tl ?l))" ps] by simp
  next
    case other
    show ?thesis
    proof (cases "(sect = [] \<or> sect = ''global'') \<or> cut_first (CHR ''='') ?l = None")
      case True
      with other have "perm_line raw (sect, ps) = (sect, ps)" "directives sect (raw # ls) = directives sect ls"
        by (auto simp only: perm_line_def directives.simps Let_def prod.case if_True if_False simp_thms option.case append_Nil if_cancel split: option.split)
      then show ?thesis using Cons.IH [of sect ps] by simp
    next
      case False
      then obtain k v where kv: "cut_first (CHR ''='') ?l = Some (k, v)" by fastforce
      let ?k = "ToLower (trim_space k)" and ?us = "Fields (trim_space v)"
      let ?d = "(sect, ?k, ?us)"
      let ?ps = "if ?k = ''valid users'' then fold (\<lambda>u ps. AList.update u (addRead (perms_of ps u) sect) ps) ?us ps
          else if ?k = ''write list'' then fold (\<lambda>u ps. AList.update u (addWrite (perms_of ps u) sect) ps) ?us ps else ps"
      have ns: "sect \<noteq> []" "sect \<noteq> ''global''" using False by auto
      have d: "directives sect (raw # ls) = ?d # directives sect ls"
        using other kv ns by (simp only: directives.simps Let_def if_False option.case prod.case simp_thms append_Cons append_Nil)
      have p1: "perm_line raw (sect, ps) = (sect, ?ps)"
        using other kv ns by (simp only: perm_line_def Let_def if_False option.case prod.case simp_thms)
      have p: "sp_read (perms_of ?ps u) = sp_read (perms_of ps u) @ granted ''valid users'' u [?d]"
        "sp_write (perms_of ?ps u) = sp_write (perms_of ps u) @ granted ''write list'' u [?d]"
        by (simp_all add: fold_perms granted_def)
      have "fold perm_line (raw # ls) (sect, ps) = fold perm_line ls (sect, ?ps)" unfolding fold_simps comp_apply p1 ..
      then show ?thesis using Cons.IH [of sect ?ps] unfolding d g [of _ ?d "directives sect ls"] p by (simp only: append_assoc)
    qed
  qed
qed (simp add: granted_def)

text \<open>
  The inventory of users: with a readable account file and Samba configuration, the items are the accounts with a
  numeric id from the configured minimum upwards, apart from 65534, in the order of their names; each carries exactly the shares whose
  section lists the user under \<open>valid users\<close> and \<open>write list\<close>, in the order of the file.
\<close>

theorem users_exact:
  assumes "hf_read H (uc_passwdFile c) = Some pw" "\<not> scan_err pw" "hf_read H (uc_sambaConf c) = Some smb"
  shows "\<exists>accounts. snd (users_Collect H False now c) =
      [EInventory \<lparr>in_hostID = uc_hostID c, in_kind = ''user'', in_reportedAt = now, in_schema = CurrentSchemaVersion,
        in_items = map (\<lambda>a. \<lparr>ii_id = ac_name a, ii_name = ac_name a,
          ii_attrs = (''uid'', itoa_int (ac_uid a)) #
            (let rw = granted ''write list'' (ac_name a) (directives [] (scan_lines smb)) in
             if rw \<noteq> [] then [(''shares_rw'', join_with '','' rw)] else []) @
            (let ro = granted ''valid users'' (ac_name a) (directives [] (scan_lines smb)) in
             if ro \<noteq> [] then [(''shares_ro'', join_with '','' ro)] else [])\<rparr>) accounts\<rparr>] \<and>
    sorted (map ac_name accounts) \<and>
    mset accounts = mset (List.map_filter (passwd_line (uidMin H (uc_loginDefs c))) (scan_lines pw)) \<and>
    (\<forall>a. a \<in> set accounts \<longleftrightarrow> (\<exists>line \<in> set (scan_lines pw). \<exists>fs. fs = split_on (CHR '':'') line \<and> 3 \<le> length fs \<and> line \<noteq> [] \<and>
        \<not> has_prefix line ''#'' \<and> ac_name a = fs ! 0 \<and> Atoi (fs ! 2) = Some (ac_uid a) \<and> uidMin H (uc_loginDefs c) \<le> ac_uid a \<and> ac_uid a \<noteq> 65534))"
proof -
  let ?as = "sort_key ac_name (List.map_filter (passwd_line (uidMin H (uc_loginDefs c))) (scan_lines pw))"
  have p: "passwd_line m line = Some a \<longleftrightarrow> (\<exists>fs. fs = split_on (CHR '':'') line \<and> 3 \<le> length fs \<and> line \<noteq> [] \<and>
        \<not> has_prefix line ''#'' \<and> ac_name a = fs ! 0 \<and> Atoi (fs ! 2) = Some (ac_uid a) \<and> m \<le> ac_uid a \<and> ac_uid a \<noteq> 65534)" for m line a
    by (cases a) (auto simp: passwd_line_def Let_def split: option.splits)
  have i: "user_item (parseSambaPermissions H (uc_sambaConf c)) a = \<lparr>ii_id = ac_name a, ii_name = ac_name a,
          ii_attrs = (''uid'', itoa_int (ac_uid a)) #
            (let rw = granted ''write list'' (ac_name a) (directives [] (scan_lines smb)) in
             if rw \<noteq> [] then [(''shares_rw'', join_with '','' rw)] else []) @
            (let ro = granted ''valid users'' (ac_name a) (directives [] (scan_lines smb)) in
             if ro \<noteq> [] then [(''shares_ro'', join_with '','' ro)] else [])\<rparr>" for a
    using perm_lines [of "scan_lines smb" "[]" "[]" "ac_name a"]
    by (simp add: user_item_def parseSambaPermissions_def assms(3) Let_def perms_of_def [of "[]"])
  have "snd (users_Collect H False now c) =
      [EInventory \<lparr>in_hostID = uc_hostID c, in_kind = ''user'', in_reportedAt = now, in_schema = CurrentSchemaVersion,
        in_items = map (user_item (parseSambaPermissions H (uc_sambaConf c))) ?as\<rparr>]"
    by (simp add: users_Collect_def Let_def parsePasswd_def assms(1,2) list_of_def)
  moreover have "a \<in> set ?as \<longleftrightarrow> (\<exists>line \<in> set (scan_lines pw). passwd_line (uidMin H (uc_loginDefs c)) line = Some a)" for a
    by (force simp: map_filter_def)
  ultimately show ?thesis unfolding i p by (intro exI [of _ ?as]) simp
qed

section \<open>Witnesses\<close>

definition demo_smb :: string where
  "demo_smb = ''[media]'' @ [nl] @ ''path = /srv/media'' @ [nl] @ ''write list = ana'' @ [nl]"

definition demo_passwd :: string where
  "demo_passwd = ''root:x:0:0'' @ [nl] @ ''zoe:x:1001:1'' @ [nl] @ ''ana:x:1000:1'' @ [nl]"

definition demo_files :: host_files where
  "demo_files = \<lparr>hf_stat = (\<lambda>_. True),
     hf_read = (\<lambda>p. if p = ''smb'' then Some demo_smb else if p = ''passwd'' then Some demo_passwd else None), hf_dir = (\<lambda>_. None)\<rparr>"

lemma demo_scans:
  "scan_lines demo_smb = [''[media]'', ''path = /srv/media'', ''write list = ana'']" "\<not> scan_err demo_passwd"
  "scan_lines demo_passwd = [''root:x:0:0'', ''zoe:x:1001:1'', ''ana:x:1000:1'']"
  by (simp_all add: demo_smb_def demo_passwd_def scan_lines_def scan_err_def Let_def nl_def trim_cr_def)

theorem users_exact_witness:
  "\<exists>accounts :: account list. sorted (map ac_name accounts) \<and>
     snd (users_Collect demo_files False 1 \<lparr>uc_passwdFile = ''passwd'', uc_loginDefs = ''none'', uc_sambaConf = ''smb'', uc_hostID = ''h''\<rparr>) =
       [EInventory \<lparr>in_hostID = ''h'', in_kind = ''user'', in_reportedAt = 1, in_schema = CurrentSchemaVersion,
         in_items = map (\<lambda>a. \<lparr>ii_id = ac_name a, ii_name = ac_name a,
           ii_attrs = (''uid'', itoa_int (ac_uid a)) #
             (let rw = granted ''write list'' (ac_name a) (directives [] [''[media]'', ''path = /srv/media'', ''write list = ana'']) in
              if rw \<noteq> [] then [(''shares_rw'', join_with '','' rw)] else []) @
             (let ro = granted ''valid users'' (ac_name a) (directives [] [''[media]'', ''path = /srv/media'', ''write list = ana'']) in
              if ro \<noteq> [] then [(''shares_ro'', join_with '','' ro)] else [])\<rparr>) accounts\<rparr>]"
proof -
  let ?c = "\<lparr>uc_passwdFile = ''passwd'', uc_loginDefs = ''none'', uc_sambaConf = ''smb'', uc_hostID = ''h''\<rparr>"
  have r: "hf_read demo_files (uc_passwdFile ?c) = Some demo_passwd" "hf_read demo_files (uc_sambaConf ?c) = Some demo_smb"
    by (simp_all add: demo_files_def)
  from users_exact [OF r(1) demo_scans(2) r(2), of 1] show ?thesis
    unfolding demo_scans(1) usersCollector.select_convs by blast
qed

theorem mount_line_roundtrip_witness:
  "mount_line (''/dev/sda1'' @ '' '' @ escapeMountField ''/mnt/my disk'' @ '' '' @ ''ext4'' @ '' '' @ ''rw 0 0'') =
     Some \<lparr>mt_device = ''/dev/sda1'', mt_mountpoint = ''/mnt/my disk'', mt_fsType = ''ext4''\<rparr>"
proof -
  have "has_prefix ''/dev/sda1'' ''/dev/'' \<and> ''ext4'' \<notin> set pseudoFSTypes" by code_simp
  then show ?thesis
    using mount_line_roundtrip [of "''/mnt/my disk''" "''/dev/sda1''" "''ext4''" "''rw 0 0''"] by (simp add: is_space_def)
qed

theorem base_device_names_witness:
  "baseDeviceName ''/dev/sdc12'' = ''sdc'' \<and> baseDeviceName (''/dev/nvme'' @ itoa 0 @ ''n'' @ itoa 1 @ ''p'' @ itoa 3) = ''nvme'' @ itoa 0 @ ''n'' @ itoa 1 \<and>
   baseDeviceName ''/dev/md0'' = ''md0''"
proof -
  have "list_all is_digit ''12''" "\<not> is_digit (CHR ''c'')" "\<not> has_prefix ''md0'' ''sd'' \<and> \<not> has_prefix ''md0'' ''nvme''" by code_simp+
  then show ?thesis
    using base_device_names [of "''c''" "''12''" 0 1 3 "''md0''"] by simp
qed

theorem storage_inventories_accepted_witness:
  "list_all (hub_accepts ''h'' 1) (snd (shares_Collect demo_files False 1 \<lparr>sc_sambaConf = ''smb'', sc_exportsFile = ''none'', sc_hostID = ''h''\<rparr>)) \<and>
   share_items demo_files ''smb'' ''none'' \<noteq> []"
proof -
  have i: "\<And>xs. set (id xs) \<subseteq> set xs" by simp
  have "list_all (hub_accepts ''h'' 1) (snd (shares_Collect demo_files False 1 \<lparr>sc_sambaConf = ''smb'', sc_exportsFile = ''none'', sc_hostID = ''h''\<rparr>))"
    using storage_inventories_accepted [of "''h''" 1 id demo_files False "\<lparr>sc_sambaConf = ''smb'', sc_exportsFile = ''none'', sc_hostID = ''h''\<rparr>"] i
    by (simp add: is_zero_time_def time_zero_def)
  moreover have "share_items demo_files ''smb'' ''none'' \<noteq> []"
  proof -
    have e: "\<not> scan_err demo_smb" by (simp add: demo_smb_def scan_err_def nl_def)
    have "sm_items (smb_flush (fold smb_line [''[media]'', ''path = /srv/media'', ''write list = ana''] \<lparr>sm_items = [], sm_section = [], sm_attrs = []\<rparr>)) \<noteq> []"
      by code_simp
    then show ?thesis
      by (simp only: share_items_def parseSambaConf_def demo_files_def host_files.select_convs list_of_def option.case if_True e if_False
          demo_scans(1) simp_thms append_is_Nil_conv not_False_eq_True)
  qed
  ultimately show ?thesis by simp
qed

end
