(* ===== verification/Collect_Host.thy ===== *)
theory Collect_Host
  imports Collect Spool Blackbox_Sampler Gotime
begin

text \<open>
  The collectors of processor, memory and network (\<open>internal/collector/cpu\<close>, \<open>memory\<close>, \<open>network\<close>) with the helper that
  reads the tunnels (\<open>internal/vpnhelper\<close>).  \<open>rnd\<close> rounds to a \<open>float64\<close>; what the \<open>procfs\<close> package parses is an argument.
\<close>

subsection \<open>Processor (cpu.go)\<close>

record cpuCollector =
  cc_prevAt :: time
  cc_prevTotal :: cpuStat
  cc_prevPerCPU :: "(int \<times> cpuStat) list"

definition cpuUsageRatio :: "(rat \<Rightarrow> rat) \<Rightarrow> cpuStat \<Rightarrow> cpuStat \<Rightarrow> rat option" where
  "cpuUsageRatio rnd prev cur =
     (let totalDelta = rnd (cpuStatTotal rnd cur - cpuStatTotal rnd prev) in
      if totalDelta \<le> 0 then None
      else
        let idleDelta = rnd (rnd (cs_Idle cur + cs_Iowait cur) - rnd (cs_Idle prev + cs_Iowait prev));
            busyDelta = rnd (totalDelta - idleDelta);
            r = rnd (busyDelta / totalDelta) in
        Some (if r < 0 then 0 else if 1 < r then 1 else r))"

definition cpu_gauge :: "(rat \<Rightarrow> rat) \<Rightarrow> string \<Rightarrow> cpuStat \<Rightarrow> cpuStat \<Rightarrow> emission list" where
  "cpu_gauge rnd name prev cur =
     (case cpuUsageRatio rnd prev cur of
        None \<Rightarrow> []
      | Some ratio \<Rightarrow> [EGauge ''bitacora_cpu_usage_ratio'' (Fin ratio) [(''cpu'', name)]])"

text \<open>\<open>stat\<close> is what \<open>/proc/stat\<close> holds: the total and the processors by number.\<close>

definition cpu_Collect ::
  "(rat \<Rightarrow> rat) \<Rightarrow> bool \<Rightarrow> (cpuStat \<times> (int \<times> cpuStat) list) option \<Rightarrow> time \<Rightarrow> cpuCollector \<Rightarrow> bool \<times> emission list \<times> cpuCollector" where
  "cpu_Collect rnd ctxDone stat now c =
     (if ctxDone then (False, [], c)
      else
        (case stat of
           None \<Rightarrow> (False, [], c)
         | Some (tot, cpus) \<Rightarrow>
             let out = (if is_zero_time (cc_prevAt c) then []
                        else cpu_gauge rnd ''total'' (cc_prevTotal c) tot @
                          concat (map (\<lambda>i. case map_of (cc_prevPerCPU c) i of
                                             None \<Rightarrow> []
                                           | Some prev \<Rightarrow> cpu_gauge rnd (itoa_int i) prev (the (map_of cpus i)))
                                   (sort (map fst cpus)))) in
             (True, out, \<lparr>cc_prevAt = now, cc_prevTotal = tot, cc_prevPerCPU = cpus\<rparr>)))"

subsection \<open>Memory (memory.go)\<close>

definition kbToBytes :: "(rat \<Rightarrow> rat) \<Rightarrow> 64 word \<Rightarrow> gofloat" where
  "kbToBytes rnd kb = Fin (rnd (rnd (of_nat (unat kb)) * 1024))"

definition mem_gauge :: "(rat \<Rightarrow> rat) \<Rightarrow> string \<Rightarrow> 64 word option \<Rightarrow> emission list" where
  "mem_gauge rnd name v = (case v of None \<Rightarrow> [] | Some kb \<Rightarrow> [EGauge name (kbToBytes rnd kb) []])"

definition memory_Collect :: "(rat \<Rightarrow> rat) \<Rightarrow> bool \<Rightarrow> meminfo option \<Rightarrow> bool \<times> emission list" where
  "memory_Collect rnd ctxDone info =
     (if ctxDone then (False, [])
      else
        (case info of
           None \<Rightarrow> (False, [])
         | Some mi \<Rightarrow>
             (True,
              mem_gauge rnd ''bitacora_memory_total_bytes'' (mi_MemTotal mi) @
              mem_gauge rnd ''bitacora_memory_available_bytes'' (mi_MemAvailable mi) @
              (case (mi_MemTotal mi, mi_MemAvailable mi) of
                 (Some t, Some a) \<Rightarrow>
                   if 0 < t
                   then [EGauge ''bitacora_memory_used_ratio'' (Fin (rnd (rnd (of_nat (unat (t - a))) / rnd (of_nat (unat t))))) []]
                   else []
               | _ \<Rightarrow> []) @
              mem_gauge rnd ''bitacora_memory_swap_total_bytes'' (mi_SwapTotal mi) @
              mem_gauge rnd ''bitacora_memory_swap_free_bytes'' (mi_SwapFree mi))))"

subsection \<open>Traffic (network.go)\<close>

record ifaceCounters =
  ic_rxBytes :: nat
  ic_txBytes :: nat

record netCollector =
  nc_hostID :: string
  nc_spoolDir :: string
  nc_procNetDev :: string
  nc_prevAt :: time
  nc_prevInts :: "(string \<times> ifaceCounters) list"

text \<open>\<open>Init\<close> with the identity of the host, when it is given.\<close>

definition network_Init :: "config \<Rightarrow> string option \<Rightarrow> netCollector \<Rightarrow> netCollector" where
  "network_Init cfg host c =
     c\<lparr>nc_procNetDev := configuredPath cfg ''proc_net_dev'' ''/proc/net/dev'',
       nc_spoolDir := configuredPath cfg ''spool_dir'' ''/var/lib/bitacora/spool'',
       nc_hostID := (case host of None \<Rightarrow> nc_hostID c | Some h \<Rightarrow> h)\<rparr>"

definition net_dev_line :: "string \<Rightarrow> (string \<times> ifaceCounters) list \<Rightarrow> (string \<times> ifaceCounters) list" where
  "net_dev_line line counters =
     (case cut_first (CHR '':'') line of
        None \<Rightarrow> counters
      | Some (name, rest) \<Rightarrow>
          let iface = trim_space name; fields = Fields rest in
          if iface = ''lo'' \<or> iface = [] \<or> length fields < 9 then counters
          else
            (case (ParseUint 64 (fields ! 0), ParseUint 64 (fields ! 8)) of
               (Some rx, Some tx) \<Rightarrow> AList.update iface \<lparr>ic_rxBytes = rx, ic_txBytes = tx\<rparr> counters
             | _ \<Rightarrow> counters))"

definition readProcNetDev :: "host_files \<Rightarrow> string \<Rightarrow> (string \<times> ifaceCounters) list option" where
  "readProcNetDev H path =
     (case hf_read H path of
        None \<Rightarrow> None
      | Some s \<Rightarrow> if scan_err s then None else Some (fold net_dev_line (drop 2 (scan_lines s)) []))"

definition iface_rates :: "(rat \<Rightarrow> rat) \<Rightarrow> rat \<Rightarrow> (string \<times> ifaceCounters) list \<Rightarrow> string \<times> ifaceCounters \<Rightarrow> emission list" where
  "iface_rates rnd elapsed prevs p =
     (case p of (iface, cur) \<Rightarrow>
        (case map_of prevs iface of
           None \<Rightarrow> []
         | Some prev \<Rightarrow>
             if ic_rxBytes cur < ic_rxBytes prev \<or> ic_txBytes cur < ic_txBytes prev then []
             else
               [EGauge ''bitacora_net_rx_bytes_per_second''
                  (Fin (rnd (rnd (of_nat (ic_rxBytes cur - ic_rxBytes prev)) / elapsed))) [(''interface'', iface)],
                EGauge ''bitacora_net_tx_bytes_per_second''
                  (Fin (rnd (rnd (of_nat (ic_txBytes cur - ic_txBytes prev)) / elapsed))) [(''interface'', iface)]]))"

text \<open>The order of the list of counters is the order in which the map is walked.\<close>

definition collectTraffic :: "(rat \<Rightarrow> rat) \<Rightarrow> host_files \<Rightarrow> time \<Rightarrow> netCollector \<Rightarrow> emission list \<times> netCollector" where
  "collectTraffic rnd H now c =
     (case readProcNetDev H (nc_procNetDev c) of
        None \<Rightarrow> ([], c)
      | Some counters \<Rightarrow>
          let out = (if is_zero_time (nc_prevAt c) then []
                     else (case duration_Seconds rnd (time_sub now (nc_prevAt c)) of
                             Fin elapsed \<Rightarrow> if 0 < elapsed then concat (map (iface_rates rnd elapsed (nc_prevInts c)) counters) else []
                           | _ \<Rightarrow> [])) in
          (out, c\<lparr>nc_prevInts := counters, nc_prevAt := now\<rparr>))"

subsection \<open>Tunnels (vpnhelper.go, network.go)\<close>

record vpnResult =
  vr_wireguardDump :: string
  vr_tailscaleStatusJSON :: string

text \<open>\<open>run\<close> executes a command: its output, or the text of the error.\<close>

definition vpn_Run :: "(string list \<Rightarrow> string + string) \<Rightarrow> vpnResult \<times> string list" where
  "vpn_Run run =
     (let wg = run [''wg'', ''show'', ''all'', ''dump'']; ts = run [''tailscale'', ''status'', ''--json''] in
      (\<lparr>vr_wireguardDump = (case wg of Inr s \<Rightarrow> s | Inl _ \<Rightarrow> []), vr_tailscaleStatusJSON = (case ts of Inr s \<Rightarrow> s | Inl _ \<Rightarrow> [])\<rparr>,
       (case wg of Inl e \<Rightarrow> [''wg show all dump: '' @ e] | Inr _ \<Rightarrow> []) @
       (case ts of Inl e \<Rightarrow> [''tailscale status --json: '' @ e] | Inr _ \<Rightarrow> [])))"

definition shortKey :: "string \<Rightarrow> string" where
  "shortKey key = (if length key \<le> 12 then key else take 12 key @ [CHR 0xE2, CHR 0x80, CHR 0xA6])"

definition wg_peer :: "time \<Rightarrow> string list \<Rightarrow> inventoryItem list" where
  "wg_peer now fs =
     (if length fs \<noteq> 9 then []
      else
        let iface = fs ! 0; key = shortKey (fs ! 1); endpoint = fs ! 3;
            handshake = parse_int_lenient (fs ! 5); t = handshake * second;
            lastSeen = (if 0 < handshake then FormatRFC3339 t else []);
            active = (0 < handshake \<and> time_sub now t < 3 * minute) in
        [\<lparr>ii_id = iface @ ''/'' @ key, ii_name = iface,
          ii_attrs = [(''protocol'', ''wireguard''), (''peer'', key), (''endpoint'', endpoint), (''active'', format_bool active),
                      (''last_handshake'', lastSeen)]\<rparr>])"

definition parseWireguardDump :: "time \<Rightarrow> string \<Rightarrow> inventoryItem list" where
  "parseWireguardDump now dump =
     (if dump = [] then []
      else sort_key ii_id (concat (map (\<lambda>line. wg_peer now (split_on (CHR 0x09) line)) (scan_lines dump))))"

text \<open>\<open>status\<close> decodes the JSON of Tailscale: the backend state and whether this node is online.\<close>

definition parseTailscaleStatus :: "(string \<Rightarrow> (string \<times> bool) option) \<Rightarrow> string \<Rightarrow> inventoryItem list" where
  "parseTailscaleStatus status raw =
     (if raw = [] then []
      else
        (case status raw of
           None \<Rightarrow> []
         | Some (state, online) \<Rightarrow>
             [\<lparr>ii_id = ''tailscale'', ii_name = ''tailscale'',
               ii_attrs = [(''protocol'', ''tailscale''), (''active'', format_bool online), (''state'', state)]\<rparr>]))"

definition vpnStaleAfter :: duration where
  "vpnStaleAfter = 30 * minute"

definition readVPNTunnels ::
  "(string \<Rightarrow> vpnResult option) \<Rightarrow> (string \<Rightarrow> (string \<times> bool) option) \<Rightarrow> time \<Rightarrow> (spool_error + (string \<times> spoolEntry) list) \<Rightarrow> inventoryItem list" where
  "readVPNTunnels dec status now entries =
     (case entries of
        Inl _ \<Rightarrow> []
      | Inr es \<Rightarrow>
          (case map_of es ''vpn'' of
             None \<Rightarrow> []
           | Some e \<Rightarrow>
               if vpnStaleAfter < Age e now then []
               else
                 (case dec (se_data e) of
                    None \<Rightarrow> []
                  | Some r \<Rightarrow>
                      parseWireguardDump now (vr_wireguardDump r) @ parseTailscaleStatus status (vr_tailscaleStatusJSON r))))"

text \<open>One run; \<open>now\<close> is the reading at its start, \<open>later\<close> the one of the tunnels.\<close>

record vpn_codec =
  vc_spool :: spoolCodec
  vc_result :: "string \<Rightarrow> vpnResult option"
  vc_status :: "string \<Rightarrow> (string \<times> bool) option"

definition network_Collect ::
  "(rat \<Rightarrow> rat) \<Rightarrow> vpn_codec \<Rightarrow> bool \<Rightarrow> host_files \<Rightarrow> disk \<Rightarrow> time \<Rightarrow> time \<Rightarrow> netCollector \<Rightarrow> bool \<times> emission list \<times> netCollector" where
  "network_Collect rnd V ctxDone H d now later c =
     (if ctxDone then (False, [], c)
      else
        (case collectTraffic rnd H now c of (out, c1) \<Rightarrow>
           let items = readVPNTunnels (vc_result V) (vc_status V) later (fst (spool_ReadDir (vc_spool V) (nc_spoolDir c1) d)) in
           (True, out @ [EInventory \<lparr>in_hostID = nc_hostID c1, in_kind = ''vpn_tunnel'', in_reportedAt = now,
              in_schema = CurrentSchemaVersion, in_items = items\<rparr>], c1)))"

section \<open>What the hub makes of it\<close>

lemma metric_accepted:
  assumes "h \<noteq> []" "\<not> is_zero_time now" "is_map ls"
    and "has_prefix n ''bitacora_''" "\<exists>s \<in> set allowedUnitSuffixes. has_suffix n s"
    and "\<not> has_suffix n ''_ratio'' \<or> \<not> f_less v (Fin 0) \<and> \<not> f_less (Fin 1) v"
    and "map_of ls ''container_id'' = None"
    and "\<And>k x. (k, x) \<in> set ls \<Longrightarrow> k \<notin> {''pid'', ''path'', ''container_id''} \<and> ParseIP x = None \<and> count_list x (CHR ''/'') < 2"
  shows "hub_accepts h now (EGauge n v ls)"
  unfolding hub_accepts_gauge [OF assms(3)] metric_validate_iff using assms by auto

lemma ParseIP_plain: "\<forall>c\<in>set s. c \<notin> {CHR ''.'', CHR '':'', CHR ''%''} \<Longrightarrow> ParseIP s = None"
  unfolding ParseIP_def by (subst filter_False) auto

lemma plain_number:
  "ParseIP (itoa_int n) = None \<and> count_list (itoa_int n) (CHR ''/'') = 0"
proof -
  have d: "c \<in> set (itoa m) \<Longrightarrow> is_digit c" for c m using itoa_digits [of m] by (auto simp: list_all_iff)
  have "c \<in> set (itoa_int n) \<Longrightarrow> c = CHR ''-'' \<or> is_digit c" for c by (auto simp: itoa_int_def d split: if_splits)
  then have "\<forall>c\<in>set (itoa_int n). c \<notin> {CHR ''.'', CHR '':'', CHR ''%'', CHR ''/''}" by (fastforce simp: is_digit_def)
  then show ?thesis using ParseIP_plain by (auto simp: count_list_0_iff)
qed

lemma cpu_gauge_accepted:
  assumes "h \<noteq> []" "\<not> is_zero_time t" "ParseIP name = None" "count_list name (CHR ''/'') < 2"
  shows "list_all (hub_accepts h t) (cpu_gauge rnd name prev cur)"
proof -
  have "has_prefix ''bitacora_cpu_usage_ratio'' ''bitacora_''" "\<exists>s \<in> set allowedUnitSuffixes. has_suffix ''bitacora_cpu_usage_ratio'' s"
    by (simp_all add: has_prefix_def has_suffix_def allowedUnitSuffixes_def)
  moreover have "0 \<le> r \<and> r \<le> 1" if "cpuUsageRatio rnd prev cur = Some r" for r
    using that by (auto simp: cpuUsageRatio_def Let_def split: if_splits)
  ultimately show ?thesis
    using assms by (auto simp: cpu_gauge_def is_map_def intro!: metric_accepted split: option.splits)
qed

lemma mem_gauge_accepted:
  assumes "h \<noteq> []" "\<not> is_zero_time t" "has_prefix n ''bitacora_''" "has_suffix n ''_bytes''"
  shows "list_all (hub_accepts h t) (mem_gauge rnd n v)"
proof -
  have "\<not> has_suffix n ''_ratio''" using assms(4) by (auto simp: has_suffix_def)
  then show ?thesis using assms
    by (auto simp: mem_gauge_def is_map_def allowedUnitSuffixes_def intro!: metric_accepted split: option.splits)
qed

text \<open>What is assumed of rounding: it keeps the order and the numbers zero and one.\<close>

definition rounding :: "(rat \<Rightarrow> rat) \<Rightarrow> bool" where
  "rounding rnd \<longleftrightarrow> mono rnd \<and> rnd 0 = 0 \<and> rnd 1 = 1"

lemma rounded_share:
  assumes "rounding rnd" "m \<le> n" "0 < n"
  shows "0 \<le> rnd (rnd (of_nat m) / rnd (of_nat n)) \<and> rnd (rnd (of_nat m) / rnd (of_nat n)) \<le> 1"
proof -
  from assms have r: "rnd x \<le> rnd y" if "x \<le> y" for x y using that by (simp add: rounding_def mono_def)
  have "0 \<le> rnd (of_nat m)" using r [of 0 "of_nat m"] assms(1) by (simp add: rounding_def)
  moreover have "rnd (of_nat m) \<le> rnd (of_nat n)" using r assms(2) by simp
  moreover have "1 \<le> rnd (of_nat n)" using r [of 1 "of_nat n"] assms(1,3) by (simp add: rounding_def)
  ultimately have "0 \<le> rnd (of_nat m) / rnd (of_nat n)" "rnd (of_nat m) / rnd (of_nat n) \<le> 1" by simp_all
  then show ?thesis using r [of 0] r [of _ 1] assms(1) by (metis rounding_def)
qed

lemma memory_ratio_accepted:
  assumes "h \<noteq> []" "\<not> is_zero_time t" "rounding rnd" "a \<le> (tot :: 64 word)" "0 < tot"
  shows "hub_accepts h t (EGauge ''bitacora_memory_used_ratio'' (Fin (rnd (rnd (of_nat (unat (tot - a))) / rnd (of_nat (unat tot))))) [])"
proof -
  have "unat (tot - a) \<le> unat tot" "0 < unat tot" using assms(4,5) by (simp_all add: unat_sub word_le_nat_alt word_less_nat_alt)
  note rounded_share [OF assms(3) this]
  with assms(1,2) show ?thesis
    by (intro metric_accepted) (auto simp: is_map_def has_prefix_def has_suffix_def allowedUnitSuffixes_def)
qed


text \<open>
  No traffic rate reaches the store: whatever \<open>/proc/net/dev\<close> holds, every gauge of the network collector is refused by
  the validation of the metric store, because its name ends in \<open>_per_second\<close>, which is no permitted unit.
\<close>

theorem network_rates_refused:
  assumes "e \<in> set (fst (collectTraffic rnd H now c))"
  shows "\<not> hub_accepts h t e"
proof -
  have "has_suffix ''bitacora_net_rx_bytes_per_second'' s = False" "has_suffix ''bitacora_net_tx_bytes_per_second'' s = False"
    if "s \<in> set allowedUnitSuffixes" for s using that by (auto simp: allowedUnitSuffixes_def has_suffix_def)
  then have "\<not> hub_accepts h t (EGauge ''bitacora_net_rx_bytes_per_second'' v [(''interface'', i)])"
    "\<not> hub_accepts h t (EGauge ''bitacora_net_tx_bytes_per_second'' v [(''interface'', i)])" for v i
    by (auto simp: hub_accepts_gauge is_map_def metric_validate_iff)
  with assms show ?thesis
    by (auto simp: collectTraffic_def Let_def iface_rates_def split: option.splits if_splits gofloat.splits)
qed

lemma vpn_items_ids:
  assumes "x \<in> set (readVPNTunnels dec status now entries)"
  shows "ii_id x \<noteq> []"
proof -
  have "y \<in> set (wg_peer now fs) \<Longrightarrow> ii_id y \<noteq> []" for y fs by (auto simp: wg_peer_def Let_def split: if_splits)
  then have "y \<in> set (parseWireguardDump now dump) \<Longrightarrow> ii_id y \<noteq> []" for y dump
    by (auto simp: parseWireguardDump_def split: if_splits)
  moreover have "y \<in> set (parseTailscaleStatus status raw) \<Longrightarrow> ii_id y \<noteq> []" for y raw
    by (auto simp: parseTailscaleStatus_def split: if_splits option.splits)
  ultimately show ?thesis using assms by (auto simp: readVPNTunnels_def split: sum.splits option.splits if_splits)
qed

text \<open>With exact arithmetic the two gauges of an interface are its increments divided by the time between the samples.\<close>

lemma iface_rates_exact:
  "iface_rates (\<lambda>x. x) elapsed prevs (iface, cur) =
     (case map_of prevs iface of
        Some prev \<Rightarrow>
          if ic_rxBytes prev \<le> ic_rxBytes cur \<and> ic_txBytes prev \<le> ic_txBytes cur
          then [EGauge ''bitacora_net_rx_bytes_per_second'' (Fin ((of_nat (ic_rxBytes cur) - of_nat (ic_rxBytes prev)) / elapsed)) [(''interface'', iface)],
                EGauge ''bitacora_net_tx_bytes_per_second'' (Fin ((of_nat (ic_txBytes cur) - of_nat (ic_txBytes prev)) / elapsed)) [(''interface'', iface)]]
          else []
      | None \<Rightarrow> [])"
  by (auto simp: iface_rates_def of_nat_diff not_less split: option.splits)

text \<open>The fields of a line of the dump without the preshared key; lines that describe no peer are dropped whole.\<close>

definition redacted :: "string list \<Rightarrow> string list option" where
  "redacted fs = (if length fs = 9 then Some (fs[2 := []]) else None)"

lemma wg_peer_redacted: "redacted fs = redacted fs' \<Longrightarrow> wg_peer now fs = wg_peer now fs'"
proof -
  assume a: "redacted fs = redacted fs'"
  show ?thesis
  proof (cases "length fs = 9")
    case True
    with a have l: "length fs' = 9" "fs[2 := []] = fs'[2 := []]" by (simp_all add: redacted_def split: if_splits)
    then have "fs ! i = fs' ! i" if "i \<noteq> 2" for i using that by (metis nth_list_update_neq)
    with True l(1) show ?thesis by (simp add: wg_peer_def)
  next
    case False
    with a have "length fs' \<noteq> 9" by (simp add: redacted_def split: if_splits)
    with False show ?thesis by (simp add: wg_peer_def)
  qed
qed

text \<open>
  C28 Keys stay on the host: the inventory of tunnels depends neither on the private keys nor on the preshared keys in the
  dump of WireGuard.  Two dumps whose lines have the same fields apart from the third of a peer line, and differ at will in the
  lines that describe an interface, give the same inventory.
\<close>

theorem tunnel_secrets_kept:
  assumes "list_all2 (\<lambda>l l'. redacted (split_on (CHR 0x09) l) = redacted (split_on (CHR 0x09) l')) (scan_lines dump) (scan_lines dump')"
  shows "parseWireguardDump now dump = parseWireguardDump now dump'"
proof -
  have e: "scan_lines [] = []" by (simp add: scan_lines_def Let_def)
  have "map (\<lambda>line. wg_peer now (split_on (CHR 0x09) line)) (scan_lines dump) =
      map (\<lambda>line. wg_peer now (split_on (CHR 0x09) line)) (scan_lines dump')"
    using assms by (induction rule: list_all2_induct) (auto intro: wg_peer_redacted)
  then show ?thesis by (auto simp: parseWireguardDump_def e)
qed

section \<open>Witnesses\<close>


definition demo_net_dev :: string where
  "demo_net_dev = ''header'' @ [nl] @ ''header'' @ [nl] @ ''  lo: 9 0 0 0 0 0 0 0 9'' @ [nl] @ ''eth0: 3000 0 0 0 0 0 0 0 500 0'' @ [nl]"

lemma demo_lines: "scan_lines demo_net_dev = [''header'', ''header'', ''  lo: 9 0 0 0 0 0 0 0 9'', ''eth0: 3000 0 0 0 0 0 0 0 500 0'']"
  "\<not> scan_err demo_net_dev"
  by (simp_all add: demo_net_dev_def scan_lines_def scan_err_def Let_def nl_def trim_cr_def)

lemma demo_counters:
  "fold net_dev_line (drop 2 (scan_lines demo_net_dev)) [] = [(''eth0'', \<lparr>ic_rxBytes = 3000, ic_txBytes = 500\<rparr>)]"
proof -
  have c: "cut_first (CHR '':'') ''  lo: 9 0 0 0 0 0 0 0 9'' = Some (''  lo'', '' 9 0 0 0 0 0 0 0 9'')"
    "cut_first (CHR '':'') ''eth0: 3000 0 0 0 0 0 0 0 500 0'' = Some (''eth0'', '' 3000 0 0 0 0 0 0 0 500 0'')"
    "trim_space ''  lo'' = ''lo''" "trim_space ''eth0'' = ''eth0''"
    "Fields '' 3000 0 0 0 0 0 0 0 500 0'' = [''3000'', ''0'', ''0'', ''0'', ''0'', ''0'', ''0'', ''0'', ''500'', ''0'']"
    by code_simp+
  have v: "list_all is_digit ''3000''" "dec_value ''3000'' = 3000" "list_all is_digit ''500''" "dec_value ''500'' = 500" by code_simp+
  have p: "ParseUint 64 ''3000'' = Some 3000" "ParseUint 64 ''500'' = Some 500" by (simp_all add: ParseUint_def v(2,4) is_digit_def)
  show ?thesis unfolding demo_lines by (simp add: net_dev_line_def c p Let_def)
qed

lemma demo_elapsed: "duration_Seconds (\<lambda>x. x) (time_sub (3 * second) second) = Fin 2"
  by (simp add: duration_Seconds_def time_sub_def max_int64_def min_int64_def second_def Let_def)

theorem network_rates_refused_witness:
  "\<exists>e v. e = EGauge ''bitacora_net_rx_bytes_per_second'' v [(''interface'', ''eth0'')] \<and>
     e \<in> set (fst (collectTraffic (\<lambda>x. x) \<lparr>hf_stat = (\<lambda>_. True), hf_read = (\<lambda>_. Some demo_net_dev), hf_dir = (\<lambda>_. None)\<rparr> (3 * second)
       \<lparr>nc_hostID = ''nas'', nc_spoolDir = [], nc_procNetDev = [], nc_prevAt = second, nc_prevInts = [(''eth0'', \<lparr>ic_rxBytes = 1000, ic_txBytes = 500\<rparr>)]\<rparr>)) \<and>
     \<not> hub_accepts ''nas'' (3 * second) e"
  (is "\<exists>e v. _ \<and> e \<in> set ?out \<and> _")
proof -
  have z: "\<not> is_zero_time second" by (simp add: is_zero_time_def time_zero_def second_def)
  have m: "EGauge ''bitacora_net_rx_bytes_per_second'' (Fin 1000) [(''interface'', ''eth0'')] \<in> set ?out"
    unfolding collectTraffic_def readProcNetDev_def host_files.select_convs netCollector.select_convs option.case Let_def
      demo_counters demo_elapsed gofloat.case
    by (simp add: demo_lines(2) z iface_rates_def)
  show ?thesis by (intro exI conjI, rule refl, rule m, rule network_rates_refused [OF m])
qed

theorem tunnel_secrets_kept_witness:
  "parseWireguardDump 0 (join_with [CHR 0x09] [''wg0'', ''key'', ''secret'', ''host'', ''all'', ''0'', ''1'', ''2'', ''off'']) =
   parseWireguardDump 0 (join_with [CHR 0x09] [''wg0'', ''key'', ''other'', ''host'', ''all'', ''0'', ''1'', ''2'', ''off''])"
  by (rule tunnel_secrets_kept) (simp add: scan_lines_def Let_def nl_def trim_cr_def redacted_def)


end
