(* ===== verification/Collect_System.thy ===== *)
theory Collect_System
  imports Collect_Host Faultcluster
begin

text \<open>
  The collectors of power supplies, hardware identity, public exposure and containers: \<open>internal/collector/ups\<close>,
  \<open>hwidentity\<close>, \<open>publicsurface\<close> and \<open>docker\<close>.
\<close>

subsection \<open>Uninterruptible power supplies (ups.go)\<close>

record upsCollector =
  up_addr :: string
  up_hostID :: string

definition ups_Init :: "config \<Rightarrow> string option \<Rightarrow> upsCollector \<Rightarrow> upsCollector" where
  "ups_Init cfg host c =
     \<lparr>up_addr = configuredPath cfg ''nut_addr'' ''127.0.0.1:3493'', up_hostID = (case host of None \<Rightarrow> up_hostID c | Some h \<Rightarrow> h)\<rparr>"

text \<open>
  The connection to the server is the list of complete lines that will arrive; reading past them is an error.  \<open>sent\<close> says
  whether a command can be written.
\<close>

fun listUPSNames :: "string list \<Rightarrow> string list \<Rightarrow> string list option \<times> string list" where
  "listUPSNames acc [] = (None, [])"
| "listUPSNames acc (raw # ls) =
     (let line = trim_space raw in
      if has_prefix line ''END LIST UPS'' then (Some acc, ls)
      else if \<not> has_prefix line ''UPS '' then listUPSNames acc ls
      else
        let fs = split_n 3 (CHR '' '') line in
        listUPSNames (if 2 \<le> length fs then acc @ [fs ! 1] else acc) ls)"

fun listUPSVars :: "labels \<Rightarrow> string list \<Rightarrow> labels option \<times> string list" where
  "listUPSVars vars [] = (None, [])"
| "listUPSVars vars (raw # ls) =
     (let line = trim_space raw in
      if has_prefix line ''END LIST VAR'' then (Some vars, ls)
      else if \<not> has_prefix line ''VAR '' then listUPSVars vars ls
      else
        let fs = split_n 4 (CHR '' '') line in
        if length fs \<noteq> 4 then listUPSVars vars ls
        else listUPSVars (AList.update (fs ! 2) (trim_char (CHR 0x22) (fs ! 3)) vars) ls)"

definition ups_attr :: "string \<Rightarrow> string \<Rightarrow> labels \<Rightarrow> labels" where
  "ups_attr var key vars = (case map_of vars var of None \<Rightarrow> [] | Some v \<Rightarrow> [(key, v)])"

definition buildItem :: "string \<Rightarrow> labels \<Rightarrow> inventoryItem" where
  "buildItem name vars =
     \<lparr>ii_id = name, ii_name = name,
      ii_attrs = (case map_of vars ''ups.status'' of
                    None \<Rightarrow> []
                  | Some st \<Rightarrow> [(''status'', st), (''on_battery'', format_bool (contains st ''OB''))]) @
        ups_attr ''battery.charge'' ''battery_charge_pct'' vars @ ups_attr ''battery.runtime'' ''runtime_seconds'' vars @
        ups_attr ''ups.model'' ''model'' vars\<rparr>"

fun ups_items :: "(string \<Rightarrow> bool) \<Rightarrow> string list \<Rightarrow> string list \<Rightarrow> inventoryItem list" where
  "ups_items sent [] ls = []"
| "ups_items sent (n # ns) ls =
     (if \<not> sent (''LIST VAR '' @ n @ [nl]) then ups_items sent ns ls
      else
        (case listUPSVars [] ls of
           (None, ls') \<Rightarrow> ups_items sent ns ls'
         | (Some vars, ls') \<Rightarrow> buildItem n vars # ups_items sent ns ls'))"

text \<open>\<open>conn\<close> is \<open>None\<close> when dialling fails.\<close>

definition readNUT :: "(string \<Rightarrow> bool) \<Rightarrow> string list option \<Rightarrow> inventoryItem list option" where
  "readNUT sent conn =
     (case conn of
        None \<Rightarrow> None
      | Some ls \<Rightarrow>
          if \<not> sent (''LIST UPS'' @ [nl]) then None
          else (case listUPSNames [] ls of (None, _) \<Rightarrow> None | (Some names, ls') \<Rightarrow> Some (ups_items sent names ls')))"

definition ups_Collect :: "(string \<Rightarrow> bool) \<Rightarrow> string list option \<Rightarrow> bool \<Rightarrow> string \<Rightarrow> time \<Rightarrow> bool \<times> emission list" where
  "ups_Collect sent conn ctxDone hostID now =
     (if ctxDone then (False, [])
      else (True, [EInventory \<lparr>in_hostID = hostID, in_kind = ''ups'', in_reportedAt = now, in_schema = CurrentSchemaVersion,
              in_items = (case readNUT sent conn of None \<Rightarrow> [] | Some is \<Rightarrow> is)\<rparr>]))"

subsection \<open>Hardware identity (hwidentity.go)\<close>

record hwCollector =
  hw_sysRoot :: string
  hw_procRoot :: string
  hw_hostID :: string
  hw_prevEnergyUJ :: nat
  hw_prevAt :: time
  hw_haveRAPL :: bool

definition hw_Init :: "config \<Rightarrow> string option \<Rightarrow> hwCollector \<Rightarrow> hwCollector" where
  "hw_Init cfg host c =
     c\<lparr>hw_sysRoot := configuredPath cfg ''sys_root'' ''/sys'', hw_procRoot := configuredPath cfg ''proc_root'' ''/proc'',
       hw_hostID := (case host of None \<Rightarrow> hw_hostID c | Some h \<Rightarrow> h)\<rparr>"

definition readTrimmed :: "host_files \<Rightarrow> string \<Rightarrow> string" where
  "readTrimmed H path = (case hf_read H path of None \<Rightarrow> [] | Some raw \<Rightarrow> trim_space raw)"

definition setIfPresent :: "string \<Rightarrow> string \<Rightarrow> labels" where
  "setIfPresent key v = (if v \<noteq> [] then [(key, v)] else [])"

fun cpu_model_lines :: "string list \<Rightarrow> string option" where
  "cpu_model_lines [] = None"
| "cpu_model_lines (l # ls) =
     (case cut_first (CHR '':'') l of
        None \<Rightarrow> cpu_model_lines ls
      | Some (k, v) \<Rightarrow> if trim_space k \<noteq> ''model name'' then cpu_model_lines ls else Some (trim_space v))"

definition readCPUModel :: "host_files \<Rightarrow> string \<Rightarrow> string option" where
  "readCPUModel H path = (case hf_read H path of None \<Rightarrow> None | Some raw \<Rightarrow> cpu_model_lines (split_on nl raw))"

definition readRAPLWatts :: "(rat \<Rightarrow> rat) \<Rightarrow> host_files \<Rightarrow> time \<Rightarrow> hwCollector \<Rightarrow> rat option \<times> hwCollector" where
  "readRAPLWatts rnd H now c =
     (case hf_read H (Join [hw_sysRoot c, ''class'', ''powercap'', ''intel-rapl:0'', ''energy_uj'']) of
        None \<Rightarrow> (None, c)
      | Some raw \<Rightarrow>
          (case ParseUint 64 (trim_space raw) of
             None \<Rightarrow> (None, c)
           | Some energy \<Rightarrow>
               (if \<not> hw_haveRAPL c \<or> energy < hw_prevEnergyUJ c then None
                else (case duration_Seconds rnd (time_sub now (hw_prevAt c)) of
                        Fin elapsed \<Rightarrow>
                          if elapsed \<le> 0 then None
                          else Some (rnd (rnd (rnd (of_nat (energy - hw_prevEnergyUJ c)) / 1000000) / elapsed))
                      | _ \<Rightarrow> None),
                c\<lparr>hw_prevEnergyUJ := energy, hw_prevAt := now, hw_haveRAPL := True\<rparr>)))"

text \<open>\<open>strconv.FormatFloat\<close> with two decimals, for values that are not negative.\<close>

definition fmt2 :: "rat \<Rightarrow> string" where
  "fmt2 x = (let n = nat (round_even (x * 100)) in itoa (n div 100) @ ''.'' @ pad_zeros 2 (itoa (n mod 100)))"

definition hardwareIdentityItems :: "(rat \<Rightarrow> rat) \<Rightarrow> host_files \<Rightarrow> time \<Rightarrow> hwCollector \<Rightarrow> inventoryItem list \<times> hwCollector" where
  "hardwareIdentityItems rnd H now c =
     (let dmi = Join [hw_sysRoot c, ''class'', ''dmi'', ''id''];
          board = concat (map (\<lambda>k. setIfPresent k (readTrimmed H (Join [dmi, k])))
            [''board_vendor'', ''board_name'', ''board_version'', ''bios_vendor'', ''bios_version'', ''bios_date'']);
          model = (case readCPUModel H (Join [hw_procRoot c, ''cpuinfo'']) of None \<Rightarrow> [] | Some m \<Rightarrow> [(''cpu_model'', m)]) in
      case readRAPLWatts rnd H now c of
        (w, c') \<Rightarrow>
          let attrs = board @ model @ (case w of None \<Rightarrow> [] | Some x \<Rightarrow> [(''cpu_power_watts'', fmt2 x)]) in
          (if attrs = [] then [] else [\<lparr>ii_id = ''system'', ii_name = ''system'', ii_attrs = attrs\<rparr>], c'))"

text \<open>
  The topology of \<open>faultcluster\<close>; the order of the list is the order in which the map is walked.  \<open>None\<close> stands for a list of
  processors up to the largest integer, on which reading never ends.
\<close>

definition cpuTopologyItems :: "(unit + topology) option \<Rightarrow> inventoryItem list option" where
  "cpuTopologyItems topo =
     map_option (\<lambda>r. case r of
        Inl _ \<Rightarrow> []
      | Inr t \<Rightarrow>
          map (\<lambda>(cpu, core). \<lparr>ii_id = ''cpu'' @ itoa_int cpu, ii_name = ''cpu'' @ itoa_int cpu,
                 ii_attrs = [(''core_id'', itoa_int core), (''online'', format_bool (map_of (tp_online t) cpu = Some True)),
                   (''core_type'', (case map_of (tp_type t) cpu of None \<Rightarrow> [] | Some ty \<Rightarrow> coreType_string ty))]\<rparr>) (tp_core t)) topo"

definition hwidentity_Collect ::
  "(rat \<Rightarrow> rat) \<Rightarrow> host_files \<Rightarrow> bool \<Rightarrow> time \<Rightarrow> hwCollector \<Rightarrow> (bool \<times> emission list \<times> hwCollector) option" where
  "hwidentity_Collect rnd H ctxDone now c =
     (if ctxDone then Some (False, [], c)
      else
        (case hardwareIdentityItems rnd H now c of (items, c') \<Rightarrow>
           map_option (\<lambda>cpus.
             (True,
              [EInventory \<lparr>in_hostID = hw_hostID c, in_kind = ''hardware_identity'', in_reportedAt = now, in_schema = CurrentSchemaVersion, in_items = items\<rparr>,
               EInventory \<lparr>in_hostID = hw_hostID c, in_kind = ''cpu_topology'', in_reportedAt = now, in_schema = CurrentSchemaVersion, in_items = cpus\<rparr>],
              c'))
             (cpuTopologyItems (ReadTopology (hf_dir H (Join [hw_sysRoot c, ''devices'', ''system'', ''cpu''])) (\<lambda>p. hf_read H (Join [hw_sysRoot c, p]))))))"

subsection \<open>Public exposure (publicsurface.go)\<close>

record surfaceCollector =
  sl_authLogPath :: string
  sl_fail2banStatusPath :: string
  sl_firewallRulesPath :: string
  sl_ovhTrafficPath :: string

definition firstConfiguredPath :: "host_files \<Rightarrow> config \<Rightarrow> string \<Rightarrow> string list \<Rightarrow> string" where
  "firstConfiguredPath H cfg key fallbacks =
     (case map_of cfg key of
        Some (ConfigString (c # v)) \<Rightarrow> c # v
      | _ \<Rightarrow> (case List.find (hf_stat H) fallbacks of
               Some f \<Rightarrow> f
             | None \<Rightarrow> (case fallbacks of [] \<Rightarrow> [] | f # _ \<Rightarrow> f)))"

definition surface_Init :: "host_files \<Rightarrow> config \<Rightarrow> surfaceCollector" where
  "surface_Init H cfg =
     \<lparr>sl_authLogPath = firstConfiguredPath H cfg ''auth_log_path'' [''/var/log/auth.log'', ''/var/log/secure''],
      sl_fail2banStatusPath = configuredPath cfg ''fail2ban_status_path'' ''/var/lib/bitacora/public-surface/fail2ban.json'',
      sl_firewallRulesPath = configuredPath cfg ''firewall_rules_path'' ''/var/lib/bitacora/public-surface/firewall.rules'',
      sl_ovhTrafficPath = configuredPath cfg ''ovh_traffic_path'' ''/var/lib/bitacora/public-surface/ovh-traffic.json''\<rparr>"

datatype file_state = FileMissing | FileUnreadable | FileHas string

datatype surface_error = AuthLogError | Fail2banError | FirewallError | OVHError

definition count_lines :: "(string \<Rightarrow> bool) \<Rightarrow> file_state \<Rightarrow> int option" where
  "count_lines p f =
     (case f of FileHas s \<Rightarrow> if scan_err s then None else Some (int (length (filter p (scan_lines s)))) | _ \<Rightarrow> None)"

definition countSSHFailures :: "file_state \<Rightarrow> int option" where
  "countSSHFailures = count_lines (\<lambda>line. contains line ''Failed password'' \<or> contains line ''Invalid user'')"

definition countFirewallRules :: "file_state \<Rightarrow> int option" where
  "countFirewallRules = count_lines (\<lambda>raw. let line = trim_space raw in line \<noteq> [] \<and> \<not> has_prefix line ''#'')"

text \<open>\<open>jails\<close> decodes the snapshot into the numbers of banned addresses.\<close>

definition readFail2BanStatus :: "(string \<Rightarrow> int list option) \<Rightarrow> file_state \<Rightarrow> (int \<times> int) option" where
  "readFail2BanStatus jails f =
     (case f of
        FileHas s \<Rightarrow> map_option (\<lambda>bs. (int (length bs), fold (\<lambda>b acc. if 0 < b then wrap64 (acc + b) else acc) bs 0)) (jails s)
      | _ \<Rightarrow> None)"

definition clamp_ratio :: "rat \<Rightarrow> rat" where
  "clamp_ratio r = (if r < 0 then 0 else if 1 < r then 1 else r)"

text \<open>\<open>traffic\<close> decodes the used and the permitted bytes; without a quota there is no ratio.\<close>

definition readOVHTrafficRatio :: "(rat \<Rightarrow> rat) \<Rightarrow> (string \<Rightarrow> (rat \<times> rat) option) \<Rightarrow> file_state \<Rightarrow> rat option option" where
  "readOVHTrafficRatio rnd traffic f =
     (case f of
        FileHas s \<Rightarrow> map_option (\<lambda>(used, quota). if quota \<le> 0 then None else Some (clamp_ratio (rnd (used / quota)))) (traffic s)
      | _ \<Rightarrow> None)"

record surface_env =
  sv_rnd :: "rat \<Rightarrow> rat"
  sv_jails :: "string \<Rightarrow> int list option"
  sv_traffic :: "string \<Rightarrow> (rat \<times> rat) option"

record surface_files =
  su_auth :: file_state
  su_fail2ban :: file_state
  su_firewall :: file_state
  su_ovh :: file_state

definition surface_gauge :: "surface_env \<Rightarrow> string \<Rightarrow> int \<Rightarrow> emission" where
  "surface_gauge E name n = EGauge name (Fin (sv_rnd E (of_int n))) []"

text \<open>A missing file is an error only for the log of logins.\<close>

definition surface_Collect :: "surface_env \<Rightarrow> bool \<Rightarrow> surface_files \<Rightarrow> surface_error list option \<times> emission list" where
  "surface_Collect E ctxDone F =
     (if ctxDone then (None, [])
      else
        let a = (case countSSHFailures (su_auth F) of
                   Some n \<Rightarrow> ([], [surface_gauge E ''bitacora_public_ssh_failed_logins_total'' n]) | None \<Rightarrow> ([AuthLogError], []));
            f = (case readFail2BanStatus (sv_jails E) (su_fail2ban F) of
                   Some (jails, banned) \<Rightarrow>
                     ([], [surface_gauge E ''bitacora_public_fail2ban_jails_total'' jails, surface_gauge E ''bitacora_public_fail2ban_banned_total'' banned])
                 | None \<Rightarrow> (if su_fail2ban F = FileMissing then [] else [Fail2banError], []));
            w = (case countFirewallRules (su_firewall F) of
                   Some n \<Rightarrow> ([], [surface_gauge E ''bitacora_public_firewall_rules_total'' n])
                 | None \<Rightarrow> (if su_firewall F = FileMissing then [] else [FirewallError], []));
            v = (case readOVHTrafficRatio (sv_rnd E) (sv_traffic E) (su_ovh F) of
                   Some (Some r) \<Rightarrow> ([], [EGauge ''bitacora_public_ovh_traffic_used_ratio'' (Fin r) []])
                 | Some None \<Rightarrow> ([], [])
                 | None \<Rightarrow> (if su_ovh F = FileMissing then [] else [OVHError], [])) in
        (Some (fst a @ fst f @ fst w @ fst v), snd a @ snd f @ snd w @ snd v))"

subsection \<open>Containers (docker.go, metadata.go)\<close>

record dockerCollector =
  dr_cgroupRoot :: string
  dr_metadata :: "string option"

text \<open>The client of the proxy is its base URL, without a slash at the end.\<close>

definition docker_Init :: "config \<Rightarrow> dockerCollector \<Rightarrow> dockerCollector" where
  "docker_Init cfg c =
     (let url = configuredPath cfg ''docker_socket_proxy_url'' [] in
      \<lparr>dr_cgroupRoot = configuredPath cfg ''cgroup_root'' ''/sys/fs/cgroup/system.slice'',
       dr_metadata = (if url \<noteq> [] then Some (trim_suffix url ''/'') else dr_metadata c)\<rparr>)"

definition labelsFor :: "string \<Rightarrow> (string \<times> string) list \<Rightarrow> labels" where
  "labelsFor fullID names =
     (let short = take 12 fullID; given = lget names fullID; name = (if given = [] then short else given) in
      [(''container_id'', short), (''container_name'', name)])"

text \<open>The entries of the directory with whether each is a directory; a missing directory lists as empty.\<close>

definition listContainerScopes :: "(string \<times> bool) list option \<Rightarrow> string list option" where
  "listContainerScopes entries =
     map_option (\<lambda>es. concat (map (\<lambda>(name, isDir).
        if isDir \<and> has_prefix name ''docker-'' \<and> has_suffix name ''.scope''
        then [trim_suffix (trim_prefix name ''docker-'') ''.scope''] else []) es)) entries"

fun usage_lines :: "(rat \<Rightarrow> rat) \<Rightarrow> (string \<Rightarrow> gofloat option) \<Rightarrow> string list \<Rightarrow> gofloat option" where
  "usage_lines rnd parse [] = None"
| "usage_lines rnd parse (l # ls) =
     (let fs = Fields l in
      if length fs = 2 \<and> fs ! 0 = ''usage_usec''
      then map_option (\<lambda>x. case x of Fin u \<Rightarrow> Fin (rnd (u / 1000000)) | y \<Rightarrow> y) (parse (fs ! 1))
      else usage_lines rnd parse ls)"

definition readCPUUsageSeconds :: "(rat \<Rightarrow> rat) \<Rightarrow> (string \<Rightarrow> gofloat option) \<Rightarrow> host_files \<Rightarrow> string \<Rightarrow> gofloat option" where
  "readCPUUsageSeconds rnd parse H scopeDir =
     (case hf_read H (Join [scopeDir, ''cpu.stat'']) of None \<Rightarrow> None | Some raw \<Rightarrow> usage_lines rnd parse (split_on nl raw))"

definition readMemoryCurrent :: "host_files \<Rightarrow> string \<Rightarrow> int option" where
  "readMemoryCurrent H scopeDir =
     (case hf_read H (Join [scopeDir, ''memory.current'']) of None \<Rightarrow> None | Some raw \<Rightarrow> Atoi (trim_space raw))"

text \<open>The answer of the proxy: \<open>None\<close> for an error or a status other than 200; otherwise identifiers with their names.\<close>

definition ContainerNames :: "(string \<times> string list) list option \<Rightarrow> (string \<times> string) list option" where
  "ContainerNames answer =
     map_option (\<lambda>es. fold (\<lambda>(i, ns) names. if ns = [] then names else AList.update i (trim_prefix (hd ns) ''/'') names) es []) answer"

definition container_emissions ::
  "(rat \<Rightarrow> rat) \<Rightarrow> (string \<Rightarrow> gofloat option) \<Rightarrow> host_files \<Rightarrow> string \<Rightarrow> (string \<times> string) list \<Rightarrow> string \<Rightarrow> emission list" where
  "container_emissions rnd parse H root_dir names i =
     (let scopeDir = Join [root_dir, ''docker-'' @ i @ ''.scope'']; ls = labelsFor i names in
      (case readCPUUsageSeconds rnd parse H scopeDir of None \<Rightarrow> [] | Some u \<Rightarrow> [ECounter ''bitacora_container_cpu_seconds_total'' u ls]) @
      (case readMemoryCurrent H scopeDir of None \<Rightarrow> [] | Some b \<Rightarrow> [EGauge ''bitacora_container_memory_bytes'' (Fin (rnd (of_int b))) ls]))"

text \<open>\<open>proxy\<close> is \<open>None\<close> when no proxy is configured.\<close>

definition docker_Collect ::
  "(rat \<Rightarrow> rat) \<Rightarrow> (string \<Rightarrow> gofloat option) \<Rightarrow> host_files \<Rightarrow> (string \<times> bool) list option \<Rightarrow> (string \<times> string list) list option option \<Rightarrow>
   bool \<Rightarrow> string \<Rightarrow> bool \<times> emission list" where
  "docker_Collect rnd parse H entries proxy ctxDone cgroupRoot =
     (if ctxDone then (False, [])
      else
        (case listContainerScopes entries of
           None \<Rightarrow> (False, [])
         | Some ids \<Rightarrow>
             let names = (case proxy of None \<Rightarrow> [] | Some answer \<Rightarrow> (case ContainerNames answer of None \<Rightarrow> [] | Some ns \<Rightarrow> ns)) in
             (True, concat (map (container_emissions rnd parse H cgroupRoot names) ids))))"

record image =
  im_repoTag :: string
  im_repoDigest :: string

definition firstRealTag :: "string list \<Rightarrow> string" where
  "firstRealTag tags = (case List.find (\<lambda>t. t \<noteq> [] \<and> t \<noteq> ''<none>:<none>'') tags of None \<Rightarrow> [] | Some t \<Rightarrow> t)"

fun firstDigest :: "string list \<Rightarrow> string" where
  "firstDigest [] = []"
| "firstDigest (d # ds) = (case cut_first (CHR ''@'') d of Some (_, x) \<Rightarrow> if x \<noteq> [] then x else firstDigest ds | None \<Rightarrow> firstDigest ds)"

definition Images :: "(string list \<times> string list) list option \<Rightarrow> image list option" where
  "Images answer =
     map_option (\<lambda>es. concat (map (\<lambda>(tags, digests).
        let t = firstRealTag tags; d = firstDigest digests in
        if t = [] \<or> d = [] then [] else [\<lparr>im_repoTag = t, im_repoDigest = d\<rparr>]) es)) answer"

section \<open>A power supply is reported as the server describes it\<close>

definition word_ok :: "string \<Rightarrow> bool" where
  "word_ok s \<longleftrightarrow> s \<noteq> [] \<and> list_all (\<lambda>c. \<not> is_space c) s"

definition quoted :: "string \<Rightarrow> string" where
  "quoted s = CHR 0x22 # s @ [CHR 0x22]"

text \<open>What a server answers, with its line ends.\<close>

definition ups_line :: "string \<Rightarrow> string" where
  "ups_line n = ''UPS '' @ n @ '' '' @ quoted ''description'' @ [nl]"

definition ups_begin :: string where
  "ups_begin = ''BEGIN LIST UPS'' @ [nl]"

definition ups_end :: string where
  "ups_end = ''END LIST UPS'' @ [nl]"

definition var_line :: "string \<Rightarrow> string \<times> string \<Rightarrow> string" where
  "var_line n kv = ''VAR '' @ n @ '' '' @ fst kv @ '' '' @ quoted (snd kv) @ [nl]"

definition var_begin :: "string \<Rightarrow> string" where
  "var_begin n = ''BEGIN LIST VAR '' @ n @ [nl]"

definition var_end :: "string \<Rightarrow> string" where
  "var_end n = ''END LIST VAR '' @ n @ [nl]"

definition ups_reply :: "string list \<Rightarrow> string list" where
  "ups_reply ns = ups_begin # map ups_line ns @ [ups_end]"

definition var_reply :: "string \<times> labels \<Rightarrow> string list" where
  "var_reply u = var_begin (fst u) # map (var_line (fst u)) (snd u) @ [var_end (fst u)]"

definition ups_ok :: "string \<times> labels \<Rightarrow> bool" where
  "ups_ok u \<longleftrightarrow> word_ok (fst u) \<and> is_map (snd u) \<and>
     list_all (\<lambda>(k, v). word_ok k \<and> (v = [] \<or> hd v \<noteq> CHR 0x22 \<and> last v \<noteq> CHR 0x22)) (snd u)"

lemma trim_line: "l \<noteq> [] \<Longrightarrow> \<not> is_space (hd l) \<Longrightarrow> \<not> is_space (last l) \<Longrightarrow> trim_space (l @ [nl]) = l"
proof -
  assume a: "l \<noteq> []" "\<not> is_space (hd l)" "\<not> is_space (last l)"
  have "dropWhile is_space (l @ [nl]) = l @ [nl]" using a(1,2) by (cases l) auto
  moreover have "is_space nl" by (simp add: is_space_def nl_def)
  moreover have "dropWhile is_space (rev l) = rev l" using a(1,3) by (cases l rule: rev_cases) auto
  ultimately show ?thesis by (simp add: trim_space_def)
qed

lemma word_no_blank: "word_ok w \<Longrightarrow> CHR '' '' \<notin> set w"
  by (auto simp: word_ok_def list_all_iff is_space_def)

lemma quoted_space [simp]: "\<not> is_space (last (quoted v))" "quoted v \<noteq> []"
  by (simp_all add: quoted_def is_space_def)

lemma unquote_quoted: "v = [] \<or> hd v \<noteq> CHR 0x22 \<and> last v \<noteq> CHR 0x22 \<Longrightarrow> trim_char (CHR 0x22) (quoted v) = v"
proof -
  assume a: "v = [] \<or> hd v \<noteq> CHR 0x22 \<and> last v \<noteq> CHR 0x22"
  show ?thesis
  proof (cases "v = []")
    case True
    then show ?thesis by (simp add: trim_char_def quoted_def)
  next
    case False
    with a have "dropWhile ((=) (CHR 0x22)) (v @ [CHR 0x22]) = v @ [CHR 0x22]" "dropWhile ((=) (CHR 0x22)) (rev v) = rev v"
      by (cases v, auto, cases v rule: rev_cases, auto)
    then show ?thesis by (simp add: trim_char_def quoted_def)
  qed
qed

lemma split3: "CHR '' '' \<notin> set a \<Longrightarrow> CHR '' '' \<notin> set b \<Longrightarrow> split_n 3 (CHR '' '') (a @ CHR '' '' # b @ CHR '' '' # c) = [a, b, c]"
  by (simp add: numeral_3_eq_3)

lemma split4:
  "CHR '' '' \<notin> set a \<Longrightarrow> CHR '' '' \<notin> set b \<Longrightarrow> CHR '' '' \<notin> set c \<Longrightarrow>
   split_n 4 (CHR '' '') (a @ CHR '' '' # b @ CHR '' '' # c @ CHR '' '' # d) = [a, b, c, d]"
  by (simp add: eval_nat_numeral)

lemma names_step:
  assumes "word_ok n"
  shows "listUPSNames acc (ups_line n # ls) = listUPSNames (acc @ [n]) ls"
proof -
  let ?l = "''UPS'' @ CHR '' '' # n @ CHR '' '' # quoted ''description''"
  have "trim_space (ups_line n) = trim_space (?l @ [nl])" by (simp add: ups_line_def)
  also have "\<dots> = ?l" by (rule trim_line) (simp_all add: is_space_def quoted_def)
  finally have t: "trim_space (ups_line n) = ?l" .
  moreover have "split_n 3 (CHR '' '') ?l = [''UPS'', n, quoted ''description'']" using word_no_blank [OF assms] by (intro split3) auto
  ultimately show ?thesis by (simp add: has_prefix_def)
qed

lemma vars_step:
  assumes "word_ok n" "word_ok k" "v = [] \<or> hd v \<noteq> CHR 0x22 \<and> last v \<noteq> CHR 0x22"
  shows "listUPSVars vars (var_line n (k, v) # ls) = listUPSVars (AList.update k v vars) ls"
proof -
  let ?l = "''VAR'' @ CHR '' '' # n @ CHR '' '' # k @ CHR '' '' # quoted v"
  have "trim_space (var_line n (k, v)) = trim_space (?l @ [nl])" by (simp add: var_line_def)
  also have "\<dots> = ?l" by (rule trim_line) (simp_all add: is_space_def quoted_def)
  finally have t: "trim_space (var_line n (k, v)) = ?l" .
  moreover have "split_n 4 (CHR '' '') ?l = [''VAR'', n, k, quoted v]" using word_no_blank assms by (intro split4) auto
  ultimately show ?thesis using unquote_quoted [OF assms(3)] by (simp add: has_prefix_def)
qed

lemma marks:
  "listUPSNames acc (ups_begin # ls) = listUPSNames acc ls" "listUPSNames acc (ups_end # ls) = (Some acc, ls)"
  "word_ok n \<Longrightarrow> listUPSVars vars (var_begin n # ls) = listUPSVars vars ls"
  "word_ok n \<Longrightarrow> listUPSVars vars (var_end n # ls) = (Some vars, ls)"
proof -
  have "trim_space ups_begin = ''BEGIN LIST UPS''" "trim_space ups_end = ''END LIST UPS''"
    unfolding ups_begin_def ups_end_def by (intro trim_line; simp add: is_space_def)+
  then show "listUPSNames acc (ups_begin # ls) = listUPSNames acc ls" "listUPSNames acc (ups_end # ls) = (Some acc, ls)"
    by (simp_all add: has_prefix_def)
  assume n: "word_ok n"
  have l: "\<not> is_space (last (s @ n))" for s using n by (simp add: word_ok_def list_all_iff)
  have "trim_space ((''BEGIN LIST VAR '' @ n) @ [nl]) = ''BEGIN LIST VAR '' @ n"
    by (rule trim_line) (use l [of "''BEGIN LIST VAR ''"] in \<open>simp_all add: is_space_def\<close>)
  then show "listUPSVars vars (var_begin n # ls) = listUPSVars vars ls" by (simp add: has_prefix_def var_begin_def)
  have "trim_space ((''END LIST VAR '' @ n) @ [nl]) = ''END LIST VAR '' @ n"
    by (rule trim_line) (use l [of "''END LIST VAR ''"] in \<open>simp_all add: is_space_def\<close>)
  then show "listUPSVars vars (var_end n # ls) = (Some vars, ls)" by (simp add: has_prefix_def var_end_def)
qed

declare listUPSNames.simps(2) [simp del] listUPSVars.simps(2) [simp del]

lemma names_reply: "list_all word_ok ns \<Longrightarrow> listUPSNames [] (ups_reply ns @ ls) = (Some ns, ls)"
proof -
  have "list_all word_ok ns \<Longrightarrow> listUPSNames acc (map ups_line ns @ ups_end # ls) = (Some (acc @ ns), ls)" for acc
    by (induction ns arbitrary: acc) (simp_all add: marks names_step)
  then show "list_all word_ok ns \<Longrightarrow> ?thesis" by (simp add: ups_reply_def marks)
qed

lemma var_reply_read:
  assumes "ups_ok u"
  shows "listUPSVars [] (var_reply u @ ls) = (Some (snd u), ls)"
proof -
  have n: "word_ok (fst u)" using assms by (simp add: ups_ok_def)
  have "listUPSVars vars (map (var_line (fst u)) kvs @ var_end (fst u) # ls) = (Some (fold (\<lambda>(k, v) out. AList.update k v out) kvs vars), ls)"
    if "list_all (\<lambda>(k, v). word_ok k \<and> (v = [] \<or> hd v \<noteq> CHR 0x22 \<and> last v \<noteq> CHR 0x22)) kvs" for vars kvs
    using that by (induction kvs arbitrary: vars) (auto simp: marks n vars_step [OF n])
  moreover have "fold (\<lambda>(k, v) out. AList.update k v out) (snd u) [] = snd u"
    using cloneLabels_id [of "snd u"] assms by (simp add: ups_ok_def cloneLabels_def)
  ultimately show ?thesis using assms by (simp add: var_reply_def marks n ups_ok_def)
qed

lemma ups_items_all:
  "list_all ups_ok sups \<Longrightarrow>
   ups_items (\<lambda>_. True) (map fst sups) (concat (map var_reply sups)) = map (\<lambda>u. buildItem (fst u) (snd u)) sups"
  by (induction sups) (simp_all add: var_reply_read)

text \<open>
  A power supply is reported as the server describes it: from the answers of a server, whatever supplies and variables it
  lists, as long as names hold no white space and values neither begin nor end with a quote, the collector reads back exactly the supplies,
  in order, each with the values of its variables; and every one can be stored.
\<close>

theorem ups_snapshot:
  assumes "list_all ups_ok sups"
  shows "readNUT (\<lambda>_. True) (Some (ups_reply (map fst sups) @ concat (map var_reply sups))) =
      Some (map (\<lambda>u. buildItem (fst u) (snd u)) sups) \<and>
    (h \<noteq> [] \<and> \<not> is_zero_time t \<longrightarrow>
       list_all (hub_accepts h t) (snd (ups_Collect (\<lambda>_. True) (Some (ups_reply (map fst sups) @ concat (map var_reply sups))) False hostID t)))"
proof -
  have w: "list_all word_ok (map fst sups)" using assms by (simp add: list_all_iff ups_ok_def)
  have r: "readNUT (\<lambda>_. True) (Some (ups_reply (map fst sups) @ concat (map var_reply sups))) = Some (map (\<lambda>u. buildItem (fst u) (snd u)) sups)"
    by (simp add: readNUT_def names_reply [OF w] ups_items_all [OF assms])
  moreover have "ii_id (buildItem (fst u) (snd u)) \<noteq> []" if "u \<in> set sups" for u
    using that assms by (auto simp: buildItem_def ups_ok_def word_ok_def list_all_iff)
  ultimately show ?thesis by (auto simp: ups_Collect_def intro!: hub_accepts_inventory)
qed

section \<open>Counters and containers\<close>

lemma unlabelled_accepted:
  assumes "h \<noteq> []" "\<not> is_zero_time t" "has_prefix n ''bitacora_''" "has_suffix n ''_total''"
  shows "hub_accepts h t (EGauge n v [])"
proof -
  have "\<not> has_suffix n ''_ratio''" using assms(4) by (auto simp: has_suffix_def)
  then show ?thesis using assms by (intro metric_accepted) (auto simp: is_map_def allowedUnitSuffixes_def)
qed

lemma surface_accepted:
  assumes "h \<noteq> []" "\<not> is_zero_time t"
  shows "list_all (hub_accepts h t) (snd (surface_Collect E ctxDone F))"
proof -
  have g: "hub_accepts h t (surface_gauge E n x)" if "has_prefix n ''bitacora_''" "has_suffix n ''_total''" for n x
    unfolding surface_gauge_def using that by (rule unlabelled_accepted [OF assms])
  have g1: "hub_accepts h t (surface_gauge E ''bitacora_public_ssh_failed_logins_total'' x)"
    "hub_accepts h t (surface_gauge E ''bitacora_public_firewall_rules_total'' x)"
    "hub_accepts h t (surface_gauge E ''bitacora_public_fail2ban_jails_total'' x)"
    "hub_accepts h t (surface_gauge E ''bitacora_public_fail2ban_banned_total'' x)" for x
    by (rule g; simp add: has_prefix_def has_suffix_def)+
  have "0 \<le> clamp_ratio x \<and> clamp_ratio x \<le> 1" for x by (simp add: clamp_ratio_def)
  then have r: "hub_accepts h t (EGauge ''bitacora_public_ovh_traffic_used_ratio'' (Fin (clamp_ratio x)) [])" for x
    using assms by (intro metric_accepted) (simp_all add: is_map_def has_prefix_def has_suffix_def allowedUnitSuffixes_def not_less)
  have ovh: "hub_accepts h t (EGauge ''bitacora_public_ovh_traffic_used_ratio'' (Fin x) [])"
    if "readOVHTrafficRatio rnd tr f = Some (Some x)" for x rnd tr f
    using that r by (auto simp: readOVHTrafficRatio_def split: file_state.splits if_splits)
  have one: "list_all (hub_accepts h t) (snd (case x of None \<Rightarrow> (e, []) | Some n \<Rightarrow> ([], [surface_gauge E m n])))"
    if "\<And>n. hub_accepts h t (surface_gauge E m n)" for x e m
    using that by (cases x) simp_all
  have two: "list_all (hub_accepts h t) (snd (case x of None \<Rightarrow> (e, []) | Some (j, b) \<Rightarrow>
      ([], [surface_gauge E ''bitacora_public_fail2ban_jails_total'' j, surface_gauge E ''bitacora_public_fail2ban_banned_total'' b])))" for x e
    by (cases x) (simp_all add: g1 split: prod.split)
  have four: "list_all (hub_accepts h t) (snd (case readOVHTrafficRatio rnd tr f of None \<Rightarrow> (e, []) | Some None \<Rightarrow> ([], [])
      | Some (Some x) \<Rightarrow> ([], [EGauge ''bitacora_public_ovh_traffic_used_ratio'' (Fin x) []])))" for rnd tr f e
    using ovh by (auto split: option.split)
  show ?thesis
  proof (cases ctxDone)
    case False
    then show ?thesis
      unfolding surface_Collect_def Let_def if_not_P [OF False] snd_conv list_all_append by (intro conjI one two four g1)
  qed (simp add: surface_Collect_def)
qed

definition plain_id :: "string \<Rightarrow> bool" where
  "plain_id s \<longleftrightarrow> list_all (\<lambda>c. c \<notin> set ''.:%/'') s"

lemma plain_id_label: "plain_id s \<Longrightarrow> ParseIP s = None \<and> count_list s (CHR ''/'') = 0"
  by (intro conjI ParseIP_plain) (auto simp: plain_id_def list_all_iff count_list_0_iff)

lemma container_metric:
  assumes "h \<noteq> []" "\<not> is_zero_time t" "plain_id i" "lget names i = [] \<or> ParseIP (lget names i) = None \<and> count_list (lget names i) (CHR ''/'') < 2"
    and "n \<in> {''bitacora_container_cpu_seconds_total'', ''bitacora_container_memory_bytes''}"
  shows "hub_accepts h t (EGauge n v (labelsFor i names)) \<and> hub_accepts h t (ECounter n v (labelsFor i names))"
proof -
  have "plain_id (take 12 i)" using assms(3) in_set_takeD unfolding plain_id_def list_all_iff by fast
  note s = plain_id_label [OF this]
  let ?name = "if lget names i = [] then take 12 i else lget names i"
  have ls: "labelsFor i names = [(''container_id'', take 12 i), (''container_name'', ?name)]" by (simp add: labelsFor_def Let_def)
  have m: "is_map (labelsFor i names)" by (simp add: ls is_map_def)
  have nm: "ParseIP ?name = None" "count_list ?name (CHR ''/'') < 2" using assms(4) s by auto
  have c: "hub_accepts h t (ECounter n v (labelsFor i names)) = hub_accepts h t (EGauge n v (labelsFor i names))"
    by (simp add: hub_accepts_def sink_items_def)
  have pre: "has_prefix n ''bitacora_''" "\<exists>s\<in>set allowedUnitSuffixes. has_suffix n s" "\<not> has_suffix n ''_ratio''"
    using assms(5) by (auto simp: has_prefix_def has_suffix_def allowedUnitSuffixes_def)
  have "hub_accepts h t (EGauge n v (labelsFor i names))"
    unfolding hub_accepts_gauge [OF m] metric_validate_iff using assms(1,2) pre s nm by (simp add: ls)
  with c show ?thesis by simp
qed

text \<open>
  What the collectors of public exposure and of containers measure reaches the store: every gauge about logins, bans, firewall
  rules and traffic passes the validation, with the traffic as a ratio between zero and one whatever the snapshot says; and so do processor
  time and memory of every container, with or without the proxy, as long as no name looks like an address or a path.
\<close>

theorem surface_and_containers_accepted:
  assumes "h \<noteq> []" "\<not> is_zero_time t"
    and "\<And>name. (name, True) \<in> set es \<Longrightarrow> plain_id (trim_suffix (trim_prefix name ''docker-'') ''.scope'')"
    and "\<And>names i. ContainerNames answer = Some names \<Longrightarrow> lget names i = [] \<or> ParseIP (lget names i) = None \<and> count_list (lget names i) (CHR ''/'') < 2"
    and "proxy = None \<or> proxy = Some answer"
  shows "list_all (hub_accepts h t) (snd (surface_Collect E ctxDone F)) \<and>
    list_all (hub_accepts h t) (snd (docker_Collect rnd parse H (Some es) proxy ctxDone root_dir))"
proof
  show "list_all (hub_accepts h t) (snd (surface_Collect E ctxDone F))" by (rule surface_accepted [OF assms(1,2)])
  let ?names = "case proxy of None \<Rightarrow> [] | Some answer \<Rightarrow> (case ContainerNames answer of None \<Rightarrow> [] | Some ns \<Rightarrow> ns)"
  have nm: "lget ?names i = [] \<or> ParseIP (lget ?names i) = None \<and> count_list (lget ?names i) (CHR ''/'') < 2" for i
  proof (cases "proxy = Some answer \<and> ContainerNames answer \<noteq> None")
    case True
    then obtain ns where "ContainerNames answer = Some ns" by blast
    with True assms(4) [OF this] show ?thesis by simp
  next
    case False
    then have "?names = []" using assms(5) by auto
    then show ?thesis by (simp add: lget_def)
  qed
  have e: "list_all (hub_accepts h t) (container_emissions rnd parse H root_dir ?names i)" if "plain_id i" for i
    unfolding container_emissions_def Let_def using container_metric [OF assms(1,2) that nm] by (simp split: option.split)
  have "list_all plain_id (concat (map (\<lambda>(name, isDir).
        if isDir \<and> has_prefix name ''docker-'' \<and> has_suffix name ''.scope''
        then [trim_suffix (trim_prefix name ''docker-'') ''.scope''] else []) es))"
    using assms(3) by (auto simp: list_all_iff split: if_splits)
  then show "list_all (hub_accepts h t) (snd (docker_Collect rnd parse H (Some es) proxy ctxDone root_dir))"
    unfolding docker_Collect_def listContainerScopes_def Let_def using e by (fastforce simp: list_all_iff)
qed

lemma hwidentity_accepted:
  assumes "h \<noteq> []" "\<not> is_zero_time t" "hwidentity_Collect rnd H ctxDone t c = Some (ok, out, c')"
  shows "list_all (hub_accepts h t) out"
proof -
  have items: "x \<in> set (fst (hardwareIdentityItems rnd H t c)) \<Longrightarrow> ii_id x \<noteq> []" for x
    by (auto simp: hardwareIdentityItems_def Let_def split: prod.splits if_splits)
  have cpus: "cpuTopologyItems topo = Some is \<Longrightarrow> x \<in> set is \<Longrightarrow> ii_id x \<noteq> []" for topo "is" x
  proof (cases topo)
    case (Some r)
    assume "cpuTopologyItems topo = Some is" "x \<in> set is"
    then show ?thesis using Some by (cases r) (auto simp: cpuTopologyItems_def)
  qed (simp add: cpuTopologyItems_def)
  show ?thesis
    using assms(3) items cpus
    by (auto simp: hwidentity_Collect_def intro!: hub_accepts_inventory [OF assms(1,2)] split: if_splits prod.splits)
qed

section \<open>Witnesses\<close>

theorem ups_snapshot_witness:
  "readNUT (\<lambda>_. True) (Some (ups_reply [''apc''] @ var_reply (''apc'', [(''ups.status'', ''OL CHRG''), (''battery.charge'', ''97'')]))) =
     Some [buildItem ''apc'' [(''ups.status'', ''OL CHRG''), (''battery.charge'', ''97'')]]"
  using ups_snapshot [of "[(''apc'', [(''ups.status'', ''OL CHRG''), (''battery.charge'', ''97'')])]"]
  by (simp add: ups_ok_def word_ok_def is_map_def is_space_def)

theorem surface_and_containers_accepted_witness:
  "list_all (hub_accepts ''h'' 1) (snd (docker_Collect (\<lambda>x. x) (\<lambda>_. None) \<lparr>hf_stat = (\<lambda>_. True), hf_read = (\<lambda>_. Some ''42''), hf_dir = (\<lambda>_. None)\<rparr>
     (Some [(''docker-0a1b.scope'', True)]) None False ''/cg'')) \<and>
   listContainerScopes (Some [(''docker-0a1b.scope'', True)]) = Some [''0a1b'']"
proof -
  have i: "trim_suffix (trim_prefix ''docker-0a1b.scope'' ''docker-'') ''.scope'' = ''0a1b''" "has_prefix ''docker-0a1b.scope'' ''docker-''"
    "has_suffix ''docker-0a1b.scope'' ''.scope''" by code_simp+
  then have "listContainerScopes (Some [(''docker-0a1b.scope'', True)]) = Some [''0a1b'']" by (simp add: listContainerScopes_def)
  moreover have "plain_id ''0a1b''" by code_simp
  ultimately show ?thesis
    using surface_and_containers_accepted [of "''h''" 1 "[(''docker-0a1b.scope'', True)]" None None] i
    by (simp add: is_zero_time_def time_zero_def ContainerNames_def)
qed

end
