(* ===== verification/Journald.thy ===== *)
theory Journald
  imports Collect Wal_Inv
begin

text \<open>
  The collector of the systemd journal, \<open>internal/collector/journald\<close>.  The journal reader is the list of what its calls of
  \<open>Next\<close> will return; a call past the end of the list finds nothing new.  The cursor is kept in a file on the disk of \<open>Wal\<close>.
\<close>

record journalEntry =
  je_fields :: labels
  je_realtimeUsec :: int
  je_cursor :: string

datatype next_result = NextEntry journalEntry | NextNothing | NextError

type_synonym reader = "next_result list"

definition maxEntriesPerCollect :: nat where
  "maxEntriesPerCollect = 500"

record journalCollector =
  jc_cursorPath :: string
  jc_hostID :: string
  jc_cursor :: string

definition logLineSource :: "string \<Rightarrow> string" where
  "logLineSource transport = (if transport = [] then ''journald'' else transport)"

definition journalLevels :: "(string \<times> string) list" where
  "journalLevels = [(''0'', ''emerg''), (''1'', ''alert''), (''2'', ''critical''), (''3'', ''error''), (''4'', ''warning''), (''5'', ''notice''),
     (''6'', ''info''), (''7'', ''debug'')]"

definition priorityToLevel :: "string \<Rightarrow> string" where
  "priorityToLevel p = (case map_of journalLevels p of None \<Rightarrow> ''info'' | Some l \<Rightarrow> l)"

text \<open>The time of an entry is an unsigned number of microseconds that is converted to a signed one.\<close>

definition entryToLogLine :: "string \<Rightarrow> journalEntry \<Rightarrow> logLine" where
  "entryToLogLine hostID e =
     (let unit = (if lget (je_fields e) ''_SYSTEMD_UNIT'' = [] then lget (je_fields e) ''SYSLOG_IDENTIFIER'' else lget (je_fields e) ''_SYSTEMD_UNIT'') in
      \<lparr>ll_ts = wrap64 (je_realtimeUsec e) * 1000, ll_hostID = hostID, ll_source = logLineSource (lget (je_fields e) ''_TRANSPORT''),
       ll_stream = [], ll_unitOrContainer = unit, ll_level = priorityToLevel (lget (je_fields e) ''PRIORITY''),
       ll_pid = parse_int_lenient (lget (je_fields e) ''_PID''), ll_message = lget (je_fields e) ''MESSAGE''\<rparr>)"

text \<open>\<open>MkdirAll\<close>, \<open>CreateTemp\<close>, \<open>WriteString\<close>, \<open>Sync\<close>, \<open>Close\<close> and \<open>Rename\<close>; the temporary file is not shown.\<close>

definition persistCursor :: "string \<Rightarrow> string \<Rightarrow> disk \<Rightarrow> bool \<times> disk" where
  "persistCursor path cursor d =
     (case calls 6 d of (False, d1) \<Rightarrow> (False, d1) | (True, d1) \<Rightarrow> (True, put_file path cursor d1))"

text \<open>The loop: \<open>n\<close> turns are left, \<open>i\<close> is the number of the turn; the entries read so far, and why the loop stopped early.\<close>

datatype loop_end = LoopDone | LoopCancelled | LoopReadError

fun journal_loop :: "(nat \<Rightarrow> bool) \<Rightarrow> nat \<Rightarrow> nat \<Rightarrow> reader \<Rightarrow> journalEntry list \<Rightarrow> loop_end \<times> journalEntry list \<times> reader" where
  "journal_loop ctxDone 0 i rd acc = (LoopDone, acc, rd)"
| "journal_loop ctxDone (Suc n) i rd acc =
     (if ctxDone i then (LoopCancelled, acc, rd)
      else
        (case rd of
           [] \<Rightarrow> (LoopDone, acc, [])
         | NextEntry e # rd' \<Rightarrow> journal_loop ctxDone n (Suc i) rd' (acc @ [e])
         | NextNothing # rd' \<Rightarrow> (LoopDone, acc, rd')
         | NextError # rd' \<Rightarrow> (LoopReadError, acc, rd')))"

datatype journal_error = JournalCancelled | ReadingEntry | PersistingCursor | ReadingCursor | OpeningJournal

definition journald_Collect ::
  "(nat \<Rightarrow> bool) \<Rightarrow> journalCollector \<Rightarrow> reader \<Rightarrow> disk \<Rightarrow> journal_error option \<times> emission list \<times> journalCollector \<times> reader \<times> disk" where
  "journald_Collect ctxDone c rd d =
     (case journal_loop ctxDone maxEntriesPerCollect 0 rd [] of
        (LoopCancelled, _, rd') \<Rightarrow> (Some JournalCancelled, [], c, rd', d)
      | (LoopReadError, _, rd') \<Rightarrow> (Some ReadingEntry, [], c, rd', d)
      | (LoopDone, es, rd') \<Rightarrow>
          let out = (if es \<noteq> [] then [ELogLines ''journald'' (map (entryToLogLine (jc_hostID c)) es)] else []);
              lastCursor = (if es = [] then jc_cursor c else je_cursor (last es)) in
          if lastCursor \<noteq> [] \<and> lastCursor \<noteq> jc_cursor c
          then (case persistCursor (jc_cursorPath c) lastCursor d of
                  (False, d') \<Rightarrow> (Some PersistingCursor, out, c, rd', d')
                | (True, d') \<Rightarrow> (None, out, c\<lparr>jc_cursor := lastCursor\<rparr>, rd', d'))
          else (None, out, c, rd', d))"

text \<open>\<open>open\<close> opens the journal behind a cursor.\<close>

definition journald_Init ::
  "(string \<Rightarrow> reader option) \<Rightarrow> config \<Rightarrow> string option \<Rightarrow> journalCollector \<Rightarrow> disk \<Rightarrow> (journal_error + journalCollector \<times> reader) \<times> disk" where
  "journald_Init open_journal cfg host c0 d =
     (let c = c0\<lparr>jc_hostID := (case host of None \<Rightarrow> jc_hostID c0 | Some h \<Rightarrow> h),
                jc_cursorPath := configuredPath cfg ''cursor_path'' ''/var/lib/bitacora/journald.cursor''\<rparr> in
      case read_file (jc_cursorPath c) d of
        (Inl e, d') \<Rightarrow>
          if e = ENoEnt
          then (case open_journal (jc_cursor c) of None \<Rightarrow> (Inl OpeningJournal, d') | Some rd \<Rightarrow> (Inr (c, rd), d'))
          else (Inl ReadingCursor, d')
      | (Inr raw, d') \<Rightarrow>
          (case open_journal raw of None \<Rightarrow> (Inl OpeningJournal, d') | Some rd \<Rightarrow> (Inr (c\<lparr>jc_cursor := raw\<rparr>, rd), d')))"

section \<open>What is read is handed on\<close>

lemma journal_loop_done:
  assumes "journal_loop ctxDone n i rd acc = (LoopDone, es, rd')"
  shows "\<exists>xs. es = acc @ xs \<and> length xs \<le> n \<and>
    (rd = map NextEntry xs @ rd' \<and> length xs = n \<or> rd = map NextEntry xs \<and> rd' = [] \<or> rd = map NextEntry xs @ NextNothing # rd')"
  using assms
proof (induction ctxDone n i rd acc rule: journal_loop.induct)
  case (2 ctxDone n i rd acc)
  show ?case
  proof (cases rd)
    case Nil
    with 2 show ?thesis by (auto split: if_splits)
  next
    case (Cons r rd1)
    have nd: "\<not> ctxDone i" using "2.prems" by (auto split: if_splits)
    show ?thesis
    proof (cases r)
      case (NextEntry e)
      with "2.prems" Cons nd have "journal_loop ctxDone n (Suc i) rd1 (acc @ [e]) = (LoopDone, es, rd')" by simp
      from "2.IH" [OF nd Cons NextEntry this] obtain xs where x: "es = acc @ e # xs" "length xs \<le> n"
        "rd1 = map NextEntry xs @ rd' \<and> length xs = n \<or> rd1 = map NextEntry xs \<and> rd' = [] \<or> rd1 = map NextEntry xs @ NextNothing # rd'" by auto
      then show ?thesis unfolding Cons NextEntry by (intro exI [of _ "e # xs"]) auto
    qed (use "2.prems" Cons nd in auto)
  qed
qed simp

lemma persistCursorD:
  "persistCursor p x d = (ok, d') \<Longrightarrow> content d' = (if ok then (content d)(p \<mapsto> x) else content d)"
proof -
  assume p: "persistCursor p x d = (ok, d')"
  obtain b d1 where c: "calls 6 d = (b, d1)" by fastforce
  have "content d1 = content d" using callsD [OF c] by (simp add: content_def fun_eq_iff)
  with p c show ?thesis by (cases b) (auto simp: persistCursor_def)
qed

lemma line_accepted:
  assumes "h \<noteq> []" "\<not> is_zero_time now"
  shows "hub_accepts h now (ELogLines ''journald'' (map (entryToLogLine h') es))"
proof -
  have "ll_source (entryToLogLine h' e) \<noteq> []" for e by (simp add: entryToLogLine_def Let_def logLineSource_def)
  then show ?thesis by (intro hub_accepts_lines [OF assms]) auto
qed


lemma loop_entries:
  "length es \<le> n \<Longrightarrow> journal_loop (\<lambda>_. False) n i (map NextEntry es @ rd) acc = journal_loop (\<lambda>_. False) (n - length es) (i + length es) rd (acc @ es)"
proof (induction es arbitrary: n i acc)
  case (Cons e es)
  then show ?case by (cases n) simp_all
qed simp

text \<open>
  An error loses what was read before it: when the journal returns some entries and then an error, none of those entries is
  handed on, and the next collection goes on behind the error and moves the cursor past them, so they
  are not read again after a restart either.
\<close>

theorem journal_entries_lost:
  assumes "length es < 500" "fs \<noteq> []" "length fs < 500" "je_cursor (last fs) \<notin> {[], jc_cursor c}" "dk_faults d = []"
  shows "journald_Collect (\<lambda>_. False) c (map NextEntry es @ NextError # map NextEntry fs) d = (Some ReadingEntry, [], c, map NextEntry fs, d) \<and>
    (\<exists>d'. journald_Collect (\<lambda>_. False) c (map NextEntry fs) d =
       (None, [ELogLines ''journald'' (map (entryToLogLine (jc_hostID c)) fs)], c\<lparr>jc_cursor := je_cursor (last fs)\<rparr>, [], d') \<and>
     content d' (jc_cursorPath c) = Some (je_cursor (last fs)))"
proof -
  obtain n where n: "500 - length es = Suc n" using assms(1) by (metis Suc_diff_Suc)
  obtain m where m: "500 - length fs = Suc m" using assms(3) by (metis Suc_diff_Suc)
  have "journal_loop (\<lambda>_. False) 500 0 (map NextEntry es @ NextError # map NextEntry fs) [] = (LoopReadError, es, map NextEntry fs)"
    using loop_entries [of es 500 0 "NextError # map NextEntry fs" "[]"] assms(1) n by simp
  moreover have "journal_loop (\<lambda>_. False) 500 0 (map NextEntry fs) [] = (LoopDone, fs, [])"
    using loop_entries [of fs 500 0 "[]" "[]"] assms(3) m by simp
  ultimately show ?thesis
    using assms(2,4,5) by (simp add: journald_Collect_def maxEntriesPerCollect_def Let_def persistCursor_def)
qed

section \<open>Witnesses\<close>

definition demo_entry :: "string \<Rightarrow> journalEntry" where
  "demo_entry x = \<lparr>je_fields = [(''MESSAGE'', x), (''_TRANSPORT'', ''kernel'')], je_realtimeUsec = 5, je_cursor = x\<rparr>"

lemma demo_cursor: "je_cursor (demo_entry x) = x"
  by (simp add: demo_entry_def)

definition demo_journald :: journalCollector where
  "demo_journald = \<lparr>jc_cursorPath = ''c'', jc_hostID = ''nas'', jc_cursor = []\<rparr>"

definition demo_disk :: disk where
  "demo_disk = \<lparr>dk_files = [], dk_temps = [], dk_faults = []\<rparr>"


theorem journal_entries_lost_witness:
  "journald_Collect (\<lambda>_. False) demo_journald [NextEntry (demo_entry ''a''), NextError, NextEntry (demo_entry ''b'')] demo_disk =
     (Some ReadingEntry, [], demo_journald, [NextEntry (demo_entry ''b'')], demo_disk) \<and>
   (\<exists>c' d'. journald_Collect (\<lambda>_. False) demo_journald [NextEntry (demo_entry ''b'')] demo_disk =
     (None, [ELogLines ''journald'' [entryToLogLine ''nas'' (demo_entry ''b'')]], c', [], d'))"
  using journal_entries_lost [of "[demo_entry ''a'']" "[demo_entry ''b'']" demo_journald demo_disk]
  by (auto simp: demo_entry_def demo_journald_def demo_disk_def)

end
