(* ===== verification/Helpers.thy ===== *)
theory Helpers
  imports Collect_Storage Collect_Host
begin

text \<open>
  The privileged helpers: \<open>internal/dnfhelper\<close>, \<open>internal/smarthelper\<close> and the main programs \<open>cmd/bitacora-dnf\<close>,
  \<open>cmd/bitacora-smart\<close> and \<open>cmd/bitacora-vpn\<close>.  A helper runs a command and leaves what it found in the spool.  Running a
  command gives its standard output and, when it failed, the exit code (if the command ran at all) with the text of the
  error; the JSON encodings of the results are parameters.
\<close>

subsection \<open>Package updates (dnfhelper.go)\<close>

record dnfUpdate =
  dn_name :: string
  dn_arch :: string
  dn_version :: string
  dn_repo :: string

definition splitNameArch :: "string \<Rightarrow> (string \<times> string) option" where
  "splitNameArch nameArch =
     (case cut_last (CHR ''.'') nameArch of
        None \<Rightarrow> None
      | Some (name, arch) \<Rightarrow> if name = [] \<or> arch = [] then None else Some (name, arch))"

definition check_line :: "string \<Rightarrow> dnfUpdate list" where
  "check_line line =
     (let fs = Fields line in
      if length fs \<noteq> 3 then []
      else
        (case splitNameArch (fs ! 0) of
           None \<Rightarrow> []
         | Some (name, arch) \<Rightarrow> [\<lparr>dn_name = name, dn_arch = arch, dn_version = fs ! 1, dn_repo = fs ! 2\<rparr>]))"

fun check_lines :: "string list \<Rightarrow> dnfUpdate list" where
  "check_lines [] = []"
| "check_lines (raw # ls) =
     (let line = trim_space raw in
      if has_prefix line ''Obsoleting Packages'' then []
      else if line = [] \<or> has_prefix line ''Last metadata'' then check_lines ls
      else check_line line @ check_lines ls)"

definition parseCheckUpdate :: "string \<Rightarrow> dnfUpdate list" where
  "parseCheckUpdate out = check_lines (scan_lines out)"

text \<open>\<open>run\<close> is the output, whether updates are available, and the text of the error.\<close>

definition dnf_Run :: "string \<times> bool \<times> string option \<Rightarrow> dnfUpdate list \<times> string list" where
  "dnf_Run run =
     (case run of (out, updatesAvailable, err) \<Rightarrow>
        (case err of
           Some e \<Rightarrow> if \<not> updatesAvailable then ([], [''dnf check-update: '' @ e]) else (parseCheckUpdate out, [])
         | None \<Rightarrow> (parseCheckUpdate out, [])))"

subsection \<open>Disks (smarthelper.go)\<close>

definition smart_device ::
  "(string \<Rightarrow> bool) \<Rightarrow> (string \<Rightarrow> string + string) \<Rightarrow> string \<Rightarrow> labels \<times> string list \<Rightarrow> labels \<times> string list" where
  "smart_device valid run device r =
     (case run device of
        Inl e \<Rightarrow> (fst r, snd r @ [device @ '': '' @ e])
      | Inr out \<Rightarrow>
          if \<not> valid out then (fst r, snd r @ [device @ '': smartctl did not return valid JSON''])
          else (AList.update device out (fst r), snd r))"

definition smart_Run ::
  "(string \<Rightarrow> bool) \<Rightarrow> string + string list \<Rightarrow> (string \<Rightarrow> string + string) \<Rightarrow> labels \<times> string list" where
  "smart_Run valid devices run =
     (case devices of
        Inl e \<Rightarrow> ([], [''listing devices: '' @ e])
      | Inr ds \<Rightarrow> fold (smart_device valid run) ds ([], []))"

subsection \<open>The programs (main.go of bitacora-dnf, bitacora-smart, bitacora-vpn)\<close>

type_synonym exec_result = "string \<times> (int option \<times> string) option"

definition runCheckUpdate :: "exec_result \<Rightarrow> string \<times> bool \<times> string option" where
  "runCheckUpdate r =
     (case r of (out, err) \<Rightarrow>
        (case err of
           None \<Rightarrow> (out, False, None)
         | Some (code, e) \<Rightarrow> if code = Some 100 then (out, True, None) else (out, False, Some e)))"

definition virtualDevicePrefixes :: "string list" where
  "virtualDevicePrefixes = [''loop'', ''ram'', ''sr'', ''dm-'', ''md'', ''zram'']"

definition isVirtualDevice :: "string \<Rightarrow> bool" where
  "isVirtualDevice name \<longleftrightarrow> list_ex (has_prefix name) virtualDevicePrefixes"

definition listSysBlockDevices :: "string + string list \<Rightarrow> string + string list" where
  "listSysBlockDevices entries =
     (case entries of
        Inl e \<Rightarrow> Inl (''reading /sys/block: '' @ e)
      | Inr names \<Rightarrow> Inr (filter (\<lambda>n. \<not> isVirtualDevice n) names))"

definition runSmartctl :: "(string list \<Rightarrow> exec_result) \<Rightarrow> string \<Rightarrow> string + string" where
  "runSmartctl exec device =
     (case exec [''smartctl'', ''--json'', ''-a'', ''/dev/'' @ device] of
        (out, None) \<Rightarrow> Inr out
      | (out, Some (_, e)) \<Rightarrow> if out \<noteq> [] then Inr out else Inl e)"

definition runCommand :: "(string list \<Rightarrow> exec_result) \<Rightarrow> string list \<Rightarrow> string + string" where
  "runCommand exec argv = (case exec argv of (out, None) \<Rightarrow> Inr out | (_, Some (_, e)) \<Rightarrow> Inl e)"

definition helperSpoolDir :: string where
  "helperSpoolDir = ''/var/lib/bitacora/spool''"

text \<open>What the three programs share: the result goes to the spool, and only a failed write makes the exit code one.\<close>

definition helper_exit :: "spool_error option \<times> disk \<Rightarrow> int \<times> disk" where
  "helper_exit w = (case w of (None, d) \<Rightarrow> (0, d) | (Some _, d) \<Rightarrow> (1, d))"

definition dnf_main ::
  "spoolCodec \<Rightarrow> (dnfUpdate list \<Rightarrow> string option) \<Rightarrow> (string list \<Rightarrow> exec_result) \<Rightarrow> time \<Rightarrow> disk \<Rightarrow> int \<times> disk" where
  "dnf_main C enc exec now d =
     (case dnf_Run (runCheckUpdate (exec [''dnf'', ''check-update''])) of
        (result, errs) \<Rightarrow> helper_exit (spool_WriteAtomic C now helperSpoolDir ''dnfupdates'' 1 (enc result) errs d))"

definition smart_main ::
  "spoolCodec \<Rightarrow> (labels \<Rightarrow> string option) \<Rightarrow> (string \<Rightarrow> bool) \<Rightarrow> string + string list \<Rightarrow> (string list \<Rightarrow> exec_result) \<Rightarrow> time \<Rightarrow>
   disk \<Rightarrow> int \<times> disk" where
  "smart_main C enc valid sysBlock exec now d =
     (case smart_Run valid (listSysBlockDevices sysBlock) (runSmartctl exec) of
        (result, errs) \<Rightarrow> helper_exit (spool_WriteAtomic C now helperSpoolDir ''smart'' 1 (enc result) errs d))"

definition vpn_main ::
  "spoolCodec \<Rightarrow> (vpnResult \<Rightarrow> string option) \<Rightarrow> (string list \<Rightarrow> exec_result) \<Rightarrow> time \<Rightarrow> disk \<Rightarrow> int \<times> disk" where
  "vpn_main C enc exec now d =
     (case vpn_Run (runCommand exec) of
        (result, errs) \<Rightarrow> helper_exit (spool_WriteAtomic C now helperSpoolDir ''vpn'' 1 (enc result) errs d))"

section \<open>A helper's report is what its reader finds\<close>

definition helper_spool :: "string list" where
  "helper_spool = [''var'', ''lib'', ''bitacora'', ''spool'']"

lemma helper_dir: "helperSpoolDir = rooted_dir helper_spool" "helper_spool \<noteq> []" "list_all plain_elem helper_spool"
  by (simp_all add: helperSpoolDir_def helper_spool_def rooted_dir_def plain_elem_def)

text \<open>
  The report of a run that ended with exit code zero is in the spool under the name of the helper, with the indented form of the encoded
  result, and the reports of the other helpers are as before.
\<close>

lemma helper_report:
  assumes "spool_good ind ok (C, helper_spool, d)" "collector_name c"
    and "helper_exit (spool_WriteAtomic C now helperSpoolDir c 1 payload errs d) = (0, d')" "dk_faults d' = []"
    and "\<And>p. payload = Some p \<Longrightarrow> ok \<lparr>se_collector = c, se_ts = now, se_schema = 1, se_data = p, se_errors = errs\<rparr>"
  shows "\<exists>p es. payload = Some p \<and> spool_ReadDir C helperSpoolDir d' = (Inr es, d') \<and>
    map_of es c = Some \<lparr>se_collector = c, se_ts = now, se_schema = 1, se_data = ind p, se_errors = errs\<rparr> \<and>
    (\<forall>c'. collector_name c' \<longrightarrow> c' \<noteq> c \<longrightarrow> map_of es c' = spool_look (C, helper_spool, d) c')"
proof -
  have w: "spool_WriteAtomic C now helperSpoolDir c 1 payload errs d = (None, d')"
    using assms(3) by (auto simp: helper_exit_def split: prod.splits option.splits)
  then obtain p where p: "payload = Some p" by (cases payload) (simp_all add: spool_WriteAtomic_def)
  let ?e = "\<lparr>se_collector = c, se_ts = now, se_schema = 1, se_data = p, se_errors = errs\<rparr>"
  have legal: "spool_legal ok c ?e" using assms(2,5) p by (simp add: spool_legal_def)
  have post: "spool_post c ?e (C, helper_spool, d) = (True, (C, helper_spool, d'))"
    using w p helper_dir(1) by (simp add: spool_post_def)
  have good: "spool_good ind ok (C, helper_spool, d')" using spool.post_good [OF assms(1) legal post] by blast
  have look: "spool_look (C, helper_spool, d') = (spool_look (C, helper_spool, d))(c \<mapsto> ?e\<lparr>se_data := ind (se_data ?e)\<rparr>)"
    by (rule spool.post_done [OF assms(1) legal post])
  from ReadDir_looks [OF good assms(4)] show ?thesis
    unfolding helper_dir(1) [symmetric] look using p assms(2) by auto
qed

end
