(* ===== verification/Pkgupdates.thy ===== *)
theory Pkgupdates
  imports Helpers Collect_System Debversion
begin

text \<open>
  The collector of available updates, \<open>internal/collector/pkgupdates\<close>: packages of apt and dnf, plugins of UnRaid and images
  of containers, in one inventory.  JSON, the HTTP client and \<open>net/url\<close> are parameters.
\<close>

subsection \<open>Stanzas (apt.go)\<close>

text \<open>A scanner whose buffer was enlarged to ten mebibytes.\<close>

definition maxLine :: nat where
  "maxLine = 10485760"

definition scan_upto :: "nat \<Rightarrow> string \<Rightarrow> string list" where
  "scan_upto n s =
     (let ls = split_on nl s; full = (if last ls = [] then butlast ls else ls) in
      map trim_cr (takeWhile (\<lambda>l. length l < n) full))"

record stanza =
  sa_name :: string
  sa_version :: string
  sa_status :: string

definition no_stanza :: stanza where
  "no_stanza = \<lparr>sa_name = [], sa_version = [], sa_status = []\<rparr>"

definition stanza_line :: "string \<Rightarrow> stanza \<Rightarrow> stanza" where
  "stanza_line line z =
     (if has_prefix line '' '' \<or> has_prefix line [CHR 0x09] then z
      else
        (case cut_first (CHR '':'') line of
           None \<Rightarrow> z
         | Some (k, v) \<Rightarrow>
             let key = trim_space k in
             if key = ''Package'' then z\<lparr>sa_name := trim_space v\<rparr>
             else if key = ''Version'' then z\<lparr>sa_version := trim_space v\<rparr>
             else if key = ''Status'' then z\<lparr>sa_status := trim_space v\<rparr>
             else z))"

text \<open>\<open>keep\<close> is what a stanza must say to count.\<close>

definition stanza_flush :: "(stanza \<Rightarrow> bool) \<Rightarrow> stanza \<times> labels \<Rightarrow> stanza \<times> labels" where
  "stanza_flush keep zm =
     (case zm of (z, m) \<Rightarrow>
        (no_stanza,
         if sa_name z \<noteq> [] \<and> sa_version z \<noteq> [] \<and> keep z then AList.update (sa_name z) (sa_version z) m else m))"

definition stanza_step :: "(stanza \<Rightarrow> bool) \<Rightarrow> string \<Rightarrow> stanza \<times> labels \<Rightarrow> stanza \<times> labels" where
  "stanza_step keep line zm = (if line = [] then stanza_flush keep zm else (stanza_line line (fst zm), snd zm))"

definition parse_stanzas :: "(stanza \<Rightarrow> bool) \<Rightarrow> string \<Rightarrow> labels option" where
  "parse_stanzas keep s =
     (if list_ex (\<lambda>l. maxLine \<le> length l) (split_on nl s) then None
      else Some (snd (stanza_flush keep (fold (stanza_step keep) (scan_upto maxLine s) (no_stanza, [])))))"

definition parseDpkgStatus :: "host_files \<Rightarrow> string \<Rightarrow> labels option" where
  "parseDpkgStatus H path =
     (case hf_read H path of None \<Rightarrow> None | Some s \<Rightarrow> parse_stanzas (\<lambda>z. contains (sa_status z) ''installed'') s)"

definition parsePackagesFile :: "host_files \<Rightarrow> string \<Rightarrow> labels option" where
  "parsePackagesFile H path = (case hf_read H path of None \<Rightarrow> None | Some s \<Rightarrow> parse_stanzas (\<lambda>_. True) s)"

subsection \<open>Candidates (apt.go)\<close>

definition merge_pkg :: "string \<times> string \<Rightarrow> labels \<Rightarrow> labels" where
  "merge_pkg p cands =
     (case p of (name, version) \<Rightarrow>
        (case map_of cands name of
           Some current \<Rightarrow> if 0 < Compare version current then AList.update name version cands else cands
         | None \<Rightarrow> AList.update name version cands))"

text \<open>An entry of the directory: its name, whether it is a directory, and the time of its last change if that can be read.\<close>

type_synonym list_entry = "string \<times> bool \<times> time option"

definition list_entry_step :: "host_files \<Rightarrow> string \<Rightarrow> list_entry \<Rightarrow> labels \<times> time option \<Rightarrow> labels \<times> time option" where
  "list_entry_step H listsDir e st =
     (case e of (name, isDir, info) \<Rightarrow>
        if isDir \<or> \<not> has_suffix name ''_Packages'' then st
        else
          (case info of
             None \<Rightarrow> st
           | Some mtime \<Rightarrow>
               let oldest = (case snd st of None \<Rightarrow> mtime | Some t \<Rightarrow> if mtime < t then mtime else t) in
               (case parsePackagesFile H (Join [listsDir, name]) of
                  None \<Rightarrow> (fst st, Some oldest)
                | Some pkgs \<Rightarrow> (fold merge_pkg pkgs (fst st), Some oldest))))"

definition candidateVersions :: "host_files \<Rightarrow> list_entry list option \<Rightarrow> string \<Rightarrow> (labels \<times> time) option" where
  "candidateVersions H entries listsDir =
     (case entries of
        None \<Rightarrow> None
      | Some es \<Rightarrow>
          (case fold (list_entry_step H listsDir) es ([], None) of
             (cands, oldest) \<Rightarrow> Some (cands, case oldest of None \<Rightarrow> time_zero | Some t \<Rightarrow> t)))"

text \<open>\<open>strconv.FormatFloat\<close> without decimals.\<close>

definition fmt0 :: "gofloat \<Rightarrow> string" where
  "fmt0 x = (case x of Fin r \<Rightarrow> (if r < 0 then ''-'' else []) @ itoa (nat (round_even \<bar>r\<bar>)) | _ \<Rightarrow> [])"

definition apt_item :: "(rat \<Rightarrow> rat) \<Rightarrow> time \<Rightarrow> time \<Rightarrow> string \<Rightarrow> string \<Rightarrow> string \<Rightarrow> inventoryItem" where
  "apt_item rnd now cacheAge name installed candidate =
     \<lparr>ii_id = ''apt:'' @ name, ii_name = name,
      ii_attrs = [(''source'', ''apt''), (''installed_version'', installed), (''candidate_version'', candidate)] @
        (if \<not> is_zero_time cacheAge then [(''cache_age_seconds'', fmt0 (duration_Seconds rnd (time_sub now cacheAge)))] else [])\<rparr>"

text \<open>\<open>order\<close> is the order in which the map of installed packages is walked.\<close>

definition aptItems ::
  "(rat \<Rightarrow> rat) \<Rightarrow> (labels \<Rightarrow> labels) \<Rightarrow> host_files \<Rightarrow> list_entry list option \<Rightarrow> string \<Rightarrow> string \<Rightarrow> time \<Rightarrow> inventoryItem list" where
  "aptItems rnd order H entries dpkgStatus listsDir now =
     (case parseDpkgStatus H dpkgStatus of
        None \<Rightarrow> []
      | Some installed \<Rightarrow>
          (case candidateVersions H entries listsDir of
             None \<Rightarrow> []
           | Some (cands, cacheAge) \<Rightarrow>
               if cands = [] then []
               else concat (map (\<lambda>(name, v).
                      case map_of cands name of
                        None \<Rightarrow> []
                      | Some w \<Rightarrow> if Compare w v \<le> 0 then [] else [apt_item rnd now cacheAge name v w]) (order installed))))"

subsection \<open>Packages of dnf (dnf.go)\<close>

definition dnf_item :: "dnfUpdate \<Rightarrow> inventoryItem" where
  "dnf_item u =
     \<lparr>ii_id = ''dnf:'' @ dn_name u @ ''.'' @ dn_arch u, ii_name = dn_name u,
      ii_attrs = [(''source'', ''dnf''), (''candidate_version'', dn_version u), (''arch'', dn_arch u), (''repo'', dn_repo u)]\<rparr>"

definition dnfItems :: "(string \<Rightarrow> dnfUpdate list option) \<Rightarrow> spool_error + (string \<times> spoolEntry) list \<Rightarrow> inventoryItem list" where
  "dnfItems dec entries =
     (case entries of
        Inl _ \<Rightarrow> []
      | Inr es \<Rightarrow>
          (case map_of es ''dnfupdates'' of
             None \<Rightarrow> []
           | Some e \<Rightarrow>
               (case dec (se_data e) of
                  None \<Rightarrow> []
                | Some ups \<Rightarrow> map dnf_item (filter (\<lambda>u. dn_name u \<noteq> []) ups))))"

subsection \<open>Regular expressions of the standard library\<close>

text \<open>
  All matches of an expression, from left to right and without overlap.  An expression is a function that matches at the
  start of a text and gives what it captured and the rest; every expression here matches at least one character.
\<close>

function find_all :: "(string \<Rightarrow> ('a \<times> string) option) \<Rightarrow> string \<Rightarrow> 'a list" where
  "find_all m [] = []"
| "find_all m (c # s) =
     (case m (c # s) of
        None \<Rightarrow> find_all m s
      | Some (x, rest) \<Rightarrow> x # find_all m (drop (length s - length rest) s))"
  by pat_completeness auto
termination by (relation "measure (length \<circ> snd)") auto

definition word_char :: "char \<Rightarrow> bool" where
  "word_char c \<longleftrightarrow> is_digit c \<or> CHR ''A'' \<le> c \<and> c \<le> CHR ''Z'' \<or> CHR ''a'' \<le> c \<and> c \<le> CHR ''z'' \<or> c = CHR ''_''"

definition re_space :: "char \<Rightarrow> bool" where
  "re_space c \<longleftrightarrow> c \<in> set [CHR 0x09, CHR 0x0A, CHR 0x0C, CHR 0x0D, CHR '' '']"

definition re_quote :: "char \<Rightarrow> bool" where
  "re_quote c \<longleftrightarrow> c \<in> set [CHR 0x22, CHR 0x27]"

text \<open>A word, a quoted value of either quotes, and one or more blanks.\<close>

definition re_word :: "string \<Rightarrow> (string \<times> string) option" where
  "re_word s = (if takeWhile word_char s = [] then None else Some (takeWhile word_char s, dropWhile word_char s))"

definition re_quoted :: "string \<Rightarrow> (string \<times> string) option" where
  "re_quoted s =
     (if s = [] \<or> \<not> re_quote (hd s) then None
      else
        (case dropWhile (\<lambda>c. \<not> re_quote c) (tl s) of
           [] \<Rightarrow> None
         | _ # rest \<Rightarrow> Some (takeWhile (\<lambda>c. \<not> re_quote c) (tl s), rest)))"

definition re_blanks :: "string \<Rightarrow> string option" where
  "re_blanks s = (if s = [] \<or> \<not> re_space (hd s) then None else Some (dropWhile re_space s))"

subsection \<open>Plugins of UnRaid (unraid.go)\<close>

definition entityDeclRe :: "string \<Rightarrow> ((string \<times> string) \<times> string) option" where
  "entityDeclRe s =
     Option.bind (cut_prefix s ''<!ENTITY'') (\<lambda>s.
     Option.bind (re_blanks s) (\<lambda>s.
     Option.bind (re_word s) (\<lambda>(name, s).
     Option.bind (re_blanks s) (\<lambda>s.
     Option.bind (re_quoted s) (\<lambda>(v, s).
       case dropWhile re_space s of CHR ''>'' # rest \<Rightarrow> Some ((name, v), rest) | _ \<Rightarrow> None)))))"

definition pluginTagRe :: "string \<Rightarrow> (string \<times> string) option" where
  "pluginTagRe s =
     Option.bind (cut_prefix s ''<PLUGIN'') (\<lambda>s. if s = [] \<or> word_char (hd s) then None else cut_first (CHR ''>'') s)"

definition attrRe :: "string \<Rightarrow> ((string \<times> string) \<times> string) option" where
  "attrRe s =
     Option.bind (re_word s) (\<lambda>(name, s).
       case dropWhile re_space s of
         CHR ''='' # s \<Rightarrow> Option.bind (re_quoted (dropWhile re_space s)) (\<lambda>(v, rest). Some ((name, v), rest))
       | _ \<Rightarrow> None)"

record plgInfo =
  pl_name :: string
  pl_version :: string
  pl_url :: string

definition resolveEntity :: "string \<Rightarrow> labels \<Rightarrow> string" where
  "resolveEntity v entities =
     (if has_prefix v ''&'' \<and> has_suffix v '';'' \<and> 2 < length v
      then (case map_of entities (butlast (tl v)) of Some r \<Rightarrow> r | None \<Rightarrow> v)
      else v)"

definition parsePLG :: "string \<Rightarrow> plgInfo option" where
  "parsePLG s =
     (let entities = fold (\<lambda>(k, v). AList.update k v) (find_all entityDeclRe s) [] in
      case find_all pluginTagRe s of
        [] \<Rightarrow> None
      | tag # _ \<Rightarrow>
          let attrs = fold (\<lambda>(k, v). AList.update k (resolveEntity v entities)) (find_all attrRe tag) [];
              info = \<lparr>pl_name = lget attrs ''name'', pl_version = lget attrs ''version'', pl_url = lget attrs ''pluginURL''\<rparr> in
          if pl_name info = [] \<or> pl_version info = [] then None else Some info)"

text \<open>
  The answer to a GET request: nothing when the request cannot be built or sent, otherwise the status and the body, unless
  reading it fails.
\<close>

definition plgLimit :: nat where
  "plgLimit = 2 ^ 20"

definition fetchRemoteVersion :: "(string \<Rightarrow> (nat \<times> string option) option) \<Rightarrow> string \<Rightarrow> string option" where
  "fetchRemoteVersion get url =
     (case get url of
        None \<Rightarrow> None
      | Some (status, body) \<Rightarrow>
          if status \<noteq> 200 then None
          else (case body of None \<Rightarrow> None | Some b \<Rightarrow> map_option pl_version (parsePLG (take plgLimit b))))"

definition unraid_item :: "plgInfo \<Rightarrow> string \<Rightarrow> inventoryItem" where
  "unraid_item info remoteVersion =
     \<lparr>ii_id = ''unraid_plugin:'' @ pl_name info, ii_name = pl_name info,
      ii_attrs = [(''source'', ''unraid_plugin''), (''installed_version'', pl_version info), (''candidate_version'', remoteVersion)]\<rparr>"

definition unraid_plugin :: "(string \<Rightarrow> (nat \<times> string option) option) \<Rightarrow> host_files \<Rightarrow> string \<Rightarrow> string \<times> bool \<Rightarrow> inventoryItem list" where
  "unraid_plugin get H pluginsDir e =
     (case e of (name, isDir) \<Rightarrow>
        if isDir \<or> \<not> has_suffix name ''.plg'' then []
        else
          (case Option.bind (hf_read H (Join [pluginsDir, name])) parsePLG of
             None \<Rightarrow> []
           | Some info \<Rightarrow>
               if pl_url info = [] then []
               else
                 (case fetchRemoteVersion get (pl_url info) of
                    None \<Rightarrow> []
                  | Some remote \<Rightarrow> if remote = pl_version info then [] else [unraid_item info remote])))"

definition unraidItems ::
  "(string \<Rightarrow> (nat \<times> string option) option) \<Rightarrow> host_files \<Rightarrow> (string \<times> bool) list option \<Rightarrow> string \<Rightarrow> inventoryItem list" where
  "unraidItems get H entries pluginsDir =
     (case entries of None \<Rightarrow> [] | Some es \<Rightarrow> concat (map (unraid_plugin get H pluginsDir) es))"

subsection \<open>Registries (registry.go)\<close>

record registryRef =
  rg_host :: string
  rg_repository :: string
  rg_reference :: string

definition looksLikeHost :: "string \<Rightarrow> bool" where
  "looksLikeHost s \<longleftrightarrow> s = ''localhost'' \<or> CHR ''.'' \<in> set s \<or> CHR '':'' \<in> set s"

text \<open>The part behind the last slash, and a reference without its tag together with the tag.\<close>

definition last_segment :: "string \<Rightarrow> string" where
  "last_segment s = (case cut_last (CHR ''/'') s of None \<Rightarrow> s | Some (_, t) \<Rightarrow> t)"

definition split_tag :: "string \<Rightarrow> string \<times> string" where
  "split_tag ref =
     (case cut_first (CHR '':'') (last_segment ref) of
        None \<Rightarrow> (ref, ''latest'')
      | Some (a, tag) \<Rightarrow> (take (length ref - length (last_segment ref) + length a) ref, tag))"

definition parseImageReference :: "string \<Rightarrow> registryRef option" where
  "parseImageReference ref =
     (if ref = [] then None
      else
        (case split_tag ref of (name, tag) \<Rightarrow>
           let hub = \<lparr>rg_host = ''registry-1.docker.io'',
                      rg_repository = (if CHR ''/'' \<in> set name then name else ''library/'' @ name), rg_reference = tag\<rparr> in
           (case cut_first (CHR ''/'') name of
              Some (h, repo) \<Rightarrow>
                Some (if looksLikeHost h then \<lparr>rg_host = h, rg_repository = repo, rg_reference = tag\<rparr> else hub)
            | None \<Rightarrow> Some hub)))"

datatype http_method = HEAD | GET

record http_request =
  hq_method :: http_method
  hq_url :: string
  hq_headers :: labels

record http_response =
  hp_status :: nat
  hp_headers :: labels
  hp_body :: string

text \<open>
  \<open>http\<close> is the client: nothing when a request cannot be built or is not answered.  \<open>token_url\<close> parses the realm and sets the
  given parameters in its query; \<open>dec\<close> decodes the answer into the fields \<open>token\<close> and \<open>access_token\<close>.
\<close>

record registry_env =
  ge_http :: "http_request \<Rightarrow> http_response option"
  ge_token_url :: "string \<Rightarrow> labels \<Rightarrow> string option"
  ge_dec :: "string \<Rightarrow> (string \<times> string) option"
  ge_scheme :: string

definition acceptManifests :: string where
  "acceptManifests = ''application/vnd.docker.distribution.manifest.v2+json,'' @ ''application/vnd.docker.distribution.manifest.list.v2+json,'' @
     ''application/vnd.oci.image.manifest.v1+json,'' @ ''application/vnd.oci.image.index.v1+json''"

definition head_request :: "string \<Rightarrow> string \<Rightarrow> http_request" where
  "head_request url token =
     \<lparr>hq_method = HEAD, hq_url = url,
      hq_headers = (''Accept'', acceptManifests) # (if token \<noteq> [] then [(''Authorization'', ''Bearer '' @ token)] else [])\<rparr>"

text \<open>Digest, status and challenge of an answer; the digest is there exactly when the call succeeded.\<close>

definition headManifest :: "registry_env \<Rightarrow> string \<Rightarrow> string \<Rightarrow> string option \<times> nat \<times> string" where
  "headManifest E manifestURL token =
     (case ge_http E (head_request manifestURL token) of
        None \<Rightarrow> (None, 0, [])
      | Some r \<Rightarrow>
          if hp_status r = 200
          then (let d = lget (hp_headers r) ''Docker-Content-Digest'' in (if d \<noteq> [] then Some d else None, 200, []))
          else (None, hp_status r, lget (hp_headers r) ''Www-Authenticate''))"

definition bearerParamRe :: "string \<Rightarrow> ((string \<times> string) \<times> string) option" where
  "bearerParamRe s =
     Option.bind (re_word s) (\<lambda>(name, s).
     Option.bind (cut_prefix s [CHR ''='', CHR 0x22]) (\<lambda>s.
     Option.bind (cut_first (CHR 0x22) s) (\<lambda>(v, rest). Some ((name, v), rest))))"

definition token_request :: "registry_env \<Rightarrow> string \<Rightarrow> http_request option" where
  "token_request E wwwAuthenticate =
     (if \<not> has_prefix wwwAuthenticate ''Bearer '' then None
      else
        let params = fold (\<lambda>(k, v). AList.update k v) (find_all bearerParamRe wwwAuthenticate) [];
            set_param = (\<lambda>k. case map_of params k of None \<Rightarrow> [] | Some v \<Rightarrow> [(k, v)]) in
        (case map_of params ''realm'' of
           None \<Rightarrow> None
         | Some realm \<Rightarrow>
             map_option (\<lambda>u. \<lparr>hq_method = GET, hq_url = u, hq_headers = []\<rparr>)
               (ge_token_url E realm (set_param ''service'' @ set_param ''scope''))))"

text \<open>The token and the requests made for it.\<close>

definition fetchToken :: "registry_env \<Rightarrow> string \<Rightarrow> string option \<times> http_request list" where
  "fetchToken E wwwAuthenticate =
     (case token_request E wwwAuthenticate of
        None \<Rightarrow> (None, [])
      | Some q \<Rightarrow>
          (case ge_http E q of
             None \<Rightarrow> None
           | Some r \<Rightarrow>
               if hp_status r \<noteq> 200 then None
               else
                 (case ge_dec E (hp_body r) of
                    None \<Rightarrow> None
                  | Some (token, accessToken) \<Rightarrow>
                      if token \<noteq> [] then Some token else if accessToken \<noteq> [] then Some accessToken else None),
           [q]))"

definition manifest_url :: "registry_env \<Rightarrow> registryRef \<Rightarrow> string" where
  "manifest_url E ref =
     (if ge_scheme E = [] then ''https'' else ge_scheme E) @ ''://'' @ rg_host ref @ ''/v2/'' @ rg_repository ref @ ''/manifests/'' @ rg_reference ref"

text \<open>The digest and the requests made for it, in order.\<close>

definition Digest :: "registry_env \<Rightarrow> registryRef \<Rightarrow> string option \<times> http_request list" where
  "Digest E ref =
     (let url = manifest_url E ref; first = head_request url [] in
      case headManifest E url [] of
        (Some digest, _, _) \<Rightarrow> (Some digest, [first])
      | (None, status, wwwAuth) \<Rightarrow>
          if status \<noteq> 401 \<or> wwwAuth = [] then (None, [first])
          else
            (case fetchToken E wwwAuth of
               (None, qs) \<Rightarrow> (None, first # qs)
             | (Some token, qs) \<Rightarrow> (fst (headManifest E url token), first # qs @ [head_request url token])))"

subsection \<open>Images (docker.go)\<close>

definition docker_item :: "image \<Rightarrow> string \<Rightarrow> inventoryItem" where
  "docker_item img remoteDigest =
     \<lparr>ii_id = ''docker_image:'' @ im_repoTag img, ii_name = im_repoTag img,
      ii_attrs = [(''source'', ''docker_image''), (''current_digest'', im_repoDigest img), (''registry_digest'', remoteDigest)]\<rparr>"

text \<open>\<open>answer url\<close> is what the proxy at a base URL answers to the question for its images.\<close>

definition docker_image :: "registry_env \<Rightarrow> image \<Rightarrow> inventoryItem list" where
  "docker_image E img =
     (case parseImageReference (im_repoTag img) of
        None \<Rightarrow> []
      | Some ref \<Rightarrow>
          (case fst (Digest E ref) of
             None \<Rightarrow> []
           | Some remote \<Rightarrow> if remote = im_repoDigest img then [] else [docker_item img remote]))"

definition dockerItems ::
  "registry_env \<Rightarrow> (string \<Rightarrow> (string list \<times> string list) list option) \<Rightarrow> string \<Rightarrow> inventoryItem list" where
  "dockerItems E answer metadataURL =
     (if metadataURL = [] then []
      else
        (case Images (answer (trim_suffix metadataURL ''/'')) of
           None \<Rightarrow> []
         | Some imgs \<Rightarrow> concat (map (docker_image E) imgs)))"

subsection \<open>The collector (pkgupdates.go)\<close>

record pkgCollector =
  pc_dpkgStatus :: string
  pc_aptListsDir :: string
  pc_spoolDir :: string
  pc_unraidPluginsDir :: string
  pc_dockerMetadataURL :: string
  pc_hostID :: string

definition pkg_Init :: "config \<Rightarrow> string option \<Rightarrow> pkgCollector \<Rightarrow> pkgCollector" where
  "pkg_Init cfg host c =
     \<lparr>pc_dpkgStatus = configuredPath cfg ''dpkg_status'' ''/var/lib/dpkg/status'',
      pc_aptListsDir = configuredPath cfg ''apt_lists_dir'' ''/var/lib/apt/lists'',
      pc_spoolDir = configuredPath cfg ''spool_dir'' ''/var/lib/bitacora/spool'',
      pc_unraidPluginsDir = configuredPath cfg ''unraid_plugins_dir'' ''/boot/config/plugins'',
      pc_dockerMetadataURL = (case map_of cfg ''docker_socket_proxy_url'' of Some (ConfigString v) \<Rightarrow> v | _ \<Rightarrow> pc_dockerMetadataURL c),
      pc_hostID = (case host of None \<Rightarrow> pc_hostID c | Some h \<Rightarrow> h)\<rparr>"

record pkg_env =
  pe_rnd :: "rat \<Rightarrow> rat"
  pe_order :: "labels \<Rightarrow> labels"
  pe_lists :: "string \<Rightarrow> list_entry list option"
  pe_plugins :: "string \<Rightarrow> (string \<times> bool) list option"
  pe_spool :: spoolCodec
  pe_updates :: "string \<Rightarrow> dnfUpdate list option"
  pe_get :: "string \<Rightarrow> (nat \<times> string option) option"
  pe_registry :: registry_env
  pe_images :: "string \<Rightarrow> (string list \<times> string list) list option"

definition pkg_items :: "pkg_env \<Rightarrow> host_files \<Rightarrow> disk \<Rightarrow> time \<Rightarrow> pkgCollector \<Rightarrow> inventoryItem list" where
  "pkg_items E H d now c =
     aptItems (pe_rnd E) (pe_order E) H (pe_lists E (pc_aptListsDir c)) (pc_dpkgStatus c) (pc_aptListsDir c) now @
     dnfItems (pe_updates E) (fst (spool_ReadDir (pe_spool E) (pc_spoolDir c) d)) @
     unraidItems (pe_get E) H (pe_plugins E (pc_unraidPluginsDir c)) (pc_unraidPluginsDir c) @
     dockerItems (pe_registry E) (pe_images E) (pc_dockerMetadataURL c)"

definition pkg_Collect :: "pkg_env \<Rightarrow> host_files \<Rightarrow> disk \<Rightarrow> bool \<Rightarrow> time \<Rightarrow> pkgCollector \<Rightarrow> bool \<times> emission list" where
  "pkg_Collect E H d ctxDone now c =
     (if ctxDone then (False, [])
      else (True, [EInventory \<lparr>in_hostID = pc_hostID c, in_kind = ''package_update'', in_reportedAt = now, in_schema = CurrentSchemaVersion,
              in_items = pkg_items E H d now c\<rparr>]))"

section \<open>Stanzas are read as they are written\<close>

lemma scan_upto_text:
  assumes "list_all line_ok ls"
  shows "scan_upto maxLine (text_of ls) = ls" "\<not> list_ex (\<lambda>l. maxLine \<le> length l) (split_on nl (text_of ls))"
proof -
  have "list_all (\<lambda>l. nl \<notin> set l) ls" and short: "\<And>l. l \<in> set ls \<Longrightarrow> length l < maxLine"
    using assms by (force simp: line_ok_def list_all_iff maxLine_def)+
  note split = split_text [OF this(1)]
  have t: "takeWhile (\<lambda>l. length l < maxLine) ls = ls" using short by (simp add: takeWhile_eq_all_conv)
  have "map trim_cr ls = ls" using assms by (intro map_idI) (auto simp: line_ok_def list_all_iff trim_cr_def)
  then show "scan_upto maxLine (text_of ls) = ls" unfolding scan_upto_def split Let_def by (simp add: t del: takeWhile_eq_all_conv)
  show "\<not> list_ex (\<lambda>l. maxLine \<le> length l) (split_on nl (text_of ls))"
    using short by (auto simp: split list_ex_iff maxLine_def not_le)
qed

text \<open>A package in the database: name, version, status and further lines of its stanza, each the continuation of a field.\<close>

type_synonym db_package = "string \<times> string \<times> string \<times> string list"

definition package_lines :: "db_package \<Rightarrow> string list" where
  "package_lines p =
     (case p of (name, version, status, rest) \<Rightarrow>
        [''Package: '' @ name, ''Status: '' @ status, ''Description: a package''] @ map (\<lambda>l. CHR '' '' # l) rest @ [''Version: '' @ version, []])"

definition trimmed :: "string \<Rightarrow> bool" where
  "trimmed s \<longleftrightarrow> s \<noteq> [] \<and> \<not> is_space (hd s) \<and> \<not> is_space (last s)"

lemma trim_trimmed: "trimmed s \<Longrightarrow> trim_space (CHR '' '' # s) = s" "trimmed s \<Longrightarrow> trim_space s = s"
proof -
  have d: "dropWhile is_space xs = xs" if "xs \<noteq> []" "\<not> is_space (hd xs)" for xs using that by (cases xs) auto
  show "trim_space s = s" if "trimmed s"
    using that d [of s] d [of "rev s"] by (simp add: trim_space_def trimmed_def hd_rev)
  then show "trim_space (CHR '' '' # s) = s" if "trimmed s"
    using that by (simp add: trim_space_def is_space_def)
qed

lemma stanza_fields:
  assumes "trimmed v"
  shows "stanza_line (''Package: '' @ v) z = z\<lparr>sa_name := v\<rparr>" "stanza_line (''Version: '' @ v) z = z\<lparr>sa_version := v\<rparr>"
    "stanza_line (''Status: '' @ v) z = z\<lparr>sa_status := v\<rparr>" "stanza_line ''Description: a package'' z = z"
    "stanza_line (CHR '' '' # l) z = z"
  using trim_trimmed(1) [OF assms] by (simp_all add: stanza_line_def has_prefix_def trim_space_def [of "''Package''"] trim_space_def [of "''Version''"] trim_space_def [of "''Status''"] trim_space_def [of "''Description''"] is_space_def)

definition package_ok :: "db_package \<Rightarrow> bool" where
  "package_ok p \<longleftrightarrow>
     (case p of (name, version, status, rest) \<Rightarrow> trimmed name \<and> trimmed version \<and> trimmed status) \<and> list_all line_ok (package_lines p)"

definition kept :: "(stanza \<Rightarrow> bool) \<Rightarrow> db_package \<Rightarrow> bool" where
  "kept keep p = (case p of (name, version, status, rest) \<Rightarrow> keep \<lparr>sa_name = name, sa_version = version, sa_status = status\<rparr>)"

lemma fold_continuations: "fold (stanza_step keep) (map (\<lambda>l. CHR '' '' # l) ls) (z, m) = (z, m)"
  by (induction ls) (simp_all add: stanza_step_def stanza_line_def has_prefix_def)

lemma fold_package:
  assumes "package_ok (name, version, status, rest)"
  shows "fold (stanza_step keep) (package_lines (name, version, status, rest)) (no_stanza, m) =
    (no_stanza, if kept keep (name, version, status, rest) then AList.update name version m else m)"
proof -
  have t: "trimmed name" "trimmed version" "trimmed status" using assms by (auto simp: package_ok_def)
  then have "name \<noteq> []" "version \<noteq> []" by (auto simp: trimmed_def)
  then show ?thesis
    unfolding package_lines_def prod.case fold_append fold.simps o_apply id_apply
    using stanza_fields [OF t(1), simplified] stanza_fields [OF t(2), simplified] stanza_fields [OF t(3), simplified]
    by (simp add: stanza_step_def [of _ "_ # _"] fold_continuations) (simp add: stanza_step_def stanza_flush_def kept_def no_stanza_def)
qed

lemma fold_packages:
  "list_all package_ok ps \<Longrightarrow>
   fold (stanza_step keep) (concat (map package_lines ps)) (no_stanza, m) =
     (no_stanza, fold (\<lambda>(name, version, _). AList.update name version) (filter (kept keep) ps) m)"
proof (induction ps arbitrary: m)
  case (Cons p ps)
  obtain name version status rest where p: "p = (name, version, status, rest)" by (metis prod_cases4)
  show ?case using Cons fold_package [of name version status rest keep m] by (simp add: p)
qed simp

lemma fold_fresh_updates:
  "distinct (map fst m @ map fst ps) \<Longrightarrow> fold (\<lambda>(name, version, _). AList.update name version) ps m = m @ map (\<lambda>(n, v, _). (n, v)) ps"
proof (induction ps arbitrary: m)
  case (Cons p ps)
  obtain n v r where p: "p = (n, v, r)" by (metis prod_cases3)
  have "AList.update n v m = m @ [(n, v)]" using Cons.prems p by (induction m) auto
  then show ?case using Cons.IH [of "m @ [(n, v)]"] Cons.prems p by auto
qed simp

lemma parse_stanzas_printed:
  assumes "list_all package_ok ps" "distinct (map fst ps)"
  shows "parse_stanzas keep (text_of (concat (map package_lines ps))) = Some (map (\<lambda>(n, v, _). (n, v)) (filter (kept keep) ps))"
proof -
  have "list_all line_ok (concat (map package_lines ps))" using assms(1) by (auto simp: package_ok_def list_all_iff split: prod.splits)
  note scan = scan_upto_text [OF this]
  have "fold (\<lambda>(name, version, _). AList.update name version) (filter (kept keep) ps) [] = map (\<lambda>(n, v, _). (n, v)) (filter (kept keep) ps)"
    using fold_fresh_updates [of "[]" "filter (kept keep) ps"] assms(2) by (simp add: distinct_map_filter)
  then show ?thesis
    using scan fold_packages [OF assms(1), of keep "[]"] by (simp add: parse_stanzas_def stanza_flush_def no_stanza_def)
qed

section \<open>Updates are the highest versions on offer\<close>

text \<open>What the package lists of a directory offer: pairs of a name and a version.\<close>

definition entry_offers :: "host_files \<Rightarrow> string \<Rightarrow> list_entry \<Rightarrow> labels" where
  "entry_offers H listsDir e =
     (case e of (name, isDir, info) \<Rightarrow>
        if isDir \<or> \<not> has_suffix name ''_Packages'' \<or> info = None then []
        else (case parsePackagesFile H (Join [listsDir, name]) of None \<Rightarrow> [] | Some pkgs \<Rightarrow> pkgs))"

definition offers :: "host_files \<Rightarrow> string \<Rightarrow> list_entry list \<Rightarrow> labels" where
  "offers H listsDir es = concat (map (entry_offers H listsDir) es)"

text \<open>The candidates hold, for every name on offer and no other, a version that is offered and that none exceeds.\<close>

definition best :: "labels \<Rightarrow> (string \<times> string) set \<Rightarrow> bool" where
  "best cands os \<longleftrightarrow>
     (\<forall>n w. map_of cands n = Some w \<longrightarrow> (n, w) \<in> os \<and> (\<forall>w'. (n, w') \<in> os \<longrightarrow> Deb w' \<le> Deb w)) \<and>
     (\<forall>(n, w) \<in> os. map_of cands n \<noteq> None)"

lemma bestD:
  assumes "best cands os"
  shows "map_of cands n = Some w \<Longrightarrow> (n, w) \<in> os" "map_of cands n = Some w \<Longrightarrow> (n, w') \<in> os \<Longrightarrow> Deb w' \<le> Deb w"
    "(n, w) \<in> os \<Longrightarrow> \<exists>w'. map_of cands n = Some w'"
  using assms by (auto simp: best_def)

lemma bestI:
  assumes "\<And>n w. map_of cands n = Some w \<Longrightarrow> (n, w) \<in> os" "\<And>n w w'. map_of cands n = Some w \<Longrightarrow> (n, w') \<in> os \<Longrightarrow> Deb w' \<le> Deb w"
    and "\<And>n w. (n, w) \<in> os \<Longrightarrow> map_of cands n \<noteq> None"
  shows "best cands os"
  unfolding best_def using assms by fast

lemma merge_best:
  assumes b: "best cands os"
  shows "best (merge_pkg (n, v) cands) (insert (n, v) os)"
proof (cases "\<exists>w. map_of cands n = Some w \<and> Deb v \<le> Deb w")
  case True
  then obtain w where w: "map_of cands n = Some w" "Deb v \<le> Deb w" by blast
  then have "merge_pkg (n, v) cands = cands" using deb_order(3) [of v w] by (simp add: merge_pkg_def deb_order(2))
  then show ?thesis using w by (intro bestI) (auto dest: bestD [OF b])
next
  case False
  then have "merge_pkg (n, v) cands = AList.update n v cands"
    using deb_order(3) by (auto simp: merge_pkg_def deb_order(2) split: option.split)
  then have m: "map_of (merge_pkg (n, v) cands) k = (if k = n then Some v else map_of cands k)" for k by (simp add: update_conv')
  have above: "Deb w' \<le> Deb v" if "(n, w') \<in> os" for w'
  proof -
    from bestD(3) [OF b that] obtain w where w: "map_of cands n = Some w" by blast
    then have "Deb w < Deb v" using False deb_order(3) by blast
    with bestD(2) [OF b w] that show ?thesis by (meson less_imp_le order_trans)
  qed
  show ?thesis by (intro bestI) (auto simp: m above split: if_splits dest: bestD [OF b])
qed

lemma merge_all_best: "best cands os \<Longrightarrow> best (fold merge_pkg ps cands) (os \<union> set ps)"
proof (induction ps arbitrary: cands os)
  case (Cons p ps)
  from Cons.IH [OF merge_best [OF Cons.prems, of "fst p" "snd p"]] show ?case by simp
qed simp

lemma entries_best: "best (fst st) os \<Longrightarrow> best (fst (fold (list_entry_step H dir) es st)) (os \<union> set (offers H dir es))"
proof (induction es arbitrary: st os)
  case (Cons e es)
  have "best (fst (list_entry_step H dir e st)) (os \<union> set (entry_offers H dir e))"
    using merge_all_best [OF Cons.prems] Cons.prems
    by (cases e) (auto simp: list_entry_step_def entry_offers_def Let_def split: option.splits)
  from Cons.IH [OF this] show ?case by (simp add: offers_def Un_assoc)
qed (simp add: offers_def)

lemma candidates_best:
  assumes "candidateVersions H (Some es) dir = Some (cands, age)"
  shows "best cands (set (offers H dir es))"
proof -
  have "best (fst ([], None :: time option)) {}" by (simp add: best_def)
  from entries_best [OF this, of H dir es] show ?thesis
    using assms by (auto simp: candidateVersions_def split: prod.splits)
qed


section \<open>References and registries\<close>

lemma cut_absent: "c \<notin> set s \<Longrightarrow> cut_first c s = None" "c \<notin> set s \<Longrightarrow> cut_last c s = None"
  by simp_all

lemma last_segment_tag:
  assumes "CHR ''/'' \<notin> set tag"
  shows "last_segment (name @ CHR '':'' # tag) = last_segment name @ CHR '':'' # tag"
proof (cases "cut_last (CHR ''/'') name")
  case None
  then show ?thesis using assms by (simp add: last_segment_def cut_absent)
next
  case (Some p)
  obtain a b where p: "p = (a, b)" by fastforce
  have n: "name = a @ CHR ''/'' # b" "CHR ''/'' \<notin> set b" using cut_last_SomeD Some p by fastforce+
  have "cut_last (CHR ''/'') (a @ CHR ''/'' # (b @ CHR '':'' # tag)) = Some (a, b @ CHR '':'' # tag)"
    by (rule cut_last_sep) (use assms n(2) in simp)
  then show ?thesis using Some p by (simp add: last_segment_def n(1))
qed

lemma last_segment_length: "length (last_segment s) \<le> length s"
  using cut_last_SomeD by (fastforce simp: last_segment_def split: option.split)

lemma split_tag_eq:
  assumes "CHR '':'' \<notin> set (last_segment name)"
  shows "split_tag name = (name, ''latest'')" "CHR ''/'' \<notin> set tag \<Longrightarrow> split_tag (name @ CHR '':'' # tag) = (name, tag)"
  using assms last_segment_length [of name] by (simp_all add: split_tag_def last_segment_tag cut_absent)

lemma last_segment_in:
  "last_segment (a @ CHR ''/'' # b) = last_segment b" "CHR ''/'' \<notin> set s \<Longrightarrow> last_segment s = s"
proof -
  show "last_segment (a @ CHR ''/'' # b) = last_segment b"
  proof (cases "cut_last (CHR ''/'') b")
    case None
    then show ?thesis by (simp add: last_segment_def cut_absent)
  next
    case (Some p)
    obtain x y where p: "p = (x, y)" by fastforce
    have b: "b = x @ CHR ''/'' # y" "CHR ''/'' \<notin> set y" using cut_last_SomeD Some p by fastforce+
    from cut_last_sep [OF b(2), of "a @ CHR ''/'' # x"] show ?thesis using Some p by (simp add: last_segment_def b(1))
  qed
qed (simp add: last_segment_def cut_absent)

text \<open>
  An image reference is taken apart as it was put together: a registry, also one with a port, a repository of any depth and a
  tag come back unchanged; without a tag the tag is \<open>latest\<close>; and a name without a registry is on Docker Hub, in the
  library when it has one part only.
\<close>

theorem image_reference_parts:
  assumes "CHR '':'' \<notin> set (last_segment repo)" "CHR ''/'' \<notin> set tag" "CHR ''/'' \<notin> set host"
    and "CHR ''/'' \<notin> set plain" "CHR '':'' \<notin> set plain" "plain \<noteq> []"
  shows "(looksLikeHost host \<longrightarrow>
      parseImageReference (host @ CHR ''/'' # repo @ CHR '':'' # tag) = Some \<lparr>rg_host = host, rg_repository = repo, rg_reference = tag\<rparr> \<and>
      parseImageReference (host @ CHR ''/'' # repo) = Some \<lparr>rg_host = host, rg_repository = repo, rg_reference = ''latest''\<rparr>) \<and>
    (\<not> looksLikeHost host \<longrightarrow>
      parseImageReference (host @ CHR ''/'' # repo @ CHR '':'' # tag) =
        Some \<lparr>rg_host = ''registry-1.docker.io'', rg_repository = host @ CHR ''/'' # repo, rg_reference = tag\<rparr>) \<and>
    parseImageReference (plain @ CHR '':'' # tag) =
      Some \<lparr>rg_host = ''registry-1.docker.io'', rg_repository = ''library/'' @ plain, rg_reference = tag\<rparr>"
proof -
  have l: "last_segment (host @ CHR ''/'' # repo) = last_segment repo" by (rule last_segment_in)
  have c: "CHR '':'' \<notin> set (last_segment (host @ CHR ''/'' # repo))" "CHR '':'' \<notin> set (last_segment plain)"
    using assms(1,4,5) by (simp_all add: l last_segment_in)
  have t: "split_tag (host @ CHR ''/'' # repo @ CHR '':'' # tag) = (host @ CHR ''/'' # repo, tag)"
    "split_tag (host @ CHR ''/'' # repo) = (host @ CHR ''/'' # repo, ''latest'')" "split_tag (plain @ CHR '':'' # tag) = (plain, tag)"
    using split_tag_eq [OF c(1)] split_tag_eq [OF c(2)] assms(2) by simp_all
  have "cut_first (CHR ''/'') (host @ CHR ''/'' # repo) = Some (host, repo)" using assms(3) by simp
  then show ?thesis using assms(4,6) by (simp add: parseImageReference_def t cut_absent)
qed

text \<open>
  The registry is asked as the distribution protocol asks and learns no more: one digest costs at most three requests; a token is sent only
  to the manifest itself, only after the registry refused the request without one with a challenge, and it is the token that the realm named by that
  challenge issued; and a digest comes from an answer to the question for the manifest.
\<close>

theorem registry_exchange:
  assumes "Digest E ref = (r, qs)"
  shows "length qs \<le> 3 \<and> hd qs = head_request (manifest_url E ref) [] \<and>
    (\<forall>q \<in> set qs. map_of (hq_headers q) ''Authorization'' \<noteq> None \<longrightarrow>
       (\<exists>first challenge token. q = head_request (manifest_url E ref) token \<and>
          ge_http E (hd qs) = Some first \<and> hp_status first = 401 \<and> lget (hp_headers first) ''Www-Authenticate'' = challenge \<and>
          fst (fetchToken E challenge) = Some token)) \<and>
    (\<forall>d. r = Some d \<longrightarrow>
       (\<exists>a. ge_http E (last qs) = Some a \<and> hq_url (last qs) = manifest_url E ref \<and> hp_status a = 200 \<and>
          lget (hp_headers a) ''Docker-Content-Digest'' = d \<and> d \<noteq> []))"
proof -
  let ?url = "manifest_url E ref"
  have h: "headManifest E ?url t = (Some d, s, w) \<Longrightarrow>
      \<exists>a. ge_http E (head_request ?url t) = Some a \<and> hp_status a = 200 \<and> lget (hp_headers a) ''Docker-Content-Digest'' = d \<and> d \<noteq> []" for t d s w
    by (auto simp: headManifest_def Let_def split: option.splits if_splits)
  have refused: "headManifest E ?url t = (None, 401, w) \<Longrightarrow>
      \<exists>a. ge_http E (head_request ?url t) = Some a \<and> hp_status a = 401 \<and> lget (hp_headers a) ''Www-Authenticate'' = w" for t w
    by (auto simp: headManifest_def Let_def split: option.splits if_splits)
  have few: "snd (fetchToken E w) = [] \<or> (\<exists>q. snd (fetchToken E w) = [q] \<and> hq_headers q = [])" for w
    by (auto simp: fetchToken_def token_request_def Let_def split: option.splits if_splits)
  have plain: "map_of (hq_headers (head_request ?url [])) ''Authorization'' = None" "hq_url (head_request ?url t) = ?url" for t
    by (simp_all add: head_request_def)
  obtain o1 s1 w1 where first: "headManifest E ?url [] = (o1, s1, w1)" by (metis prod_cases3)
  show ?thesis
  proof (cases "o1 = None \<and> s1 = 401 \<and> w1 \<noteq> []")
    case False
    then have "r = o1" "qs = [head_request ?url []]" using assms first by (auto simp: Digest_def Let_def split: option.splits)
    then show ?thesis using plain h first by auto
  next
    case True
    obtain t ts where f: "fetchToken E w1 = (t, ts)" by fastforce
    have ts: "ts = [] \<or> (\<exists>q. ts = [q] \<and> hq_headers q = [])" using few [of w1] f by simp
    show ?thesis
    proof (cases t)
      case None
      then have "r = None" "qs = head_request ?url [] # ts" using assms first True f by (auto simp: Digest_def Let_def)
      then show ?thesis using plain ts by auto
    next
      case (Some tok)
      then have r: "r = fst (headManifest E ?url tok)" "qs = head_request ?url [] # ts @ [head_request ?url tok]"
        using assms first True f by (auto simp: Digest_def Let_def)
      obtain a where a: "ge_http E (head_request ?url []) = Some a" "hp_status a = 401" "lget (hp_headers a) ''Www-Authenticate'' = w1"
        using refused first True by blast
      have dig: "\<forall>d. r = Some d \<longrightarrow> (\<exists>a. ge_http E (last qs) = Some a \<and> hq_url (last qs) = ?url \<and> hp_status a = 200 \<and>
          lget (hp_headers a) ''Docker-Content-Digest'' = d \<and> d \<noteq> [])"
        using h plain(2) r by (metis append_Cons last_snoc prod.collapse)
      have only: "q = head_request ?url tok" if "q \<in> set qs" "map_of (hq_headers q) ''Authorization'' \<noteq> None" for q
        using that plain ts r(2) by auto
      have hd: "hd qs = head_request ?url []" "length qs \<le> 3" using ts r(2) by auto
      show ?thesis
        using dig hd by (intro conjI ballI impI, simp_all) (use only a f Some in fastforce)
    qed
  qed
qed

section \<open>From dnf to the inventory\<close>

text \<open>A row of the table that dnf prints, with the widths of the gaps between its columns.\<close>

definition gap :: "nat \<Rightarrow> string" where
  "gap k = replicate (Suc k) (CHR '' '')"

definition dnf_row :: "dnfUpdate \<times> nat \<times> nat \<Rightarrow> string" where
  "dnf_row r = (case r of (u, k, l) \<Rightarrow> dn_name u @ ''.'' @ dn_arch u @ gap k @ dn_version u @ gap l @ dn_repo u)"

definition no_spaces :: "string \<Rightarrow> bool" where
  "no_spaces s \<longleftrightarrow> s \<noteq> [] \<and> list_all (\<lambda>c. \<not> is_space c) s"

definition row_ok :: "dnfUpdate \<times> nat \<times> nat \<Rightarrow> bool" where
  "row_ok r \<longleftrightarrow>
     (case r of (u, _, _) \<Rightarrow> no_spaces (dn_name u) \<and> no_spaces (dn_arch u) \<and> CHR ''.'' \<notin> set (dn_arch u) \<and> no_spaces (dn_version u) \<and> no_spaces (dn_repo u)) \<and>
     line_ok (dnf_row r)"

lemma Fields_gap: "Fields (gap k @ s) = Fields s"
  by (induction k) (simp_all add: gap_def Fields_def is_space_def)

lemma Fields_column: "no_spaces w \<Longrightarrow> Fields (w @ gap k @ s) = w # Fields s"
  using Fields_cons(1) [of w "replicate k (CHR '' '') @ s"] Fields_gap [of k s]
  by (cases k) (simp_all add: gap_def no_spaces_def Fields_def is_space_def)

lemma word_prefix:
  assumes "has_prefix (a @ CHR '' '' # r) (w @ CHR '' '' # q)" "CHR '' '' \<notin> set a" "CHR '' '' \<notin> set w"
  shows "a = w"
proof -
  obtain x where "a @ CHR '' '' # r = w @ CHR '' '' # (q @ x)" using assms(1) by (auto simp: has_prefix_iff)
  from arg_cong [OF this, of "cut_first (CHR '' '')"] show ?thesis using assms(2,3) by simp
qed

lemma no_space_char: "no_spaces s \<Longrightarrow> CHR '' '' \<notin> set s"
  by (auto simp: no_spaces_def list_all_iff is_space_def)

lemma check_row:
  assumes "row_ok r"
  shows "check_lines (dnf_row r # ls) = fst r # check_lines ls"
proof -
  obtain u k l where r: "r = (u, k, l)" by (metis prod_cases3)
  let ?na = "dn_name u @ ''.'' @ dn_arch u"
  have w: "no_spaces ?na" "no_spaces (dn_version u)" "no_spaces (dn_repo u)" and a: "CHR ''.'' \<notin> set (dn_arch u)" "dn_name u \<noteq> []" "dn_arch u \<noteq> []"
    using assms r by (auto simp: row_ok_def no_spaces_def is_space_def)
  have row: "dnf_row r = ?na @ gap k @ dn_version u @ gap l @ dn_repo u" by (simp add: dnf_row_def r)
  have f: "Fields (dnf_row r) = [?na, dn_version u, dn_repo u]"
    unfolding row Fields_column [OF w(1)] Fields_column [OF w(2)] using w(3) by (simp add: Fields_cons(2) no_spaces_def)
  have "trimmed (dnf_row r)"
    using w a(2) by (auto simp: row trimmed_def no_spaces_def list_all_iff hd_append)
  then have t: "trim_space (dnf_row r) = dnf_row r" "dnf_row r \<noteq> []" by (auto simp: trim_trimmed trimmed_def)
  have np: "\<not> has_prefix (dnf_row r) (v @ CHR '' '' # q)" if "CHR '' '' \<notin> set v" "CHR ''.'' \<notin> set v" for v q
  proof
    assume "has_prefix (dnf_row r) (v @ CHR '' '' # q)"
    then have "?na = v"
      using word_prefix [of ?na "replicate k (CHR '' '') @ dn_version u @ gap l @ dn_repo u" v q] no_space_char [OF w(1)] that(1)
      by (simp add: row gap_def)
    then show False using that(2) by auto
  qed
  have p: "\<not> has_prefix (dnf_row r) ''Obsoleting Packages''" "\<not> has_prefix (dnf_row r) ''Last metadata''"
    using np [of "''Obsoleting''" "''Packages''"] np [of "''Last''" "''metadata''"] by simp_all
  have "cut_last (CHR ''.'') ?na = Some (dn_name u, dn_arch u)" using a by simp
  then have "check_line (dnf_row r) = [u]"
    using a by (cases u) (simp add: check_line_def f splitNameArch_def)
  then show ?thesis using t p by (simp add: r)
qed

lemma check_table: "list_all row_ok rs \<Longrightarrow> check_lines (map dnf_row rs @ ls) = map fst rs @ check_lines ls"
proof (induction rs)
  case (Cons r rs)
  then show ?case using check_row [of r "map dnf_row rs @ ls"] by (simp del: check_lines.simps)
qed simp

definition banner_line :: "string \<Rightarrow> bool" where
  "banner_line l \<longleftrightarrow> line_ok l \<and> (trim_space l = [] \<or> has_prefix (trim_space l) ''Last metadata'')"

lemma check_banner: "list_all banner_line bs \<Longrightarrow> check_lines (bs @ ls) = check_lines ls"
proof (induction bs)
  case (Cons b bs)
  have "\<not> has_prefix (trim_space b) ''Obsoleting Packages''" using Cons.prems by (auto simp: banner_line_def has_prefix_iff)
  then show ?case using Cons by (auto simp: banner_line_def)
qed simp

definition dnf_output :: "string list \<Rightarrow> (dnfUpdate \<times> nat \<times> nat) list \<Rightarrow> string list \<Rightarrow> string" where
  "dnf_output banner rs obsoleting =
     text_of (banner @ map dnf_row rs @ (if obsoleting = [] then [] else ''Obsoleting Packages'' # obsoleting))"

lemma parse_dnf_output:
  assumes "list_all banner_line banner" "list_all row_ok rs" "list_all line_ok obsoleting"
  shows "parseCheckUpdate (dnf_output banner rs obsoleting) = map fst rs"
proof -
  let ?tail = "if obsoleting = [] then [] else ''Obsoleting Packages'' # obsoleting"
  have ok: "list_all line_ok (banner @ map dnf_row rs @ ?tail)"
    using assms by (auto simp: list_all_iff banner_line_def row_ok_def line_ok_def nl_def)
  have "check_lines ?tail = []" by (simp add: trim_space_def is_space_def has_prefix_def)
  then show ?thesis
    unfolding parseCheckUpdate_def dnf_output_def scan_text(1) [OF ok]
    using check_banner [OF assms(1)] check_table [OF assms(2)] by simp
qed

text \<open>
  C26 What dnf prints is what the inventory shows: after a run of \<open>bitacora-dnf\<close> that ended well, and a working disk from then on, the collector
  reads from the spool exactly the updates of the table, whatever its gaps, banner and list of obsolete packages; after a
  run in which dnf failed it reads none, so that no older report is mistaken for a new one.
\<close>

theorem dnf_updates_reach_agent:
  assumes "list_all banner_line banner" "list_all row_ok rs" "list_all line_ok obsoleting"
    and "exec [''dnf'', ''check-update''] = (dnf_output banner rs obsoleting, Some (code, e))"
    and "spool_good ind ok (C, helper_spool, d)" "dnf_main C enc exec now d = (0, d')" "dk_faults d' = []"
    and "\<And>ups p errs. dnf_Run (runCheckUpdate (exec [''dnf'', ''check-update''])) = (ups, errs) \<Longrightarrow> enc ups = Some p \<Longrightarrow>
      dec (ind p) = Some ups \<and> ok \<lparr>se_collector = ''dnfupdates'', se_ts = now, se_schema = 1, se_data = p, se_errors = errs\<rparr>"
  shows "dnfItems dec (fst (spool_ReadDir C helperSpoolDir d')) = (if code = Some 100 then map (dnf_item \<circ> fst) rs else [])"
proof -
  obtain ups errs where r: "dnf_Run (runCheckUpdate (exec [''dnf'', ''check-update''])) = (ups, errs)" by fastforce
  have "dn_name (fst x) \<noteq> []" if "x \<in> set rs" for x using assms(2) that by (cases x) (auto simp: list_all_iff row_ok_def no_spaces_def)
  then have named: "filter (\<lambda>u. dn_name u \<noteq> []) (map fst rs) = map fst rs" by (auto simp: filter_id_conv)
  have "ups = (if code = Some 100 then map fst rs else [])"
    using r by (auto simp: assms(4) runCheckUpdate_def dnf_Run_def parse_dnf_output [OF assms(1-3)] split: if_splits)
  then have ups: "map dnf_item (filter (\<lambda>u. dn_name u \<noteq> []) ups) = (if code = Some 100 then map (dnf_item \<circ> fst) rs else [])"
    using named by simp
  have w: "helper_exit (spool_WriteAtomic C now helperSpoolDir ''dnfupdates'' 1 (enc ups) errs d) = (0, d')"
    using assms(6) r by (simp add: dnf_main_def)
  obtain p es where "enc ups = Some p" "spool_ReadDir C helperSpoolDir d' = (Inr es, d')"
    "map_of es ''dnfupdates'' = Some \<lparr>se_collector = ''dnfupdates'', se_ts = now, se_schema = 1, se_data = ind p, se_errors = errs\<rparr>"
    using helper_report [OF assms(5) _ w assms(7)] assms(8) [OF r] by (auto simp: collector_name_def)
  then show ?thesis using assms(8) [OF r] ups by (simp add: dnfItems_def)
qed

section \<open>Plugin files\<close>

lemma find_all_hit: "m (t @ s) = Some (x, s) \<Longrightarrow> t \<noteq> [] \<Longrightarrow> find_all m (t @ s) = x # find_all m s"
  by (cases t) simp_all

lemma find_all_skip: "(\<And>c r. c \<in> set t \<Longrightarrow> m (c # r) = None) \<Longrightarrow> find_all m (t @ s) = find_all m s"
  by (induction t) auto

definition entity_text :: "string \<times> string \<Rightarrow> string" where
  "entity_text e = (case e of (k, v) \<Rightarrow> ''<!ENTITY '' @ k @ CHR '' '' # CHR 0x22 # v @ CHR 0x22 # CHR ''>'' # [nl])"

definition attr_text :: "string \<times> string \<Rightarrow> string" where
  "attr_text a = (case a of (k, v) \<Rightarrow> CHR '' '' # k @ CHR ''='' # CHR 0x22 # v @ [CHR 0x22])"

definition plg_text :: "labels \<Rightarrow> labels \<Rightarrow> string \<Rightarrow> string" where
  "plg_text es as rest = concat (map entity_text es) @ (''<PLUGIN'' @ concat (map attr_text as) @ [CHR ''>'']) @ rest"

definition plg_pair :: "string \<times> string \<Rightarrow> bool" where
  "plg_pair p \<longleftrightarrow> (case p of (k, v) \<Rightarrow> k \<noteq> [] \<and> list_all word_char k \<and> list_all (\<lambda>c. \<not> re_quote c \<and> c \<noteq> CHR ''<'' \<and> c \<noteq> CHR ''>'') v)"

lemma char_classes [simp]:
  "\<not> word_char (CHR '' '')" "\<not> word_char (CHR ''='')" "re_space (CHR '' '')" "re_quote (CHR 0x22)" "\<not> re_space (CHR 0x22)"
  "\<not> word_char nl" "\<not> re_space (CHR ''>'')" "\<not> re_space (CHR ''='')" "\<not> word_char (CHR ''<'')" "\<not> word_char (CHR ''>'')" "word_char c \<Longrightarrow> \<not> re_space c"
  by (auto simp: word_char_def re_space_def re_quote_def is_digit_def nl_def)

lemma re_word_text: "k \<noteq> [] \<Longrightarrow> list_all word_char k \<Longrightarrow> \<not> word_char c \<Longrightarrow> re_word (k @ c # s) = Some (k, c # s)"
  by (simp add: re_word_def list_all_iff)

lemma re_quoted_text: "list_all (\<lambda>c. \<not> re_quote c) v \<Longrightarrow> re_quoted (CHR 0x22 # v @ CHR 0x22 # s) = Some (v, s)"
  by (simp add: re_quoted_def list_all_iff)

lemma re_blanks_text: "k \<noteq> [] \<Longrightarrow> \<not> re_space (hd k) \<Longrightarrow> re_blanks (CHR '' '' # k @ s) = Some (k @ s)"
  by (cases k) (simp_all add: re_blanks_def)

lemma entity_hit:
  assumes "plg_pair (k, v)"
  shows "entityDeclRe (entity_text (k, v) @ s) = Some ((k, v), nl # s)"
proof -
  have k: "k \<noteq> []" "list_all word_char k" "\<not> re_space (hd k)" and v: "list_all (\<lambda>c. \<not> re_quote c) v"
    using assms by (auto simp: plg_pair_def list_all_iff)
  let ?q = "CHR 0x22 # v @ CHR 0x22 # CHR ''>'' # nl # s"
  have t: "entity_text (k, v) @ s = ''<!ENTITY'' @ CHR '' '' # k @ CHR '' '' # ?q" by (simp add: entity_text_def)
  have p: "cut_prefix (''<!ENTITY'' @ r) ''<!ENTITY'' = Some r" for r by (simp add: cut_prefix_def has_prefix_def)
  have "re_blanks (CHR '' '' # ?q) = Some ?q" by (simp add: re_blanks_def)
  then show ?thesis
    unfolding t entityDeclRe_def p
    using re_blanks_text [OF k(1,3)] re_word_text [OF k(1,2), of "CHR '' ''"] re_quoted_text [OF v] by simp
qed

lemma attr_hit:
  assumes "plg_pair (k, v)"
  shows "attrRe (k @ CHR ''='' # CHR 0x22 # v @ CHR 0x22 # s) = Some ((k, v), s)"
  using assms re_word_text [of k "CHR ''=''"] re_quoted_text [of v] by (simp add: attrRe_def plg_pair_def list_all_iff)

lemma find_attrs: "list_all plg_pair as \<Longrightarrow> find_all attrRe (concat (map attr_text as)) = as"
proof (induction as)
  case (Cons a as)
  obtain k v where a: "a = (k, v)" by fastforce
  let ?t = "k @ CHR ''='' # CHR 0x22 # v @ [CHR 0x22]"
  have "find_all attrRe (?t @ concat (map attr_text as)) = (k, v) # find_all attrRe (concat (map attr_text as))"
    using attr_hit [of k v "concat (map attr_text as)"] Cons.prems a by (intro find_all_hit) (simp_all add: plg_pair_def)
  moreover have "attrRe (CHR '' '' # s) = None" for s by (simp add: attrRe_def re_word_def)
  moreover have "concat (map attr_text (a # as)) = CHR '' '' # ?t @ concat (map attr_text as)" by (simp add: a attr_text_def)
  ultimately show ?case using Cons a by simp
qed simp

lemma no_open_tag: "c \<noteq> CHR ''<'' \<Longrightarrow> entityDeclRe (c # s) = None" "c \<noteq> CHR ''<'' \<Longrightarrow> pluginTagRe (c # s) = None"
  by (simp_all add: entityDeclRe_def pluginTagRe_def cut_prefix_def has_prefix_def)

lemma attrs_no_tag:
  "list_all plg_pair as \<Longrightarrow> CHR ''<'' \<notin> set (concat (map attr_text as)) \<and> CHR ''>'' \<notin> set (concat (map attr_text as))"
  by (induction as) (auto simp: attr_text_def plg_pair_def list_all_iff)

lemma find_entities:
  assumes "list_all plg_pair as" "CHR ''<'' \<notin> set rest"
  shows "list_all plg_pair es \<Longrightarrow> find_all entityDeclRe (plg_text es as rest) = es"
proof (induction es)
  case Nil
  let ?body = "''PLUGIN'' @ concat (map attr_text as) @ CHR ''>'' # rest"
  have "CHR ''<'' \<notin> set ?body" using attrs_no_tag [OF assms(1)] assms(2) by auto
  then have "find_all entityDeclRe (?body @ []) = find_all entityDeclRe []"
    by (intro find_all_skip no_open_tag) metis
  moreover have "entityDeclRe (''<PLUGIN'' @ s) = None" for s by (simp add: entityDeclRe_def cut_prefix_def has_prefix_def)
  ultimately show ?case by (simp add: plg_text_def)
next
  case (Cons e es)
  obtain k v where e: "e = (k, v)" by fastforce
  obtain t where t: "entity_text (k, v) = t @ [nl]" "t \<noteq> []" by (simp add: entity_text_def)
  have "find_all entityDeclRe (t @ nl # plg_text es as rest) = (k, v) # find_all entityDeclRe (nl # plg_text es as rest)"
    using entity_hit [of k v "plg_text es as rest"] Cons.prems t e by (intro find_all_hit) simp_all
  moreover have "entityDeclRe (nl # s) = None" for s by (rule no_open_tag) (simp add: nl_def)
  moreover have "plg_text (e # es) as rest = t @ nl # plg_text es as rest" using t by (simp add: plg_text_def e)
  ultimately show ?case using Cons e by simp
qed

lemma find_tag:
  assumes "list_all plg_pair as" "as \<noteq> []"
  shows "list_all plg_pair es \<Longrightarrow> \<exists>ts. find_all pluginTagRe (plg_text es as rest) = concat (map attr_text as) # ts"
proof (induction es)
  case Nil
  have "\<exists>x. concat (map attr_text as) = CHR '' '' # x" using assms(2) by (cases as) (auto simp: attr_text_def split: prod.splits)
  then have "pluginTagRe ((''<PLUGIN'' @ concat (map attr_text as) @ [CHR ''>'']) @ rest) = Some (concat (map attr_text as), rest)"
    using attrs_no_tag [OF assms(1)] cut_first_sep [of "CHR ''>''" "concat (map attr_text as)" rest]
    by (auto simp: pluginTagRe_def cut_prefix_def has_prefix_def)
  then show ?case by (simp add: plg_text_def)
next
  case (Cons e es)
  obtain k v where e: "e = (k, v)" by fastforce
  let ?u = "''!ENTITY '' @ k @ CHR '' '' # CHR 0x22 # v @ CHR 0x22 # CHR ''>'' # [nl]"
  have "CHR ''<'' \<notin> set k" "CHR ''<'' \<notin> set v" using Cons.prems char_classes(9) by (force simp: e plg_pair_def list_all_iff)+
  then have u: "entity_text (k, v) = CHR ''<'' # ?u" "CHR ''<'' \<notin> set ?u" by (simp_all add: entity_text_def nl_def)
  have "find_all pluginTagRe (?u @ plg_text es as rest) = find_all pluginTagRe (plg_text es as rest)"
    using u(2) by (intro find_all_skip no_open_tag) metis
  moreover have "pluginTagRe (CHR ''<'' # ?u @ s) = None" for s by (simp add: pluginTagRe_def cut_prefix_def has_prefix_def)
  moreover have "plg_text (e # es) as rest = CHR ''<'' # ?u @ plg_text es as rest" using u(1) by (simp add: plg_text_def e)
  ultimately have "find_all pluginTagRe (plg_text (e # es) as rest) = find_all pluginTagRe (plg_text es as rest)" by simp
  then show ?case using Cons by simp
qed

lemma fold_update_pairs:
  "distinct (map fst ps) \<Longrightarrow> map_of (fold (\<lambda>(k, v). AList.update k (f v)) ps m) k = (case map_of ps k of Some v \<Rightarrow> Some (f v) | None \<Rightarrow> map_of m k)"
proof (induction ps arbitrary: m)
  case (Cons p ps)
  obtain a b where p: "p = (a, b)" by fastforce
  show ?case using Cons by (auto simp: p update_conv' split: option.splits dest: map_of_SomeD intro: rev_image_eqI)
qed (simp split: option.split)

text \<open>
  A plugin file is read as it is written: from a file that declares entities and names its plugin with attributes, each of them a plain
  value or a reference to an entity, the parser gets name, version and address with the references resolved, and it reports a
  file without a name or a version as unusable.
\<close>

theorem plugin_file_read:
  assumes "list_all plg_pair es" "list_all plg_pair as" "distinct (map fst es)" "distinct (map fst as)" "as \<noteq> []" "CHR ''<'' \<notin> set rest"
    and "list_all (\<lambda>(k, v). v = value k \<or> v = CHR ''&'' # ent k @ '';'' \<and> ent k \<noteq> [] \<and> map_of es (ent k) = Some (value k)) as"
    and "list_all (\<lambda>(k, v). \<not> has_prefix (value k) ''&'') as"
  defines "shown \<equiv> \<lambda>k. if k \<in> set (map fst as) then value k else []"
  shows "parsePLG (plg_text es as rest) =
    (if shown ''name'' = [] \<or> shown ''version'' = [] then None
     else Some \<lparr>pl_name = shown ''name'', pl_version = shown ''version'', pl_url = shown ''pluginURL''\<rparr>)"
proof -
  let ?ents = "fold (\<lambda>(k, v). AList.update k v) es []"
  let ?attrs = "fold (\<lambda>(k, v). AList.update k (resolveEntity v ?ents)) as []"
  have ents: "map_of ?ents k = map_of es k" for k using fold_update_pairs [OF assms(3), of "\<lambda>v. v" "[]" k] by (simp split: option.splits)
  have res: "resolveEntity v ?ents = value k" if "(k, v) \<in> set as" for k v
  proof (cases "v = value k")
    case True
    then show ?thesis using assms(8) that by (auto simp: resolveEntity_def list_all_iff)
  next
    case False
    then have "v = CHR ''&'' # ent k @ '';''" "ent k \<noteq> []" "map_of es (ent k) = Some (value k)" using assms(7) that by (auto simp: list_all_iff)
    then show ?thesis
      using has_suffix_append [of "CHR ''&'' # ent k" "'';''"] by (cases "ent k") (simp_all add: resolveEntity_def ents has_prefix_def)
  qed
  have attrs: "lget ?attrs k = shown k" for k
  proof (cases "map_of as k")
    case None
    then have "map_of ?attrs k = None"
      using fold_update_pairs [OF assms(4), of "\<lambda>v. resolveEntity v ?ents" "[]" k] by (simp only: option.case map_of.simps)
    moreover have "k \<notin> set (map fst as)" using None by (simp add: map_of_eq_None_iff)
    ultimately show ?thesis by (simp only: lget_def shown_def option.case if_False)
  next
    case (Some v)
    then have "(k, v) \<in> set as" by (rule map_of_SomeD)
    then show ?thesis
      using fold_update_pairs [OF assms(4), of "\<lambda>v. resolveEntity v ?ents" "[]" k] Some res [OF \<open>(k, v) \<in> set as\<close>] by (force simp: lget_def shown_def)
  qed
  obtain ts where "find_all pluginTagRe (plg_text es as rest) = concat (map attr_text as) # ts"
    using find_tag [OF assms(2,5,1)] by blast
  then show ?thesis
    using find_entities [OF assms(2,6,1)] find_attrs [OF assms(2)] by (simp add: parsePLG_def attrs Let_def)
qed

lemma pkg_updates_accepted:
  assumes "h \<noteq> []" "\<not> is_zero_time t"
  shows "list_all (hub_accepts h t) (snd (pkg_Collect E H d ctxDone now c))"
proof -
  let ?named = "list_all (\<lambda>x. ii_id x \<noteq> [])"
  have each: "?named (concat (map f xs))" if "\<And>x. ?named (f x)" for f :: "'z \<Rightarrow> inventoryItem list" and xs
    using that by (induction xs) simp_all
  have "?named (aptItems rnd order H lists path dir now)" for rnd order lists path dir
    by (auto simp: aptItems_def apt_item_def intro!: each split: option.split prod.split)
  moreover have "?named (dnfItems dec es)" for dec es
    by (auto simp: dnfItems_def dnf_item_def list_all_iff)
  moreover have "?named (unraid_plugin get H dir e)" for get dir e
    by (simp add: unraid_plugin_def unraid_item_def split: option.split prod.split)
  then have "?named (unraidItems get H es dir)" for get es dir
    by (auto simp: unraidItems_def intro!: each split: option.split)
  moreover have "?named (docker_image R img)" for R img
    by (simp add: docker_image_def docker_item_def split: option.split)
  then have "?named (dockerItems R answer url)" for R answer url
    by (auto simp: dockerItems_def intro!: each split: option.split)
  ultimately have "?named (pkg_items E H d now c)" unfolding pkg_items_def by simp
  then show ?thesis by (auto simp: pkg_Collect_def list_all_iff intro!: hub_accepts_inventory [OF assms])
qed

section \<open>Witnesses\<close>

definition demo_dpkg :: string where
  "demo_dpkg = text_of (concat (map package_lines [(''curl'', ''1.9'', ''install ok installed'', [''a tool'']), (''vim'', ''2'', ''deinstall ok config-files'', [])]))"

definition demo_list :: string where
  "demo_list = text_of (concat (map package_lines [(''curl'', ''1.10'', ''-'', []), (''vim'', ''3'', ''-'', [])]))"

definition demo_apt :: host_files where
  "demo_apt = \<lparr>hf_stat = (\<lambda>_. True), hf_read = (\<lambda>p. if p = ''/status'' then Some demo_dpkg else Some demo_list), hf_dir = (\<lambda>_. None)\<rparr>"

lemma demo_parsed:
  "parseDpkgStatus demo_apt ''/status'' = Some [(''curl'', ''1.9'')]"
  "offers demo_apt ''/lists'' [(''main_Packages'', False, Some 5)] = [(''curl'', ''1.10''), (''vim'', ''3'')]"
proof -
  have "parse_stanzas keep demo_dpkg = Some (map (\<lambda>(n, v, _). (n, v))
      (filter (kept keep) [(''curl'', ''1.9'', ''install ok installed'', [''a tool'']), (''vim'', ''2'', ''deinstall ok config-files'', [])]))" for keep
    unfolding demo_dpkg_def
    by (rule parse_stanzas_printed) (simp_all add: package_ok_def package_lines_def trimmed_def line_ok_def is_space_def nl_def)
  moreover have "contains ''install ok installed'' ''installed''" "\<not> contains ''deinstall ok config-files'' ''installed''" by code_simp+
  ultimately show "parseDpkgStatus demo_apt ''/status'' = Some [(''curl'', ''1.9'')]"
    by (simp add: parseDpkgStatus_def demo_apt_def kept_def)
  have "parse_stanzas keep demo_list = Some (map (\<lambda>(n, v, _). (n, v)) (filter (kept keep) [(''curl'', ''1.10'', ''-'', []), (''vim'', ''3'', ''-'', [])]))" for keep
    unfolding demo_list_def
    by (rule parse_stanzas_printed) (simp_all add: package_ok_def package_lines_def trimmed_def line_ok_def is_space_def nl_def)
  moreover have "Join [''/lists'', ''main_Packages''] = ''/lists/main_Packages''" "has_suffix ''main_Packages'' ''_Packages''" by code_simp+
  ultimately show "offers demo_apt ''/lists'' [(''main_Packages'', False, Some 5)] = [(''curl'', ''1.10''), (''vim'', ''3'')]"
    by (simp add: offers_def entry_offers_def parsePackagesFile_def demo_apt_def kept_def)
qed


theorem image_reference_parts_witness:
  "parseImageReference (''ghcr.io:443'' @ CHR ''/'' # ''org/tool'' @ CHR '':'' # ''v1'') = Some \<lparr>rg_host = ''ghcr.io:443'', rg_repository = ''org/tool'', rg_reference = ''v1''\<rparr> \<and>
   parseImageReference (''nginx'' @ CHR '':'' # ''v1'') = Some \<lparr>rg_host = ''registry-1.docker.io'', rg_repository = ''library/'' @ ''nginx'', rg_reference = ''v1''\<rparr>"
proof -
  have "last_segment ''org/tool'' = ''tool''" "looksLikeHost ''ghcr.io:443''" by code_simp+
  then show ?thesis using image_reference_parts [of "''org/tool''" "''v1''" "''ghcr.io:443''" "''nginx''"] by (simp del: append_Cons append_Nil)
qed

definition demo_registry :: registry_env where
  "demo_registry =
     \<lparr>ge_http = (\<lambda>q. Some (if hq_method q = GET then \<lparr>hp_status = 200, hp_headers = [], hp_body = ''t''\<rparr>
        else if map_of (hq_headers q) ''Authorization'' = None
        then \<lparr>hp_status = 401, hp_headers = [(''Www-Authenticate'', ''Bearer realm='' @ [CHR 0x22] @ ''r'' @ [CHR 0x22])], hp_body = []\<rparr>
        else \<lparr>hp_status = 200, hp_headers = [(''Docker-Content-Digest'', ''sha256:1'')], hp_body = []\<rparr>)),
      ge_token_url = (\<lambda>realm ps. Some realm), ge_dec = (\<lambda>b. Some (b, [])), ge_scheme = []\<rparr>"

definition demo_ref :: registryRef where
  "demo_ref = \<lparr>rg_host = ''h'', rg_repository = ''r'', rg_reference = ''v''\<rparr>"

theorem registry_exchange_witness:
  "fst (Digest demo_registry demo_ref) = Some ''sha256:1'' \<and> length (snd (Digest demo_registry demo_ref)) = 3 \<and>
   hd (snd (Digest demo_registry demo_ref)) = head_request (manifest_url demo_registry demo_ref) []"
proof -
  have "fst (Digest demo_registry demo_ref) = Some ''sha256:1''" "length (snd (Digest demo_registry demo_ref)) = 3" by code_simp+
  then show ?thesis using registry_exchange [OF prod.collapse [symmetric], of demo_registry demo_ref] by simp
qed

definition demo_update :: dnfUpdate where
  "demo_update = \<lparr>dn_name = ''python3.11'', dn_arch = ''noarch'', dn_version = ''3'', dn_repo = ''updates''\<rparr>"

definition demo_dnf_entry :: "string \<Rightarrow> spoolEntry" where
  "demo_dnf_entry v = \<lparr>se_collector = ''dnfupdates'', se_ts = 0, se_schema = 1, se_data = v, se_errors = []\<rparr>"

definition demo_dnf_codec :: spoolCodec where
  "demo_dnf_codec = \<lparr>sp_marshal = (\<lambda>e. Some (se_data e)), sp_unmarshal = (\<lambda>raw. Some (demo_dnf_entry raw))\<rparr>"

theorem dnf_updates_reach_agent_witness:
  "\<exists>d'. dnfItems (\<lambda>_. Some [demo_update]) (fst (spool_ReadDir demo_dnf_codec helperSpoolDir d')) = [dnf_item demo_update]"
proof -
  let ?exec = "\<lambda>_ :: string list. (dnf_output [''Last metadata''] [(demo_update, 2, 0)] [''x''], Some (Some 100 :: int option, [] :: string))"
  let ?enc = "\<lambda>_ :: dnfUpdate list. Some ''x''"
  let ?ok = "\<lambda>e. e = demo_dnf_entry (se_data e)"
  have g: "spool_good (\<lambda>v. v) ?ok (demo_dnf_codec, helper_spool, demo_spool [])"
    by (auto simp: spool_good_def spool_codec_ok_def demo_dnf_codec_def demo_spool_def dir_ok_def plain_elem_def helper_spool_def spool_look_def content_def)
  have ok: "list_all banner_line [''Last metadata'']" "list_all row_ok [(demo_update, 2, 0)]" "list_all line_ok [''x'']"
    by (simp_all add: banner_line_def line_ok_def row_ok_def no_spaces_def demo_update_def dnf_row_def gap_def is_space_def nl_def has_prefix_def trim_space_def)
  note parsed = parse_dnf_output [OF ok]
  obtain d' where run: "dnf_main demo_dnf_codec ?enc ?exec 0 (demo_spool []) = (0, d')" "dk_faults d' = []"
    by (simp add: dnf_main_def runCheckUpdate_def dnf_Run_def parsed helper_exit_def spool_WriteAtomic_def demo_dnf_codec_def demo_spool_def)
  have c: "(\<lambda>_. Some [demo_update]) p = Some ups \<and> ?ok \<lparr>se_collector = ''dnfupdates'', se_ts = 0, se_schema = 1, se_data = p, se_errors = errs\<rparr>"
    if "dnf_Run (runCheckUpdate (?exec [''dnf'', ''check-update''])) = (ups, errs)" for ups errs p
    using that by (auto simp: runCheckUpdate_def dnf_Run_def parsed demo_dnf_entry_def)
  from dnf_updates_reach_agent [OF ok, of ?exec "Some 100" "[]", OF refl g run c] show ?thesis by auto
qed

theorem plugin_file_read_witness:
  "parsePLG (plg_text [(''version'', ''2'')] [(''name'', ''x''), (''version'', ''&version;'')] []) = Some \<lparr>pl_name = ''x'', pl_version = ''2'', pl_url = []\<rparr>"
proof -
  have "list_all plg_pair [(''version'', ''2'')]" "list_all plg_pair [(''name'', ''x''), (''version'', ''&version;'')]" by code_simp+
  then show ?thesis
    using plugin_file_read [of "[(''version'', ''2'')]" "[(''name'', ''x''), (''version'', ''&version;'')]" "[]"
        "\<lambda>k. if k = ''name'' then ''x'' else ''2''" "\<lambda>k. ''version''"]
    by (simp add: has_prefix_def)
qed

end
