(* ===== verification/Blackbox_Run.thy ===== *)
theory Blackbox_Run
  imports Blackbox_Sampler
begin

text \<open>
  The loop of the flight recorder, \<open>internal/blackbox/run.go\<close>: what a recorder file holds while the agent runs, after the
  process was killed and after the machine stopped.  The tickers and the stop channel are the sequence of ticks that the \<open>select\<close>
  statement receives.
\<close>

definition DefaultSampleInterval :: int where
  "DefaultSampleInterval = 1000000000"

definition DefaultSyncInterval :: int where
  "DefaultSyncInterval = 5000000000"

definition run_intervals :: "int \<Rightarrow> int \<Rightarrow> int \<times> int" where
  "run_intervals sampleInterval syncInterval =
     (if sampleInterval \<le> 0 then DefaultSampleInterval else sampleInterval,
      if syncInterval \<le> 0 then DefaultSyncInterval else syncInterval)"

text \<open>A tick to sample carries what the sampler finds on the host then, a tick to flush the error of \<open>msync\<close>.\<close>

datatype bb_tick = SampleTick sources time | SyncTick "string option" | StopTick

text \<open>\<open>br_disk\<close> is what the last successful \<open>msync\<close> put on the disk.\<close>

record bb_run =
  br_sampler :: sampler
  br_rec :: recorder
  br_disk :: "byte list"
  br_errors :: "string list"

definition bb_Sync :: "string option \<Rightarrow> bb_run \<Rightarrow> bb_run" where
  "bb_Sync err st = (case err of None \<Rightarrow> st\<lparr>br_disk := rc_data (br_rec st)\<rparr> | Some _ \<Rightarrow> st)"

text \<open>The loop ends at a stop or waits for the next tick; \<open>None\<close> is a panic.  \<open>report\<close> says whether there is an \<open>onSyncError\<close>.\<close>

fun blackbox_Run :: "floats \<Rightarrow> bool \<Rightarrow> bb_tick list \<Rightarrow> bb_run \<Rightarrow> bb_run option" where
  "blackbox_Run fl report [] st = Some st"
| "blackbox_Run fl report (StopTick # ts) st = Some st"
| "blackbox_Run fl report (SampleTick src now # ts) st =
     (case Sample fl src now (br_sampler st) of (s, smp) \<Rightarrow>
        (case Record s (br_rec st) of
           None \<Rightarrow> None
         | Some r \<Rightarrow> blackbox_Run fl report ts (st\<lparr>br_sampler := smp, br_rec := r\<rparr>)))"
| "blackbox_Run fl report (SyncTick err # ts) st =
     (let st' = bb_Sync err st in
      blackbox_Run fl report ts
        (case err of Some e \<Rightarrow> if report then st'\<lparr>br_errors := br_errors st' @ [e]\<rparr> else st' | None \<Rightarrow> st'))"

section \<open>What is recorded and what is flushed\<close>

fun observations :: "bb_tick list \<Rightarrow> (sources \<times> time) list" where
  "observations [] = []"
| "observations (SampleTick src now # ts) = (src, now) # observations ts"
| "observations (_ # ts) = observations ts"

definition samples_of :: "floats \<Rightarrow> sampler \<Rightarrow> bb_tick list \<Rightarrow> sample list" where
  "samples_of fl s ts = map fst (sample_run fl (observations ts) s)"

text \<open>The ticks the loop received, and those of them up to the last successful flush.\<close>

definition received :: "bb_tick list \<Rightarrow> bb_tick list" where
  "received ts = takeWhile (\<lambda>t. t \<noteq> StopTick) ts"

definition flushed :: "bb_tick list \<Rightarrow> bb_tick list" where
  "flushed ts = rev (dropWhile (\<lambda>t. t \<noteq> SyncTick None) (rev ts))"

definition sync_errors :: "bb_tick list \<Rightarrow> string list" where
  "sync_errors ts = List.map_filter (\<lambda>t. case t of SyncTick e \<Rightarrow> e | _ \<Rightarrow> None) ts"

definition lastn :: "nat \<Rightarrow> 'a list \<Rightarrow> 'a list" where
  "lastn n xs = drop (length xs - n) xs"

lemma flushed_simps:
  "flushed [] = []"
  "flushed (t # ts) = (if SyncTick None \<in> set ts then t # flushed ts else if t = SyncTick None then [t] else [])"
proof -
  show "flushed [] = []" by (simp add: flushed_def)
  have *: "flushed ts = []" if "SyncTick None \<notin> set ts" using that by (auto simp: flushed_def)
  show "flushed (t # ts) = (if SyncTick None \<in> set ts then t # flushed ts else if t = SyncTick None then [t] else [])"
  proof (cases "SyncTick None \<in> set ts")
    case True
    then have "dropWhile (\<lambda>t. t \<noteq> SyncTick None) (rev ts @ [t]) = dropWhile (\<lambda>t. t \<noteq> SyncTick None) (rev ts) @ [t]"
      by (intro dropWhile_append1 [of "SyncTick None"]) auto
    with True show ?thesis by (simp add: flushed_def)
  next
    case False
    then have "dropWhile (\<lambda>t. t \<noteq> SyncTick None) (rev ts @ [t]) = dropWhile (\<lambda>t. t \<noteq> SyncTick None) [t]"
      by (intro dropWhile_append2) auto
    with False show ?thesis by (simp add: flushed_def)
  qed
qed

lemma flushed_none: "SyncTick None \<notin> set ts \<Longrightarrow> flushed ts = []"
  by (auto simp: flushed_def)

lemma samples_of_simps:
  "samples_of fl s [] = []"
  "samples_of fl s (SampleTick src now # ts) = (case Sample fl src now s of (x, s') \<Rightarrow> x # samples_of fl s' ts)"
  "samples_of fl s (SyncTick e # ts) = samples_of fl s ts"
  by (auto simp: samples_of_def split: prod.split)

lemma received_simps:
  "received [] = []" "received (StopTick # ts) = []"
  "received (SampleTick src now # ts) = SampleTick src now # received ts" "received (SyncTick e # ts) = SyncTick e # received ts"
  by (simp_all add: received_def)

lemma sync_errors_simps:
  "sync_errors [] = []" "sync_errors (SampleTick src now # ts) = sync_errors ts"
  "sync_errors (SyncTick e # ts) = (case e of None \<Rightarrow> sync_errors ts | Some x \<Rightarrow> x # sync_errors ts)"
  by (auto simp: sync_errors_def List.map_filter_simps split: option.split)

lemmas tick_simps = samples_of_simps received_simps sync_errors_simps flushed_simps

text \<open>The invariant: the mapping is the ring of all samples so far, the disk that of those before the last flush.\<close>

lemma run_ring:
  assumes "mapped cap ss (br_rec st)" "ring cap ds (br_disk st)" "length (sa_cpuIDs (br_sampler st)) \<le> MaxCPUs"
    and "length ss + length (observations ts) < 2 ^ 64"
  shows "\<exists>st'. blackbox_Run fl report ts st = Some st' \<and>
    mapped cap (ss @ samples_of fl (br_sampler st) (received ts)) (br_rec st') \<and>
    ring cap (if SyncTick None \<in> set (received ts) then ss @ samples_of fl (br_sampler st) (flushed (received ts)) else ds) (br_disk st') \<and>
    br_errors st' = br_errors st @ (if report then sync_errors (received ts) else [])"
  using assms
proof (induction fl report ts st arbitrary: ss ds rule: blackbox_Run.induct)
  case (1 fl report st)
  then show ?case by (simp add: tick_simps)
next
  case (2 fl report ts st)
  then show ?case by (simp add: tick_simps)
next
  case (3 fl report src now ts st)
  obtain s smp where S: "Sample fl src now (br_sampler st) = (s, smp)" by fastforce
  have sh: "sample_ok s" "length (sa_cpuIDs smp) \<le> MaxCPUs"
    using Sample_shaped [OF "3.prems"(3), of fl src now] S by (simp_all add: shaped_def)
  obtain r where r: "Record s (br_rec st) = Some r" "mapped cap (ss @ [s]) r"
    using Record_ring [OF "3.prems"(1) sh(1)] "3.prems"(4) by auto
  from "3.IH" [OF S [symmetric] r(1), of "ss @ [s]" ds] "3.prems" r(2) sh(2)
  show ?case by (auto simp: r(1) S tick_simps flushed_none)
next
  case (4 fl report err ts st)
  show ?case
  proof (cases err)
    case None
    have "mapped cap ss (br_rec (bb_Sync err st))" "ring cap ss (br_disk (bb_Sync err st))"
      using "4.prems" None by (simp_all add: bb_Sync_def mapped_def)
    with "4.IH" [OF refl, of ss ss] "4.prems" show ?thesis
      unfolding None by (cases "SyncTick None \<in> set (received ts)") (auto simp: bb_Sync_def tick_simps)
  next
    case (Some e)
    from "4.IH" [OF refl, of ss ds] "4.prems" show ?thesis
      unfolding Some by (cases report; cases "SyncTick None \<in> set (received ts)") (auto simp: bb_Sync_def tick_simps)
  qed
qed

lemma recorder_loop:
  assumes "cap \<noteq> 0" "blackbox_Open (\<lambda>_. False) None cap = (Inr r, Some raw)" "length (observations ts) < 2 ^ 64"
    and "st = \<lparr>br_sampler = NewSampler procRoot sysRoot, br_rec = r, br_disk = raw, br_errors = []\<rparr>"
    and "smps = samples_of fl (NewSampler procRoot sysRoot)"
  shows "\<exists>st'. blackbox_Run fl report ts st = Some st' \<and>
    Dump (Some (rc_data (br_rec st'))) = DumpOk (lastn (unat cap) (smps (received ts))) \<and>
    Dump (Some (br_disk st')) = DumpOk (lastn (unat cap) (smps (flushed (received ts)))) \<and>
    br_errors st' = (if report then sync_errors (received ts) else [])"
proof -
  have m: "mapped cap [] r" "raw = rc_data r" using Open_fresh [OF assms(1), of None] assms(2) by auto
  then have d: "ring cap [] raw" by (simp add: mapped_def)
  have s0: "br_sampler st = NewSampler procRoot sysRoot" "br_errors st = []" by (simp_all add: assms(4))
  have "mapped cap [] (br_rec st)" "ring cap [] (br_disk st)" "length (sa_cpuIDs (br_sampler st)) \<le> MaxCPUs"
    using m d by (simp_all add: assms(4) NewSampler_def)
  from run_ring [OF this, of ts fl report, unfolded s0 append_Nil, folded assms(5)] assms(3)
  obtain st' where st': "blackbox_Run fl report ts st = Some st'" "mapped cap (smps (received ts)) (br_rec st')"
    "ring cap (if SyncTick None \<in> set (received ts) then smps (flushed (received ts)) else []) (br_disk st')"
    "br_errors st' = (if report then sync_errors (received ts) else [])"
    by (auto simp: s0 assms(5) simp del: if_weak_cong)
  have "ring cap (smps (flushed (received ts))) (br_disk st')"
    using st'(3) by (auto simp: assms(5) flushed_none samples_of_def split: if_splits)
  then have "Dump (Some (br_disk st')) = DumpOk (lastn (unat cap) (smps (flushed (received ts))))"
    unfolding lastn_def by (rule Dump_ring)
  moreover have "Dump (Some (rc_data (br_rec st'))) = DumpOk (lastn (unat cap) (smps (received ts)))"
    unfolding lastn_def by (rule Dump_ring) (use st'(2) in \<open>simp add: mapped_def\<close>)
  ultimately show ?thesis using st'(1,4) by blast
qed


text \<open>
  Between two flushes the kernel may write any page of the mapping on its own.  When it wrote the page of the header and not that of the slot, the
  reader of a full ring reports the oldest sample in the place of the newest: the counter is ahead of the records.
\<close>

theorem torn_header:
  assumes "mapped cap ss r" "sample_ok s" "unat cap \<le> length ss" "length ss + 1 < 2 ^ 64" "Record s r = Some r'"
  shows "Dump (Some (take headerSize (rc_data r') @ drop headerSize (rc_data r))) =
    DumpOk (lastn (unat cap - 1) ss @ [ss ! (length ss - unat cap)])"
proof -
  let ?n = "length ss" and ?x = "ss ! (length ss - unat cap)"
  have m': "mapped cap (ss @ [s]) r'" using Record_ring [OF assms(1,2,4)] assms(5) by auto
  obtain slots where raw: "rc_data r = ring_header cap (of_nat ?n) @ concat slots" and sl: "length slots = unat cap"
      "\<forall>x \<in> set slots. length x = sampleEncodedSize"
      "\<forall>k < ?n. ?n \<le> k + unat cap \<longrightarrow> slots ! (k mod unat cap) = encodeSample (ss ! k)"
    and c: "cap \<noteq> 0" "list_all sample_ok ss" using assms(1) by (auto simp: mapped_def ring_def)
  have c0: "0 < unat cap" using c(1) by (simp add: unat_gt_0)
  have "take headerSize (rc_data r') = ring_header cap (of_nat (?n + 1))"
    using m' by (auto simp: mapped_def ring_def)
  then have eq: "take headerSize (rc_data r') @ drop headerSize (rc_data r) = ring_header cap (of_nat (length (ss @ [?x]))) @ concat slots"
    by (simp add: raw)
  have "?n mod unat cap = (?n - unat cap) mod unat cap" using assms(3) by (simp add: le_mod_geq)
  then have "slots ! (k mod unat cap) = encodeSample ((ss @ [?x]) ! k)" if "k < ?n + 1" "?n + 1 \<le> k + unat cap" for k
    using that sl(3) assms(3) c0 by (cases "k = ?n") (auto simp: nth_append)
  moreover have "sample_ok ?x" using c assms(3) c0 by (auto simp: list_all_length)
  ultimately have "ring cap (ss @ [?x]) (take headerSize (rc_data r') @ drop headerSize (rc_data r))"
    unfolding ring_def eq using c sl(1,2) assms(4) by (intro conjI exI [of _ slots]) auto
  from Dump_ring [OF this] show ?thesis
    using assms(3) c0 by (simp add: lastn_def Suc_diff_le)
qed

section \<open>Witnesses\<close>


theorem torn_header_witness:
  "\<exists>r r'. Record (sample_at 3) r = Some r' \<and> Dump (Some (rc_data r)) = DumpOk [sample_at 1, sample_at 2] \<and>
     Dump (Some (take headerSize (rc_data r') @ drop headerSize (rc_data r))) = DumpOk [sample_at 2, sample_at 1]"
proof -
  obtain r0 where r0: "mapped 2 [] r0" using Open_fresh [of 2 None] by auto
  obtain r where r: "mapped 2 [sample_at 1, sample_at 2] r"
    using record_all_ring [OF r0, of "[sample_at 1, sample_at 2]"] by auto
  obtain r' where r': "Record (sample_at 3) r = Some r'" using Record_ring [OF r, of "sample_at 3"] by auto
  have "Dump (Some (rc_data r)) = DumpOk [sample_at 1, sample_at 2]"
    using Dump_ring [of 2 "[sample_at 1, sample_at 2]" "rc_data r"] r by (simp add: mapped_def)
  with torn_header [OF r _ _ _ r'] r' show ?thesis by (auto simp: lastn_def)
qed

end
