(* ===== verification/Admin.thy ===== *)
theory Admin
  imports Blackbox_Run Collect_System Logstore_Index Metricstore
begin

text \<open>
  The resource budget of the agent (\<open>internal/resourcebudget\<close>) and the administration program \<open>bita\<close> (\<open>cmd/bita\<close>).
  \<open>rd\<close> reads a file, \<open>pf\<close> is \<open>strconv.ParseFloat\<close>, \<open>rnd\<close> the rounding to 64-bit numbers.  Of a failure the message without the
  operating system's text is kept.
\<close>

section \<open>The resource budget (budget.go, sample_linux.go)\<close>

definition MaxRSSBytes :: nat where
  "MaxRSSBytes = 60 * 1024 * 1024"

definition MaxCPUFraction :: rat where
  "MaxCPUFraction = 2 / 100"

datatype budget_error = RSSExceeds nat | CPUExceeds gofloat

definition CheckBudget :: "(rat \<Rightarrow> gofloat) \<Rightarrow> nat \<Rightarrow> gofloat \<Rightarrow> budget_error option" where
  "CheckBudget rnd rssBytes cpuFraction =
     (if MaxRSSBytes < rssBytes then Some (RSSExceeds rssBytes)
      else if f_less (rnd MaxCPUFraction) cpuFraction then Some (CPUExceeds cpuFraction)
      else None)"

definition clockTicksPerSecond :: nat where
  "clockTicksPerSecond = 100"

datatype proc_error = ProcUnreadable | UnexpectedVmRSS string | BadVmRSS | VmRSSNotFound | UnexpectedStat | StatFieldCount nat | BadUtime | BadStime

fun rss_lines :: "string list \<Rightarrow> proc_error + nat" where
  "rss_lines [] = Inl VmRSSNotFound"
| "rss_lines (line # ls) =
     (if \<not> has_prefix line ''VmRSS:'' then rss_lines ls
      else
        let fs = Fields line in
        if length fs < 2 then Inl (UnexpectedVmRSS line)
        else (case ParseUint 64 (fs ! 1) of None \<Rightarrow> Inl BadVmRSS | Some kb \<Rightarrow> Inr (kb * 1024 mod 2 ^ 64)))"

definition readRSS :: "(string \<Rightarrow> string option) \<Rightarrow> int \<Rightarrow> proc_error + nat" where
  "readRSS rd pid =
     (case rd (''/proc/'' @ itoa_int pid @ ''/status'') of
        None \<Rightarrow> Inl ProcUnreadable
      | Some s \<Rightarrow> rss_lines (scan_lines s))"

definition readCPUSeconds ::
  "(rat \<Rightarrow> gofloat) \<Rightarrow> (string \<Rightarrow> gofloat option) \<Rightarrow> (string \<Rightarrow> string option) \<Rightarrow> int \<Rightarrow> proc_error + gofloat" where
  "readCPUSeconds rnd pf rd pid =
     (case rd (''/proc/'' @ itoa_int pid @ ''/stat'') of
        None \<Rightarrow> Inl ProcUnreadable
      | Some s \<Rightarrow>
          (case cut_last (CHR '')'') s of
             None \<Rightarrow> Inl UnexpectedStat
           | Some (_, tail) \<Rightarrow>
               let fs = Fields tail in
               if length fs < 13 then Inl (StatFieldCount (length fs))
               else
                 (case pf (fs ! 11) of
                    None \<Rightarrow> Inl BadUtime
                  | Some utime \<Rightarrow>
                      (case pf (fs ! 12) of
                         None \<Rightarrow> Inl BadStime
                       | Some stime \<Rightarrow> Inr (f_div_count rnd (f_add rnd utime stime) clockTicksPerSecond)))))"

definition proc_Sample ::
  "(rat \<Rightarrow> gofloat) \<Rightarrow> (string \<Rightarrow> gofloat option) \<Rightarrow> (string \<Rightarrow> string option) \<Rightarrow> int \<Rightarrow> proc_error + nat \<times> gofloat" where
  "proc_Sample rnd pf rd pid =
     (case readRSS rd pid of
        Inl e \<Rightarrow> Inl e
      | Inr rss \<Rightarrow> (case readCPUSeconds rnd pf rd pid of Inl e \<Rightarrow> Inl e | Inr cpu \<Rightarrow> Inr (rss, cpu)))"

section \<open>bita (main.go)\<close>

text \<open>A 32-bit float with two decimals, as \<open>%.2f\<close> prints it.\<close>

definition f32_abs :: "f32 \<Rightarrow> rat" where
  "f32_abs w =
     (let e = unat w div 2 ^ 23 mod 256; m = unat w mod 2 ^ 23 in
      if e = 0 then of_nat m / 2 ^ 149
      else if e < 150 then of_nat (2 ^ 23 + m) / 2 ^ (150 - e)
      else of_nat (2 ^ 23 + m) * 2 ^ (e - 150))"

definition fmt2_f32 :: "f32 \<Rightarrow> string" where
  "fmt2_f32 w =
     (let neg = 2 ^ 31 \<le> unat w; e = unat w div 2 ^ 23 mod 256; m = unat w mod 2 ^ 23 in
      if e = 255 then (if m \<noteq> 0 then ''NaN'' else if neg then ''-Inf'' else ''+Inf'')
      else (if neg then ''-'' else []) @ fmt2 (f32_abs w))"

definition sample_line :: "sample \<Rightarrow> string" where
  "sample_line s =
     ''t='' @ itoa_int (sint (TimestampUnixMilli s)) @ '' cpus='' @ itoa (unat (NumCPUs s)) @ '' load1='' @ fmt2_f32 (LoadAvg1 s) @
     '' mem_avail_kb='' @ itoa (unat (MemAvailableKB s)) @ '' procs_blocked_d='' @ itoa (unat (ProcsBlockedD s)) @
     '' psi_cpu_some10='' @ fmt2_f32 (PSICPUSome10 s) @ [nl]"

definition formatBlackboxSamples :: "sample list \<Rightarrow> string" where
  "formatBlackboxSamples samples = itoa (length samples) @ '' sample(s)'' @ [nl] @ concat (map sample_line samples)"

text \<open>A program's outcome: its exit code and its standard output; \<open>None\<close> is a panic.  What goes to the standard error is left out.\<close>

type_synonym outcome = "(nat \<times> string) option"

definition runBlackbox :: "(string \<Rightarrow> byte list option) \<Rightarrow> string list \<Rightarrow> outcome" where
  "runBlackbox rd args =
     (if length args < 2 \<or> args ! 0 \<noteq> ''dump'' then Some (1, [])
      else
        (case Dump (rd (args ! 1)) of
           DumpOk samples \<Rightarrow> Some (0, formatBlackboxSamples samples)
         | DumpErr _ _ \<Rightarrow> Some (1, [])
         | DumpPanic \<Rightarrow> None))"

definition DefaultLogsDir :: string where
  "DefaultLogsDir = ''/var/lib/bitacora/logs''"

text \<open>\<open>reason\<close> is the text kept with a corrupt file.\<close>

definition logs_report :: "(string \<Rightarrow> string) \<Rightarrow> string \<Rightarrow> verifyResult \<Rightarrow> nat \<times> string" where
  "logs_report reason dir r =
     (let head = itoa (length (vr_blocks r)) @ '' blocks reconstructed from '' @ dir @ [nl] @
            ''  raw:        '' @ itoa_int (vr_totalRaw r) @ '' bytes'' @ [nl] @
            ''  compressed: '' @ itoa_int (vr_totalComp r) @ '' bytes'' @ [nl];
          problems = length (vr_orphanPayloads r) + length (vr_orphanMeta r) + length (vr_corrupt r) in
      if problems = 0 then (0, head @ ''no orphans, no corrupt metadata'' @ [nl])
      else
        (1, head @
            concat (map (\<lambda>p. ''[FAIL] orphan payload (no .meta.json): '' @ p @ [nl]) (vr_orphanPayloads r)) @
            concat (map (\<lambda>p. ''[FAIL] orphan metadata (no .zst payload): '' @ p @ [nl]) (vr_orphanMeta r)) @
            concat (map (\<lambda>p. ''[FAIL] corrupt metadata: '' @ p @ '' ('' @ reason p @ '')'' @ [nl]) (vr_corrupt r))))"

definition runLogs :: "blockCodec \<Rightarrow> (string \<Rightarrow> string) \<Rightarrow> string list \<Rightarrow> disk \<Rightarrow> outcome" where
  "runLogs K reason args d =
     (if length args < 1 \<or> args ! 0 \<noteq> ''verify'' then Some (1, [])
      else
        let dir = (if 1 < length args then args ! 1 else DefaultLogsDir) in
        (case ScanIndex K dir d of
           (Inl _, _) \<Rightarrow> Some (1, [])
         | (Inr r, _) \<Rightarrow> Some (logs_report reason dir r)))"

text \<open>\<open>line\<close> prints a check with its name and detail.\<close>

definition runDoctor :: "(finding \<Rightarrow> string) \<Rightarrow> finding list \<Rightarrow> outcome" where
  "runDoctor line checks =
     (let failed = length (filter (\<lambda>c. c \<noteq> FoundOK) checks) in
      Some (if 0 < failed then 1 else 0,
        concat (map (\<lambda>c. ''['' @ (if c = FoundOK then ''OK'' else ''FAIL'') @ ''] '' @ line c @ [nl]) checks)))"

record bita_env =
  be_read :: "string \<Rightarrow> byte list option"
  be_codec :: blockCodec
  be_disk :: disk
  be_reason :: "string \<Rightarrow> string"
  be_checks :: "finding list"
  be_line :: "finding \<Rightarrow> string"

definition bita_usage :: string where
  "bita_usage = ''bita: scaffold only, most subcommands not yet implemented'' @ [nl] @ ''usage: bita doctor'' @ [nl] @
     ''       bita logs verify [dir]'' @ [nl] @ ''       bita blackbox dump <fichero>'' @ [nl]"

definition bita_main :: "bita_env \<Rightarrow> string list \<Rightarrow> outcome" where
  "bita_main E args =
     (case args of
        [] \<Rightarrow> Some (0, bita_usage)
      | cmd # rest \<Rightarrow>
          if cmd = ''doctor'' then runDoctor (be_line E) (be_checks E)
          else if cmd = ''logs'' then runLogs (be_codec E) (be_reason E) rest (be_disk E)
          else if cmd = ''blackbox'' then runBlackbox (be_read E) rest
          else Some (1, []))"

section \<open>What the sampler of the budget reads\<close>

text \<open>The line the kernel writes for a process, with any name and the fields that follow it.\<close>

definition stat_line :: "nat \<Rightarrow> string \<Rightarrow> string list \<Rightarrow> string" where
  "stat_line pid comm fs = itoa pid @ '' ('' @ comm @ '') '' @ join_with '' '' fs @ [nl]"

definition stat_field :: "string \<Rightarrow> bool" where
  "stat_field f \<longleftrightarrow> f \<noteq> [] \<and> list_all (\<lambda>c. \<not> is_space c \<and> c \<noteq> CHR '')'') f"

lemma Fields_joined: "list_all stat_field fs \<Longrightarrow> Fields (join_with '' '' fs @ [nl]) = fs"
proof (induction fs)
  case Nil
  then show ?case by (simp add: Fields_def is_space_def nl_def)
next
  case (Cons f fs)
  have f: "f \<noteq> []" "list_all (\<lambda>c. \<not> is_space c) f" using Cons.prems by (auto simp: stat_field_def list_all_iff)
  show ?case
  proof (cases fs)
    case Nil
    have "is_space nl" by (simp add: is_space_def nl_def)
    then show ?thesis using fields_word [OF f(2), of "[]" "[nl]"] f(1) by (simp add: Nil Fields_def)
  next
    case (Cons g gs)
    then show ?thesis using Fields_cons(1) [OF f, of "join_with '' '' fs @ [nl]"] Cons.IH Cons.prems by simp
  qed
qed

lemma fields_blanks: "list_all is_space w \<Longrightarrow> fields_acc [] (w @ s) = fields_acc [] s"
  by (induction w) auto

lemma joined_no_paren: "list_all stat_field fs \<Longrightarrow> CHR '')'' \<notin> set (join_with '' '' fs)"
  by (induction "'' ''" fs rule: join_with.induct) (auto simp: stat_field_def list_all_iff)

lemma stat_fields:
  assumes "list_all stat_field fs"
  shows "\<exists>a. cut_last (CHR '')'') (stat_line n comm fs) = Some (a, '' '' @ join_with '' '' fs @ [nl])"
proof -
  have "CHR '')'' \<notin> set ('' '' @ join_with '' '' fs @ [nl])" using joined_no_paren [OF assms] by (simp add: nl_def)
  from cut_last_sep [OF this, of "itoa n @ '' ('' @ comm"] show ?thesis by (simp add: stat_line_def)
qed

definition rss_line :: "string \<Rightarrow> nat \<Rightarrow> string" where
  "rss_line gap kb = ''VmRSS:'' @ gap @ itoa kb @ '' kB''"

lemma rss_fields:
  assumes "list_all is_space gap" "gap \<noteq> []"
  shows "Fields (rss_line gap kb) = [''VmRSS:'', itoa kb, ''kB'']"
proof -
  obtain g gap' where g: "gap = g # gap'" using assms(2) by (cases gap) auto
  have d: "itoa kb \<noteq> []" "list_all (\<lambda>c. \<not> is_space c) (itoa kb)"
    using itoa_digits [of kb] by (auto simp: list_all_iff is_digit_def is_space_def)
  have t: "Fields (itoa kb @ '' kB'') = [itoa kb, ''kB'']"
    using Fields_cons(1) [OF d, of "''kB''"] by (simp add: Fields_def is_space_def)
  have v: "list_all (\<lambda>c. \<not> is_space c) ''VmRSS:''" by (simp add: is_space_def)
  show ?thesis
    using fields_word [OF v, of "[]" "gap @ itoa kb @ '' kB''"] fields_blanks [of gap' "itoa kb @ '' kB''"] assms(1) t
    by (simp add: g rss_line_def Fields_def del: append_Cons append_Nil) (simp add: g)
qed

lemma rss_found:
  assumes "list_all (\<lambda>l. \<not> has_prefix l ''VmRSS:'') pre" "list_all is_space gap" "gap \<noteq> []" "kb < 2 ^ 64"
  shows "rss_lines (pre @ rss_line gap kb # post) = Inr (kb * 1024 mod 2 ^ 64)"
  using assms(1)
proof (induction pre)
  case Nil
  have "has_prefix (rss_line gap kb) ''VmRSS:''" by (simp add: rss_line_def has_prefix_iff)
  then show ?case using assms(4) by (simp add: rss_fields [OF assms(2,3)] ParseUint_def itoa_digits)
qed simp

text \<open>
  The processor time of a process: whatever its name, with blanks and parentheses, the sampler reads the fields behind the name and returns
  the sum of the user and the system time, in seconds; the resident memory is the number of kibibytes of the line \<open>VmRSS\<close>
  times 1024 modulo \<open>2^64\<close>, whatever lines precede it.
\<close>

theorem proc_sample_exact:
  assumes "rd (''/proc/'' @ itoa_int pid @ ''/stat'') = Some (stat_line n comm fs)" "list_all stat_field fs" "13 \<le> length fs"
    and "pf (fs ! 11) = Some (Fin u)" "pf (fs ! 12) = Some (Fin v)"
    and "rd (''/proc/'' @ itoa_int pid @ ''/status'') = Some (text_of (pre @ rss_line gap kb # post))"
    and "list_all line_ok (pre @ rss_line gap kb # post)" "list_all (\<lambda>l. \<not> has_prefix l ''VmRSS:'') pre"
    and "list_all is_space gap" "gap \<noteq> []" "kb < 2 ^ 64"
  shows "proc_Sample Fin pf rd pid = Inr (kb * 1024 mod 2 ^ 64, Fin ((u + v) / 100))"
proof -
  obtain a where a: "cut_last (CHR '')'') (stat_line n comm fs) = Some (a, '' '' @ join_with '' '' fs @ [nl])"
    using stat_fields [OF assms(2)] by blast
  have "Fields ('' '' @ join_with '' '' fs @ [nl]) = fs"
    using Fields_joined [OF assms(2)] by (simp add: Fields_def is_space_def)
  then have "readCPUSeconds Fin pf rd pid = Inr (Fin ((u + v) / 100))"
    using assms(3-5) a by (simp add: readCPUSeconds_def assms(1) [simplified] Let_def clockTicksPerSecond_def)
  moreover have "readRSS rd pid = Inr (kb * 1024 mod 2 ^ 64)"
    using rss_found [OF assms(8-11)] by (simp add: readRSS_def assms(6) [simplified] scan_text(1) [OF assms(7)])
  ultimately show ?thesis by (simp add: proc_Sample_def)
qed

text \<open>
  The flight recorder can be read without the agent: after the agent was killed at any moment, \<open>bita blackbox dump\<close> on the file
  ends with exit code zero and prints the number of samples and one line for each of the last \<open>cap\<close> samples taken, oldest
  first; a file that cannot be read and an unknown command end with exit code one and print nothing.
\<close>

theorem bita_reads_recorder:
  assumes "cap \<noteq> 0" "blackbox_Open (\<lambda>_. False) None cap = (Inr r, Some raw)" "length (observations ts) < 2 ^ 64"
    and "st = \<lparr>br_sampler = NewSampler procRoot sysRoot, br_rec = r, br_disk = raw, br_errors = []\<rparr>"
    and "blackbox_Run fl report ts st = Some st'" "be_read E path = Some (rc_data (br_rec st'))"
  shows "bita_main E ([''blackbox'', ''dump'', path] @ rest) =
      Some (0, let ss = lastn (unat cap) (samples_of fl (NewSampler procRoot sysRoot) (received ts)) in
        itoa (length ss) @ '' sample(s)'' @ [nl] @ concat (map sample_line ss)) \<and>
    (be_read E other = None \<longrightarrow> bita_main E ([''blackbox'', ''dump'', other] @ rest) = Some (1, [])) \<and>
    (cmd \<notin> {''doctor'', ''logs'', ''blackbox''} \<longrightarrow> bita_main E (cmd # rest) = Some (1, []))"
  using recorder_loop [OF assms(1-4) refl, of fl report] assms(5,6)
  by (auto simp: bita_main_def runBlackbox_def formatBlackboxSamples_def Let_def Dump_def)

section \<open>Witnesses\<close>

definition demo_stat_fields :: "string list" where
  "demo_stat_fields = [''S'', ''1'', ''7'', ''7'', ''0'', ''-1'', ''0'', ''0'', ''0'', ''0'', ''0'', ''150'', ''50'']"

definition demo_rd :: "string \<Rightarrow> string option" where
  "demo_rd p =
     (if p = ''/proc/7/stat'' then Some (stat_line 7 ''a) (b'' demo_stat_fields)
      else if p = ''/proc/7/status'' then Some (text_of [''Name:'', rss_line ''  '' 2048])
      else None)"

theorem proc_sample_exact_witness:
  "proc_Sample Fin (\<lambda>s. Some (Fin (of_nat (dec_value s)))) demo_rd 7 = Inr (2097152, Fin 2)"
proof -
  have p: "''/proc/'' @ itoa_int 7 @ ''/stat'' = ''/proc/7/stat''" "''/proc/'' @ itoa_int 7 @ ''/status'' = ''/proc/7/status''"
    by code_simp+
  have 1: "demo_rd (''/proc/'' @ itoa_int 7 @ ''/stat'') = Some (stat_line 7 ''a) (b'' demo_stat_fields)"
    unfolding p by (simp add: demo_rd_def)
  have 2: "demo_rd (''/proc/'' @ itoa_int 7 @ ''/status'') = Some (text_of ([''Name:''] @ rss_line ''  '' 2048 # []))"
    unfolding p by (simp add: demo_rd_def)
  have i: "itoa 2048 = ''2048''" by code_simp
  have f: "list_all stat_field demo_stat_fields" "list_all line_ok ([''Name:''] @ rss_line ''  '' 2048 # [])"
      "list_all (\<lambda>l. \<not> has_prefix l ''VmRSS:'') [''Name:'']" "list_all is_space ''  ''"
    by (simp_all add: demo_stat_fields_def stat_field_def is_space_def line_ok_def rss_line_def i nl_def has_prefix_def)
  have v: "dec_value (demo_stat_fields ! 11) = 150" "dec_value (demo_stat_fields ! 12) = 50" "length demo_stat_fields = 13"
    by code_simp+
  from proc_sample_exact [OF 1 f(1) _ _ _ 2 f(2-4), of "\<lambda>s. Some (Fin (of_nat (dec_value s)))" 150 50] show ?thesis
    by (simp add: v)
qed

definition demo_bita :: "byte list \<Rightarrow> bita_env" where
  "demo_bita raw =
     \<lparr>be_read = (\<lambda>p. if p = ''f'' then Some raw else None), be_codec = fields_codec, be_disk = empty_store_disk, be_reason = (\<lambda>_. []),
      be_checks = [], be_line = (\<lambda>_. [])\<rparr>"

theorem bita_reads_recorder_witness:
  "\<exists>raw. bita_main (demo_bita raw) [''blackbox'', ''dump'', ''f''] = Some (0, ''0 sample(s)'' @ [nl]) \<and>
     bita_main (demo_bita raw) [''blackbox'', ''dump'', ''g''] = Some (1, []) \<and> bita_main (demo_bita raw) [''help''] = Some (1, [])"
proof -
  obtain r where r: "blackbox_Open (\<lambda>_. False) None 1 = (Inr r, Some (rc_data r))" using Open_fresh [of 1 None] by auto
  let ?st = "\<lparr>br_sampler = NewSampler [] [], br_rec = r, br_disk = rc_data r, br_errors = []\<rparr>"
  have z: "itoa 0 = ''0''" by code_simp
  from bita_reads_recorder [OF _ r, of "[]" ?st "[]" "[]" undefined False ?st "demo_bita (rc_data r)" "''f''" "[]" "''g''" "''help''"]
  show ?thesis by (auto simp: demo_bita_def tick_simps lastn_def z intro!: exI [of _ "rc_data r"])
qed

end
