(* ===== verification/Programs.thy ===== *)
theory Programs
  imports Hubapi Transport Capabilities
begin

text \<open>
  The two servers: \<open>bitacora-hub\<close>, which merges the read interface, the user interface and the ingest endpoint over one table of
  tokens (\<open>cmd/bitacora-hub\<close>), and \<open>bitacora-agent\<close>, which probes the host, resolves its collectors and starts them
  (\<open>cmd/bitacora-agent\<close>).  Flags arrive parsed; opening a store, the environment and the host's files are arguments.
\<close>

section \<open>bitacora-hub (main.go)\<close>

datatype hub_error = InvalidAddToken | OpeningTokenStore | AddingToken | OpeningRelationalStore | OpeningMetricStore

text \<open>
  \<open>sqlitetokenstore.New\<close> on the table of the file, \<open>None\<close> where there is none; \<open>fails i\<close> says that the i-th of its calls fails: the directory, opening the
  file, the three pragmas, the statement that creates the table unless it exists.
\<close>

datatype token_store_error = CreatingDir | OpeningDB | ApplyingPragma nat | Migrating

definition token_New :: "(nat \<Rightarrow> bool) \<Rightarrow> token_store option \<Rightarrow> (token_store_error + token_store) \<times> token_store option" where
  "token_New fails table =
     (if fails 0 then (Inl CreatingDir, table)
      else if fails 1 then (Inl OpeningDB, table)
      else
        (case List.find (\<lambda>i. fails (2 + i)) [0, 1, 2] of
           Some i \<Rightarrow> (Inl (ApplyingPragma i), table)
         | None \<Rightarrow>
             if fails 5 then (Inl Migrating, table)
             else let rows = (case table of None \<Rightarrow> [] | Some rows \<Rightarrow> rows) in (Inr rows, Some rows)))"

definition tokenStorePath :: "string \<Rightarrow> string" where
  "tokenStorePath dataDir = Join [dataDir, ''tokens.db'']"

definition runAddToken ::
  "(nat \<Rightarrow> bool) \<Rightarrow> bool \<Rightarrow> idkey \<Rightarrow> string option \<Rightarrow> string \<Rightarrow> token_store option \<Rightarrow> hub_error option \<times> token_store option" where
  "runAddToken fails stored IDKey salt spec table =
     (case cut_first (CHR '':'') spec of
        None \<Rightarrow> (Some InvalidAddToken, table)
      | Some (hostID, token) \<Rightarrow>
          if hostID = [] \<or> token = [] then (Some InvalidAddToken, table)
          else
            (case token_New fails table of
               (Inl _, table') \<Rightarrow> (Some OpeningTokenStore, table')
             | (Inr rows, table') \<Rightarrow>
                 (case sql_AddToken stored IDKey salt hostID token rows of
                    None \<Rightarrow> (Some AddingToken, table')
                  | Some rows' \<Rightarrow> (None, Some rows'))))"

text \<open>The state of a running hub: that of the ingest server and that of the read server, which holds the table of tokens.\<close>

record ('st, 'l) hub_state =
  hs_ingest :: "('st, 'l) hub"
  hs_api :: api_state

text \<open>Which of the three stores open; on an error, the stores opened before it are closed.\<close>

definition newHub ::
  "bool \<Rightarrow> bool \<Rightarrow> (nat \<Rightarrow> bool) \<Rightarrow> 'st \<Rightarrow> token_store option \<Rightarrow> hub_error \<times> string list + ('st, 'l) hub_state" where
  "newHub relOpen metricsOpen fails store table =
     (if \<not> relOpen then Inl (OpeningRelationalStore, [])
      else if \<not> metricsOpen then Inl (OpeningMetricStore, [''relational''])
      else
        (case token_New fails table of
           (Inl _, _) \<Rightarrow> Inl (OpeningTokenStore, [''relational'', ''metrics''])
         | (Inr rows, _) \<Rightarrow>
             Inr \<lparr>hs_ingest = \<lparr>hb_seen = [], hb_limiters = [], hb_store = store\<rparr>,
                  hs_api = \<lparr>as_devices = Some NewDeviceTokenStore, as_hosts = Some rows\<rparr>\<rparr>))"

text \<open>The program: it registers a token and ends, or serves; a number is its exit code.\<close>

definition hub_main ::
  "string \<Rightarrow> bool \<Rightarrow> idkey \<Rightarrow> string option \<Rightarrow> bool \<Rightarrow> bool \<Rightarrow> (nat \<Rightarrow> bool) \<Rightarrow> 'st \<Rightarrow> token_store option \<Rightarrow>
   (nat + ('st, 'l) hub_state) \<times> token_store option" where
  "hub_main addToken stored IDKey salt relOpen metricsOpen fails store table =
     (if addToken \<noteq> [] then
        (case runAddToken fails stored IDKey salt addToken table of
           (Some _, table') \<Rightarrow> (Inl 1, table')
         | (None, table') \<Rightarrow> (Inl 0, table'))
      else
        (case newHub relOpen metricsOpen fails store table of
           Inl _ \<Rightarrow> (Inl 1, table)
         | Inr st \<Rightarrow> (Inr st, as_hosts (hs_api st))))"

text \<open>What the ingest server uses, and how the queries of the token table fare in a request.\<close>

record ('e, 'st) hub_deps =
  hd_idkey :: idkey
  hd_decompress :: "string \<Rightarrow> string option"
  hd_unmarshal :: "string \<Rightarrow> batch option"
  hd_marshalResp :: "ingestResponse \<Rightarrow> string option"
  hd_receiver :: "('e, 'st) receiver"

record token_query =
  tq_ok :: bool
  tq_ctxDone :: "nat \<Rightarrow> bool"
  tq_readable :: "nat \<Rightarrow> bool"
  tq_end :: bool

definition ingestSrv :: "('e, 'st) hub_deps \<Rightarrow> token_query \<Rightarrow> token_store \<Rightarrow> ('e, 'st, 'l) server" where
  "ingestSrv D q rows =
     \<lparr>sv_lookup = (\<lambda>token. sql_Lookup (hd_idkey D) (tq_ok q) (tq_ctxDone q) (tq_readable q) (tq_end q) token rows),
      sv_bucket = None, sv_maxBody = 0, sv_decompress = hd_decompress D, sv_unmarshal = hd_unmarshal D,
      sv_marshalResp = hd_marshalResp D, sv_receiver = hd_receiver D\<rparr>"

text \<open>A request as each of the two servers reads it; the multiplexer decides by the path.\<close>

datatype hub_reply = IngestReply response | ApiReply reply

definition hub_handle ::
  "('e, 'st) hub_deps \<Rightarrow> web_ui \<Rightarrow> api_env \<Rightarrow> token_query \<Rightarrow> 'e option \<Rightarrow> request \<times> api_request \<Rightarrow> ('st, 'l) hub_state \<Rightarrow>
   hub_reply \<times> ('st, 'l) hub_state" where
  "hub_handle D webUI env q ctxErr r st =
     (if aq_path (snd r) = ''/v1/ingest'' then
        (case handleIngest (ingestSrv D q (case as_hosts (hs_api st) of None \<Rightarrow> [] | Some rows \<Rightarrow> rows)) ctxErr (fst r) (hs_ingest st) of
           (resp, h) \<Rightarrow> (IngestReply resp, st\<lparr>hs_ingest := h\<rparr>))
      else
        (case api_Handler webUI env (snd r) (hs_api st) of
           (rep, s) \<Rightarrow> (ApiReply rep, st\<lparr>hs_api := s\<rparr>)))"

section \<open>bitacora-agent (main.go)\<close>

text \<open>A configuration; \<open>flags\<close> are the options given on the command line, \<open>env\<close> the environment (empty where a variable is not set).\<close>

record agent_config =
  ac_hubURL :: string
  ac_token :: string
  ac_tokenFile :: string
  ac_spoolDir :: string

datatype config_error = ReadingTokenFile string | HubURLRequiresToken

definition DefaultOutboundDir :: string where
  "DefaultOutboundDir = ''/var/lib/bitacora/spool/outbound''"

definition readToken :: "(string \<Rightarrow> string option) \<Rightarrow> string \<Rightarrow> string \<Rightarrow> config_error + string" where
  "readToken rd path fallback =
     (if path = [] then Inr (trim_space fallback)
      else (case rd path of None \<Rightarrow> Inl (ReadingTokenFile path) | Some s \<Rightarrow> Inr (trim_space s)))"

definition flag_or :: "(string \<Rightarrow> string option) \<Rightarrow> string \<Rightarrow> string \<Rightarrow> string" where
  "flag_or flags name dflt = (case flags name of None \<Rightarrow> dflt | Some v \<Rightarrow> v)"

definition parseConfig ::
  "(string \<Rightarrow> string option) \<Rightarrow> (string \<Rightarrow> string option) \<Rightarrow> (string \<Rightarrow> string) \<Rightarrow> config_error + agent_config" where
  "parseConfig rd flags env =
     (let hubURL = flag_or flags ''hub-url'' (env ''BITACORA_HUB_URL'');
          tokenFile = flag_or flags ''token-file'' (env ''BITACORA_TOKEN_FILE'');
          spoolDir = flag_or flags ''spool-dir'' DefaultOutboundDir in
      (case readToken rd tokenFile (env ''BITACORA_TOKEN'') of
         Inl e \<Rightarrow> Inl e
       | Inr token \<Rightarrow>
           if hubURL \<noteq> [] \<and> token = [] then Inl HubURLRequiresToken
           else Inr \<lparr>ac_hubURL = hubURL, ac_token = token, ac_tokenFile = tokenFile, ac_spoolDir = spoolDir\<rparr>))"

text \<open>The collectors with the capabilities they require; \<open>init\<close> is the error of each collector's \<open>Init\<close>.\<close>

definition registered :: "(string \<times> string list \<times> duration \<times> duration) list" where
  "registered =
     [(''cpu'', [], 10 * second, 5 * second),
      (''memory'', [], 10 * second, 5 * second),
      (''network'', [], 30 * second, 10 * second),
      (''docker'', [ContainerCgroupv2], 30 * second, 10 * second),
      (''journald'', [LogsJournald], 10 * second, 5 * second),
      (''public_surface'', [PublicExposed], 5 * minute, 30 * second),
      (''shares'', [], 5 * minute, 10 * second),
      (''users'', [], 5 * minute, 10 * second),
      (''ups'', [PowerUPS], minute, 10 * second),
      (''hwidentity'', [], 5 * minute, 10 * second),
      (''diskarray'', [], 5 * minute, 10 * second),
      (''shareusage'', [], 24 * 60 * minute, minute),
      (''pkgupdates'', [], 6 * 60 * minute, 2 * minute)]"

definition buildRegistry :: "(string \<Rightarrow> string option) \<Rightarrow> registryItem list" where
  "buildRegistry init =
     fold (\<lambda>(name, caps, interval, timeout). Register \<lparr>co_name = name, co_requires = caps, co_init = init name\<rparr> interval timeout) registered []"

definition reportManifest ::
  "(manifest \<Rightarrow> string option) \<Rightarrow> (string \<Rightarrow> bool) \<Rightarrow> (manifest_request \<Rightarrow> nat option) \<Rightarrow> agent_config \<Rightarrow> manifest \<Rightarrow>
   Capabilities.send_error option" where
  "reportManifest encode valid_url exchange cfg m =
     (if ac_hubURL cfg = [] then None
      else cap_Send encode valid_url exchange \<lparr>cl_BaseURL = ac_hubURL cfg, cl_Token = ac_token cfg\<rparr> m)"

text \<open>What the agent finds when it starts: files, environment, flags, the host id file, clock, codecs, and the disk with the outbound buffer.\<close>

record agent_world =
  aw_read :: "string \<Rightarrow> string option"
  aw_flags :: "string \<Rightarrow> string option"
  aw_env :: "string \<Rightarrow> string"
  aw_hostID :: "(hostid_error + string) \<times> string option"
  aw_hostname :: "string option"
  aw_files :: host_files
  aw_os :: "string \<times> string"
  aw_order :: "(capability \<times> cap_status) list \<Rightarrow> (capability \<times> cap_status) list"
  aw_version :: string
  aw_now :: time
  aw_encode :: "manifest \<Rightarrow> string option"
  aw_validURL :: "string \<Rightarrow> bool"
  aw_exchange :: "manifest_request \<Rightarrow> nat option"
  aw_codec :: codec
  aw_disk :: disk
  aw_init :: "string \<Rightarrow> string option"
  aw_ulid :: "nat \<Rightarrow> string"

text \<open>A started agent: the manifest and what became of sending it, where batches go, the sink after the events of disabled collectors, and the collectors that run.\<close>

record agent_state =
  ag_manifest :: manifest
  ag_sent :: "Capabilities.send_error option"
  ag_sender :: "(string \<times> string) option"
  ag_sink :: sink
  ag_regs :: "registration list"
  ag_events :: "event list"

definition agent_detect :: "agent_world \<Rightarrow> string \<Rightarrow> manifest" where
  "agent_detect W hostID =
     Detect_host (aw_files W) (fst (aw_os W)) (snd (aw_os W)) (aw_order W)
       (DefaultDetectConfig\<lparr>dc_PubliclyExposed := (aw_env W ''BITACORA_PUBLIC_EXPOSED'' = ''1'')\<rparr>)
       hostID (case aw_hostname W of None \<Rightarrow> ''unknown'' | Some n \<Rightarrow> n) (aw_version W) (aw_now W)"

text \<open>The program up to the point where it waits for a signal, or its exit code.\<close>

definition agent_main :: "agent_world \<Rightarrow> nat + agent_state" where
  "agent_main W =
     (case parseConfig (aw_read W) (aw_flags W) (aw_env W) of
        Inl _ \<Rightarrow> Inl 2
      | Inr cfg \<Rightarrow>
          (case aw_hostID W of
             (Inl _, _) \<Rightarrow> Inl 1
           | (Inr hostID, _) \<Rightarrow>
               let m = agent_detect W hostID;
                   sent = reportManifest (aw_encode W) (aw_validURL W) (aw_exchange W) cfg m in
               (case Open (aw_codec W) DefaultSegmentBytes DefaultMaxAge DefaultMaxBytes (aw_disk W) of
                  (Inl _, _) \<Rightarrow> Inl 1
                | (Inr b, d) \<Rightarrow>
                    let s0 = \<lparr>sk_hostID = hostID, sk_buffer = Some b, sk_disk = d, sk_flush = False\<rparr> in
                    (case Resolve (\<lambda>c. map_of (Available m) c = Some True) (buildRegistry (aw_init W)) of
                       (regs, dis, _) \<Rightarrow>
                         let evs = EmitDisabledEvents hostID (map (map_prod (aw_ulid W) id) (enumerate 0 dis)) (aw_now W) in
                         Inr \<lparr>ag_manifest = m, ag_sent = sent,
                              ag_sender = (if ac_hubURL cfg \<noteq> [] then Some (ac_hubURL cfg, ac_token cfg) else None),
                              ag_sink = fold (\<lambda>(i, e). Event (aw_codec W) (aw_ulid W (length evs + i)) (aw_now W) e) (enumerate 0 evs) s0,
                              ag_regs = regs, ag_events = evs\<rparr>))))"

lemma ingestSrv_fields:
  "sv_decompress (ingestSrv D q rows) = hd_decompress D" "sv_unmarshal (ingestSrv D q rows) = hd_unmarshal D"
  "sv_maxBody (ingestSrv D q rows) = 0"
  by (simp_all add: ingestSrv_def)

section \<open>Enrolled hosts\<close>

lemma create_host_adds:
  assumes "handleCreateHost env r s = ((code, HostReply h t), s')"
  shows "\<exists>rows rows'. as_hosts s = Some rows \<and> as_hosts s' = Some rows' \<and>
    sql_AddToken (en_stored env) (en_idkey env) (en_salt env) h t rows = Some rows' \<and>
    (h = en_hostULID env \<or> h \<noteq> [] \<and> validateHostID h = None)"
  using assms
  by (auto simp: handleCreateHost_def Let_def split: if_splits option.splits sum.splits bool.splits decoded.splits)

lemma hub_enrol:
  assumes "hub_handle D webUI env q ctxErr r st = (ApiReply (code, HostReply h t), st')"
  shows "handleCreateHost env (snd r) (hs_api st) = ((code, HostReply h t), hs_api st') \<and> hs_ingest st' = hs_ingest st"
  using assms host_reply_path [of webUI env "snd r" "hs_api st" code h t "hs_api st'"]
  by (auto simp: hub_handle_def split: if_splits prod.splits)

text \<open>
  C13 Both ways to register a host do the same: when the hub answers an enrolment with a host id and a token, running it with \<open>-add-token\<close>
  and these two, with the same salt, on the table as it was makes exactly the same table.
\<close>

theorem enrolment_equals_cli:
  assumes "hub_handle D webUI env q ctxErr r st = (ApiReply (code, HostReply h t), st')"
    and "en_hostULID env \<noteq> []" "CHR '':'' \<notin> set (en_hostULID env)" "t \<noteq> []"
  shows "\<exists>rows rows'. as_hosts (hs_api st) = Some rows \<and> as_hosts (hs_api st') = Some rows' \<and>
    runAddToken (\<lambda>_. False) (en_stored env) (en_idkey env) (en_salt env) (h @ CHR '':'' # t) (Some rows) = (None, Some rows')"
proof -
  obtain rows rows' where r: "as_hosts (hs_api st) = Some rows" "as_hosts (hs_api st') = Some rows'"
      "sql_AddToken (en_stored env) (en_idkey env) (en_salt env) h t rows = Some rows'"
    and h: "h = en_hostULID env \<or> h \<noteq> [] \<and> validateHostID h = None"
    using create_host_adds hub_enrol [OF assms(1)] by blast
  have "\<not> host_char (CHR '':'')" by (simp add: host_char_def is_digit_def)
  then have "h \<noteq> []" "CHR '':'' \<notin> set h" using h assms(2,3) by (auto simp: validateHostID_None)
  then show ?thesis using r assms(4) by (auto simp: runAddToken_def token_New_def)
qed

text \<open>The table after a token was added resolves it to its host, unless an earlier row claims it.\<close>

lemma added_resolves:
  assumes "sql_AddToken stored K salt h t rows = Some rows'"
    and "\<And>pw sa. length (K pw sa argon2Time argon2Memory argon2Threads argon2KeyLen) = argon2KeyLen"
    and "sql_Lookup K True (\<lambda>_. False) (\<lambda>_. True) True t rows = Inr None"
  shows "sql_Lookup K True (\<lambda>_. False) (\<lambda>_. True) True t rows' = Inr (Some h)"
proof -
  obtain sa k where k: "salt = Some sa" "HashToken K (Some sa) t = Some k" "rows' = rows @ [\<lparr>tr_hostID = h, tr_hash = k\<rparr>]"
    using assms(1) by (cases salt) (auto simp: sql_AddToken_def HashToken_def split: option.splits if_splits)
  show ?thesis
    using assms(3)
    by (simp add: sql_Lookup_def sql_Lookup_rows_plain k(3) Lookup_from_append VerifyToken_HashToken [OF k(2) assms(2)])
qed

text \<open>
  A token added offline is good for the next start: when \<open>bitacora-hub -add-token\<close> ended with exit code zero, a hub that starts on the same
  file resolves the token to the host before the first colon, unless an earlier row claims it.
\<close>

lemma cli_token_resolves:
  assumes "CHR '':'' \<notin> set h" "hub_main (h @ CHR '':'' # t) stored K salt rel met fails store table = (Inl 0, table')"
    and "hub_main [] stored' K salt' rel' met' fails' store table' = (Inr st, table'')"
    and "\<And>pw sa. length (K pw sa argon2Time argon2Memory argon2Threads argon2KeyLen) = argon2KeyLen"
    and "\<And>rows. token_New fails table = (Inr rows, Some rows) \<Longrightarrow> sql_Lookup K True (\<lambda>_. False) (\<lambda>_. True) True t rows = Inr None"
  shows "\<exists>rows'. as_hosts (hs_api st) = Some rows' \<and> sql_Lookup K True (\<lambda>_. False) (\<lambda>_. True) True t rows' = Inr (Some h)"
proof -
  have n: "table1 = Some rows" if "token_New f tab = (Inr rows, table1)" for f tab rows table1
    using that by (auto simp: token_New_def Let_def split: if_splits option.splits)
  obtain rows rows' where r: "token_New fails table = (Inr rows, Some rows)" "sql_AddToken stored K salt h t rows = Some rows'" "table' = Some rows'"
    using assms(1,2) by (auto simp: hub_main_def runAddToken_def split: if_splits option.splits sum.splits prod.splits dest: n)
  have "as_hosts (hs_api st) = Some rows'"
    using assms(3) by (auto simp: hub_main_def newHub_def token_New_def r(3) Let_def split: if_splits option.splits sum.splits prod.splits)
  then show ?thesis using added_resolves [OF r(2) assms(4) assms(5) [OF r(1)]] by blast
qed

text \<open>
  C11 An enrolled host can write at once, as itself and as nobody else: after the hub answered an enrolment with a host id and a token that
  was not in use, a batch posted with this token is stored when it names that host and has an id not seen before, and
  refused, with nothing stored, when it names another.
\<close>

theorem enrolled_host_writes:
  fixes D :: "('e, 'st) hub_deps" and st :: "('st, 'l) hub_state"
  assumes "hub_handle D webUI env q ctxErr r st = (ApiReply (code, HostReply h t), st')" "en_idkey env = hd_idkey D"
    and "\<And>pw sa. length (hd_idkey D pw sa argon2Time argon2Memory argon2Threads argon2KeyLen) = argon2KeyLen"
    and "\<And>rows. as_hosts (hs_api st) = Some rows \<Longrightarrow> sql_Lookup (hd_idkey D) True (\<lambda>_. False) (\<lambda>_. True) True t rows = Inr None"
    and "good = \<lparr>tq_ok = True, tq_ctxDone = \<lambda>_. False, tq_readable = \<lambda>_. True, tq_end = True\<rparr>"
    and "aq_path (snd p) = ''/v1/ingest''" "rq_method (fst p) = ''POST''" "rq_auth (fst p) = ''Bearer '' @ t"
    and "read_body (ingestSrv D good []) (fst p) = Inr b" "ba_batchId b \<noteq> []"
    and "hub_handle D webUI env' good ctxErr' p st' = (rep, st'')"
  shows "(ba_hostId b \<noteq> h \<longrightarrow> rep = IngestReply (http_error 403 ''batch host_id does not match token'') \<and> st'' = st') \<and>
    (ba_hostId b = h \<and> seen_key h (ba_batchId b) \<notin> set (hb_seen (hs_ingest st')) \<longrightarrow>
       hb_store (hs_ingest st'') = snd (ReceiveBatch (hd_receiver D) ctxErr' b (hb_store (hs_ingest st'))))"
proof -
  obtain rows rows' where r: "as_hosts (hs_api st) = Some rows" "as_hosts (hs_api st') = Some rows'"
      "sql_AddToken (en_stored env) (hd_idkey D) (en_salt env) h t rows = Some rows'"
    using create_host_adds hub_enrol [OF assms(1)] assms(2) by fastforce
  let ?S = "ingestSrv D good rows' :: ('e, 'st, 'l) server"
  have l: "sv_lookup ?S t = Inr (Some h)"
    using added_resolves [OF r(3) assms(3) assms(4) [OF r(1)]] by (simp add: ingestSrv_def assms(5))
  have b: "read_body ?S (fst p) = Inr b" using assms(9) unfolding read_body_def ingestSrv_fields .
  have "bearerToken (fst p) = Some t" using assms(8) by (simp add: bearerToken_def has_prefix_def trim_prefix_def)
  then have "handleIngest ?S ctxErr' (fst p) (hs_ingest st') = ingest_batch ?S ctxErr' h b (hs_ingest st')"
    using assms(7) l b by (simp add: handleIngest_def rate_check_def ingestSrv_def)
  then show ?thesis
    using assms(6,10,11) r(2)
    by (auto simp: hub_handle_def ingest_batch_def MarkSeen_def Let_def ingestSrv_def split: prod.splits option.splits if_splits)
qed


section \<open>A started agent\<close>

text \<open>A collector can run: its \<open>Init\<close> succeeds and the probes found what it requires.\<close>

definition can_run :: "agent_world \<Rightarrow> string \<times> string list \<times> duration \<times> duration \<Rightarrow> bool" where
  "can_run W x =
     (case x of (name, caps, _) \<Rightarrow>
        aw_init W name = None \<and>
        list_all (\<lambda>cap. st_available (detectOne (aw_files W)
          (DefaultDetectConfig\<lparr>dc_PubliclyExposed := (aw_env W ''BITACORA_PUBLIC_EXPOSED'' = ''1'')\<rparr>) cap)) caps)"

definition as_item :: "(string \<Rightarrow> string option) \<Rightarrow> string \<times> string list \<times> duration \<times> duration \<Rightarrow> registryItem" where
  "as_item init x =
     (case x of (name, caps, interval, timeout) \<Rightarrow>
        \<lparr>ri_collector = \<lparr>co_name = name, co_requires = caps, co_init = init name\<rparr>, ri_interval = interval, ri_timeout = timeout\<rparr>)"

lemma buildRegistry_eq: "buildRegistry init = map (as_item init) registered"
proof -
  have "fold (\<lambda>(name, caps, interval, timeout). Register \<lparr>co_name = name, co_requires = caps, co_init = init name\<rparr> interval timeout) xs acc =
      acc @ map (as_item init) xs" for xs acc
    by (induction xs arbitrary: acc) (auto simp: Register_def as_item_def)
  from this [of registered "[]"] show ?thesis by (simp add: buildRegistry_def)
qed

lemma registered_caps: "list_all (\<lambda>(_, caps, interval, timeout). list_all (\<lambda>c. c \<in> set All_caps) caps \<and> 0 < timeout \<and> 2 * timeout \<le> interval) registered"
  by code_simp

lemma registered_runnable:
  assumes "x \<in> set registered"
  shows "runnable (\<lambda>c. map_of (Available (agent_detect W hostID)) c = Some True) (as_item (aw_init W) x) = can_run W x"
proof -
  let ?cfg = "DefaultDetectConfig\<lparr>dc_PubliclyExposed := (aw_env W ''BITACORA_PUBLIC_EXPOSED'' = ''1'')\<rparr>"
  have "Available (agent_detect W hostID) = map (\<lambda>c. (c, st_available (detectOne (aw_files W) ?cfg c))) All_caps"
    by (simp add: agent_detect_def Available_def Detect_host_def Let_def)
  then have "map_of (Available (agent_detect W hostID)) c = Some True \<longleftrightarrow> c \<in> set All_caps \<and> st_available (detectOne (aw_files W) ?cfg c)" for c
    by (simp add: map_of_map_restrict restrict_map_def)
  moreover have "case x of (_, caps, interval, timeout) \<Rightarrow> list_all (\<lambda>c. c \<in> set All_caps) caps"
    using registered_caps assms by (auto simp: list_all_iff)
  ultimately show ?thesis by (cases x) (auto simp: runnable_def as_item_def can_run_def list_all_iff)
qed

lemma emitted_names:
  "map (\<lambda>e. map_of (ev_attrs e) ''collector'') (EmitDisabledEvents h (map (map_prod u id) (enumerate i dis)) now) = map (Some \<circ> di_name) dis"
  by (induction dis arbitrary: i) (auto simp: EmitDisabledEvents_def)

lemma emitted_valid:
  assumes "h \<noteq> []" "\<not> is_zero_time now" "\<And>i. u i \<noteq> []"
  shows "list_all (\<lambda>e. Event_Validate e = None \<and> ev_hostID e = h) (EmitDisabledEvents h (map (map_prod u id) (enumerate i dis)) now)"
  by (induction dis arbitrary: i) (auto simp: EmitDisabledEvents_def Event_Validate_def Severity_valid_def CurrentSchemaVersion_def assms)

text \<open>
  C12 What an agent does once it has started: it runs exactly those of the thirteen collectors whose \<open>Init\<close> succeeded and whose capabilities
  the probes found, in the order of the registry, each with its interval and a time limit of at most half of it; for each of
  the others it emits one event, which the hub accepts and which names the collector; and it knows a hub only with a token.
\<close>

theorem agent_starts_collectors:
  assumes "agent_main W = Inr st"
    and "aw_hostID W = LoadOrCreateHostID readErr ulid saved hostfile" "ulid \<noteq> Some []" "\<not> is_zero_time (aw_now W)" "\<And>i. aw_ulid W i \<noteq> []"
  shows "map (\<lambda>r. (co_name (rg_collector r), co_requires (rg_collector r), rg_interval r, rg_timeout r)) (ag_regs st) = filter (can_run W) registered \<and>
    map (\<lambda>e. map_of (ev_attrs e) ''collector'') (ag_events st) = map (Some \<circ> fst) (filter (\<lambda>x. \<not> can_run W x) registered) \<and>
    list_all (\<lambda>e. Event_Validate e = None \<and> ev_hostID e = mf_hostID (ag_manifest st)) (ag_events st) \<and>
    list_all (\<lambda>r. 0 < rg_timeout r \<and> 2 * rg_timeout r \<le> rg_interval r) (ag_regs st) \<and>
    (\<forall>url token. ag_sender st = Some (url, token) \<longrightarrow> url \<noteq> [] \<and> token \<noteq> [])"
proof -
  obtain cfg hostID fl b d where c: "parseConfig (aw_read W) (aw_flags W) (aw_env W) = Inr cfg" "aw_hostID W = (Inr hostID, fl)"
    "Open (aw_codec W) DefaultSegmentBytes DefaultMaxAge DefaultMaxBytes (aw_disk W) = (Inr b, d)"
    using assms(1) by (auto simp: agent_main_def Let_def split: sum.splits prod.splits)
  let ?m = "agent_detect W hostID"
  obtain regs dis inits where r: "Resolve (\<lambda>c. map_of (Available ?m) c = Some True) (buildRegistry (aw_init W)) = (regs, dis, inits)"
    using prod_cases3 by blast
  have st: "ag_regs st = regs" "ag_events st = EmitDisabledEvents hostID (map (map_prod (aw_ulid W) id) (enumerate 0 dis)) (aw_now W)"
    "ag_manifest st = ?m" "ag_sender st = (if ac_hubURL cfg \<noteq> [] then Some (ac_hubURL cfg, ac_token cfg) else None)"
    using assms(1) by (auto simp: agent_main_def Let_def c r)
  note p = resolve_partition [OF r, unfolded buildRegistry_eq]
  have f: "filter (\<lambda>x. runnable (\<lambda>c. map_of (Available ?m) c = Some True) (as_item (aw_init W) x)) registered = filter (can_run W) registered"
      "filter (\<lambda>x. \<not> runnable (\<lambda>c. map_of (Available ?m) c = Some True) (as_item (aw_init W) x)) registered = filter (\<lambda>x. \<not> can_run W x) registered"
    by (rule filter_cong, simp_all add: registered_runnable)+
  have regs: "regs = map (\<lambda>(name, caps, i, t). \<lparr>rg_collector = \<lparr>co_name = name, co_requires = caps, co_init = aw_init W name\<rparr>, rg_interval = i, rg_timeout = t\<rparr>)
      (filter (can_run W) registered)"
    unfolding p [THEN conjunct1] filter_map comp_def f by (simp add: as_item_def case_prod_unfold)
  have dis: "map di_name dis = map fst (filter (\<lambda>x. \<not> can_run W x) registered)"
    unfolding p [THEN conjunct2, THEN conjunct1] filter_map comp_def f by (simp add: as_item_def case_prod_unfold)
  have h: "hostID \<noteq> []"
    using assms(2,3) c(2) by (auto simp: LoadOrCreateHostID_def Let_def persistHostID_def split: read_result.splits option.splits if_splits)
  have "map (\<lambda>r. (co_name (rg_collector r), co_requires (rg_collector r), rg_interval r, rg_timeout r)) regs = filter (can_run W) registered"
    by (simp add: regs comp_def case_prod_unfold)
  moreover have "map (\<lambda>e. map_of (ev_attrs e) ''collector'') (ag_events st) = map (Some \<circ> fst) (filter (\<lambda>x. \<not> can_run W x) registered)"
    unfolding st(2) emitted_names using arg_cong [OF dis, of "map Some"] by simp
  moreover have "list_all (\<lambda>e. Event_Validate e = None \<and> ev_hostID e = mf_hostID (ag_manifest st)) (ag_events st)"
    using emitted_valid [OF h assms(4,5)] by (simp add: st agent_detect_def Detect_host_def Let_def)
  moreover have "list_all (\<lambda>r. 0 < rg_timeout r \<and> 2 * rg_timeout r \<le> rg_interval r) regs"
    using registered_caps by (auto simp: regs list_all_iff)
  moreover have "ac_hubURL cfg \<noteq> [] \<Longrightarrow> ac_token cfg \<noteq> []"
    using c(1) by (auto simp: parseConfig_def Let_def split: sum.splits if_splits)
  ultimately show ?thesis by (simp add: st(1,4))
qed

section \<open>Witnesses\<close>

definition demo_deps :: "(nat, metric list \<times> event list \<times> logLine list) hub_deps" where
  "demo_deps =
     \<lparr>hd_idkey = demo_key, hd_decompress = Some, hd_unmarshal = (\<lambda>raw. Some (ItemsToBatch ''B'' raw [])), hd_marshalResp = (\<lambda>_. Some []),
      hd_receiver = recorder\<rparr>"

definition demo_hub_state :: "(metric list \<times> event list \<times> logLine list, nat) hub_state" where
  "demo_hub_state = \<lparr>hs_ingest = demo_hub, hs_api = demo_state\<rparr>"

abbreviation good_query :: token_query where
  "good_query \<equiv> \<lparr>tq_ok = True, tq_ctxDone = \<lambda>_. False, tq_readable = \<lambda>_. True, tq_end = True\<rparr>"

definition demo_post :: "string \<Rightarrow> request \<times> api_request" where
  "demo_post host =
     (\<lparr>rq_method = ''POST'', rq_auth = ''Bearer eHl6'', rq_body = host, rq_bodyErr = False\<rparr>,
      Hubapi.demo_request ''POST'' ''/v1/ingest'' ''Bearer eHl6'' host)"

lemma demo_hub_enrolled:
  "\<exists>st'. hub_handle demo_deps None (demo_env 1) good_query None (Transport.demo_request, demo_enrol) demo_hub_state =
     (ApiReply (201, HostReply ''nas'' ''eHl6''), st')"
  using demo_enrolled by (auto simp: hub_handle_def demo_hub_state_def Hubapi.demo_request_def)

theorem enrolment_equals_cli_witness:
  "\<exists>st' rows'. hub_handle demo_deps None (demo_env 1) good_query None (Transport.demo_request, demo_enrol) demo_hub_state =
     (ApiReply (201, HostReply ''nas'' ''eHl6''), st') \<and> as_hosts (hs_api st') = Some rows' \<and>
     runAddToken (\<lambda>_. False) True demo_key (Some ''salt'') ''nas:eHl6'' (Some []) = (None, Some rows')"
proof -
  obtain st' where e: "hub_handle demo_deps None (demo_env 1) good_query None (Transport.demo_request, demo_enrol) demo_hub_state =
     (ApiReply (201, HostReply ''nas'' ''eHl6''), st')" using demo_hub_enrolled by blast
  from enrolment_equals_cli [OF e] e show ?thesis by (auto simp: demo_env_def demo_hub_state_def demo_state_def)
qed

theorem enrolled_host_writes_witness:
  "\<exists>st' st''. hub_handle demo_deps None (demo_env 1) good_query None (Transport.demo_request, demo_enrol) demo_hub_state =
     (ApiReply (201, HostReply ''nas'' ''eHl6''), st') \<and>
     hub_handle demo_deps None (demo_env 2) good_query None (demo_post ''other'') st' =
       (IngestReply (http_error 403 ''batch host_id does not match token''), st'') \<and> st'' = st'"
proof -
  obtain st' where e: "hub_handle demo_deps None (demo_env 1) good_query None (Transport.demo_request, demo_enrol) demo_hub_state =
     (ApiReply (201, HostReply ''nas'' ''eHl6''), st')" using demo_hub_enrolled by blast
  have b: "read_body (ingestSrv demo_deps good_query [] :: (nat, metric list \<times> event list \<times> logLine list, nat) server) (fst (demo_post ''other'')) =
      Inr (ItemsToBatch ''B'' ''other'' [])"
    by (simp add: read_body_def ingestSrv_def demo_deps_def demo_post_def DefaultMaxBodyBytes_def)
  obtain rep st'' where h: "hub_handle demo_deps None (demo_env 2) good_query None (demo_post ''other'') st' = (rep, st'')" by fastforce
  have "sql_Lookup (hd_idkey demo_deps) True (\<lambda>_. False) (\<lambda>_. True) True ''eHl6'' rows = Inr None" if "as_hosts (hs_api demo_hub_state) = Some rows" for rows
    using that by (auto simp: demo_hub_state_def demo_state_def sql_Lookup_def)
  from enrolled_host_writes [OF e _ _ this refl _ _ _ b _ h] e h show ?thesis
    by (simp add: demo_deps_def demo_key_length demo_env_def demo_post_def Hubapi.demo_request_def ItemsToBatch_def)
qed


definition demo_world :: agent_world where
  "demo_world =
     \<lparr>aw_read = (\<lambda>_. None), aw_flags = (\<lambda>_. None), aw_env = (\<lambda>_. []), aw_hostID = LoadOrCreateHostID False (Some ''01H'') True None,
      aw_hostname = None, aw_files = demo_host, aw_os = (''linux'', ''amd64''), aw_order = id, aw_version = ''dev'', aw_now = 0,
      aw_encode = (\<lambda>_. None), aw_validURL = (\<lambda>_. True), aw_exchange = (\<lambda>_. None), aw_codec = unary_codec, aw_disk = empty_disk,
      aw_init = (\<lambda>n. if n = ''cpu'' then Some ''no procfs'' else None), aw_ulid = (\<lambda>i. ''U'' @ itoa i)\<rparr>"

theorem agent_starts_collectors_witness:
  "\<exists>st. agent_main demo_world = Inr st \<and>
     map (\<lambda>e. map_of (ev_attrs e) ''collector'') (ag_events st) = map Some [''cpu'', ''docker'', ''journald'', ''public_surface'', ''ups''] \<and>
     length (ag_regs st) = 8"
proof -
  have "dir_ok empty_disk" by (simp add: dir_ok_def empty_disk_def)
  moreover have "sealedPaths empty_disk = []" "activePaths empty_disk = []" by (simp_all add: sealedPaths_def activePaths_def empty_disk_def)
  ultimately obtain b d where o: "Open unary_codec DefaultSegmentBytes DefaultMaxAge DefaultMaxBytes empty_disk = (Inr b, d)"
    using Open_recovers [OF unary_codec_ok, of empty_disk DefaultSegmentBytes DefaultMaxAge DefaultMaxBytes]
    by (auto simp: disk_ok_def disk_items_def)
  have c: "parseConfig (\<lambda>_. None) (\<lambda>_. None) (\<lambda>_. []) = Inr \<lparr>ac_hubURL = [], ac_token = [], ac_tokenFile = [], ac_spoolDir = DefaultOutboundDir\<rparr>"
    by (simp add: parseConfig_def flag_or_def readToken_def trim_space_def)
  have i: "LoadOrCreateHostID False (Some ''01H'') True None = (Inr ''01H'', Some (''01H'' @ [nl]))"
    by (simp add: LoadOrCreateHostID_def read_hostid_def persistHostID_def)
  obtain st where st: "agent_main demo_world = Inr st"
    by (cases "Resolve (\<lambda>c. map_of (Available (agent_detect demo_world ''01H'')) c = Some True) (buildRegistry (aw_init demo_world))")
       (auto simp: agent_main_def demo_world_def c i o Let_def)
  have r: "map fst (filter (\<lambda>x. \<not> can_run demo_world x) registered) = [''cpu'', ''docker'', ''journald'', ''public_surface'', ''ups'']"
      "length (filter (can_run demo_world) registered) = 8"
    by code_simp+
  have w: "aw_hostID demo_world = LoadOrCreateHostID False (Some ''01H'') True None" "\<not> is_zero_time (aw_now demo_world)" "aw_ulid demo_world i \<noteq> []" for i
    by (simp_all add: demo_world_def is_zero_time_def time_zero_def)
  note p = agent_starts_collectors [OF st w(1) _ w(2,3)]
  have n: "Some ''01H'' \<noteq> Some []" by simp
  have "length (ag_regs st) = 8" using arg_cong [OF p [OF n, THEN conjunct1], of length] r(2) by simp
  moreover have "map (\<lambda>e. map_of (ev_attrs e) ''collector'') (ag_events st) = map Some [''cpu'', ''docker'', ''journald'', ''public_surface'', ''ups'']"
    unfolding p [OF n, THEN conjunct2, THEN conjunct1] by (simp only: r(1) map_map [symmetric])
  ultimately show ?thesis using st by blast
qed

end
