(* ===== verification/Spec2Isabelle.thy ===== *)
theory Spec2Isabelle
  imports Alerting Transport Debversion Faultcluster Logstore_Index Blackbox_Sampler Runtime Notify
    Log_Rules Metricstore Kernel_Msgs Jobrun Storage_Events Hubapi
    Capabilities Collect_Storage Collect_System Journald Pkgupdates Admin Programs
begin

text \<open>
  \<^bold>\<open>Bitacora\<close> is a monitoring system for small servers.  On every host an agent runs collectors, buffers
  what they produce in a write-ahead log and sends it in batches to a hub; the hub authenticates the host, drops
  duplicates and hands the items to its stores (metrics, logs, events); alerting and notification work on what is
  stored.  Around the agent are privileged helpers that leave their results in a spool directory, a flight recorder
  (the black box), readers of kernel messages and crash dumps, and \<open>bitacora-run\<close>, which wraps periodic commands.
  This development models these parts as functions on explicit states and proves what each of them promises.

  \<^bold>\<open>How code becomes definitions.\<close>  A struct is a record, an enumeration a datatype, a Go string a list of bytes,
  a map an association list (its order stands for the iteration order, so statements for all lists hold for all
  orders), a \<open>time.Time\<close> an integer of nanoseconds.  Machine integers wrap where the code can overflow (\<open>wrap64\<close>,
  words in \<open>Blackbox\<close>).  A fallible operation returns an option or a sum.  The file system is the record \<open>disk\<close> of
  \<open>Wal\<close>: named files and a script that says which of the next calls fail and how many bytes of a failing write get
  out; a statement for all disks is one for all failures and all crash points.  Code outside the repository (JSON,
  zstd, protobuf, argon2, sha256, regular expressions, YAML, templates, the time series database, HTTP and SMTP
  clients, ULIDs, clocks) is a parameter, and what is relied upon is a named hypothesis.

  \<^bold>\<open>Theories and sources.\<close>
  \<^item> \<open>Prelude\<close>, \<open>Gopath\<close>, \<open>Strconv\<close>, \<open>Gotime\<close>, \<open>Gotext\<close>, \<open>Dirlist\<close>: the parts of the Go library that the code uses
    (time, paths, numbers, text, directory listings).
  \<^item> \<open>Schema\<close> (\<open>internal/schema\<close>): items and their validation, the cardinality budget, the host identity.
  \<^item> \<open>Wal\<close>, \<open>Wal_Inv\<close>, \<open>Wal_Append\<close>, \<open>Wal_Durability\<close>, \<open>Wal_Remove\<close>, \<open>Wal_Ack\<close>, \<open>Wal_Drain\<close>, \<open>Wal_Discard\<close>
    (\<open>internal/agentbuffer\<close>: \<open>segment.go\<close>, \<open>buffer.go\<close>, \<open>backfill.go\<close>, \<open>capacity.go\<close>): the write-ahead log.  An abstract
    list of items is kept by every operation; a successful append is durable, a failed one leaves a log that
    reopens to the earlier items; acknowledging and discarding remove exactly what they should; backfill returns and
    delivers in order.
  \<^item> \<open>Sink\<close>, \<open>Wire\<close> (\<open>sink.go\<close>, \<open>transportsender.go\<close>, \<open>internal/ingestreceiver/convert.go\<close>, \<open>proto/ingest.proto\<close>):
    the flush loop and the conversion of items to the wire and back.
  \<^item> \<open>Netaddr\<close>, \<open>Token\<close>, \<open>Transport\<close> (\<open>internal/transport\<close>, \<open>receiver.go\<close>): network policy, tokens, the ingest
    handler, the client, and a batch end to end.
  \<^item> \<open>Alerting\<close> (\<open>internal/alerting\<close>), \<open>Notify\<close> (\<open>internal/notify\<close>): the alert state machine, silences, the manager; routing
    and channels.
  \<^item> \<open>Runtime\<close> (\<open>internal/collector\<close>): capability resolution and the supervision loop as a step relation.
  \<^item> \<open>Logstore\<close>, \<open>Logstore_Index\<close> (\<open>internal/logstore\<close>), \<open>Metricstore\<close> (\<open>internal/metricstore\<close>): blocks of log lines and
    the index rebuilt from them; downsampling.
  \<^item> \<open>Blackbox\<close>, \<open>Blackbox_Sampler\<close>, \<open>Blackbox_Run\<close> (\<open>internal/blackbox\<close>): the ring file, the sampler and the loop that joins them,
    with what the file holds after the process or the machine stopped.
  \<^item> \<open>Faultcluster\<close> (\<open>internal/faultcluster\<close>): the topology, the binomial test and the tracker.
  \<^item> \<open>Log_Rules\<close> (\<open>internal/extraction\<close>): rules that turn log lines into events.
  \<^item> \<open>Kernel_Msgs\<close> (\<open>internal/netconsole\<close>, \<open>internal/pstore\<close>): messages and dumps of a crashed kernel.
  \<^item> \<open>Spool\<close> (\<open>internal/spool\<close>, \<open>internal/jobwriter\<close>, \<open>internal/doctor\<close>), \<open>Runstats\<close> (\<open>internal/runstats\<close>), \<open>Jobrun\<close>
    (\<open>internal/execwrap\<close>, \<open>cmd/bitacora-run\<close>): the spool and the inventory tables of both databases as mailboxes, statistics of backup tools, and the wrapper.
  \<^item> \<open>Mailbox\<close>, \<open>Storage\<close>, \<open>Storage_Events\<close> (\<open>internal/storage\<close>): a store of latest values as an interface; events and
    inventories in SQLite and PostgreSQL, tables as lists of rows.
  \<^item> \<open>Hubapi\<close> (\<open>internal/hubapi\<close>, \<open>internal/transport/sqlitetokenstore\<close>): device tokens and their pairing, the guarded
    routes of the read side, the enrolment of hosts; what a run of requests can obtain is shown by an invariant that
    ties every stored hash and pairing to the exchange that minted it.
  \<^item> \<open>Debversion\<close> (\<open>internal/debversion\<close>): the order of Debian versions, also as an instance of the class of preorders.
  \<^item> \<open>Capabilities\<close> (\<open>internal/capabilities\<close>): the probes of the host, the manifest and its delivery.
  \<^item> \<open>Collect\<close>, \<open>Collect_Host\<close>, \<open>Collect_Storage\<close>, \<open>Collect_System\<close>, \<open>Journald\<close>, \<open>Pkgupdates\<close> (\<open>internal/collector/*\<close>,
    \<open>internal/vpnhelper\<close>): what a collector hands to its sink, then processor, memory, network and tunnels; shares, their sizes,
    users and disks; power supplies, hardware, public exposure and containers; the journal with its cursor; available
    updates.  Shown are what each reads back from the formats it parses, and whether the hub accepts what it emits.
  \<^item> \<open>Helpers\<close> (\<open>internal/dnfhelper\<close>, \<open>internal/smarthelper\<close>, \<open>cmd/bitacora-dnf\<close>, \<open>cmd/bitacora-smart\<close>,
    \<open>cmd/bitacora-vpn\<close>): the privileged helpers and their reports in the spool.
  \<^item> \<open>Admin\<close> (\<open>cmd/bita\<close>, \<open>internal/resourcebudget\<close>): the administration program and the budget of the agent.
  \<^item> \<open>Programs\<close> (\<open>cmd/bitacora-hub\<close>, \<open>cmd/bitacora-agent\<close>): the hub as one handler over one table of tokens, and the start of the
    agent from its configuration to the collectors that run.

  \<^bold>\<open>Interfaces.\<close>  Where one part relies on another the contract is a locale that is interpreted on the model: the
  write-ahead log as a queue that the backfill loop drains, the spool and the inventory tables of both databases as mailboxes, the comparison of version parts
  as a three-way order, and the others in their theories.

  \<^bold>\<open>Bounds and fuel.\<close>  Loops that walk a list are structural recursions.  The loops of \<open>Backfill\<close> and \<open>EnforceCapacity\<close>
  take fuel; their theorems show that one step per buffered item is enough.  Parsers recurse on the text that is left.

  \<^bold>\<open>Not modelled.\<close>  The generated protobuf code and the codecs (protobuf, zstd, JSON), the web user interface, the parsing that
  \<open>procfs\<close> does for the collectors, the binding to libsystemd (\<open>reader_linux.go\<close>), the collector in \<open>collector/example\<close>,
  which is a template, the pragmas of the relational databases, the command line parser, signals and listening sockets: they
  are libraries or produce nothing the other parts compute with.  The texts that programs write to the standard error are left out.
  White space and letter case are those of ASCII.  Concurrency is that of the locks in the code: an operation
  that holds its mutex is one step.
\<close>

end
